(* ===== verification/Prelude.thy ===== *)
theory Prelude
  imports Complex_Main
begin

section \<open>Prelude: exceptions, effectful programs and their logic, list helpers\<close>

text \<open>
  What every component of the development shares.
  \<^item> \<open>exn\<close>: the exceptions the Python code raises, a class and the text \<open>str(exc)\<close>.
  \<^item> \<open>res\<close> and \<open>prog\<close>: a statement block is a function of the mutable state that returns
    normally, raises, or does not return; \<open>bindM\<close> is sequencing, \<open>catchM\<close> is
    \<open>try/except Exception\<close>.
  \<^item> \<open>hoare\<close>: the small program logic the controller proofs use, with one rule per
    combinator collected in \<open>hoare_rules\<close>.
  \<^item> \<open>max_key\<close>: Python's \<open>max(xs, key=...)\<close>, which keeps the first maximal element.
\<close>

named_theorems hoare_rules "rules of the program logic, one per combinator"

subsection \<open>Exceptions\<close>

datatype exn_class =
    ValueError
  | KeyError
  | IndexError
  | TypeError
  | OverflowError
  | ZeroDivisionError
  | JSONDecodeError
  | RuntimeError
  | OSError
  | InvalidTransitionError
  | LlmError
  | SandboxError
  | DockerUnavailableError
  | ArchiveFormatError
  | OtherException string

datatype exn = Exn (exn_kind: exn_class) (exn_text: string)

text \<open>\<open>type(exc).__name__\<close>.\<close>

fun exn_name :: "exn_class \<Rightarrow> string" where
  "exn_name ValueError = ''ValueError''"
| "exn_name KeyError = ''KeyError''"
| "exn_name IndexError = ''IndexError''"
| "exn_name TypeError = ''TypeError''"
| "exn_name OverflowError = ''OverflowError''"
| "exn_name ZeroDivisionError = ''ZeroDivisionError''"
| "exn_name JSONDecodeError = ''JSONDecodeError''"
| "exn_name RuntimeError = ''RuntimeError''"
| "exn_name OSError = ''OSError''"
| "exn_name InvalidTransitionError = ''InvalidTransitionError''"
| "exn_name LlmError = ''LlmError''"
| "exn_name SandboxError = ''SandboxError''"
| "exn_name DockerUnavailableError = ''DockerUnavailableError''"
| "exn_name ArchiveFormatError = ''ArchiveFormatError''"
| "exn_name (OtherException s) = s"

subsection \<open>Effectful programs\<close>

text \<open>
  A block of statements maps the mutable state to a result and the state it leaves. A loop
  that never ends is the result \<open>Diverge\<close>; the theorems about the code prove that it does
  not occur.
\<close>

datatype 'a res = Ok 'a | Raise exn | Diverge

type_synonym ('s, 'a) prog = "'s \<Rightarrow> 'a res \<times> 's"

definition ret :: "'a \<Rightarrow> ('s, 'a) prog" where
  "ret x s = (Ok x, s)"

definition bindM :: "('s, 'a) prog \<Rightarrow> ('a \<Rightarrow> ('s, 'b) prog) \<Rightarrow> ('s, 'b) prog" where
  "bindM m k s = (case m s of
       (Ok x, s') \<Rightarrow> k x s'
     | (Raise e, s') \<Rightarrow> (Raise e, s')
     | (Diverge, s') \<Rightarrow> (Diverge, s'))"

definition catchM :: "('s, 'a) prog \<Rightarrow> (exn \<Rightarrow> ('s, 'a) prog) \<Rightarrow> ('s, 'a) prog" where
  "catchM m handle s = (case m s of
       (Ok x, s') \<Rightarrow> (Ok x, s')
     | (Raise e, s') \<Rightarrow> handle e s'
     | (Diverge, s') \<Rightarrow> (Diverge, s'))"

lemma bindM_ret [simp]: "bindM (ret x) k = k x"
  by (simp add: bindM_def ret_def fun_eq_iff)

lemma bindM_assoc: "bindM (bindM m k) l = bindM m (\<lambda>x. bindM (k x) l)"
  by (auto simp: bindM_def fun_eq_iff split: prod.splits res.splits)

text \<open>The result of a call that returns a value or raises.\<close>

fun lift_sum :: "exn + 'a \<Rightarrow> 'a res" where
  "lift_sum (Inl e) = Raise e"
| "lift_sum (Inr x) = Ok x"

lemma lift_sum_not_diverge [simp]: "lift_sum x \<noteq> Diverge"
  by (cases x) auto

subsection \<open>Program logic\<close>

text \<open>
  \<open>hoare P m Q\<close>: run from a state where \<open>P\<close> holds, \<open>m\<close> ends with a result and a state in
  \<open>Q\<close>. \<open>Q\<close> sees the kind of result, so one triple says what holds on return and on raise.
\<close>

definition hoare :: "('s \<Rightarrow> bool) \<Rightarrow> ('s, 'a) prog \<Rightarrow> ('a res \<Rightarrow> 's \<Rightarrow> bool) \<Rightarrow> bool" where
  "hoare P m Q \<longleftrightarrow> (\<forall>s. P s \<longrightarrow> Q (fst (m s)) (snd (m s)))"

lemma hoareI: "(\<And>s r s'. P s \<Longrightarrow> m s = (r, s') \<Longrightarrow> Q r s') \<Longrightarrow> hoare P m Q"
  by (auto simp: hoare_def)

lemma hoareD: "hoare P m Q \<Longrightarrow> P s \<Longrightarrow> m s = (r, s') \<Longrightarrow> Q r s'"
  by (force simp: hoare_def)

lemma hoare_conseq:
  assumes "hoare P m Q" "\<And>s. P' s \<Longrightarrow> P s" "\<And>r s. Q r s \<Longrightarrow> Q' r s"
  shows "hoare P' m Q'"
  using assms by (auto simp: hoare_def)

lemma hoare_ret [hoare_rules]: "(\<And>s. P s \<Longrightarrow> Q (Ok x) s) \<Longrightarrow> hoare P (ret x) Q"
  by (auto simp: hoare_def ret_def)

lemma hoare_bind:
  assumes m: "hoare P m R" and k: "\<And>x. hoare (R (Ok x)) (k x) Q"
    and raise: "\<And>e s. R (Raise e) s \<Longrightarrow> Q (Raise e) s"
    and div: "\<And>s. R Diverge s \<Longrightarrow> Q Diverge s"
  shows "hoare P (bindM m k) Q"
proof (rule hoareI)
  fix s r s' assume P: "P s" and run: "bindM m k s = (r, s')"
  obtain r1 s1 where m1: "m s = (r1, s1)" by fastforce
  have R: "R r1 s1" using hoareD [OF m P m1] .
  show "Q r s'"
  proof (cases r1)
    case (Ok x)
    with run m1 have "k x s1 = (r, s')" by (simp add: bindM_def)
    then show ?thesis using hoareD [OF k] R Ok by blast
  qed (use run m1 R raise div in \<open>auto simp: bindM_def\<close>)
qed

lemma hoare_catch:
  assumes m: "hoare P m R" and h: "\<And>e. hoare (R (Raise e)) (handle e) Q"
    and ok: "\<And>x s. R (Ok x) s \<Longrightarrow> Q (Ok x) s"
    and div: "\<And>s. R Diverge s \<Longrightarrow> Q Diverge s"
  shows "hoare P (catchM m handle) Q"
proof (rule hoareI)
  fix s r s' assume P: "P s" and run: "catchM m handle s = (r, s')"
  obtain r1 s1 where m1: "m s = (r1, s1)" by fastforce
  have R: "R r1 s1" using hoareD [OF m P m1] .
  show "Q r s'"
  proof (cases r1)
    case (Raise e)
    with run m1 have "handle e s1 = (r, s')" by (simp add: catchM_def)
    then show ?thesis using hoareD [OF h] R Raise by blast
  qed (use run m1 R ok div in \<open>auto simp: catchM_def\<close>)
qed

lemma hoare_if [hoare_rules]:
  "(b \<Longrightarrow> hoare P m Q) \<Longrightarrow> (\<not> b \<Longrightarrow> hoare P n Q) \<Longrightarrow> hoare P (if b then m else n) Q"
  by simp

lemma hoare_conj:
  "hoare P m Q \<Longrightarrow> hoare P' m Q' \<Longrightarrow> hoare (\<lambda>s. P s \<and> P' s) m (\<lambda>r s. Q r s \<and> Q' r s)"
  by (auto simp: hoare_def)

text \<open>An invariant that every outcome of a program keeps.\<close>

definition preserves :: "('s \<Rightarrow> bool) \<Rightarrow> ('s, 'a) prog \<Rightarrow> bool" where
  "preserves I m \<longleftrightarrow> hoare I m (\<lambda>_. I)"

lemma preservesI: "(\<And>s r s'. I s \<Longrightarrow> m s = (r, s') \<Longrightarrow> I s') \<Longrightarrow> preserves I m"
  by (auto simp: preserves_def intro: hoareI)

lemma preservesD: "preserves I m \<Longrightarrow> I s \<Longrightarrow> m s = (r, s') \<Longrightarrow> I s'"
  unfolding preserves_def by (drule hoareD) auto

lemma preserves_ret [hoare_rules]: "preserves I (ret x)"
  by (auto simp: preserves_def hoare_def ret_def)

lemma preserves_bind [hoare_rules]:
  "preserves I m \<Longrightarrow> (\<And>x. preserves I (k x)) \<Longrightarrow> preserves I (bindM m k)"
  unfolding preserves_def by (rule hoare_bind [where R = "\<lambda>_. I"]) auto

lemma preserves_catch [hoare_rules]:
  "preserves I m \<Longrightarrow> (\<And>e. preserves I (handle e)) \<Longrightarrow> preserves I (catchM m handle)"
  unfolding preserves_def by (rule hoare_catch [where R = "\<lambda>_. I"]) auto

lemma preserves_if [hoare_rules]:
  "(b \<Longrightarrow> preserves I m) \<Longrightarrow> (\<not> b \<Longrightarrow> preserves I n) \<Longrightarrow> preserves I (if b then m else n)"
  by simp

subsection \<open>Python's max with a key\<close>

text \<open>
  \<open>max(xs, key=f)\<close> keeps the first element and replaces it by a later one only when the
  later key compares greater; \<open>gt\<close> is the comparison of the keys. The caller passes a
  non-empty list as head and tail.
\<close>

fun max_key :: "('k \<Rightarrow> 'k \<Rightarrow> bool) \<Rightarrow> ('a \<Rightarrow> 'k) \<Rightarrow> 'a \<Rightarrow> 'a list \<Rightarrow> 'a" where
  "max_key gt f best [] = best"
| "max_key gt f best (x # xs) = max_key gt f (if gt (f x) (f best) then x else best) xs"

lemma max_key_in: "max_key gt f b xs \<in> insert b (set xs)"
  by (induction xs arbitrary: b) (auto split: if_splits)

lemma max_key_no_greater:
  assumes trans: "\<And>x y z. \<not> gt (f x) (f y) \<Longrightarrow> \<not> gt (f y) (f z) \<Longrightarrow> \<not> gt (f x) (f z)"
    and asym: "\<And>x y. gt (f x) (f y) \<Longrightarrow> \<not> gt (f y) (f x)"
  shows "y \<in> insert b (set xs) \<Longrightarrow> \<not> gt (f y) (f (max_key gt f b xs))"
proof (induction xs arbitrary: b y)
  case Nil
  then show ?case using asym by auto
next
  case (Cons x xs)
  let ?b = "if gt (f x) (f b) then x else b"
  have best: "\<not> gt (f ?b) (f (max_key gt f ?b xs))" by (rule Cons.IH) simp
  have irr: "\<not> gt (f z) (f z)" for z using asym by blast
  have b: "\<not> gt (f b) (f ?b)" and x: "\<not> gt (f x) (f ?b)" using asym irr by auto
  have "\<not> gt (f b) (f (max_key gt f ?b xs))" "\<not> gt (f x) (f (max_key gt f ?b xs))"
    by (rule trans [OF b best], rule trans [OF x best])
  moreover have "y = b \<or> y = x \<or> y \<in> insert ?b (set xs)" using Cons.prems by auto
  ultimately have "\<not> gt (f y) (f (max_key gt f ?b xs))" using Cons.IH [of y ?b] by blast
  then show ?case by simp
qed

subsection \<open>Lists\<close>

lemma sum_list_update_pred:
  assumes "i < length xs" "f y < f (xs ! i)"
  shows "sum_list (map f (xs[i := y])) < (sum_list (map f xs) :: nat)"
proof -
  have s: "sum_list (map f zs) = sum_list (map f (take i zs)) + f (zs ! i) + sum_list (map f (drop (Suc i) zs))"
    if "i < length zs" for zs
    using id_take_nth_drop [OF that] by (metis (no_types, lifting) add.assoc list.simps(9) map_append sum_list.Cons sum_list_append)
  show ?thesis using assms s [of xs] s [of "xs[i := y]"] by simp
qed

end
