(* ===== verification/Py_Float.thy ===== *)
theory Py_Float
  imports Prelude
begin

section \<open>Python floats\<close>

text \<open>
  A Python \<open>float\<close> is a real number, an infinity or NaN. The order is the IEEE one, so every
  comparison with NaN is false and a guard such as \<open>not 0.0 <= x <= 1.0\<close> behaves as in the
  code. Arithmetic on finite values is exact real arithmetic: rounding to 53 bits and overflow
  to an infinity are not modelled, and the two zeros are one.
\<close>

datatype pyfloat = Fin real | PInf | NInf | NaN

instantiation pyfloat :: ord begin

fun less_eq_pyfloat :: "pyfloat \<Rightarrow> pyfloat \<Rightarrow> bool" where
  "less_eq_pyfloat (Fin a) (Fin b) = (a \<le> b)"
| "less_eq_pyfloat NaN y = False"
| "less_eq_pyfloat x NaN = False"
| "less_eq_pyfloat NInf y = True"
| "less_eq_pyfloat x PInf = True"
| "less_eq_pyfloat x y = False"

fun less_pyfloat :: "pyfloat \<Rightarrow> pyfloat \<Rightarrow> bool" where
  "less_pyfloat (Fin a) (Fin b) = (a < b)"
| "less_pyfloat NaN y = False"
| "less_pyfloat x NaN = False"
| "less_pyfloat NInf NInf = False"
| "less_pyfloat NInf y = True"
| "less_pyfloat PInf PInf = False"
| "less_pyfloat x PInf = True"
| "less_pyfloat x y = False"

instance ..

end

text \<open>\<open>x == y\<close>: NaN is not equal to itself.\<close>

definition feq :: "pyfloat \<Rightarrow> pyfloat \<Rightarrow> bool" where
  "feq x y \<longleftrightarrow> x \<noteq> NaN \<and> x = y"

lemma feq_simps [simp]:
  "feq (Fin a) (Fin b) = (a = b)" "\<not> feq NaN y" "\<not> feq x NaN" "feq PInf PInf" "feq NInf NInf"
  "\<not> feq (Fin a) PInf" "\<not> feq PInf (Fin a)" "\<not> feq (Fin a) NInf" "\<not> feq NInf (Fin a)"
  by (auto simp: feq_def)

fun is_finite :: "pyfloat \<Rightarrow> bool" where
  "is_finite (Fin _) = True"
| "is_finite _ = False"

subsection \<open>Arithmetic\<close>

instantiation pyfloat :: "{zero, one, plus, uminus, minus, times}" begin

definition zero_pyfloat :: pyfloat where "zero_pyfloat = Fin 0"

definition one_pyfloat :: pyfloat where "one_pyfloat = Fin 1"

fun plus_pyfloat :: "pyfloat \<Rightarrow> pyfloat \<Rightarrow> pyfloat" where
  "plus_pyfloat (Fin a) (Fin b) = Fin (a + b)"
| "plus_pyfloat NaN y = NaN"
| "plus_pyfloat x NaN = NaN"
| "plus_pyfloat PInf NInf = NaN"
| "plus_pyfloat NInf PInf = NaN"
| "plus_pyfloat PInf y = PInf"
| "plus_pyfloat x PInf = PInf"
| "plus_pyfloat NInf y = NInf"
| "plus_pyfloat x NInf = NInf"

fun uminus_pyfloat :: "pyfloat \<Rightarrow> pyfloat" where
  "uminus_pyfloat (Fin a) = Fin (- a)"
| "uminus_pyfloat PInf = NInf"
| "uminus_pyfloat NInf = PInf"
| "uminus_pyfloat NaN = NaN"

definition minus_pyfloat :: "pyfloat \<Rightarrow> pyfloat \<Rightarrow> pyfloat" where
  "minus_pyfloat x y = x + - y"

fun times_pyfloat :: "pyfloat \<Rightarrow> pyfloat \<Rightarrow> pyfloat" where
  "times_pyfloat (Fin a) (Fin b) = Fin (a * b)"
| "times_pyfloat NaN y = NaN"
| "times_pyfloat x NaN = NaN"
| "times_pyfloat PInf PInf = PInf"
| "times_pyfloat PInf NInf = NInf"
| "times_pyfloat NInf PInf = NInf"
| "times_pyfloat NInf NInf = PInf"
| "times_pyfloat PInf (Fin b) = (if b = 0 then NaN else if 0 < b then PInf else NInf)"
| "times_pyfloat NInf (Fin b) = (if b = 0 then NaN else if 0 < b then NInf else PInf)"
| "times_pyfloat (Fin a) PInf = (if a = 0 then NaN else if 0 < a then PInf else NInf)"
| "times_pyfloat (Fin a) NInf = (if a = 0 then NaN else if 0 < a then NInf else PInf)"

instance ..

end

lemmas float_consts = zero_pyfloat_def one_pyfloat_def

lemma minus_Fin [simp]: "Fin a - Fin b = Fin (a - b)"
  by (simp add: minus_pyfloat_def)

lemma zero_le_Fin [simp]: "0 \<le> Fin a \<longleftrightarrow> 0 \<le> a"
  and zero_less_Fin [simp]: "0 < Fin a \<longleftrightarrow> 0 < a"
  and Fin_less_zero [simp]: "Fin a < 0 \<longleftrightarrow> a < 0"
  and Fin_le_zero [simp]: "Fin a \<le> 0 \<longleftrightarrow> a \<le> 0"
  and Fin_le_one [simp]: "Fin a \<le> 1 \<longleftrightarrow> a \<le> 1"
  by (simp_all add: float_consts)

text \<open>
  \<open>x / y\<close> for a divisor that is not zero, and the operator itself, which raises on zero.
\<close>

fun fdiv :: "pyfloat \<Rightarrow> pyfloat \<Rightarrow> pyfloat" where
  "fdiv (Fin a) (Fin b) = Fin (a / b)"
| "fdiv NaN y = NaN"
| "fdiv x NaN = NaN"
| "fdiv (Fin a) PInf = Fin 0"
| "fdiv (Fin a) NInf = Fin 0"
| "fdiv PInf (Fin b) = (if 0 \<le> b then PInf else NInf)"
| "fdiv NInf (Fin b) = (if 0 \<le> b then NInf else PInf)"
| "fdiv x y = NaN"

definition py_div :: "pyfloat \<Rightarrow> pyfloat \<Rightarrow> exn + pyfloat" where
  "py_div x y = (if feq y 0 then Inl (Exn ZeroDivisionError ''division by zero'') else Inr (fdiv x y))"

text \<open>The two-argument builtins keep the first argument unless the second one wins.\<close>

definition py_max2 :: "pyfloat \<Rightarrow> pyfloat \<Rightarrow> pyfloat" where
  "py_max2 x y = (if x < y then y else x)"

definition py_min2 :: "pyfloat \<Rightarrow> pyfloat \<Rightarrow> pyfloat" where
  "py_min2 x y = (if y < x then y else x)"

lemma clamp_unit:
  "\<exists>a. py_min2 1 (py_max2 0 x) = Fin a \<and> 0 \<le> a \<and> a \<le> 1"
  by (cases x) (auto simp: py_min2_def py_max2_def float_consts)

subsection \<open>The math module and round\<close>

definition py_float_of_int :: "int \<Rightarrow> pyfloat" where
  "py_float_of_int i = Fin (real_of_int i)"

fun py_sqrt :: "pyfloat \<Rightarrow> exn + pyfloat" where
  "py_sqrt (Fin a) = (if a < 0 then Inl (Exn ValueError ''math domain error'') else Inr (Fin (sqrt a)))"
| "py_sqrt NInf = Inl (Exn ValueError ''math domain error'')"
| "py_sqrt x = Inr x"

text \<open>\<open>round(x, n)\<close> rounds half to even.\<close>

definition round_half_even :: "real \<Rightarrow> int" where
  "round_half_even x = (let f = \<lfloor>x\<rfloor>; d = x - real_of_int f in
     if d < 1 / 2 then f else if 1 / 2 < d then f + 1 else if even f then f else f + 1)"

fun py_round :: "pyfloat \<Rightarrow> nat \<Rightarrow> pyfloat" where
  "py_round (Fin x) n = Fin (real_of_int (round_half_even (x * 10 ^ n)) / 10 ^ n)"
| "py_round x n = x"

lemma round_half_even_of_int [simp]: "round_half_even (real_of_int i) = i"
  by (simp add: round_half_even_def)

lemma round_half_even_error: "\<bar>real_of_int (round_half_even x) - x\<bar> \<le> 1 / 2"
  unfolding round_half_even_def Let_def by (simp split: if_splits)

lemma py_round_idem [simp]: "py_round (py_round x n) n = py_round x n"
  by (cases x) simp_all

lemma round_half_even_mono: "x \<le> y \<Longrightarrow> round_half_even x \<le> round_half_even y"
proof (cases "\<lfloor>x\<rfloor> = \<lfloor>y\<rfloor>")
  case True
  moreover assume "x \<le> y"
  ultimately show ?thesis by (simp add: round_half_even_def Let_def)
next
  case False
  moreover assume "x \<le> y"
  ultimately have "\<lfloor>x\<rfloor> + 1 \<le> \<lfloor>y\<rfloor>" using floor_mono [of x y] by linarith
  moreover have "round_half_even x \<le> \<lfloor>x\<rfloor> + 1" "\<lfloor>y\<rfloor> \<le> round_half_even y"
    by (simp_all add: round_half_even_def Let_def)
  ultimately show ?thesis by linarith
qed

lemma py_round_Fin: "\<exists>b. py_round (Fin a) n = Fin b"
  by simp

subsection \<open>Comparison facts\<close>

lemma unit_interval_Fin: "0 \<le> x \<Longrightarrow> x \<le> 1 \<Longrightarrow> \<exists>a. x = Fin a \<and> 0 \<le> a \<and> a \<le> 1"
  by (cases x) (auto simp: float_consts)

lemma pyfloat_not_less: "x \<noteq> NaN \<Longrightarrow> y \<noteq> NaN \<Longrightarrow> \<not> x < y \<longleftrightarrow> y \<le> (x :: pyfloat)"
  by (cases x; cases y) auto

lemma pyfloat_less_asym: "x < y \<Longrightarrow> \<not> y < (x :: pyfloat)"
  by (cases x; cases y) auto

end
