(* ===== verification/Py_String.thy ===== *)
theory Py_String
  imports Py_Float "HOL-Library.AList"
begin

section \<open>Python strings, formatting and dynamic values\<close>

text \<open>
  A \<open>str\<close> is a list of characters; the characters are the code points below 256, which is
  where every delimiter the code looks at lives. The methods the code calls are written out:
  \<open>strip\<close>, \<open>rstrip\<close>, \<open>split\<close>, \<open>splitlines\<close>, \<open>join\<close>, \<open>lower\<close>, \<open>in\<close>, slicing, and the
  format specifications \<open>:d\<close>, \<open>:.Nf\<close> and \<open>:g\<close>.
\<close>

definition py_ord :: "char \<Rightarrow> nat" where
  "py_ord c = of_char c"

text \<open>\<open>str.isspace\<close> for one character.\<close>

definition py_space :: "char \<Rightarrow> bool" where
  "py_space c \<longleftrightarrow> py_ord c \<in> {9, 10, 11, 12, 13, 28, 29, 30, 31, 32, 133, 160}"

definition py_lstrip :: "string \<Rightarrow> string" where
  "py_lstrip s = dropWhile py_space s"

definition py_rstrip :: "string \<Rightarrow> string" where
  "py_rstrip s = rev (dropWhile py_space (rev s))"

definition py_strip :: "string \<Rightarrow> string" where
  "py_strip s = py_rstrip (py_lstrip s)"

text \<open>\<open>s.split()\<close>: the maximal runs of non-space characters.\<close>

fun py_split_acc :: "string \<Rightarrow> string \<Rightarrow> string list" where
  "py_split_acc cur [] = (if cur = [] then [] else [rev cur])"
| "py_split_acc cur (c # cs) =
     (if py_space c then (if cur = [] then py_split_acc [] cs else rev cur # py_split_acc [] cs)
      else py_split_acc (c # cur) cs)"

definition py_split :: "string \<Rightarrow> string list" where
  "py_split s = py_split_acc [] s"

text \<open>\<open>s.splitlines()\<close>: a carriage return followed by a newline is one boundary.\<close>

definition line_break :: "char \<Rightarrow> bool" where
  "line_break c \<longleftrightarrow> py_ord c \<in> {10, 11, 12, 13, 28, 29, 30, 133}"

fun py_splitlines_acc :: "string \<Rightarrow> string \<Rightarrow> string list" where
  "py_splitlines_acc cur [] = (if cur = [] then [] else [rev cur])"
| "py_splitlines_acc cur [c] = (if line_break c then [rev cur] else [rev (c # cur)])"
| "py_splitlines_acc cur (c # d # cs) =
     (if py_ord c = 13 \<and> py_ord d = 10 then rev cur # py_splitlines_acc [] cs
      else if line_break c then rev cur # py_splitlines_acc [] (d # cs)
      else py_splitlines_acc (c # cur) (d # cs))"

definition py_splitlines :: "string \<Rightarrow> string list" where
  "py_splitlines s = py_splitlines_acc [] s"

fun py_join :: "string \<Rightarrow> string list \<Rightarrow> string" where
  "py_join sep [] = []"
| "py_join sep [x] = x"
| "py_join sep (x # y # ys) = x @ sep @ py_join sep (y # ys)"

definition py_lower_char :: "char \<Rightarrow> char" where
  "py_lower_char c = (let n = py_ord c in
     if 65 \<le> n \<and> n \<le> 90 \<or> 192 \<le> n \<and> n \<le> 222 \<and> n \<noteq> 215 then char_of (n + 32) else c)"

definition py_lower :: "string \<Rightarrow> string" where
  "py_lower s = map py_lower_char s"

text \<open>\<open>needle in s\<close>.\<close>

fun py_contains :: "string \<Rightarrow> string \<Rightarrow> bool" where
  "py_contains needle [] \<longleftrightarrow> needle = []"
| "py_contains needle (c # cs) \<longleftrightarrow> take (length needle) (c # cs) = needle \<or> py_contains needle cs"

text \<open>\<open>repr(s)\<close>: single quotes unless the text holds one and no double quote.\<close>

definition hex_digit :: "nat \<Rightarrow> char" where
  "hex_digit n = char_of (if n < 10 then 48 + n else 87 + n)"

definition repr_char :: "nat \<Rightarrow> char \<Rightarrow> string" where
  "repr_char q c = (let n = py_ord c; bs = CHR 0x5C in
     if n = q \<or> n = 92 then [bs, c]
     else if n = 9 then bs # ''t'' else if n = 10 then bs # ''n'' else if n = 13 then bs # ''r''
     else if n < 32 \<or> 127 \<le> n \<and> n \<le> 160 \<or> n = 173
       then bs # CHR ''x'' # [hex_digit (n div 16), hex_digit (n mod 16)]
     else [c])"

definition py_repr :: "string \<Rightarrow> string" where
  "py_repr s = (let q = (if (\<exists>c\<in>set s. py_ord c = 39) \<and> (\<forall>c\<in>set s. py_ord c \<noteq> 34) then 34 else 39)
     in char_of q # concat (map (repr_char q) s) @ [char_of q])"

abbreviation newline :: string where
  "newline \<equiv> [CHR 0x0A]"

subsection \<open>Formatting numbers\<close>

fun nat_digits :: "nat \<Rightarrow> string" where
  "nat_digits n = (if n < 10 then [char_of (48 + n)] else nat_digits (n div 10) @ [char_of (48 + n mod 10)])"

declare nat_digits.simps [simp del]

definition str_int :: "int \<Rightarrow> string" where
  "str_int i = (if i < 0 then CHR ''-'' # nat_digits (nat (- i)) else nat_digits (nat i))"

definition zero_pad :: "nat \<Rightarrow> string \<Rightarrow> string" where
  "zero_pad n s = replicate (n - length s) (CHR ''0'') @ s"

text \<open>\<open>format(x, '.Nf')\<close> for \<open>0 < N\<close>.\<close>

fun format_fixed :: "nat \<Rightarrow> pyfloat \<Rightarrow> string" where
  "format_fixed n (Fin x) =
     (let m = nat (round_half_even (\<bar>x\<bar> * 10 ^ n)); ds = zero_pad (Suc n) (nat_digits m);
          k = length ds - n
      in (if x < 0 then ''-'' else []) @ take k ds @ ''.'' @ drop k ds)"
| "format_fixed n PInf = ''inf''"
| "format_fixed n NInf = ''-inf''"
| "format_fixed n NaN = ''nan''"

text \<open>\<open>format(x, 'g')\<close>: six significant digits, trailing zeros dropped.\<close>

definition strip_zeros :: "string \<Rightarrow> string" where
  "strip_zeros s = rev (dropWhile (\<lambda>c. c = CHR ''0'') (rev s))"

definition with_point :: "string \<Rightarrow> string \<Rightarrow> string" where
  "with_point whole fraction = (if strip_zeros fraction = [] then whole else whole @ ''.'' @ strip_zeros fraction)"

definition format_g_pos :: "real \<Rightarrow> string" where
  "format_g_pos x =
     (let e0 = \<lfloor>log 10 x\<rfloor>; m0 = round_half_even (x / 10 powr (real_of_int e0 - 5));
          e = (if m0 = 1000000 then e0 + 1 else e0);
          ds = nat_digits (nat (if m0 = 1000000 then 100000 else m0))
      in if 0 \<le> e \<and> e < 6 then with_point (take (nat e + 1) ds) (drop (nat e + 1) ds)
         else if -4 \<le> e \<and> e < 0 then with_point ''0'' (replicate (nat (- e - 1)) (CHR ''0'') @ ds)
         else with_point (take 1 ds) (drop 1 ds) @ ''e'' @ (if e < 0 then ''-'' else ''+'')
                @ zero_pad 2 (nat_digits (nat \<bar>e\<bar>)))"

fun format_g :: "pyfloat \<Rightarrow> string" where
  "format_g (Fin x) = (if x = 0 then ''0'' else if x < 0 then CHR ''-'' # format_g_pos (- x) else format_g_pos x)"
| "format_g PInf = ''inf''"
| "format_g NInf = ''-inf''"
| "format_g NaN = ''nan''"

subsection \<open>Dynamic values\<close>

text \<open>
  What node metadata, archives and envelopes hold: the values JSON can carry. A dictionary
  keeps insertion order; \<open>AList.update\<close> overwrites in place or appends, as \<open>d[k] = v\<close> does.
\<close>

datatype pyval =
    VNone
  | VBool bool
  | VInt int
  | VFloat pyfloat
  | VStr string
  | VList "pyval list"
  | VDict "(string \<times> pyval) list"

type_synonym dict = "(string \<times> pyval) list"

definition dict_get :: "dict \<Rightarrow> string \<Rightarrow> pyval option" where
  "dict_get d k = map_of d k"

definition dict_set :: "string \<Rightarrow> pyval \<Rightarrow> dict \<Rightarrow> dict" where
  "dict_set k v d = AList.update k v d"

lemma dict_get_set [simp]: "dict_get (dict_set k v d) k' = (if k' = k then Some v else dict_get d k')"
  by (simp add: dict_get_def dict_set_def update_conv)

lemma dict_get_Nil [simp]: "dict_get [] k = None"
  by (simp add: dict_get_def)

lemma dict_get_Cons [simp]: "dict_get ((k', v) # d) k = (if k = k' then Some v else dict_get d k)"
  by (simp add: dict_get_def)

subsection \<open>Facts about strip\<close>

lemma dropWhile_idem: "dropWhile P (dropWhile P xs) = dropWhile P xs"
  by (induction xs) auto

lemma hd_dropWhile_not: "dropWhile P xs \<noteq> [] \<Longrightarrow> \<not> P (hd (dropWhile P xs))"
  by (induction xs) auto

lemma dropWhile_rev_prefix:
  "rev (dropWhile P (rev (x # xs))) = [] \<or> (\<not> P x \<longrightarrow> (\<exists>ys. rev (dropWhile P (rev (x # xs))) = x # ys))"
proof (cases "\<forall>y\<in>set xs. P y")
  case True
  then have "dropWhile P (rev xs @ [x]) = dropWhile P [x]"
    by (intro dropWhile_append2) auto
  then show ?thesis by auto
next
  case False
  then have "\<exists>y\<in>set (rev xs). \<not> P y" by auto
  then have "dropWhile P (rev xs @ [x]) = dropWhile P (rev xs) @ [x]" using dropWhile_append1 by metis
  then show ?thesis by auto
qed

lemma py_rstrip_idem [simp]: "py_rstrip (py_rstrip s) = py_rstrip s"
  by (simp add: py_rstrip_def dropWhile_idem)

lemma py_lstrip_rstrip: "py_lstrip s = s \<Longrightarrow> py_lstrip (py_rstrip s) = py_rstrip s"
proof (cases s)
  case (Cons c cs)
  assume "py_lstrip s = s"
  then have "\<not> py_space c"
    using Cons hd_dropWhile_not [of py_space s] by (auto simp: py_lstrip_def)
  then show ?thesis
    using dropWhile_rev_prefix [of py_space c cs] Cons
    by (auto simp: py_lstrip_def py_rstrip_def)
qed (simp add: py_lstrip_def py_rstrip_def)

lemma py_lstrip_idem [simp]: "py_lstrip (py_lstrip s) = py_lstrip s"
  by (simp add: py_lstrip_def dropWhile_idem)

lemma py_strip_idem [simp]: "py_strip (py_strip s) = py_strip s"
  by (simp add: py_strip_def py_lstrip_rstrip)

lemma py_strip_Nil [simp]: "py_strip [] = []"
  by (simp add: py_strip_def py_lstrip_def py_rstrip_def)

lemma py_strip_eq_Nil: "py_strip s = [] \<longleftrightarrow> (\<forall>c\<in>set s. py_space c)"
proof -
  have "py_strip s = [] \<longleftrightarrow> (\<forall>c\<in>set (py_lstrip s). py_space c)"
    by (simp add: py_strip_def py_rstrip_def dropWhile_eq_Nil_conv)
  also have "\<dots> \<longleftrightarrow> (\<forall>c\<in>set s. py_space c)"
    unfolding py_lstrip_def by (metis dropWhile_eq_Nil_conv hd_dropWhile_not hd_in_set set_dropWhileD)
  finally show ?thesis .
qed

lemma nat_digits_not_Nil [simp]: "nat_digits n \<noteq> []"
  by (subst nat_digits.simps) simp

end
