(* ===== verification/Py_Values.thy ===== *)
theory Py_Values
  imports Py_String
begin

section \<open>Dynamic values: truth, conversion, formatting\<close>

text \<open>
  The operations the code applies to values whose type is only known at run time, because they
  come out of node metadata, a decoded JSON document or an archive: \<open>bool(v)\<close>, \<open>int(v)\<close>,
  \<open>float(v)\<close>, \<open>v.get(key, default)\<close>, \<open>v[key]\<close>, and the text of a value in an f-string. The text of
  a float or of a container is Python's \<open>repr\<close>, which is not modelled: it is an argument \<open>fr\<close>.
\<close>

text \<open>Calls that may raise, in sequence.\<close>

fun sum_bind :: "exn + 'a \<Rightarrow> ('a \<Rightarrow> exn + 'b) \<Rightarrow> exn + 'b" where
  "sum_bind (Inl e) k = Inl e"
| "sum_bind (Inr x) k = k x"

lemma sum_bind_Inr: "sum_bind m k = Inr y \<longleftrightarrow> (\<exists>x. m = Inr x \<and> k x = Inr y)"
  by (cases m) auto

lemma sum_bind_Inl: "sum_bind m k = Inl e \<longleftrightarrow> m = Inl e \<or> (\<exists>x. m = Inr x \<and> k x = Inl e)"
  by (cases m) auto

fun py_truthy :: "pyval \<Rightarrow> bool" where
  "py_truthy VNone = False"
| "py_truthy (VBool b) = b"
| "py_truthy (VInt i) = (i \<noteq> 0)"
| "py_truthy (VFloat x) = (x \<noteq> 0)"
| "py_truthy (VStr s) = (s \<noteq> [])"
| "py_truthy (VList xs) = (xs \<noteq> [])"
| "py_truthy (VDict d) = (d \<noteq> [])"

fun type_name :: "pyval \<Rightarrow> string" where
  "type_name VNone = ''NoneType''"
| "type_name (VBool _) = ''bool''"
| "type_name (VInt _) = ''int''"
| "type_name (VFloat _) = ''float''"
| "type_name (VStr _) = ''str''"
| "type_name (VList _) = ''list''"
| "type_name (VDict _) = ''dict''"

definition attribute_error :: "pyval \<Rightarrow> string \<Rightarrow> exn" where
  "attribute_error v name = Exn (OtherException ''AttributeError'')
     (py_repr (type_name v) @ '' object has no attribute '' @ py_repr name)"

text \<open>\<open>v.get(key, default)\<close>; only a dictionary has the method.\<close>

fun py_get :: "pyval \<Rightarrow> string \<Rightarrow> pyval \<Rightarrow> exn + pyval" where
  "py_get (VDict d) k dflt = Inr (case dict_get d k of Some v \<Rightarrow> v | None \<Rightarrow> dflt)"
| "py_get v k dflt = Inl (attribute_error v ''get'')"

text \<open>\<open>v.strip()\<close>; only a string has it.\<close>

fun py_strip_val :: "pyval \<Rightarrow> exn + string" where
  "py_strip_val (VStr s) = Inr (py_strip s)"
| "py_strip_val v = Inl (attribute_error v ''strip'')"

text \<open>The text of a value in an f-string or under \<open>str\<close>.\<close>

fun py_text :: "(pyval \<Rightarrow> string) \<Rightarrow> pyval \<Rightarrow> string" where
  "py_text fr VNone = ''None''"
| "py_text fr (VBool b) = (if b then ''True'' else ''False'')"
| "py_text fr (VInt i) = str_int i"
| "py_text fr (VStr s) = s"
| "py_text fr v = fr v"

text \<open>Equality with an integer constant: booleans and floats compare by value.\<close>

fun py_eq_int :: "pyval \<Rightarrow> int \<Rightarrow> bool" where
  "py_eq_int (VInt i) n \<longleftrightarrow> i = n"
| "py_eq_int (VBool b) n \<longleftrightarrow> (if b then n = 1 else n = 0)"
| "py_eq_int (VFloat (Fin x)) n \<longleftrightarrow> x = real_of_int n"
| "py_eq_int v n \<longleftrightarrow> False"

subsection \<open>Reading numbers from text\<close>

definition is_digit :: "char \<Rightarrow> bool" where
  "is_digit c \<longleftrightarrow> 48 \<le> py_ord c \<and> py_ord c \<le> 57"

fun digits_value :: "int \<Rightarrow> string \<Rightarrow> int" where
  "digits_value acc [] = acc"
| "digits_value acc (c # cs) = digits_value (10 * acc + (int (py_ord c) - 48)) cs"

text \<open>A group of digits; a single underscore may separate two of them.\<close>

fun digit_group :: "string \<Rightarrow> string option" where
  "digit_group [] = None"
| "digit_group [c] = (if is_digit c then Some [c] else None)"
| "digit_group (c # d # cs) =
     (if \<not> is_digit c then None
      else if d = CHR ''_'' then map_option (\<lambda>s. c # s) (digit_group cs)
      else map_option (\<lambda>s. c # s) (digit_group (d # cs)))"

fun take_sign :: "string \<Rightarrow> int \<times> string" where
  "take_sign (c # cs) = (if c = CHR ''-'' then (-1, cs) else if c = CHR ''+'' then (1, cs) else (1, c # cs))"
| "take_sign [] = (1, [])"

definition parse_int :: "string \<Rightarrow> int option" where
  "parse_int s = (let (sg, ds) = take_sign (py_strip s) in
     map_option (\<lambda>g. sg * digits_value 0 g) (digit_group ds))"

text \<open>\<open>int(v)\<close>: a float is truncated, a string is read in base ten.\<close>

fun py_int :: "pyval \<Rightarrow> exn + int" where
  "py_int (VInt i) = Inr i"
| "py_int (VBool b) = Inr (if b then 1 else 0)"
| "py_int (VFloat (Fin x)) = Inr (if 0 \<le> x then \<lfloor>x\<rfloor> else \<lceil>x\<rceil>)"
| "py_int (VFloat NaN) = Inl (Exn ValueError ''cannot convert float NaN to integer'')"
| "py_int (VFloat x) = Inl (Exn OverflowError ''cannot convert float infinity to integer'')"
| "py_int (VStr s) = (case parse_int s of Some i \<Rightarrow> Inr i
     | None \<Rightarrow> Inl (Exn ValueError (''invalid literal for int() with base 10: '' @ py_repr s)))"
| "py_int v = Inl (Exn TypeError (''int() argument must be a string, a bytes-like object or a real number, not ''
     @ py_repr (type_name v)))"

text \<open>\<open>float(s)\<close>: an optional sign, then \<open>inf\<close>, \<open>nan\<close> or a decimal literal with an optional exponent.\<close>

definition optional_group :: "string \<Rightarrow> string option" where
  "optional_group s = (if s = [] then Some [] else digit_group s)"

definition parse_mantissa :: "string \<Rightarrow> real option" where
  "parse_mantissa s =
     (let whole = takeWhile (\<lambda>c. c \<noteq> CHR ''.'') s; rest = dropWhile (\<lambda>c. c \<noteq> CHR ''.'') s in
      if rest = [] then map_option (\<lambda>g. real_of_int (digits_value 0 g)) (digit_group whole)
      else if whole = [] \<and> tl rest = [] then None
      else (case (optional_group whole, optional_group (tl rest)) of
          (Some g, Some f) \<Rightarrow> Some (real_of_int (digits_value 0 g) + real_of_int (digits_value 0 f) / 10 ^ length f)
        | _ \<Rightarrow> None))"

definition parse_decimal :: "string \<Rightarrow> real option" where
  "parse_decimal s =
     (let m = takeWhile (\<lambda>c. c \<noteq> CHR ''e'') s; rest = dropWhile (\<lambda>c. c \<noteq> CHR ''e'') s in
      if rest = [] then parse_mantissa m
      else (let (sg, ds) = take_sign (tl rest) in
        (case (parse_mantissa m, digit_group ds) of
            (Some x, Some g) \<Rightarrow> Some (x * 10 powr real_of_int (sg * digits_value 0 g))
          | _ \<Rightarrow> None)))"

definition parse_float :: "string \<Rightarrow> pyfloat option" where
  "parse_float s = (let (sg, t) = take_sign (py_lower (py_strip s)) in
     if t = ''inf'' \<or> t = ''infinity'' then Some (if sg < 0 then NInf else PInf)
     else if t = ''nan'' then Some NaN
     else map_option (\<lambda>x. Fin (real_of_int sg * x)) (parse_decimal t))"

text \<open>
  \<open>float(v)\<close>. An integer above the range of a double raises; \<open>float_limit\<close> is the first integer
  that does not round to a finite double.
\<close>

definition float_limit :: int where
  "float_limit = 2 ^ 1024 - 2 ^ 970"

fun py_float :: "pyval \<Rightarrow> exn + pyfloat" where
  "py_float (VFloat x) = Inr x"
| "py_float (VInt i) = (if float_limit \<le> \<bar>i\<bar> then Inl (Exn OverflowError ''int too large to convert to float'')
     else Inr (py_float_of_int i))"
| "py_float (VBool b) = Inr (if b then 1 else 0)"
| "py_float (VStr s) = (case parse_float s of Some x \<Rightarrow> Inr x
     | None \<Rightarrow> Inl (Exn ValueError (''could not convert string to float: '' @ py_repr s)))"
| "py_float v = Inl (Exn TypeError (''float() argument must be a string or a real number, not '' @ py_repr (type_name v)))"

subsection \<open>Round trip of integers\<close>

lemma digits_value_append: "digits_value acc (xs @ ys) = digits_value (digits_value acc xs) ys"
  by (induction xs arbitrary: acc) auto

lemma py_ord_char_of [simp]: "n < 256 \<Longrightarrow> py_ord (char_of n) = n"
  by (simp add: py_ord_def)

lemma nat_digits_digits: "\<forall>c\<in>set (nat_digits n). is_digit c"
  by (induction n rule: nat_digits.induct) (subst nat_digits.simps, auto simp: is_digit_def)

lemma nat_digits_value: "digits_value 0 (nat_digits n) = int n"
proof (induction n rule: nat_digits.induct)
  case (1 n)
  show ?case
  proof (cases "n < 10")
    case True
    then show ?thesis by (subst nat_digits.simps) simp
  next
    case False
    then have "nat_digits n = nat_digits (n div 10) @ [char_of (48 + n mod 10)]" by (subst nat_digits.simps) simp
    then have "digits_value 0 (nat_digits n) = 10 * int (n div 10) + int (n mod 10)"
      using 1 False by (simp add: digits_value_append)
    then show ?thesis by (simp add: zdiv_int zmod_int)
  qed
qed

lemma digit_group_digits: "s \<noteq> [] \<Longrightarrow> \<forall>c\<in>set s. is_digit c \<Longrightarrow> digit_group s = Some s"
proof (induction s rule: digit_group.induct)
  case (3 c d cs)
  have "d \<noteq> CHR ''_''" using 3 by (auto simp: is_digit_def py_ord_def)
  then show ?case using 3 by simp
qed auto

end
