(* ===== verification/Sandbox_Spec.thy ===== *)
theory Sandbox_Spec
  imports Py_Values
begin

section \<open>Execution contracts and output capture (cognitivetree/sandbox/spec.py, process.py)\<close>

text \<open>
  Resource limits, requests and results with their constructor checks, and the path a payload's
  output takes: the reader that drains a pipe into a bounded buffer, the decoding of UTF-8 with
  replacement, and the clip to a number of characters. Bytes and code points are natural numbers
  here, so that decoding is the real one; the locale \<open>stream_decoding\<close> is what the clip relies
  on, and it is interpreted on the UTF-8 decoder.
\<close>

datatype execution_status = COMPLETED | TIMEOUT_STATUS | SANDBOX_ERROR

fun execution_value :: "execution_status \<Rightarrow> string" where
  "execution_value COMPLETED = ''completed''"
| "execution_value TIMEOUT_STATUS = ''timeout''"
| "execution_value SANDBOX_ERROR = ''sandbox_error''"

record resource_limits =
  memory_mb :: int
  cpus :: pyfloat
  pids :: int
  timeout_seconds :: pyfloat
  output_limit_chars :: int

definition default_limits :: resource_limits where
  "default_limits = \<lparr>memory_mb = 256, cpus = 1, pids = 64, timeout_seconds = Fin 10, output_limit_chars = 64000\<rparr>"

definition check_limits :: "resource_limits \<Rightarrow> exn + resource_limits" where
  "check_limits l =
     (if memory_mb l < 4 then Inl (Exn ValueError ''memory_mb must be at least 4'')
      else if cpus l \<le> 0 then Inl (Exn ValueError ''cpus must be positive'')
      else if pids l < 1 then Inl (Exn ValueError ''pids must be a positive integer'')
      else if timeout_seconds l \<le> 0 then Inl (Exn ValueError ''timeout_seconds must be positive'')
      else if output_limit_chars l < 1 then Inl (Exn ValueError ''output_limit_chars must be a positive integer'')
      else Inr l)"

record execution_request =
  req_code :: string
  req_stdin :: string
  req_timeout :: "pyfloat option"

definition make_request :: "string \<Rightarrow> string \<Rightarrow> pyfloat option \<Rightarrow> exn + execution_request" where
  "make_request code stdin deadline =
     (if py_strip code = [] then Inl (Exn ValueError ''code must be a non-empty payload'')
      else if (case deadline of None \<Rightarrow> False | Some t \<Rightarrow> t \<le> 0)
        then Inl (Exn ValueError ''timeout_seconds override must be positive'')
      else Inr \<lparr>req_code = code, req_stdin = stdin, req_timeout = deadline\<rparr>)"

record execution_result =
  res_status :: execution_status
  exit_code :: "int option"
  stdout :: string
  stderr :: string
  duration_seconds :: pyfloat
  truncated :: bool
  res_detail :: string

definition result_ok :: "execution_result \<Rightarrow> bool" where
  "result_ok r \<longleftrightarrow> res_status r = COMPLETED \<and> exit_code r = Some 0"

definition result_to_dict :: "execution_result \<Rightarrow> dict" where
  "result_to_dict r =
     [(''status'', VStr (execution_value (res_status r))),
      (''exit_code'', case exit_code r of None \<Rightarrow> VNone | Some c \<Rightarrow> VInt c),
      (''stdout'', VStr (stdout r)),
      (''stderr'', VStr (stderr r)),
      (''duration_seconds'', VFloat (py_round (duration_seconds r) 4)),
      (''truncated'', VBool (truncated r)),
      (''detail'', VStr (res_detail r))]"

subsection \<open>Bounded capture\<close>

definition clip_output :: "'a list \<Rightarrow> nat \<Rightarrow> 'a list \<times> bool" where
  "clip_output text limit = (if length text \<le> limit then (text, False) else (take limit text, True))"

definition capture_bytes_for :: "nat \<Rightarrow> nat" where
  "capture_bytes_for limit_chars = limit_chars * 4"

definition decode_captured :: "('b list \<Rightarrow> 'c list) \<Rightarrow> 'b list \<Rightarrow> bool \<Rightarrow> nat \<Rightarrow> 'c list \<times> bool" where
  "decode_captured decode data trunc limit_chars =
     (let (text, clipped) = clip_output (decode data) limit_chars in (text, clipped \<or> trunc))"

text \<open>
  \<open>_BoundedReader.run\<close> over the chunks the pipe yields until it ends; the state is the kept
  chunks, their total size and the flag.
\<close>

record 'b bounded_reader =
  reader_cap :: nat
  reader_chunks :: "'b list list"
  reader_kept :: nat
  reader_truncated :: bool

definition new_reader :: "nat \<Rightarrow> 'b bounded_reader" where
  "new_reader cap = \<lparr>reader_cap = cap, reader_chunks = [], reader_kept = 0, reader_truncated = False\<rparr>"

definition reader_chunk :: "'b list \<Rightarrow> 'b bounded_reader \<Rightarrow> 'b bounded_reader" where
  "reader_chunk chunk r =
     (let room = int (reader_cap r) - int (reader_kept r);
          r1 = (if 0 < room then (let kept = take (nat room) chunk in
                  r\<lparr>reader_chunks := reader_chunks r @ [kept], reader_kept := reader_kept r + length kept\<rparr>) else r)
      in if room < int (length chunk) then r1\<lparr>reader_truncated := True\<rparr> else r1)"

fun reader_run :: "'b list list \<Rightarrow> 'b bounded_reader \<Rightarrow> 'b bounded_reader" where
  "reader_run [] r = r"
| "reader_run (chunk # rest) r = (if chunk = [] then r else reader_run rest (reader_chunk chunk r))"

definition reader_data :: "'b bounded_reader \<Rightarrow> 'b list" where
  "reader_data r = concat (reader_chunks r)"

subsection \<open>UTF-8\<close>

text \<open>\<open>str.encode("utf-8")\<close> of one code point that is a Unicode scalar value.\<close>

definition utf8_char :: "nat \<Rightarrow> nat list" where
  "utf8_char c =
     (if c < 0x80 then [c]
      else if c < 0x800 then [0xC0 + c div 64, 0x80 + c mod 64]
      else if c < 0x10000 then [0xE0 + c div 4096, 0x80 + c div 64 mod 64, 0x80 + c mod 64]
      else [0xF0 + c div 262144, 0x80 + c div 4096 mod 64, 0x80 + c div 64 mod 64, 0x80 + c mod 64])"

definition utf8_encode :: "nat list \<Rightarrow> nat list" where
  "utf8_encode cs = concat (map utf8_char cs)"

definition scalar :: "nat \<Rightarrow> bool" where
  "scalar c \<longleftrightarrow> c < 0xD800 \<or> 0xE000 \<le> c \<and> c < 0x110000"

text \<open>
  \<open>bytes.decode("utf-8", errors="replace")\<close>: a well-formed sequence gives its code point, and a
  maximal ill-formed prefix gives one replacement character. \<open>utf8_step\<close> reads one of them; its
  result is the code point and the number of bytes consumed.
\<close>

definition replacement :: nat where
  "replacement = 0xFFFD"

definition cont :: "nat \<Rightarrow> bool" where
  "cont b \<longleftrightarrow> 0x80 \<le> b \<and> b < 0xC0"

text \<open>The range the second byte must lie in, by the first byte.\<close>

definition second_ok :: "nat \<Rightarrow> nat \<Rightarrow> bool" where
  "second_ok a b \<longleftrightarrow> (if a = 0xE0 then 0xA0 \<le> b \<and> b < 0xC0 else if a = 0xED then 0x80 \<le> b \<and> b < 0xA0
     else if a = 0xF0 then 0x90 \<le> b \<and> b < 0xC0 else if a = 0xF4 then 0x80 \<le> b \<and> b < 0x90 else cont b)"

fun utf8_step :: "nat list \<Rightarrow> nat \<times> nat" where
  "utf8_step [] = (replacement, 1)"
| "utf8_step (a # bs) =
     (if a < 0x80 then (a, 1)
      else if a < 0xC2 \<or> 0xF4 < a then (replacement, 1)
      else (case bs of
          [] \<Rightarrow> (replacement, 1)
        | b # bs1 \<Rightarrow>
          (if \<not> second_ok a b then (replacement, 1)
           else if a < 0xE0 then ((a - 0xC0) * 64 + (b - 0x80), 2)
           else (case bs1 of
               [] \<Rightarrow> (replacement, 2)
             | c # bs2 \<Rightarrow>
               (if \<not> cont c then (replacement, 2)
                else if a < 0xF0 then ((a - 0xE0) * 4096 + (b - 0x80) * 64 + (c - 0x80), 3)
                else (case bs2 of
                    [] \<Rightarrow> (replacement, 3)
                  | d # bs3 \<Rightarrow>
                    (if \<not> cont d then (replacement, 3)
                     else ((a - 0xF0) * 262144 + (b - 0x80) * 4096 + (c - 0x80) * 64 + (d - 0x80), 4))))))))"

lemma utf8_step_count: "1 \<le> snd (utf8_step bs) \<and> snd (utf8_step bs) \<le> 4"
  by (cases bs) (auto split: list.splits)

function utf8_decode :: "nat list \<Rightarrow> nat list" where
  "utf8_decode bs = (if bs = [] then [] else (case utf8_step bs of (c, n) \<Rightarrow> c # utf8_decode (drop n bs)))"
  by pat_completeness auto
termination
  by (relation "measure length") (use utf8_step_count in \<open>auto dest!: sym [of "(_, _)"], metis Suc_le_lessD diff_less length_greater_0_conv snd_conv One_nat_def\<close>)

declare utf8_decode.simps [simp del]

subsection \<open>The reader\<close>

text \<open>What the buffer holds after a stream: its first \<open>cap\<close> bytes, and whether there were more.\<close>

definition reader_ok :: "'b bounded_reader \<Rightarrow> bool" where
  "reader_ok r \<longleftrightarrow> reader_kept r = length (reader_data r) \<and> reader_kept r \<le> reader_cap r"

lemma nat_room: "nat (int a - int b) = a - b"
  by linarith

lemma room_less: "b \<le> a \<Longrightarrow> int a - int b < int c \<longleftrightarrow> a < b + c"
  by linarith

lemma reader_chunk_spec:
  assumes "reader_ok r"
  shows "reader_ok (reader_chunk chunk r)" "reader_cap (reader_chunk chunk r) = reader_cap r"
    "reader_data (reader_chunk chunk r) = reader_data r @ take (reader_cap r - reader_kept r) chunk"
    "reader_truncated (reader_chunk chunk r) \<longleftrightarrow> reader_truncated r \<or> reader_cap r < reader_kept r + length chunk"
  using assms room_less [of "reader_kept r" "reader_cap r" "length chunk"]
  by (auto simp: reader_chunk_def reader_ok_def reader_data_def Let_def nat_room) (simp flip: length_0_conv)

lemma reader_run_spec:
  "reader_ok r \<Longrightarrow> [] \<notin> set chunks \<Longrightarrow> reader_ok (reader_run chunks r)
     \<and> reader_data (reader_run chunks r) = reader_data r @ take (reader_cap r - reader_kept r) (concat chunks)
     \<and> (reader_truncated (reader_run chunks r) \<longleftrightarrow> reader_truncated r \<or> reader_cap r < reader_kept r + length (concat chunks))"
proof (induction chunks arbitrary: r)
  case Nil
  then show ?case by (auto simp: reader_ok_def)
next
  case (Cons chunk chunks)
  note s = reader_chunk_spec [OF Cons.prems(1), of chunk]
  have kept: "reader_kept (reader_chunk chunk r) = reader_kept r + min (reader_cap r - reader_kept r) (length chunk)"
    using s(1,3) Cons.prems(1) by (simp add: reader_ok_def)
  have le: "reader_kept r \<le> reader_cap r" using Cons.prems(1) by (simp add: reader_ok_def)
  have IH: "reader_ok (reader_run chunks (reader_chunk chunk r))
     \<and> reader_data (reader_run chunks (reader_chunk chunk r)) = reader_data (reader_chunk chunk r)
         @ take (reader_cap r - reader_kept (reader_chunk chunk r)) (concat chunks)
     \<and> (reader_truncated (reader_run chunks (reader_chunk chunk r)) \<longleftrightarrow> reader_truncated (reader_chunk chunk r)
         \<or> reader_cap r < reader_kept (reader_chunk chunk r) + length (concat chunks))"
    using Cons.IH [OF s(1)] Cons.prems(2) s(2) by simp
  have diff: "reader_cap r - reader_kept (reader_chunk chunk r) = reader_cap r - reader_kept r - length chunk"
    using kept le by (simp add: min_def)
  have trunc: "reader_cap r < reader_kept r + length chunk \<or> reader_cap r < reader_kept (reader_chunk chunk r) + length (concat chunks)
     \<longleftrightarrow> reader_cap r < reader_kept r + (length chunk + length (concat chunks))"
    using kept le by (cases "reader_cap r - reader_kept r \<le> length chunk") (simp_all only: min_def if_True if_False, linarith+)
  show ?case using IH s(3,4) diff trunc Cons.prems(2) by auto
qed

lemma new_reader_ok: "reader_ok (new_reader cap)"
  by (simp add: reader_ok_def new_reader_def reader_data_def)

text \<open>C14: The pipe reader bounds host memory without blocking the child: whatever chunks a stream arrives in,
  it reads all of them, keeps exactly the first \<open>cap\<close> bytes, never holds more, and flags exactly the
  streams that were longer.\<close>

theorem reader_bounded:
  assumes "[] \<notin> set chunks"
  shows "reader_data (reader_run chunks (new_reader cap)) = take cap (concat chunks)
     \<and> (reader_truncated (reader_run chunks (new_reader cap)) \<longleftrightarrow> cap < length (concat chunks))
     \<and> reader_kept (reader_run chunks (new_reader cap)) \<le> cap"
proof -
  have init: "reader_data (new_reader cap) = []" "reader_cap (new_reader cap) = cap" "reader_kept (new_reader cap) = 0"
    "reader_truncated (new_reader cap) = False" by (simp_all add: new_reader_def reader_data_def)
  note s = reader_run_spec [OF new_reader_ok assms, of cap, unfolded init]
  have "reader_kept (reader_run chunks (new_reader cap)) = length (take cap (concat chunks))"
    using s by (simp add: reader_ok_def)
  then show ?thesis using s by simp
qed

theorem reader_bounded_witness:
  "reader_data (reader_run [[1, 2], [3 :: nat, 4, 5]] (new_reader 4)) = [1, 2, 3, 4]
   \<and> reader_truncated (reader_run [[1, 2], [3 :: nat, 4, 5]] (new_reader 4))"
  using reader_bounded [of "[[1, 2], [3 :: nat, 4, 5]]" 4] by simp

subsection \<open>Clipping is exact\<close>

locale stream_decoding =
  fixes decode :: "'b list \<Rightarrow> 'c list"
  assumes exact: "4 * k \<le> n \<Longrightarrow> take k (decode (take n b)) = take k (decode b)"
    and dense: "length b \<le> 4 * length (decode b)"
begin

lemma capture_exact:
  assumes "[] \<notin> set chunks"
  shows "(let r = reader_run chunks (new_reader (capture_bytes_for limit))
          in decode_captured decode (reader_data r) (reader_truncated r) limit)
       = clip_output (decode (concat chunks)) limit"
proof -
  let ?all = "concat chunks" and ?n = "limit * 4"
  note s = reader_run_spec [OF new_reader_ok assms, of ?n]
  have r: "reader_data (reader_run chunks (new_reader ?n)) = take ?n ?all"
    "reader_truncated (reader_run chunks (new_reader ?n)) \<longleftrightarrow> ?n < length ?all"
    using s by (simp_all add: new_reader_def reader_data_def)
  have eq: "take limit (decode (take ?n ?all)) = take limit (decode ?all)" by (rule exact) simp
  have "clip_output (decode (take ?n ?all)) limit = (tx, c) \<Longrightarrow> (tx, c \<or> ?n < length ?all) = clip_output (decode ?all) limit" for tx c
  proof (cases "?n < length ?all")
    case True
    then have long: "limit < length (decode ?all)" using dense [of ?all] by linarith
    moreover assume "clip_output (decode (take ?n ?all)) limit = (tx, c)"
    then have "tx = take limit (decode (take ?n ?all))" by (auto simp: clip_output_def split: if_splits)
    ultimately show ?thesis using True eq by (simp add: clip_output_def)
  qed simp
  then show ?thesis
    by (simp add: r decode_captured_def capture_bytes_for_def mult.commute Let_def split: prod.splits)
qed

end

lemma utf8_step_take: "4 \<le> n \<Longrightarrow> utf8_step (take n bs) = utf8_step bs"
proof -
  assume "4 \<le> n"
  then obtain m where "n = m + 4" by (metis add.commute le_add_diff_inverse)
  then have "n = Suc (Suc (Suc (Suc m)))" by simp
  then show ?thesis by (cases bs) (auto split: list.splits)
qed

text \<open>The decoder as one code point and the rest.\<close>

lemma utf8_decode_step:
  assumes "bs \<noteq> []"
  obtains c n where "utf8_step bs = (c, n)" "1 \<le> n" "n \<le> 4" "utf8_decode bs = c # utf8_decode (drop n bs)"
proof -
  obtain c n where s: "utf8_step bs = (c, n)" by fastforce
  then show thesis using that [OF s] utf8_step_count [of bs] assms by (simp add: utf8_decode.simps [of bs])
qed

lemma utf8_decode_Nil [simp]: "utf8_decode [] = []"
  by (simp add: utf8_decode.simps)

lemma utf8_prefix: "4 * k \<le> n \<Longrightarrow> take k (utf8_decode (take n bs)) = take k (utf8_decode bs)"
proof (induction k arbitrary: n bs)
  case (Suc k)
  show ?case
  proof (cases "bs = []")
    case False
    obtain c m where s: "utf8_step bs = (c, m)" "1 \<le> m" "m \<le> 4" "utf8_decode bs = c # utf8_decode (drop m bs)"
      by (rule utf8_decode_step [OF False])
    have ne: "take n bs \<noteq> []" and st: "utf8_step (take n bs) = (c, m)"
      using False Suc.prems s(1) utf8_step_take [of n bs] by simp_all
    have "utf8_decode (take n bs) = c # utf8_decode (drop m (take n bs))"
      using ne st by (simp add: utf8_decode.simps [of "take n bs"])
    moreover have "drop m (take n bs) = take (n - m) (drop m bs)" by (rule drop_take)
    moreover have "4 * k \<le> n - m" using Suc.prems s(3) by simp
    ultimately show ?thesis using s(4) Suc.IH by simp
  qed simp
qed simp

lemma utf8_dense: "length bs \<le> 4 * length (utf8_decode bs)"
proof (induction bs rule: length_induct)
  case (1 bs)
  show ?case
  proof (cases "bs = []")
    case False
    obtain c m where s: "1 \<le> m" "m \<le> 4" "utf8_decode bs = c # utf8_decode (drop m bs)"
      by (rule utf8_decode_step [OF False])
    have "length (drop m bs) < length bs" using s(1) False by simp
    then have "length (drop m bs) \<le> 4 * length (utf8_decode (drop m bs))" using 1 by blast
    then show ?thesis using s by simp
  qed simp
qed

interpretation utf8: stream_decoding utf8_decode
  by unfold_locales (rule utf8_prefix, assumption, rule utf8_dense)

text \<open>C13: Clipping stays exact although the capture is bounded in bytes: reading a stream through a buffer
  of \<open>capture_bytes_for limit\<close> bytes, decoding what was kept and clipping it to \<open>limit\<close> characters
  gives the same text and the same truncation flag as decoding and clipping the whole stream, a
  multi-byte character split by the cap included.\<close>

theorem capture_clip_exact:
  assumes "[] \<notin> set chunks"
  shows "(let r = reader_run chunks (new_reader (capture_bytes_for limit))
          in decode_captured utf8_decode (reader_data r) (reader_truncated r) limit)
       = clip_output (utf8_decode (concat chunks)) limit"
  by (rule utf8.capture_exact [OF assms])

theorem capture_clip_exact_witness:
  "(let r = reader_run [[65], [0xC3, 0xA9, 66]] (new_reader (capture_bytes_for 1))
    in decode_captured utf8_decode (reader_data r) (reader_truncated r) 1) = ([65], True)"
  using capture_clip_exact [of "[[65], [0xC3, 0xA9, 66]]" 1]
  by (simp add: utf8_decode.simps clip_output_def second_ok_def cont_def)

subsection \<open>Encoding and decoding\<close>

lemma utf8_step_char: "scalar c \<Longrightarrow> utf8_step (utf8_char c @ rest) = (c, length (utf8_char c))"
proof -
  assume sc: "scalar c"
  consider "c < 0x80" | "0x80 \<le> c" "c < 0x800" | "0x800 \<le> c" "c < 0x10000" | "0x10000 \<le> c" "c < 0x110000"
    using sc by (fastforce simp: scalar_def)
  then show ?thesis
  proof cases
    case 2
    define q m where "q = c div 64" and "m = c mod 64"
    have qm: "q < 32" "2 \<le> q" "m < 64" "q * 64 + m = c"
      using 2 by (simp_all add: q_def m_def div_less_iff_less_mult less_eq_div_iff_mult_less_eq)
    have "utf8_char c = [0xC0 + q, 0x80 + m]" using 2 by (simp add: utf8_char_def q_def m_def)
    then show ?thesis using qm by (simp add: second_ok_def cont_def)
  next
    case 3
    define q p m where "q = c div 4096" and "p = c div 64 mod 64" and "m = c mod 64"
    have lt: "q < 16" "p < 64" "m < 64" using 3 by (simp_all add: q_def p_def m_def div_less_iff_less_mult)
    have "c div 64 = q * 64 + p" using div_mult_mod_eq [of "c div 64" 64] by (simp add: q_def p_def flip: div_mult2_eq)
    then have eq: "q * 4096 + p * 64 + m = c" using div_mult_mod_eq [of c 64] by (simp add: m_def)
    have lo: "q = 0 \<Longrightarrow> 32 \<le> p" and hi: "q = 13 \<Longrightarrow> p < 32" using eq lt 3 sc by (auto simp: scalar_def)
    have "utf8_char c = [0xE0 + q, 0x80 + p, 0x80 + m]" using 3 by (simp add: utf8_char_def q_def p_def m_def)
    then show ?thesis using lt eq lo hi by (simp add: second_ok_def cont_def)
  next
    case 4
    define q p m l where "q = c div 262144" and "p = c div 4096 mod 64" and "m = c div 64 mod 64" and "l = c mod 64"
    have lt: "q < 5" "p < 64" "m < 64" "l < 64" using 4 by (simp_all add: q_def p_def m_def l_def div_less_iff_less_mult)
    have "c div 4096 = q * 64 + p" using div_mult_mod_eq [of "c div 4096" 64] by (simp add: q_def p_def flip: div_mult2_eq)
    moreover have "c div 64 = c div 4096 * 64 + m" using div_mult_mod_eq [of "c div 64" 64] by (simp add: m_def flip: div_mult2_eq)
    ultimately have eq: "q * 262144 + p * 4096 + m * 64 + l = c" using div_mult_mod_eq [of c 64] by (simp add: l_def)
    have lo: "q = 0 \<Longrightarrow> 16 \<le> p" and hi: "q = 4 \<Longrightarrow> p < 16" using eq lt 4 by auto
    have "utf8_char c = [0xF0 + q, 0x80 + p, 0x80 + m, 0x80 + l]" using 4 by (simp add: utf8_char_def q_def p_def m_def l_def)
    then show ?thesis using lt eq lo hi by (simp add: second_ok_def cont_def)
  qed (simp add: utf8_char_def)
qed

lemma utf8_decode_char: "scalar c \<Longrightarrow> utf8_decode (utf8_char c @ rest) = c # utf8_decode rest"
proof -
  assume "scalar c"
  then have s: "utf8_step (utf8_char c @ rest) = (c, length (utf8_char c))" by (rule utf8_step_char)
  have "utf8_char c @ rest \<noteq> []" by (auto simp: utf8_char_def)
  then show ?thesis using s by (simp add: utf8_decode.simps [of "utf8_char c @ rest"])
qed

lemma utf8_round_trip: "\<forall>c\<in>set cs. scalar c \<Longrightarrow> utf8_decode (utf8_encode cs) = cs"
  by (induction cs) (simp_all add: utf8_encode_def utf8_decode_char)

end
