(* ===== verification/Sandbox_Payload.thy ===== *)
theory Sandbox_Payload
  imports Sandbox_Spec
begin

section \<open>Payload extraction and delivery (cognitivetree/sandbox/extraction.py, payload.py)\<close>

text \<open>
  Extraction reads fenced blocks line by line: an opening fence, an optional tag, the body up to
  a matching closing fence or the end. The two regular expressions are written out as the
  functions they denote on a line without line breaks. Delivery frames the code by its length in
  bytes ahead of the payload's input; the reader in the bootstrap is \<open>read_frame\<close>.
\<close>

subsection \<open>Fences\<close>

definition blank_or_tab :: "char \<Rightarrow> bool" where
  "blank_or_tab c \<longleftrightarrow> c = CHR '' '' \<or> py_ord c = 9"

abbreviation backtick :: char where
  "backtick \<equiv> CHR 0x60"

abbreviation tilde :: char where
  "tilde \<equiv> CHR ''~''"

text \<open>
  \<open>_OPENING_FENCE.match(line)\<close>: the fence and the info text. The fence is the longest run,
  because what follows may hold no backtick.
\<close>

definition opening_fence :: "string \<Rightarrow> (string \<times> string) option" where
  "opening_fence line =
     (let s = dropWhile blank_or_tab line in
      case s of
        [] \<Rightarrow> None
      | c # _ \<Rightarrow>
          (let fence = takeWhile (\<lambda>x. x = c) s; info = dropWhile blank_or_tab (dropWhile (\<lambda>x. x = c) s) in
           if (c = backtick \<or> c = tilde) \<and> 3 \<le> length fence \<and> backtick \<notin> set info
           then Some (fence, info) else None))"

text \<open>\<open>_PYTHON_TAG.match(tag)\<close>.\<close>

definition python_tag :: "string \<Rightarrow> bool" where
  "python_tag tag =
     (let t = py_lower tag;
          version_ok = (\<lambda>rest. rest = [] \<or> rest = ''3''
             \<or> (take 2 rest = ''3.'' \<and> drop 2 rest \<noteq> [] \<and> (\<forall>c\<in>set (drop 2 rest). is_digit c)))
      in take 6 t = ''python'' \<and> version_ok (drop 6 t) \<or> take 2 t = ''py'' \<and> version_ok (drop 2 t))"

definition closes :: "string \<Rightarrow> string \<Rightarrow> bool" where
  "closes line fence = (let s = py_strip line in
     length fence \<le> length s \<and> s = replicate (length s) (hd fence))"

text \<open>\<open>textwrap.dedent\<close> on the lines of a text.\<close>

fun common_prefix :: "string \<Rightarrow> string \<Rightarrow> string" where
  "common_prefix (x # xs) (y # ys) = (if x = y then x # common_prefix xs ys else [])"
| "common_prefix _ _ = []"

definition dedent_lines :: "string list \<Rightarrow> string list" where
  "dedent_lines ls =
     (let norm = map (\<lambda>l. if \<forall>c\<in>set l. blank_or_tab c then [] else l) ls;
          indents = map (takeWhile blank_or_tab) (filter (\<lambda>l. l \<noteq> []) norm);
          margin = (case indents of [] \<Rightarrow> [] | i # is \<Rightarrow> foldl common_prefix i is)
      in map (\<lambda>l. if take (length margin) l = margin then drop (length margin) l else l) norm)"

record fenced_block =
  block_tag :: string
  block_body :: string

definition make_block :: "string \<Rightarrow> string list \<Rightarrow> fenced_block" where
  "make_block info body =
     \<lparr>block_tag = (case py_split info of [] \<Rightarrow> [] | t # _ \<Rightarrow> t),
      block_body = py_strip (py_join newline (dedent_lines body))\<rparr>"

function fenced_blocks :: "string list \<Rightarrow> fenced_block list" where
  "fenced_blocks [] = []"
| "fenced_blocks (l # ls) = (case opening_fence l of
       None \<Rightarrow> fenced_blocks ls
     | Some (fence, info) \<Rightarrow>
         make_block info (takeWhile (\<lambda>x. \<not> closes x fence) ls)
           # fenced_blocks (tl (dropWhile (\<lambda>x. \<not> closes x fence) ls)))"
  by pat_completeness auto
termination
  by (relation "measure length") (auto simp: le_imp_less_Suc length_dropWhile_le le_diff_conv le_SucI)

fun first_payload :: "string option \<Rightarrow> fenced_block list \<Rightarrow> string option" where
  "first_payload untagged [] = untagged"
| "first_payload untagged (b # bs) =
     (if block_body b = [] then first_payload untagged bs
      else if python_tag (block_tag b) then Some (block_body b)
      else first_payload (if block_tag b = [] \<and> untagged = None then Some (block_body b) else untagged) bs)"

definition extract_python_payload :: "string \<Rightarrow> string option" where
  "extract_python_payload txt = first_payload None (fenced_blocks (py_splitlines txt))"

subsection \<open>What extraction returns\<close>

lemma fenced_blocks_body: "b \<in> set (fenced_blocks ls) \<Longrightarrow> py_strip (block_body b) = block_body b"
  by (induction ls rule: fenced_blocks.induct) (auto simp: make_block_def split: option.splits prod.splits)

lemma python_tag_Nil [simp]: "\<not> python_tag []"
  by (simp add: python_tag_def py_lower_def Let_def)

lemma first_payload_eq:
  "first_payload u bs =
     (case filter (\<lambda>b. block_body b \<noteq> [] \<and> python_tag (block_tag b)) bs of
        b # _ \<Rightarrow> Some (block_body b)
      | [] \<Rightarrow> (case u of Some p \<Rightarrow> Some p
          | None \<Rightarrow> map_option block_body (List.find (\<lambda>b. block_body b \<noteq> [] \<and> block_tag b = []) bs)))"
  by (induction bs arbitrary: u) (auto split: option.splits list.splits)

text \<open>Extraction takes the first non-blank block tagged as Python, and failing that the first non-blank
  untagged block; a block of another language is never returned.\<close>

theorem extraction_priority:
  "extract_python_payload txt =
     (let bs = filter (\<lambda>b. block_body b \<noteq> []) (fenced_blocks (py_splitlines txt)) in
      case filter (\<lambda>b. python_tag (block_tag b)) bs of
        b # _ \<Rightarrow> Some (block_body b)
      | [] \<Rightarrow> map_option block_body (List.find (\<lambda>b. block_tag b = []) bs))"
proof -
  have find: "List.find P (filter Q xs) = List.find (\<lambda>x. Q x \<and> P x) xs" for P Q and xs :: "fenced_block list"
    by (induction xs) auto
  show ?thesis
    unfolding extract_python_payload_def first_payload_eq
    by (simp add: find conj_commute filter_filter split: list.splits)
qed

lemma extraction_stripped:
  assumes "extract_python_payload txt = Some p" shows "p \<noteq> []" "py_strip p = p"
proof -
  let ?bs = "fenced_blocks (py_splitlines txt)"
  have "\<exists>b\<in>set ?bs. block_body b = p \<and> p \<noteq> []"
  proof (cases "filter (\<lambda>b. block_body b \<noteq> [] \<and> python_tag (block_tag b)) ?bs")
    case Nil
    then have "map_option block_body (List.find (\<lambda>b. block_body b \<noteq> [] \<and> block_tag b = []) ?bs) = Some p"
      using assms by (simp add: extract_python_payload_def first_payload_eq)
    then show ?thesis by (auto simp: find_Some_iff)
  next
    case (Cons b bs)
    then have "b \<in> set (filter (\<lambda>b. block_body b \<noteq> [] \<and> python_tag (block_tag b)) ?bs)" by (simp only: list.set_intros)
    then have "b \<in> set ?bs" "block_body b \<noteq> []" by simp_all
    then show ?thesis using assms Cons by (auto simp: extract_python_payload_def first_payload_eq)
  qed
  then show "p \<noteq> []" "py_strip p = p" using fenced_blocks_body by blast+
qed

subsection \<open>Round trip of a fenced block\<close>

definition one_line :: "string \<Rightarrow> bool" where
  "one_line l \<longleftrightarrow> (\<forall>c\<in>set l. \<not> line_break c)"

lemma line_break_newline [simp]: "line_break (CHR 0x0A)"
  by (simp add: line_break_def py_ord_def)

lemma not_carriage_return: "\<not> line_break c \<Longrightarrow> py_ord c \<noteq> 13"
  by (auto simp: line_break_def)

lemma splitlines_acc_line:
  "one_line l \<Longrightarrow> py_splitlines_acc cur (l @ CHR 0x0A # rest) = (rev cur @ l) # py_splitlines_acc [] rest"
proof (induction l arbitrary: cur)
  case Nil
  show ?case by (cases rest) (simp_all add: py_ord_def)
next
  case (Cons c l)
  have c: "\<not> line_break c" "one_line l" using Cons.prems by (simp_all add: one_line_def)
  obtain d ds where d: "l @ CHR 0x0A # rest = d # ds" by (cases l) auto
  have "py_splitlines_acc cur ((c # l) @ CHR 0x0A # rest) = py_splitlines_acc (c # cur) (l @ CHR 0x0A # rest)"
    using c(1) not_carriage_return [OF c(1)] by (simp add: d)
  then show ?case using Cons.IH [OF c(2)] by simp
qed

lemma splitlines_acc_last: "one_line l \<Longrightarrow> py_splitlines_acc cur l = (if cur = [] \<and> l = [] then [] else [rev cur @ l])"
proof (induction l arbitrary: cur)
  case (Cons c l)
  have c: "\<not> line_break c" "one_line l" using Cons.prems by (simp_all add: one_line_def)
  show ?case
  proof (cases l)
    case (Cons d ds)
    then have "py_splitlines_acc cur (c # l) = py_splitlines_acc (c # cur) l"
      using c(1) not_carriage_return [OF c(1)] by simp
    then show ?thesis using Cons.IH [OF c(2)] by simp
  qed (use c in simp)
qed simp

lemma splitlines_join:
  "\<forall>l\<in>set ls. one_line l \<Longrightarrow> ls \<noteq> [] \<Longrightarrow> last ls \<noteq> [] \<Longrightarrow> py_splitlines (py_join newline ls) = ls"
proof (induction ls)
  case (Cons l ls)
  show ?case
  proof (cases ls)
    case Nil
    then show ?thesis using Cons.prems by (simp add: py_splitlines_def splitlines_acc_last)
  next
    case (Cons m ms)
    have "py_splitlines (py_join newline ls) = ls" using Cons.IH Cons.prems Cons by simp
    then show ?thesis using Cons.prems(1) Cons splitlines_acc_line [of l "[]" "py_join newline ls"]
      by (simp add: py_splitlines_def)
  qed
qed simp

lemma open_python: "opening_fence ''```python'' = Some (''```'', ''python'')"
  by (simp add: opening_fence_def blank_or_tab_def py_ord_def Let_def)

lemma close_fence: "closes ''```'' ''```''"
  by (simp add: closes_def py_strip_def py_lstrip_def py_rstrip_def py_space_def py_ord_def Let_def)

text \<open>C16: Code put in a fenced Python block comes back as the dedented, stripped code, whatever its lines
  are, as long as none of them closes the fence: the form in which the generators' prompt asks for code.\<close>

theorem extraction_round_trip:
  assumes "\<forall>l\<in>set body. one_line l" "\<forall>l\<in>set body. \<not> closes l ''```''"
  shows "extract_python_payload (py_join newline ([''```python''] @ body @ [''```'']))
     = (let code = py_strip (py_join newline (dedent_lines body)) in if code = [] then None else Some code)"
proof -
  let ?lines = "[''```python''] @ body @ [''```'']"
  have one: "\<forall>l\<in>set ?lines. one_line l"
    using assms(1) by (auto simp: one_line_def line_break_def py_ord_def)
  have lines: "py_splitlines (py_join newline ?lines) = ?lines" by (rule splitlines_join [OF one]) simp_all
  have take: "takeWhile (\<lambda>x. \<not> closes x ''```'') (body @ [''```'']) = body"
    "dropWhile (\<lambda>x. \<not> closes x ''```'') (body @ [''```'']) = [''```'']"
    using assms(2) close_fence by (simp_all add: takeWhile_append dropWhile_append)
  have blocks: "fenced_blocks ?lines = [make_block ''python'' body]"
    using take by (simp add: open_python)
  have tag: "block_tag (make_block ''python'' body) = ''python''"
    by (simp add: make_block_def py_split_def py_space_def py_ord_def)
  have py: "python_tag ''python''" by (simp add: python_tag_def py_lower_def py_lower_char_def py_ord_def Let_def)
  show ?thesis
    unfolding extract_python_payload_def lines blocks
    by (simp add: tag py) (simp add: make_block_def Let_def)
qed

theorem extraction_round_trip_witness:
  "extract_python_payload (py_join newline ([''```python''] @ [''  f()'', ''  g()''] @ [''```'']))
     = (let code = py_strip (py_join newline (dedent_lines [''  f()'', ''  g()''])) in if code = [] then None else Some code)"
  by (rule extraction_round_trip)
    (simp_all add: one_line_def line_break_def py_ord_def closes_def py_strip_def py_lstrip_def py_rstrip_def py_space_def Let_def)

subsection \<open>Framing\<close>

text \<open>\<open>frame_payload\<close>: the byte length in decimal, a newline, the code, then the payload's input.\<close>

definition frame_payload :: "nat list \<Rightarrow> nat list \<Rightarrow> nat list" where
  "frame_payload code stdin =
     (let body = utf8_encode code in map py_ord (nat_digits (length body)) @ [10] @ body @ utf8_encode stdin)"

text \<open>The bootstrap's reading of the stream: the source bytes and the input left for the payload.\<close>

definition read_frame :: "nat list \<Rightarrow> (nat list \<times> nat list) option" where
  "read_frame stream =
     (let line = takeWhile (\<lambda>b. b \<noteq> 10) stream; rest = tl (dropWhile (\<lambda>b. b \<noteq> 10) stream) in
      case parse_int (map char_of line) of
        None \<Rightarrow> None
      | Some n \<Rightarrow> if n < 0 then None else Some (take (nat n) rest, drop (nat n) rest))"

lemma digits_not_space: "\<forall>c\<in>set s. is_digit c \<Longrightarrow> py_strip s = s"
proof -
  assume d: "\<forall>c\<in>set s. is_digit c"
  have ns: "\<forall>c\<in>set s. \<not> py_space c" using d by (auto simp: is_digit_def py_space_def)
  have id: "dropWhile py_space t = t" if "\<forall>c\<in>set t. \<not> py_space c" for t :: string using that by (cases t) auto
  have "dropWhile py_space s = s" "dropWhile py_space (rev s) = rev s" using id [of s] id [of "rev s"] ns by simp_all
  then show ?thesis by (simp add: py_strip_def py_lstrip_def py_rstrip_def)
qed

lemma parse_int_digits: "parse_int (nat_digits n) = Some (int n)"
proof -
  obtain c cs where cs: "nat_digits n = c # cs" by (metis neq_Nil_conv nat_digits_not_Nil)
  have "is_digit c" using nat_digits_digits [of n] cs by simp
  then have "c \<noteq> CHR ''-''" "c \<noteq> CHR ''+''" by (auto simp: is_digit_def py_ord_def)
  then have "take_sign (nat_digits n) = (1, nat_digits n)" using cs by simp
  then show ?thesis
    using digits_not_space [OF nat_digits_digits] digit_group_digits [OF nat_digits_not_Nil nat_digits_digits]
    by (simp add: parse_int_def nat_digits_value)
qed

lemma char_of_py_ord [simp]: "char_of (py_ord c) = c"
  by (simp add: py_ord_def)

text \<open>C17: Delivery over stdin loses nothing: the bootstrap reads back exactly the bytes of the code, which
  decode to the code, and leaves exactly the payload's own input in the stream, for every code and every
  input, newlines and digits at the start of either included.\<close>

theorem frame_round_trip:
  assumes "\<forall>c\<in>set code. scalar c" "\<forall>c\<in>set stdin. scalar c"
  shows "\<exists>source rest. read_frame (frame_payload code stdin) = Some (source, rest)
     \<and> utf8_decode source = code \<and> utf8_decode rest = stdin"
proof -
  let ?d = "map py_ord (nat_digits (length (utf8_encode code)))"
  have no10: "\<forall>b\<in>set ?d. b \<noteq> 10" using nat_digits_digits by (fastforce simp: is_digit_def)
  have line: "takeWhile (\<lambda>b. b \<noteq> 10) (frame_payload code stdin) = ?d"
    "tl (dropWhile (\<lambda>b. b \<noteq> 10) (frame_payload code stdin)) = utf8_encode code @ utf8_encode stdin"
    using no10 by (simp_all add: frame_payload_def Let_def takeWhile_append dropWhile_append)
  have "map char_of ?d = nat_digits (length (utf8_encode code))" by (simp add: o_def)
  then have "read_frame (frame_payload code stdin) = Some (utf8_encode code, utf8_encode stdin)"
    by (simp add: read_frame_def line parse_int_digits Let_def)
  then show ?thesis using utf8_round_trip assms by simp
qed

theorem frame_round_trip_witness:
  "\<exists>source rest. read_frame (frame_payload [49, 10, 233] [50]) = Some (source, rest)
     \<and> utf8_decode source = [49, 10, 233] \<and> utf8_decode rest = [50]"
  by (rule frame_round_trip) (simp_all add: scalar_def)

end
