(* ===== verification/Sandbox_Execution.thy ===== *)
theory Sandbox_Execution
  imports Sandbox_Payload
begin

section \<open>Executors (process.py, subprocess_executor.py, docker_executor.py, backends.py)\<close>

text \<open>
  The executors around the operating system. What the host does is the record \<open>host\<close>: spawning
  a child and observing it (\<open>launch\<close>), one-shot commands (\<open>command\<close>), the clocks, a fresh
  container name, and \<open>decode\<close>, which stands for \<open>bytes.decode\<close> into the strings of this
  development. Everything the code computes from those observations is written out.
\<close>

record child =
  child_code :: "int option"
  child_out :: "nat list list"
  child_err :: "nat list list"

record command_outcome =
  cmd_code :: int
  cmd_stdout :: string
  cmd_stderr :: string

record 'w host =
  launch :: "'w \<Rightarrow> string list \<Rightarrow> nat list \<Rightarrow> pyfloat \<Rightarrow> (exn + child) \<times> 'w"
  command :: "'w \<Rightarrow> string list \<Rightarrow> (exn + command_outcome) \<times> 'w"
  perf_counter :: "'w \<Rightarrow> pyfloat \<times> 'w"
  host_clock :: "'w \<Rightarrow> pyfloat \<times> 'w"
  fresh_hex :: "'w \<Rightarrow> string \<times> 'w"
  decode :: "nat list \<Rightarrow> string"
  float_repr :: "pyfloat \<Rightarrow> string"
  bootstrap :: string
  python_path :: string

text \<open>\<open>except OSError\<close> also catches the subclasses of the standard library.\<close>

definition os_error :: "exn_class \<Rightarrow> bool" where
  "os_error k \<longleftrightarrow> k = OSError \<or> k \<in> set (map OtherException
     [''BlockingIOError'', ''ChildProcessError'', ''ConnectionError'', ''BrokenPipeError'', ''ConnectionAbortedError'',
      ''ConnectionRefusedError'', ''ConnectionResetError'', ''FileExistsError'', ''FileNotFoundError'', ''InterruptedError'',
      ''IsADirectoryError'', ''NotADirectoryError'', ''PermissionError'', ''ProcessLookupError'', ''TimeoutError''])"

subsection \<open>run\_bounded\<close>

record bounded_run =
  returncode :: "int option"
  run_stdout :: "nat list"
  run_stderr :: "nat list"
  stdout_truncated :: bool
  stderr_truncated :: bool

definition timed_out :: "bounded_run \<Rightarrow> bool" where
  "timed_out r \<longleftrightarrow> returncode r = None"

definition run_bounded ::
  "'w host \<Rightarrow> 'w \<Rightarrow> string list \<Rightarrow> nat list \<Rightarrow> pyfloat \<Rightarrow> nat \<Rightarrow> (exn + bounded_run) \<times> 'w" where
  "run_bounded hs w cmd stdin deadline cap =
     (if cap < 1 then (Inl (Exn ValueError ''capture_bytes must be a positive integer''), w)
      else (case launch hs w cmd stdin deadline of
          (Inl e, w1) \<Rightarrow> (Inl e, w1)
        | (Inr ch, w1) \<Rightarrow>
            (let out = reader_run (child_out ch) (new_reader cap);
                 err = reader_run (child_err ch) (new_reader cap)
             in (Inr \<lparr>returncode = child_code ch, run_stdout = reader_data out, run_stderr = reader_data err,
                  stdout_truncated = reader_truncated out, stderr_truncated = reader_truncated err\<rparr>, w1))))"

text \<open>\<open>request.timeout_seconds or limits.timeout_seconds\<close>.\<close>

definition deadline_of :: "execution_request \<Rightarrow> resource_limits \<Rightarrow> pyfloat" where
  "deadline_of rq l = (case req_timeout rq of Some t \<Rightarrow> (if t = 0 then timeout_seconds l else t) | None \<Rightarrow> timeout_seconds l)"

definition encode_text :: "string \<Rightarrow> nat list" where
  "encode_text s = map py_ord s"

text \<open>\<open>s.replace("\r\n", "\n")\<close>.\<close>

fun normalize_newlines :: "string \<Rightarrow> string" where
  "normalize_newlines (c # d # cs) =
     (if py_ord c = 13 \<and> py_ord d = 10 then d # normalize_newlines cs else c # normalize_newlines (d # cs))"
| "normalize_newlines s = s"

subsection \<open>SubprocessExecutor\<close>

definition subprocess_command :: "'w host \<Rightarrow> string list" where
  "subprocess_command hs = [python_path hs, ''-X'', ''utf8'', ''-I'', ''-c'', bootstrap hs]"

definition subprocess_execute ::
  "'w host \<Rightarrow> resource_limits \<Rightarrow> 'w \<Rightarrow> execution_request \<Rightarrow> (exn + execution_result) \<times> 'w" where
  "subprocess_execute hs l w rq =
     (let deadline = deadline_of rq l; limit = nat (output_limit_chars l); (started, w1) = perf_counter hs w in
      case run_bounded hs w1 (subprocess_command hs) (frame_payload (encode_text (req_code rq)) (encode_text (req_stdin rq)))
             deadline (capture_bytes_for limit) of
        (Inl e, w2) \<Rightarrow> (Inl (if os_error (exn_kind e)
            then Exn SandboxError (''failed to spawn interpreter: '' @ exn_text e) else e), w2)
      | (Inr run, w2) \<Rightarrow>
          (let (ended, w3) = perf_counter hs w2;
               (out, out_dropped) = decode_captured (decode hs) (run_stdout run) (stdout_truncated run) limit;
               (err, err_dropped) = decode_captured (decode hs) (run_stderr run) (stderr_truncated run) limit
           in (Inr \<lparr>res_status = (if timed_out run then TIMEOUT_STATUS else COMPLETED),
                 exit_code = returncode run, stdout = normalize_newlines out, stderr = normalize_newlines err,
                 duration_seconds = ended - started, truncated = (out_dropped \<or> err_dropped),
                 res_detail = (if timed_out run then ''payload exceeded '' @ format_fixed 1 deadline @ ''s deadline'' else [])\<rparr>, w3)))"

subsection \<open>DockerSandboxExecutor\<close>

record docker_config =
  image :: string
  docker_binary :: string
  limits :: resource_limits
  tmpfs_mb :: int
  kill_grace_seconds :: pyfloat

definition default_docker :: docker_config where
  "default_docker = \<lparr>image = ''cognitivetree-sandbox:latest'', docker_binary = ''docker'', limits = default_limits,
     tmpfs_mb = 16, kill_grace_seconds = Fin 10\<rparr>"

definition check_docker_config :: "docker_config \<Rightarrow> exn + docker_config" where
  "check_docker_config c =
     (if tmpfs_mb c < 1 then Inl (Exn ValueError ''tmpfs_mb must be a positive integer'')
      else if kill_grace_seconds c \<le> 0 then Inl (Exn ValueError ''kill_grace_seconds must be positive'')
      else Inr c)"

definition build_command :: "'w host \<Rightarrow> docker_config \<Rightarrow> string \<Rightarrow> execution_request \<Rightarrow> string list" where
  "build_command hs c name rq =
     [docker_binary c, ''run'', ''--rm'', ''--interactive'', ''--name'', name, ''--network'', ''none'',
      ''--memory'', str_int (memory_mb (limits c)) @ ''m'', ''--memory-swap'', str_int (memory_mb (limits c)) @ ''m'',
      ''--cpus'', float_repr hs (cpus (limits c)), ''--pids-limit'', str_int (pids (limits c)), ''--read-only'',
      ''--tmpfs'', ''/tmp:rw,size='' @ str_int (tmpfs_mb c) @ ''m'', ''--cap-drop'', ''ALL'',
      ''--security-opt'', ''no-new-privileges'', ''--user'', ''65534:65534'', ''--workdir'', ''/tmp'',
      ''--env'', ''PYTHONUNBUFFERED=1'', image c, ''python'', ''-I'', ''-c'', bootstrap hs]"

definition is_cli_fault :: "int \<Rightarrow> string \<Rightarrow> bool" where
  "is_cli_fault code err =
     (let lowered = py_lower err;
          cli_fault = (code = 125 \<and> (\<exists>m\<in>set [''docker:'', ''error during connect'', ''no such image'', ''unable to find image''].
              py_contains m lowered));
          exec_fault = ((code = 126 \<or> code = 127) \<and> py_contains ''docker'' lowered)
      in cli_fault \<or> exec_fault)"

text \<open>\<open>_force_remove\<close> swallows the errors of the command.\<close>

definition force_remove :: "'w host \<Rightarrow> docker_config \<Rightarrow> 'w \<Rightarrow> string \<Rightarrow> (exn + unit) \<times> 'w" where
  "force_remove hs c w name = (case command hs w [docker_binary c, ''rm'', ''-f'', name] of
       (Inl e, w1) \<Rightarrow> (if os_error (exn_kind e) \<or> exn_kind e = OtherException ''TimeoutExpired'' then Inr () else Inl e, w1)
     | (Inr _, w1) \<Rightarrow> (Inr (), w1))"

definition docker_result ::
  "docker_config \<Rightarrow> pyfloat \<Rightarrow> pyfloat \<Rightarrow> string \<Rightarrow> string \<Rightarrow> bool \<Rightarrow> int option \<Rightarrow> execution_result" where
  "docker_result c deadline duration out err trunc code =
     (case code of
        None \<Rightarrow> \<lparr>res_status = TIMEOUT_STATUS, exit_code = None, stdout = out, stderr = err, duration_seconds = duration,
          truncated = trunc, res_detail = ''payload exceeded '' @ format_fixed 1 deadline @ ''s deadline; container removed''\<rparr>
      | Some n \<Rightarrow>
          (if 125 \<le> n \<and> is_cli_fault n err then
             \<lparr>res_status = SANDBOX_ERROR, exit_code = Some n, stdout = out, stderr = err, duration_seconds = duration,
               truncated = trunc, res_detail = ''docker CLI reported an infrastructure fault''\<rparr>
           else \<lparr>res_status = COMPLETED, exit_code = Some n, stdout = out, stderr = err, duration_seconds = duration,
               truncated = trunc, res_detail = []\<rparr>))"

definition docker_execute ::
  "'w host \<Rightarrow> docker_config \<Rightarrow> 'w \<Rightarrow> execution_request \<Rightarrow> (exn + execution_result) \<times> 'w" where
  "docker_execute hs c w rq =
     (let deadline = deadline_of rq (limits c); limit = nat (output_limit_chars (limits c));
          (hex, w0) = fresh_hex hs w; name = ''ctree-sbx-'' @ hex; (started, w1) = perf_counter hs w0 in
      case run_bounded hs w1 (build_command hs c name rq)
             (frame_payload (encode_text (req_code rq)) (encode_text (req_stdin rq)))
             (deadline + kill_grace_seconds c) (capture_bytes_for limit) of
        (Inl e, w2) \<Rightarrow> (Inl (if exn_kind e = OtherException ''FileNotFoundError''
            then Exn DockerUnavailableError (''docker binary '' @ py_repr (docker_binary c) @ '' not found'') else e), w2)
      | (Inr run, w2) \<Rightarrow>
          (let (ended, w3) = perf_counter hs w2;
               (out, out_dropped) = decode_captured (decode hs) (run_stdout run) (stdout_truncated run) limit;
               (err, err_dropped) = decode_captured (decode hs) (run_stderr run) (stderr_truncated run) limit;
               result = docker_result c deadline (ended - started) out err (out_dropped \<or> err_dropped) (returncode run)
           in if returncode run = None then (case force_remove hs c w3 name of
                  (Inl e, w4) \<Rightarrow> (Inl e, w4)
                | (Inr _, w4) \<Rightarrow> (Inr result, w4))
              else (Inr result, w3)))"

definition is_available :: "'w host \<Rightarrow> string \<Rightarrow> 'w \<Rightarrow> (exn + bool) \<times> 'w" where
  "is_available hs binary w = (case command hs w [binary, ''info'', ''--format'', ''{{.OSType}}''] of
       (Inl e, w1) \<Rightarrow> (if os_error (exn_kind e) \<or> exn_kind e = OtherException ''TimeoutExpired'' then Inr False else Inl e, w1)
     | (Inr r, w1) \<Rightarrow> (Inr (cmd_code r = 0 \<and> py_lower (py_strip (cmd_stdout r)) = ''linux''), w1))"

definition ensure_image :: "'w host \<Rightarrow> docker_config \<Rightarrow> bool \<Rightarrow> string \<Rightarrow> 'w \<Rightarrow> (exn + bool) \<times> 'w" where
  "ensure_image hs c build_if_missing build_context w =
     (case command hs w [docker_binary c, ''image'', ''inspect'', image c] of
        (Inl e, w1) \<Rightarrow> (Inl e, w1)
      | (Inr r, w1) \<Rightarrow>
          (if cmd_code r = 0 then (Inr True, w1)
           else if \<not> build_if_missing then (Inr False, w1)
           else (case command hs w1 [docker_binary c, ''build'', ''--tag'', image c, build_context] of
               (Inl e, w2) \<Rightarrow> (Inl e, w2)
             | (Inr b, w2) \<Rightarrow>
                 (if cmd_code b \<noteq> 0 then
                    (Inl (Exn DockerUnavailableError (''sandbox image build failed: ''
                       @ (let s = py_strip (cmd_stderr b) in drop (length s - 500) s))), w2)
                  else (Inr True, w2)))))"

subsection \<open>Backend selection\<close>

text \<open>The module's globals: the cached probe and what is known of the image.\<close>

record backend_state =
  probe_expiry :: pyfloat
  probe_result :: bool
  image_ready :: bool
  image_error :: "string option"

definition initial_backend :: backend_state where
  "initial_backend = \<lparr>probe_expiry = 0, probe_result = False, image_ready = False, image_error = None\<rparr>"

datatype backend = DockerBackend docker_config | SubprocessBackend resource_limits

definition docker_available ::
  "'w host \<Rightarrow> pyfloat \<Rightarrow> backend_state \<times> 'w \<Rightarrow> (exn + bool) \<times> backend_state \<times> 'w" where
  "docker_available hs ttl st = (case st of (b, w) \<Rightarrow>
     (let (now, w1) = host_clock hs w in
      if now < probe_expiry b then (Inr (probe_result b), b, w1)
      else (case is_available hs ''docker'' w1 of
          (Inl e, w2) \<Rightarrow> (Inl e, b, w2)
        | (Inr r, w2) \<Rightarrow> (let (later, w3) = host_clock hs w2
             in (Inr r, b\<lparr>probe_result := r, probe_expiry := later + ttl\<rparr>, w3)))))"

text \<open>The part of \<open>select_executor\<close> after the image is known to be usable or not.\<close>

definition prepare_image ::
  "'w host \<Rightarrow> string \<Rightarrow> backend_state \<times> 'w \<Rightarrow> (exn + unit) \<times> backend_state \<times> 'w" where
  "prepare_image hs context_dir st = (case st of (b, w) \<Rightarrow>
     (if image_ready b then (Inr (), b, w)
      else (case ensure_image hs default_docker True context_dir w of
          (Inl e, w1) \<Rightarrow> (if exn_kind e = DockerUnavailableError
              then (Inr (), b\<lparr>image_error := Some (exn_text e)\<rparr>, w1) else (Inl e, b, w1))
        | (Inr _, w1) \<Rightarrow> (Inr (), b\<lparr>image_ready := True\<rparr>, w1))))"

definition fallback :: "backend_state \<Rightarrow> backend \<times> string" where
  "fallback b = (SubprocessBackend default_limits, ''subprocess fallback (no isolation; ''
     @ (if image_error b \<noteq> None then ''sandbox image unavailable'' else ''Docker daemon unreachable'') @ '')'')"

definition select_executor ::
  "'w host \<Rightarrow> string \<Rightarrow> backend_state \<times> 'w \<Rightarrow> (exn + backend \<times> string) \<times> backend_state \<times> 'w" where
  "select_executor hs context_dir st =
     (case docker_available hs (Fin 30) st of
        (Inl e, st1) \<Rightarrow> (Inl e, st1)
      | (Inr available, b, w) \<Rightarrow>
          (if available \<and> image_error b = None then
             (case prepare_image hs context_dir (b, w) of
                (Inl e, st2) \<Rightarrow> (Inl e, st2)
              | (Inr _, b2, w2) \<Rightarrow>
                  (Inr (if image_ready b2 then (DockerBackend default_docker, ''docker ('' @ image default_docker @ '')'')
                        else fallback b2), b2, w2))
           else (Inr (fallback b), b, w)))"

subsection \<open>What the executors guarantee\<close>

lemma decode_captured_length:
  "decode_captured dec data trunc limit = (out, dropped) \<Longrightarrow> length out \<le> limit"
  by (auto simp: decode_captured_def clip_output_def Let_def split: if_splits)

lemma normalize_newlines_length: "length (normalize_newlines s) \<le> length s"
  by (induction s rule: normalize_newlines.induct) auto

text \<open>The container profile is fixed by configuration: the command line of every payload holds the
  isolation options and no part of the request, so code reaches the interpreter over stdin only and two
  requests under one name run with the same command.\<close>

definition has_option :: "string list \<Rightarrow> string list \<Rightarrow> bool" where
  "has_option opt cmd \<longleftrightarrow> (\<exists>pre post. cmd = pre @ opt @ post)"

lemma has_option_at: "take (length opt) (drop n cmd) = opt \<Longrightarrow> has_option opt cmd"
  unfolding has_option_def
  by (rule exI [of _ "take n cmd"], rule exI [of _ "drop (length opt) (drop n cmd)"]) (metis append_take_drop_id)

theorem docker_command_hardened:
  "build_command hs c name rq = build_command hs c name rq'"
  "has_option [''--name'', name] (build_command hs c name rq)"
  "has_option [''--network'', ''none''] (build_command hs c name rq)"
  "has_option [''--read-only''] (build_command hs c name rq)"
  "has_option [''--cap-drop'', ''ALL''] (build_command hs c name rq)"
  "has_option [''--security-opt'', ''no-new-privileges''] (build_command hs c name rq)"
  "has_option [''--memory'', str_int (memory_mb (limits c)) @ ''m''] (build_command hs c name rq)"
proof -
  show "build_command hs c name rq = build_command hs c name rq'" by (simp add: build_command_def)
  show "has_option [''--name'', name] (build_command hs c name rq)" by (rule has_option_at [of _ 4]) (simp add: build_command_def)
  show "has_option [''--network'', ''none''] (build_command hs c name rq)" by (rule has_option_at [of _ 6]) (simp add: build_command_def)
  show "has_option [''--read-only''] (build_command hs c name rq)" by (rule has_option_at [of _ 16]) (simp add: build_command_def)
  show "has_option [''--cap-drop'', ''ALL''] (build_command hs c name rq)" by (rule has_option_at [of _ 19]) (simp add: build_command_def)
  show "has_option [''--security-opt'', ''no-new-privileges''] (build_command hs c name rq)"
    by (rule has_option_at [of _ 21]) (simp add: build_command_def)
  show "has_option [''--memory'', str_int (memory_mb (limits c)) @ ''m''] (build_command hs c name rq)"
    by (rule has_option_at [of _ 8]) (simp add: build_command_def)
qed

lemma remove_result:
  "(if b then (case force_remove hs c w3 name of (Inl e, w4) \<Rightarrow> (Inl e, w4) | (Inr _, w4) \<Rightarrow> (Inr R, w4)) else (Inr R, w3)) = (Inr res, w')
     \<Longrightarrow> res = R \<and> w' = (if b then snd (command hs w3 [docker_binary c, ''rm'', ''-f'', name]) else w3)"
proof (cases b)
  case True
  assume eq: "(if b then (case force_remove hs c w3 name of (Inl e, w4) \<Rightarrow> (Inl e, w4) | (Inr _, w4) \<Rightarrow> (Inr R, w4)) else (Inr R, w3)) = (Inr res, w')"
  obtain x w4 where f: "force_remove hs c w3 name = (x, w4)" by (cases "force_remove hs c w3 name")
  have "w4 = snd (command hs w3 [docker_binary c, ''rm'', ''-f'', name])"
    using f by (auto simp: force_remove_def split: prod.splits sum.splits if_splits)
  then show ?thesis using eq True f by (cases x) simp_all
qed simp

text \<open>What the bounded reader keeps of a stream whose chunks are not empty.\<close>

lemma captured_prefix:
  assumes "[] \<notin> set chunks"
  shows "reader_data (reader_run chunks (new_reader cap)) = take cap (concat chunks)"
    "reader_truncated (reader_run chunks (new_reader cap)) = (cap < length (concat chunks))"
  using reader_run_spec [OF new_reader_ok assms, of cap] by (simp_all add: new_reader_def reader_data_def)

text \<open>An execution that returned: what it asked of the host, in order, and the record it built from the answers.\<close>

lemma docker_execute_parts:
  assumes "docker_execute hs c w rq = (Inr res, w')"
  shows "\<exists>hex w0 t0 w1 ch w2 t1 w3 out od err ed.
      fresh_hex hs w = (hex, w0) \<and> perf_counter hs w0 = (t0, w1) \<and>
      launch hs w1 (build_command hs c (''ctree-sbx-'' @ hex) rq) (frame_payload (encode_text (req_code rq)) (encode_text (req_stdin rq)))
        (deadline_of rq (limits c) + kill_grace_seconds c) = (Inr ch, w2) \<and> perf_counter hs w2 = (t1, w3) \<and>
      (let limit = nat (output_limit_chars (limits c)); keep = (\<lambda>chunks. reader_run chunks (new_reader (capture_bytes_for limit))) in
         decode_captured (decode hs) (reader_data (keep (child_out ch))) (reader_truncated (keep (child_out ch))) limit = (out, od) \<and>
         decode_captured (decode hs) (reader_data (keep (child_err ch))) (reader_truncated (keep (child_err ch))) limit = (err, ed)) \<and>
      res = docker_result c (deadline_of rq (limits c)) (t1 - t0) out err (od \<or> ed) (child_code ch) \<and>
      w' = (if child_code ch = None then snd (command hs w3 [docker_binary c, ''rm'', ''-f'', ''ctree-sbx-'' @ hex]) else w3)"
proof -
  let ?limit = "nat (output_limit_chars (limits c))" and ?cap = "capture_bytes_for (nat (output_limit_chars (limits c)))"
  let ?input = "frame_payload (encode_text (req_code rq)) (encode_text (req_stdin rq))"
  let ?wait = "deadline_of rq (limits c) + kill_grace_seconds c"
  obtain hex w0 where h: "fresh_hex hs w = (hex, w0)" by fastforce
  obtain t0 w1 where p: "perf_counter hs w0 = (t0, w1)" by fastforce
  let ?cmd = "build_command hs c (''ctree-sbx-'' @ hex) rq"
  obtain r w2 where r: "run_bounded hs w1 ?cmd ?input ?wait ?cap = (r, w2)" by fastforce
  have eq: "docker_execute hs c w rq = (case (r, w2) of (Inl e, w2) \<Rightarrow> (Inl (if exn_kind e = OtherException ''FileNotFoundError''
            then Exn DockerUnavailableError (''docker binary '' @ py_repr (docker_binary c) @ '' not found'') else e), w2)
      | (Inr run, w2) \<Rightarrow>
          (let (ended, w3) = perf_counter hs w2;
               (out, out_dropped) = decode_captured (decode hs) (run_stdout run) (stdout_truncated run) ?limit;
               (err, err_dropped) = decode_captured (decode hs) (run_stderr run) (stderr_truncated run) ?limit;
               result = docker_result c (deadline_of rq (limits c)) (ended - t0) out err (out_dropped \<or> err_dropped) (returncode run)
           in if returncode run = None then (case force_remove hs c w3 (''ctree-sbx-'' @ hex) of
                  (Inl e, w4) \<Rightarrow> (Inl e, w4)
                | (Inr _, w4) \<Rightarrow> (Inr result, w4))
              else (Inr result, w3)))"
    unfolding docker_execute_def Let_def h p prod.case r ..
  obtain br where br: "r = Inr br" using assms eq by (cases r) simp_all
  obtain ch where ch: "launch hs w1 ?cmd ?input ?wait = (Inr ch, w2)"
    and fields: "returncode br = child_code ch"
      "run_stdout br = reader_data (reader_run (child_out ch) (new_reader ?cap))"
      "stdout_truncated br = reader_truncated (reader_run (child_out ch) (new_reader ?cap))"
      "run_stderr br = reader_data (reader_run (child_err ch) (new_reader ?cap))"
      "stderr_truncated br = reader_truncated (reader_run (child_err ch) (new_reader ?cap))"
    using r br by (auto simp: run_bounded_def Let_def split: if_splits prod.splits sum.splits)
  obtain t1 w3 where p2: "perf_counter hs w2 = (t1, w3)" by fastforce
  obtain out od where o1: "decode_captured (decode hs) (run_stdout br) (stdout_truncated br) ?limit = (out, od)" by fastforce
  obtain err ed where o2: "decode_captured (decode hs) (run_stderr br) (stderr_truncated br) ?limit = (err, ed)" by fastforce
  let ?R = "docker_result c (deadline_of rq (limits c)) (t1 - t0) out err (od \<or> ed) (returncode br)"
  have "docker_execute hs c w rq = (if returncode br = None then (case force_remove hs c w3 (''ctree-sbx-'' @ hex) of
                  (Inl e, w4) \<Rightarrow> (Inl e, w4)
                | (Inr _, w4) \<Rightarrow> (Inr ?R, w4))
              else (Inr ?R, w3))"
    unfolding eq br prod.case sum.case p2 Let_def o1 o2 ..
  from remove_result [OF this [symmetric, unfolded assms]]
  have "res = ?R \<and> w' = (if returncode br = None then snd (command hs w3 [docker_binary c, ''rm'', ''-f'', ''ctree-sbx-'' @ hex]) else w3)" .
  then show ?thesis using h p ch p2 o1 o2 unfolding fields Let_def by blast
qed

text \<open>C15: A Docker execution that returns reports what the child did. It launched exactly one child, under a fresh container name
  and with a command that cuts the network, makes the file system read-only, drops all capabilities, forbids new privileges and caps
  the memory; the framed request went to its standard input; it was given the request's deadline, or the configured one where the request
  has none, extended by the grace period; and the clock is read around it. The exit code reported is the child's, the duration is the
  difference of the two readings; the status is TIMEOUT exactly when the child was killed at the deadline, SANDBOX\_ERROR
  exactly for the CLI's own exit codes with its error message (125 with one of four phrases, 126 or 127 with
  the word docker, in the lower-cased standard error), and COMPLETED otherwise. The result is ok exactly when the child
  exited with 0. Output and error are the decoded and clipped first bytes of what the child wrote,
  never longer than the configured limit, with the truncation flag, and after a timeout, and only then, the container
  is removed by name.\<close>

theorem docker_execute_classified:
  assumes "docker_execute hs c w rq = (Inr res, w')" "1 \<le> output_limit_chars (limits c)"
  shows "\<exists>hex w0 t0 w1 cmd ch w2 t1 w3.
      fresh_hex hs w = (hex, w0) \<and> perf_counter hs w0 = (t0, w1) \<and>
      cmd = build_command hs c (''ctree-sbx-'' @ hex) rq \<and>
      (\<forall>opt\<in>{[''--name'', ''ctree-sbx-'' @ hex], [''--network'', ''none''], [''--read-only''], [''--cap-drop'', ''ALL''],
         [''--security-opt'', ''no-new-privileges''], [''--memory'', str_int (memory_mb (limits c)) @ ''m'']}. has_option opt cmd) \<and>
      launch hs w1 cmd (frame_payload (encode_text (req_code rq)) (encode_text (req_stdin rq)))
        ((case req_timeout rq of None \<Rightarrow> timeout_seconds (limits c)
            | Some t \<Rightarrow> if t = 0 then timeout_seconds (limits c) else t) + kill_grace_seconds c) = (Inr ch, w2) \<and>
      perf_counter hs w2 = (t1, w3) \<and>
      exit_code res = child_code ch \<and> duration_seconds res = t1 - t0 \<and>
      res_status res = (case child_code ch of
          None \<Rightarrow> TIMEOUT_STATUS
        | Some n \<Rightarrow> (let e = py_lower (stderr res) in
            if n = 125 \<and> (py_contains ''docker:'' e \<or> py_contains ''error during connect'' e \<or>
                 py_contains ''no such image'' e \<or> py_contains ''unable to find image'' e)
               \<or> (n = 126 \<or> n = 127) \<and> py_contains ''docker'' e
            then SANDBOX_ERROR else COMPLETED)) \<and>
      (result_ok res \<longleftrightarrow> child_code ch = Some 0) \<and>
      ([] \<notin> set (child_out ch) \<and> [] \<notin> set (child_err ch) \<longrightarrow>
         (let limit = nat (output_limit_chars (limits c)); out = concat (child_out ch); err = concat (child_err ch) in
            stdout res = fst (decode_captured (decode hs) (take (4 * limit) out) (4 * limit < length out) limit) \<and>
            stderr res = fst (decode_captured (decode hs) (take (4 * limit) err) (4 * limit < length err) limit) \<and>
            truncated res = (snd (decode_captured (decode hs) (take (4 * limit) out) (4 * limit < length out) limit) \<or>
              snd (decode_captured (decode hs) (take (4 * limit) err) (4 * limit < length err) limit)))) \<and>
      int (length (stdout res)) \<le> output_limit_chars (limits c) \<and>
      int (length (stderr res)) \<le> output_limit_chars (limits c) \<and>
      w' = (if child_code ch = None then snd (command hs w3 [docker_binary c, ''rm'', ''-f'', ''ctree-sbx-'' @ hex]) else w3)"
proof -
  let ?limit = "nat (output_limit_chars (limits c))"
  obtain hex w0 t0 w1 ch w2 t1 w3 out od err ed where
      host: "fresh_hex hs w = (hex, w0)" "perf_counter hs w0 = (t0, w1)"
        "launch hs w1 (build_command hs c (''ctree-sbx-'' @ hex) rq) (frame_payload (encode_text (req_code rq)) (encode_text (req_stdin rq)))
          (deadline_of rq (limits c) + kill_grace_seconds c) = (Inr ch, w2)" "perf_counter hs w2 = (t1, w3)"
    and out: "decode_captured (decode hs) (reader_data (reader_run (child_out ch) (new_reader (capture_bytes_for ?limit))))
        (reader_truncated (reader_run (child_out ch) (new_reader (capture_bytes_for ?limit)))) ?limit = (out, od)"
    and err: "decode_captured (decode hs) (reader_data (reader_run (child_err ch) (new_reader (capture_bytes_for ?limit))))
        (reader_truncated (reader_run (child_err ch) (new_reader (capture_bytes_for ?limit)))) ?limit = (err, ed)"
    and res: "res = docker_result c (deadline_of rq (limits c)) (t1 - t0) out err (od \<or> ed) (child_code ch)"
    and w': "w' = (if child_code ch = None then snd (command hs w3 [docker_binary c, ''rm'', ''-f'', ''ctree-sbx-'' @ hex]) else w3)"
    using docker_execute_parts [OF assms(1)] unfolding Let_def by blast
  have fields: "exit_code res = child_code ch" "duration_seconds res = t1 - t0" "stdout res = out" "stderr res = err"
      "truncated res = (od \<or> ed)"
    by (simp_all add: res docker_result_def split: option.split)
  have status: "res_status res = (case child_code ch of None \<Rightarrow> TIMEOUT_STATUS
      | Some n \<Rightarrow> (let e = py_lower (stderr res) in
            if n = 125 \<and> (py_contains ''docker:'' e \<or> py_contains ''error during connect'' e \<or>
                 py_contains ''no such image'' e \<or> py_contains ''unable to find image'' e)
               \<or> (n = 126 \<or> n = 127) \<and> py_contains ''docker'' e
            then SANDBOX_ERROR else COMPLETED))"
    unfolding fields(4) by (cases "child_code ch") (auto simp: res docker_result_def is_cli_fault_def Let_def)
  have ok: "result_ok res \<longleftrightarrow> child_code ch = Some 0"
    by (auto simp: result_ok_def status fields(1) Let_def split: option.splits)
  have bytes: "stdout res = fst (decode_captured (decode hs) (take (4 * ?limit) (concat (child_out ch))) (4 * ?limit < length (concat (child_out ch))) ?limit) \<and>
      stderr res = fst (decode_captured (decode hs) (take (4 * ?limit) (concat (child_err ch))) (4 * ?limit < length (concat (child_err ch))) ?limit) \<and>
      truncated res = (snd (decode_captured (decode hs) (take (4 * ?limit) (concat (child_out ch))) (4 * ?limit < length (concat (child_out ch))) ?limit) \<or>
        snd (decode_captured (decode hs) (take (4 * ?limit) (concat (child_err ch))) (4 * ?limit < length (concat (child_err ch))) ?limit))"
    if "[] \<notin> set (child_out ch) \<and> [] \<notin> set (child_err ch)"
    using out err that unfolding fields(3-5) by (simp add: captured_prefix capture_bytes_for_def mult.commute)
  have "int (length (stdout res)) \<le> output_limit_chars (limits c)" "int (length (stderr res)) \<le> output_limit_chars (limits c)"
    using decode_captured_length [OF out] decode_captured_length [OF err] assms(2) unfolding fields(3,4) by linarith+
  moreover have "\<forall>opt\<in>{[''--name'', ''ctree-sbx-'' @ hex], [''--network'', ''none''], [''--read-only''], [''--cap-drop'', ''ALL''],
      [''--security-opt'', ''no-new-privileges''], [''--memory'', str_int (memory_mb (limits c)) @ ''m'']}.
      has_option opt (build_command hs c (''ctree-sbx-'' @ hex) rq)"
    by (simp add: docker_command_hardened)
  moreover have "deadline_of rq (limits c) = (case req_timeout rq of None \<Rightarrow> timeout_seconds (limits c)
      | Some t \<Rightarrow> if t = 0 then timeout_seconds (limits c) else t)"
    by (simp add: deadline_of_def split: option.split)
  ultimately show ?thesis using host fields(1,2) status ok bytes w' unfolding Let_def
    by (intro exI [of _ hex] exI [of _ w0] exI [of _ t0] exI [of _ w1] exI [of _ "build_command hs c (''ctree-sbx-'' @ hex) rq"]
        exI [of _ ch] exI [of _ w2] exI [of _ t1] exI [of _ w3]) (intro conjI; simp only:; blast?)
qed

definition sample_host :: "int option \<Rightarrow> unit host" where
  "sample_host code = \<lparr>launch = (\<lambda>w cmd stdin t. (Inr \<lparr>child_code = code, child_out = [[104, 105]], child_err = []\<rparr>, w)),
     command = (\<lambda>w cmd. (Inr \<lparr>cmd_code = 0, cmd_stdout = ''linux'', cmd_stderr = []\<rparr>, w)),
     perf_counter = (\<lambda>w. (0, w)), host_clock = (\<lambda>w. (0, w)), fresh_hex = (\<lambda>w. (''0'', w)),
     decode = map char_of, float_repr = (\<lambda>x. ''1.0''), bootstrap = [], python_path = ''python''\<rparr>"

theorem docker_execute_classified_witness:
  "(\<exists>res w'. docker_execute (sample_host None) default_docker () \<lparr>req_code = ''x'', req_stdin = [], req_timeout = None\<rparr> = (Inr res, w')
      \<and> res_status res = TIMEOUT_STATUS \<and> \<not> result_ok res) \<and>
   (\<exists>res w'. docker_execute (sample_host (Some 1)) default_docker () \<lparr>req_code = ''x'', req_stdin = [], req_timeout = None\<rparr> = (Inr res, w')
      \<and> res_status res = COMPLETED \<and> exit_code res = Some 1 \<and> stdout res = ''hi'')"
proof -
  let ?go = "\<lambda>code. docker_execute (sample_host code) default_docker () \<lparr>req_code = ''x'', req_stdin = [], req_timeout = None\<rparr>"
  have returns: "\<exists>res w'. ?go code = (Inr res, w')" for code
    by (simp add: docker_execute_def run_bounded_def sample_host_def Let_def capture_bytes_for_def default_docker_def
        default_limits_def force_remove_def split: prod.splits)
  have limit: "1 \<le> output_limit_chars (limits default_docker)" "nat (output_limit_chars (limits default_docker)) = 64000"
    by (simp_all add: default_docker_def default_limits_def)
  have letters: "char_of (104 :: nat) = CHR ''h''" "char_of (105 :: nat) = CHR ''i''" by code_simp+
  obtain r0 v0 where r0: "?go None = (Inr r0, v0)" using returns by blast
  obtain r1 v1 where r1: "?go (Some 1) = (Inr r1, v1)" using returns by blast
  have "res_status r0 = TIMEOUT_STATUS \<and> \<not> result_ok r0"
    using docker_execute_classified [OF r0 limit(1)] by (auto simp: sample_host_def)
  moreover have "res_status r1 = COMPLETED \<and> exit_code r1 = Some 1 \<and> stdout r1 = ''hi''"
    using docker_execute_classified [OF r1 limit(1)] unfolding limit(2)
    by (auto simp: sample_host_def Let_def decode_captured_def clip_output_def letters)
  ultimately show ?thesis using r0 r1 by blast
qed

text \<open>The backend choice does its slow work once: when the image is known to be ready, or its build has
  failed, a selection only probes the daemon (no build, no change of what is known of the image), and a
  probe within the cache interval runs no command at all.\<close>

theorem select_executor_cached:
  assumes "image_ready b \<or> image_error b \<noteq> None"
  shows "snd (select_executor hs context_dir (b, w)) = snd (docker_available hs (Fin 30) (b, w))
     \<and> image_ready (fst (snd (select_executor hs context_dir (b, w)))) = image_ready b
     \<and> image_error (fst (snd (select_executor hs context_dir (b, w)))) = image_error b
     \<and> (fst (host_clock hs w) < probe_expiry b \<longrightarrow>
          snd (select_executor hs context_dir (b, w)) = (b, snd (host_clock hs w)))"
proof -
  obtain r b1 w1 where d: "docker_available hs (Fin 30) (b, w) = (r, b1, w1)" by (metis prod_cases3)
  have keep: "image_ready b1 = image_ready b" "image_error b1 = image_error b"
    "fst (host_clock hs w) < probe_expiry b \<Longrightarrow> (b1, w1) = (b, snd (host_clock hs w))"
    using d by (auto simp: docker_available_def Let_def split: prod.splits if_splits sum.splits)
  have "snd (select_executor hs context_dir (b, w)) = (b1, w1)"
  proof (cases r)
    case (Inr av)
    show ?thesis
    proof (cases "av \<and> image_error b1 = None")
      case True
      then have "prepare_image hs context_dir (b1, w1) = (Inr (), b1, w1)"
        using assms keep(1,2) by (simp add: prepare_image_def)
      then show ?thesis using d Inr True by (simp add: select_executor_def)
    next
      case False
      then show ?thesis unfolding select_executor_def d Inr by (simp only: prod.case sum.case if_False prod.sel)
    qed
  qed (use d in \<open>simp add: select_executor_def\<close>)
  then show ?thesis using d keep by simp
qed

theorem select_executor_cached_witness:
  "snd (select_executor (sample_host None) [] (initial_backend\<lparr>image_error := Some ''no space'', probe_expiry := 1\<rparr>, ()))
     = (initial_backend\<lparr>image_error := Some ''no space'', probe_expiry := 1\<rparr>, ())"
proof -
  have clock: "host_clock (sample_host None) () = (0, ())" by (simp add: sample_host_def)
  let ?b = "initial_backend\<lparr>image_error := Some ''no space'', probe_expiry := 1\<rparr>"
  have prem: "image_ready ?b \<or> image_error ?b \<noteq> None" by simp
  have "fst (host_clock (sample_host None) ()) < probe_expiry ?b" by (simp add: clock float_consts)
  then have "snd (select_executor (sample_host None) [] (?b, ())) = (?b, snd (host_clock (sample_host None) ()))"
    by (rule mp [OF conjunct2 [OF conjunct2 [OF conjunct2 [OF select_executor_cached [OF prem]]]]])
  then show ?thesis by (simp only: clock prod.sel)
qed

end
