(* ===== verification/Thought_Node.thy ===== *)
theory Thought_Node
  imports Py_String
begin

section \<open>Thought nodes (cognitivetree/node.py)\<close>

text \<open>
  Nodes are mutable objects that point at each other: the parent link up, the children list
  down. The model keeps that: a \<open>heap\<close> is the list of the node objects in order of creation,
  an address is an index into it, and every mutation is a heap update, so aliasing between the
  tree, the index and the lists the controller holds is what it is in the code. A loop over the
  links is a \<open>partial_function\<close> whose value \<open>None\<close> is a loop that does not end;
  \<open>wf_heap\<close> is the invariant under which each of them ends.
\<close>

datatype node_status = PENDING | EVALUATED | TERMINAL | PRUNED | FAILED_NODE

fun status_value :: "node_status \<Rightarrow> string" where
  "status_value PENDING = ''pending''"
| "status_value EVALUATED = ''evaluated''"
| "status_value TERMINAL = ''terminal''"
| "status_value PRUNED = ''pruned''"
| "status_value FAILED_NODE = ''failed''"

definition all_statuses :: "node_status list" where
  "all_statuses = [PENDING, EVALUATED, TERMINAL, PRUNED, FAILED_NODE]"

text \<open>\<open>NodeStatus(value)\<close>.\<close>

definition status_of_value :: "string \<Rightarrow> exn + node_status" where
  "status_of_value v = (case List.find (\<lambda>s. status_value s = v) all_statuses of
       Some s \<Rightarrow> Inr s
     | None \<Rightarrow> Inl (Exn ValueError (py_repr v @ '' is not a valid NodeStatus'')))"

lemma status_of_value_roundtrip [simp]: "status_of_value (status_value s) = Inr s"
  by (cases s) (simp_all add: status_of_value_def all_statuses_def)

definition LIVE_STATUSES :: "node_status set" where
  "LIVE_STATUSES = {PENDING, EVALUATED}"

type_synonym addr = nat

record thought_node =
  content :: string
  parent :: "addr option"
  depth :: int
  node_id :: string
  status :: node_status
  children :: "addr list"
  visits :: int
  value_sum :: pyfloat
  score :: pyfloat
  rationale :: string
  metadata :: dict

type_synonym heap = "thought_node list"

text \<open>\<open>ThoughtNode(content=..., parent=..., depth=...)\<close> with the field defaults.\<close>

definition new_node :: "string \<Rightarrow> addr option \<Rightarrow> int \<Rightarrow> string \<Rightarrow> thought_node" where
  "new_node c p d i = \<lparr>content = c, parent = p, depth = d, node_id = i, status = PENDING,
     children = [], visits = 0, value_sum = 0, score = 0, rationale = [], metadata = []\<rparr>"

definition is_root :: "thought_node \<Rightarrow> bool" where
  "is_root n \<longleftrightarrow> parent n = None"

definition is_live :: "thought_node \<Rightarrow> bool" where
  "is_live n \<longleftrightarrow> status n \<in> LIVE_STATUSES"

definition mean_value :: "thought_node \<Rightarrow> pyfloat" where
  "mean_value n = (if visits n \<noteq> 0 then fdiv (value_sum n) (py_float_of_int (visits n)) else 0)"

definition uct_score :: "heap \<Rightarrow> addr \<Rightarrow> pyfloat \<Rightarrow> exn + pyfloat" where
  "uct_score h a w =
     (let n = h ! a in
      case parent n of
        None \<Rightarrow> Inl (Exn ValueError ''UCT is undefined for the root node'')
      | Some p \<Rightarrow>
          if visits n = 0 then Inr PInf
          else (case py_sqrt (fdiv (Fin (ln (real_of_int (max (visits (h ! p)) 1))))
                       (py_float_of_int (visits n))) of
                  Inl e \<Rightarrow> Inl e
                | Inr s \<Rightarrow> Inr (mean_value n + w * s)))"

text \<open>
  \<open>attach_child\<close>: the new object is linked from the parent's list; \<open>i\<close> is its fresh
  identifier.
\<close>

definition attach_child :: "heap \<Rightarrow> addr \<Rightarrow> string \<Rightarrow> string \<Rightarrow> heap \<times> addr" where
  "attach_child h p c i =
     (let child = length h; n = h ! p in
      (h[p := n\<lparr>children := children n @ [child]\<rparr>] @ [new_node c (Some p) (depth n + 1) i], child))"

definition record_visit :: "heap \<Rightarrow> addr \<Rightarrow> pyfloat \<Rightarrow> heap" where
  "record_visit h a v = (let n = h ! a in
     h[a := n\<lparr>visits := visits n + 1, value_sum := value_sum n + v\<rparr>])"

definition apply_evaluation :: "heap \<Rightarrow> addr \<Rightarrow> pyfloat \<Rightarrow> node_status \<Rightarrow> string \<Rightarrow> heap" where
  "apply_evaluation h a s st r = h[a := (h ! a)\<lparr>score := s, status := st, rationale := r\<rparr>]"

definition set_metadata :: "heap \<Rightarrow> addr \<Rightarrow> dict \<Rightarrow> heap" where
  "set_metadata h a d = h[a := (h ! a)\<lparr>metadata := d\<rparr>]"

definition set_status :: "heap \<Rightarrow> addr \<Rightarrow> node_status \<Rightarrow> heap" where
  "set_status h a s = h[a := (h ! a)\<lparr>status := s\<rparr>]"

partial_function (option) path_loop :: "heap \<Rightarrow> addr option \<Rightarrow> addr list \<Rightarrow> addr list option" where
  "path_loop h cur path = (case cur of
       None \<Rightarrow> Some (rev path)
     | Some a \<Rightarrow> path_loop h (parent (h ! a)) (path @ [a]))"

definition path_from_root :: "heap \<Rightarrow> addr \<Rightarrow> addr list option" where
  "path_from_root h a = path_loop h (Some a) []"

text \<open>
  The explicit stack of \<open>walk\<close>: the code pops the last element and pushes the reversed
  children; here the top of the stack is the head of the list.
\<close>

partial_function (option) walk_loop :: "heap \<Rightarrow> addr list \<Rightarrow> addr list \<Rightarrow> addr list option" where
  "walk_loop h stack out = (case stack of
       [] \<Rightarrow> Some out
     | a # rest \<Rightarrow> walk_loop h (children (h ! a) @ rest) (out @ [a]))"

definition walk :: "heap \<Rightarrow> addr \<Rightarrow> addr list option" where
  "walk h a = walk_loop h [a] []"

subsection \<open>The heap invariant\<close>

text \<open>
  Links agree both ways, children are created after their parent, and depth counts levels.
\<close>

definition wf_heap :: "heap \<Rightarrow> bool" where
  "wf_heap h \<longleftrightarrow>
     (\<forall>a<length h. distinct (children (h ! a)) \<and>
        (\<forall>c\<in>set (children (h ! a)). a < c \<and> c < length h \<and> parent (h ! c) = Some a
            \<and> depth (h ! c) = depth (h ! a) + 1) \<and>
        (\<forall>p. parent (h ! a) = Some p \<longrightarrow> p < a \<and> a \<in> set (children (h ! p))))"

text \<open>The fields that make up the structure; a mutation that keeps them keeps the invariant.\<close>

definition shape :: "heap \<Rightarrow> (string \<times> addr option \<times> int \<times> string \<times> addr list) list" where
  "shape h = map (\<lambda>n. (content n, parent n, depth n, node_id n, children n)) h"

lemma shape_length: "shape h = shape h' \<Longrightarrow> length h = length h'"
  by (drule arg_cong [where f = length]) (simp add: shape_def)

lemma shape_nth:
  assumes "shape h = shape h'" "a < length h"
  shows "content (h ! a) = content (h' ! a)" "parent (h ! a) = parent (h' ! a)"
    "depth (h ! a) = depth (h' ! a)" "node_id (h ! a) = node_id (h' ! a)"
    "children (h ! a) = children (h' ! a)"
proof -
  have "a < length h'" using assms shape_length by metis
  moreover have "shape h ! a = shape h' ! a" using assms(1) by simp
  ultimately have "(content (h ! a), parent (h ! a), depth (h ! a), node_id (h ! a), children (h ! a))
      = (content (h' ! a), parent (h' ! a), depth (h' ! a), node_id (h' ! a), children (h' ! a))"
    using assms(2) unfolding shape_def by simp
  then show "content (h ! a) = content (h' ! a)" "parent (h ! a) = parent (h' ! a)"
    "depth (h ! a) = depth (h' ! a)" "node_id (h ! a) = node_id (h' ! a)"
    "children (h ! a) = children (h' ! a)"
    by simp_all
qed

lemma shape_update:
  "(a < length h \<Longrightarrow> content n = content (h ! a) \<and> parent n = parent (h ! a) \<and> depth n = depth (h ! a)
      \<and> node_id n = node_id (h ! a) \<and> children n = children (h ! a)) \<Longrightarrow> shape (h[a := n]) = shape h"
proof (cases "a < length h")
  case True
  assume "a < length h \<Longrightarrow> content n = content (h ! a) \<and> parent n = parent (h ! a) \<and> depth n = depth (h ! a)
      \<and> node_id n = node_id (h ! a) \<and> children n = children (h ! a)"
  then have "shape (h[a := n]) = (shape h)[a := shape h ! a]"
    using True by (simp add: shape_def map_update)
  then show ?thesis by (simp only: list_update_id)
qed (simp add: list_update_beyond)

lemma shape_setters [simp]:
  "shape (record_visit h a v) = shape h"
  "shape (apply_evaluation h a s st r) = shape h"
  "shape (set_metadata h a d) = shape h"
  "shape (set_status h a st) = shape h"
  by (simp_all add: record_visit_def apply_evaluation_def set_metadata_def set_status_def Let_def shape_update)

lemma length_setters [simp]:
  "length (record_visit h a v) = length h"
  "length (apply_evaluation h a s st r) = length h"
  "length (set_metadata h a d) = length h"
  "length (set_status h a st) = length h"
  by (simp_all add: record_visit_def apply_evaluation_def set_metadata_def set_status_def Let_def)

lemma wf_heap_shape:
  assumes "shape h = shape h'" "wf_heap h"
  shows "wf_heap h'"
proof -
  note len = shape_length [OF assms(1)]
  have eq: "parent (h' ! a) = parent (h ! a)" "depth (h' ! a) = depth (h ! a)"
    "children (h' ! a) = children (h ! a)" if "a < length h" for a
    using shape_nth [OF assms(1) that] by simp_all
  show ?thesis unfolding wf_heap_def
  proof (intro allI impI conjI ballI)
    fix a assume a: "a < length h'"
    then have al: "a < length h" using len by simp
    have wa: "distinct (children (h ! a))"
      "\<And>c. c \<in> set (children (h ! a)) \<Longrightarrow> a < c \<and> c < length h \<and> parent (h ! c) = Some a
            \<and> depth (h ! c) = depth (h ! a) + 1"
      "\<And>p. parent (h ! a) = Some p \<Longrightarrow> p < a \<and> a \<in> set (children (h ! p))"
      using assms(2) al unfolding wf_heap_def by blast+
    show "distinct (children (h' ! a))" using wa(1) eq [OF al] by simp
    fix c assume "c \<in> set (children (h' ! a))"
    then have c: "c \<in> set (children (h ! a))" using eq [OF al] by simp
    show "a < c" "c < length h'" using wa(2) [OF c] len by auto
    show "parent (h' ! c) = Some a" "depth (h' ! c) = depth (h' ! a) + 1"
      using wa(2) [OF c] eq [OF al] eq [of c] by auto
  next
    fix a p assume a: "a < length h'" and p: "parent (h' ! a) = Some p"
    then have al: "a < length h" using len by simp
    have "parent (h ! a) = Some p" using p eq [OF al] by simp
    then have pa: "p < a \<and> a \<in> set (children (h ! p))" using assms(2) al unfolding wf_heap_def by blast
    then show "p < a" "a \<in> set (children (h' ! p))" using eq [of p] al by auto
  qed
qed

lemma wf_heapD:
  assumes "wf_heap h" "a < length h"
  shows "distinct (children (h ! a))"
    and "c \<in> set (children (h ! a)) \<Longrightarrow> a < c"
    and "c \<in> set (children (h ! a)) \<Longrightarrow> c < length h"
    and "c \<in> set (children (h ! a)) \<Longrightarrow> parent (h ! c) = Some a"
    and "c \<in> set (children (h ! a)) \<Longrightarrow> depth (h ! c) = depth (h ! a) + 1"
    and "parent (h ! a) = Some p \<Longrightarrow> p < a"
    and "parent (h ! a) = Some p \<Longrightarrow> a \<in> set (children (h ! p))"
proof -
  have w: "distinct (children (h ! a))"
    "\<forall>c\<in>set (children (h ! a)). a < c \<and> c < length h \<and> parent (h ! c) = Some a
        \<and> depth (h ! c) = depth (h ! a) + 1"
    "\<forall>p. parent (h ! a) = Some p \<longrightarrow> p < a \<and> a \<in> set (children (h ! p))"
    using assms unfolding wf_heap_def by blast+
  show "distinct (children (h ! a))" by (rule w(1))
  show "c \<in> set (children (h ! a)) \<Longrightarrow> a < c" "c \<in> set (children (h ! a)) \<Longrightarrow> c < length h"
    "c \<in> set (children (h ! a)) \<Longrightarrow> parent (h ! c) = Some a"
    "c \<in> set (children (h ! a)) \<Longrightarrow> depth (h ! c) = depth (h ! a) + 1"
    using w(2) by blast+
  show "parent (h ! a) = Some p \<Longrightarrow> p < a" "parent (h ! a) = Some p \<Longrightarrow> a \<in> set (children (h ! p))"
    using w(3) by blast+
qed

end
