(* ===== verification/Heap_Trees.thy ===== *)
theory Heap_Trees
  imports Thought_Node
begin

section \<open>The tree a heap represents\<close>

text \<open>
  The abstract view of the linked nodes: \<open>rep h t\<close> says the rose tree \<open>t\<close> is what hangs below
  an address, \<open>below\<close> is the descendant relation and \<open>root_path\<close> the chain of ancestors. The
  explicit-stack loops of the code are proved to return, and to compute the preorder and the
  ancestor chain, on every well-formed heap.
\<close>

datatype rtree = RNode (raddr: addr) (rkids: "rtree list")

fun rep :: "heap \<Rightarrow> rtree \<Rightarrow> bool" where
  "rep h (RNode a ts) \<longleftrightarrow> a < length h \<and> children (h ! a) = map raddr ts \<and> (\<forall>t\<in>set ts. rep h t)"

fun preorder :: "rtree \<Rightarrow> addr list" where
  "preorder (RNode a ts) = a # concat (map preorder ts)"

inductive below :: "heap \<Rightarrow> addr \<Rightarrow> addr \<Rightarrow> bool" for h a where
  self: "below h a a"
| child: "below h a b \<Longrightarrow> c \<in> set (children (h ! b)) \<Longrightarrow> below h a c"

inductive root_path :: "heap \<Rightarrow> addr \<Rightarrow> addr list \<Rightarrow> bool" for h where
  top: "parent (h ! a) = None \<Longrightarrow> root_path h a [a]"
| up: "parent (h ! a) = Some p \<Longrightarrow> root_path h p xs \<Longrightarrow> root_path h a (xs @ [a])"

subsection \<open>The walk\<close>

lemma walk_loop_rep:
  "\<forall>t\<in>set ts. rep h t \<Longrightarrow> walk_loop h (map raddr ts) out = Some (out @ concat (map preorder ts))"
proof (induction "length (concat (map preorder ts))" arbitrary: ts out rule: less_induct)
  case less
  show ?case
  proof (cases ts)
    case Nil
    then show ?thesis by (simp add: walk_loop.simps)
  next
    case (Cons t us)
    obtain a ks where t: "t = RNode a ks" by (cases t)
    have reps: "\<forall>t\<in>set (ks @ us). rep h t" and kids: "children (h ! a) = map raddr ks"
      using less.prems Cons t by auto
    have "walk_loop h (map raddr ts) out = walk_loop h (map raddr (ks @ us)) (out @ [a])"
      using Cons t kids by (subst walk_loop.simps) simp
    also have "\<dots> = Some ((out @ [a]) @ concat (map preorder (ks @ us)))"
      by (rule less.hyps) (use Cons t reps in auto)
    finally show ?thesis using Cons t by simp
  qed
qed

lemma walk_rep: "rep h t \<Longrightarrow> walk h (raddr t) = Some (preorder t)"
  using walk_loop_rep [of "[t]" h "[]"] by (simp add: walk_def)

lemma rep_list_exists:
  "(\<And>c. c \<in> set cs \<Longrightarrow> \<exists>t. rep h t \<and> raddr t = c) \<Longrightarrow> \<exists>ts. map raddr ts = cs \<and> (\<forall>t\<in>set ts. rep h t)"
proof (induction cs)
  case (Cons c cs)
  then obtain t ts where "rep h t" "raddr t = c" "map raddr ts = cs" "\<forall>t\<in>set ts. rep h t"
    by (metis list.set_intros)
  then show ?case by (intro exI [of _ "t # ts"]) auto
qed simp

text \<open>Links that point forwards are enough for every address to represent a tree.\<close>

definition forward :: "heap \<Rightarrow> bool" where
  "forward h \<longleftrightarrow> (\<forall>a<length h. \<forall>c\<in>set (children (h ! a)). a < c \<and> c < length h)"

lemma rep_exists_forward:
  assumes fwd: "forward h"
  shows "a < length h \<Longrightarrow> \<exists>t. rep h t \<and> raddr t = a"
proof (induction "length h - a" arbitrary: a rule: less_induct)
  case less
  have "\<exists>t. rep h t \<and> raddr t = c" if c: "c \<in> set (children (h ! a))" for c
  proof -
    have c': "a < c" "c < length h" using fwd less.prems c unfolding forward_def by blast+
    then have "length h - c < length h - a" by arith
    then show ?thesis using less.hyps c'(2) by blast
  qed
  then obtain ts where "map raddr ts = children (h ! a)" "\<forall>t\<in>set ts. rep h t"
    using rep_list_exists [of "children (h ! a)" h] by blast
  then show ?case using less.prems by (intro exI [of _ "RNode a ts"]) simp
qed

lemma wf_heap_forward: "wf_heap h \<Longrightarrow> forward h"
  unfolding forward_def by (auto dest: wf_heapD(2,3))

lemma rep_exists: "wf_heap h \<Longrightarrow> a < length h \<Longrightarrow> \<exists>t. rep h t \<and> raddr t = a"
  by (rule rep_exists_forward [OF wf_heap_forward])

lemma set_preorder: "rep h t \<Longrightarrow> b \<in> set (preorder t) \<longleftrightarrow> below h (raddr t) b"
proof
  show "rep h t \<Longrightarrow> b \<in> set (preorder t) \<Longrightarrow> below h (raddr t) b"
  proof (induction t)
    case (RNode a ts)
    have lift: "below h t b \<Longrightarrow> t \<in> set (children (h ! a)) \<Longrightarrow> below h a b" for t b
      by (induction rule: below.induct) (auto intro: below.intros)
    show ?case using RNode lift by (auto intro: below.self)
  qed
next
  assume r: "rep h t" and b: "below h (raddr t) b"
  have step: "rep h t \<Longrightarrow> b \<in> set (preorder t) \<Longrightarrow> c \<in> set (children (h ! b)) \<Longrightarrow> c \<in> set (preorder t)"
    for t b c
  proof (induction t)
    case (RNode a ts)
    show ?case
    proof (cases "b = a")
      case True
      then obtain t where "t \<in> set ts" "c = raddr t" using RNode.prems by auto
      moreover have "raddr t \<in> set (preorder t)" by (cases t) simp
      ultimately show ?thesis by auto
    qed (use RNode in auto)
  qed
  from b r show "b \<in> set (preorder t)"
  proof (induction rule: below.induct)
    case self
    then show ?case by (cases t) simp
  qed (use step in blast)
qed

lemma below_ge:
  assumes "wf_heap h" "a < length h"
  shows "below h a b \<Longrightarrow> a \<le> b \<and> b < length h"
proof (induction rule: below.induct)
  case (child b c)
  then show ?case using wf_heapD(2,3) [OF assms(1), of b c] by auto
qed (simp add: assms)

lemma below_parent:
  assumes "wf_heap h" "a < length h"
  shows "below h a b \<Longrightarrow> b \<noteq> a \<Longrightarrow> \<exists>p. parent (h ! b) = Some p \<and> below h a p"
proof (induction rule: below.induct)
  case (child b c)
  then have "b < length h" using below_ge assms by blast
  then show ?case using wf_heapD(4) [OF assms(1)] child by blast
qed simp

lemma below_trans: "below h b c \<Longrightarrow> below h a b \<Longrightarrow> below h a c"
  by (induction rule: below.induct) (auto intro: below.intros)

lemma siblings_disjoint:
  assumes wf: "wf_heap h" and p: "p < length h"
    and c: "c \<in> set (children (h ! p))" and d: "d \<in> set (children (h ! p))" and cd: "c \<noteq> d"
  shows "below h c b \<Longrightarrow> below h d b \<Longrightarrow> False"
proof (induction b rule: less_induct)
  case (less b)
  note kid = wf_heapD [OF wf p]
  show False
  proof (cases "b = c \<or> b = d")
    case True
    then obtain e where e: "e \<in> {c, d}" "b \<noteq> e" "below h e b" "b \<in> set (children (h ! p))"
      using less.prems cd c d by blast
    have e': "e \<in> set (children (h ! p))" using c d e(1) by auto
    obtain q where "parent (h ! b) = Some q" "below h e q"
      using below_parent [OF wf kid(3) [OF e'] e(3) e(2)] by blast
    then have "below h e p" using kid(4) [OF e(4)] by simp
    then have "e \<le> p" using below_ge [OF wf kid(3) [OF e'], of p] by blast
    then show False using kid(2) [OF e'] by simp
  next
    case False
    obtain q where q: "parent (h ! b) = Some q" "below h c q"
      using below_parent [OF wf kid(3) [OF c] less.prems(1)] False by blast
    moreover have "below h d q"
      using below_parent [OF wf kid(3) [OF d] less.prems(2)] False q(1) by auto
    moreover have "q < b"
      using q(1) wf_heapD(6) [OF wf] below_ge [OF wf kid(3) [OF c] less.prems(1)] by blast
    ultimately show False using less.IH by blast
  qed
qed

lemma distinct_concat_map:
  assumes "distinct xs" "\<And>x. x \<in> set xs \<Longrightarrow> distinct (f x)"
    "\<And>x y. x \<in> set xs \<Longrightarrow> y \<in> set xs \<Longrightarrow> x \<noteq> y \<Longrightarrow> set (f x) \<inter> set (f y) = {}"
  shows "distinct (concat (map f xs))"
  using assms by (induction xs) (auto simp: disjoint_iff)

lemma distinct_preorder:
  assumes wf: "wf_heap h" shows "rep h t \<Longrightarrow> distinct (preorder t)"
proof (induction t)
  case (RNode a ts)
  then have a: "a < length h" and kids: "children (h ! a) = map raddr ts"
    and reps: "\<And>t. t \<in> set ts \<Longrightarrow> rep h t" by auto
  have inj: "distinct (map raddr ts)" using wf_heapD(1) [OF wf a] kids by simp
  have mem: "b \<in> set (preorder t) \<longleftrightarrow> below h (raddr t) b" if "t \<in> set ts" for t b
    using set_preorder [OF reps [OF that]] .
  have "distinct (concat (map preorder ts))"
  proof (rule distinct_concat_map)
    show "distinct ts" using inj distinct_map by blast
    show "distinct (preorder t)" if "t \<in> set ts" for t using RNode.IH that reps by blast
    fix t u assume tu: "t \<in> set ts" "u \<in> set ts" "t \<noteq> u"
    then have "raddr t \<noteq> raddr u" using inj by (meson distinct_map inj_on_def)
    then show "set (preorder t) \<inter> set (preorder u) = {}"
      using siblings_disjoint [OF wf a, of "raddr t" "raddr u"] tu mem kids by auto
  qed
  moreover have "a \<notin> set (preorder t)" if t: "t \<in> set ts" for t
  proof
    assume "a \<in> set (preorder t)"
    then have "below h (raddr t) a" using mem [OF t] by simp
    moreover have "raddr t \<in> set (children (h ! a))" using t kids by simp
    ultimately show False using below_ge [OF wf, of "raddr t" a] wf_heapD(2,3) [OF wf a] by fastforce
  qed
  ultimately show ?case by auto
qed

text \<open>What \<open>walk\<close> returns: every descendant once, the start first.\<close>

lemma walk_total:
  assumes "wf_heap h" "a < length h"
  obtains xs where "walk h a = Some xs" "distinct xs" "\<And>b. b \<in> set xs \<longleftrightarrow> below h a b"
    "xs \<noteq> []" "hd xs = a"
proof -
  obtain t where t: "rep h t" "raddr t = a" using rep_exists assms by blast
  show thesis
  proof
    show "walk h a = Some (preorder t)" using walk_rep t by blast
    show "distinct (preorder t)" using distinct_preorder assms t by blast
    show "b \<in> set (preorder t) \<longleftrightarrow> below h a b" for b using set_preorder t by blast
    show "preorder t \<noteq> []" "hd (preorder t) = a" using t by (cases t; simp)+
  qed
qed

subsection \<open>The path to the root\<close>

lemma path_loop_root_path: "root_path h a xs \<Longrightarrow> path_loop h (Some a) out = Some (xs @ rev out)"
proof (induction arbitrary: out rule: root_path.induct)
  case (top a)
  then show ?case by (simp add: path_loop.simps)
next
  case (up a p xs)
  then show ?case by (subst path_loop.simps) simp
qed

lemma root_path_exists: "wf_heap h \<Longrightarrow> a < length h \<Longrightarrow> \<exists>xs. root_path h a xs"
proof (induction a rule: less_induct)
  case (less a)
  show ?case
  proof (cases "parent (h ! a)")
    case (Some p)
    then have "p < a" using wf_heapD(6) less.prems by blast
    then show ?thesis using less Some by (meson dual_order.strict_trans root_path.up)
  qed (auto intro: root_path.top)
qed

lemma root_path_facts:
  assumes wf: "wf_heap h"
  shows "root_path h a xs \<Longrightarrow> a < length h \<Longrightarrow>
    xs \<noteq> [] \<and> last xs = a \<and> parent (h ! hd xs) = None \<and> sorted_wrt (<) xs
    \<and> depth (h ! a) = depth (h ! hd xs) + int (length xs) - 1 \<and> (\<forall>b. b \<in> set xs \<longleftrightarrow> below h b a \<and> b < length h)"
proof (induction rule: root_path.induct)
  case (top a)
  have "b = a" if "below h b a" "b < length h" for b
    using below_parent [OF wf that(2,1)] top by auto
  then show ?case using top by (auto intro: below.self)
next
  case (up a p xs)
  note pa = wf_heapD(6,7) [OF wf up.prems up.hyps(1)]
  have p: "p < length h" using pa(1) up.prems by simp
  note IH = up.IH [OF p]
  have "below h b a \<longleftrightarrow> b = a \<or> below h b p" if "b < length h" for b
    using below_parent [OF wf that, of a] below.child [OF _ pa(2)] up.hyps(1) by (auto intro: below.self)
  moreover have "\<forall>b\<in>set xs. b < a" using IH below_ge [OF wf] pa(1) by (meson order_le_less_trans)
  moreover have "depth (h ! a) = depth (h ! p) + 1" using wf_heapD(5) [OF wf p] pa(2) by blast
  ultimately show ?case using IH up.prems p by (auto simp: sorted_wrt_append hd_append)
qed

lemma path_total:
  assumes "wf_heap h" "a < length h"
  obtains xs where "path_from_root h a = Some xs" "xs \<noteq> []" "last xs = a" "parent (h ! hd xs) = None"
    "distinct xs" "depth (h ! a) = depth (h ! hd xs) + int (length xs) - 1"
    "\<And>b. b \<in> set xs \<longleftrightarrow> below h b a \<and> b < length h"
proof -
  obtain xs where r: "root_path h a xs" using root_path_exists assms by blast
  have "distinct xs" using root_path_facts [OF assms(1) r assms(2)] strict_sorted_iff by blast
  then show thesis
    using that root_path_facts [OF assms(1) r assms(2)] path_loop_root_path [OF r, of "[]"]
    by (simp add: path_from_root_def)
qed

subsection \<open>Loops read the structure only\<close>

lemma below_shape: "shape h = shape h' \<Longrightarrow> wf_heap h \<Longrightarrow> a < length h \<Longrightarrow> below h a b \<longleftrightarrow> below h' a b"
proof -
  have one: "below g' a b" if "below g a b" "shape g = shape g'" "wf_heap g" "a < length g" for g g' :: heap
    using that
  proof (induction rule: below.induct)
    case (child b c)
    then have "b < length g" using below_ge by blast
    then show ?case using child shape_nth(5) [OF child.prems(1)] by (metis below.child)
  qed (rule below.self)
  assume "shape h = shape h'" "wf_heap h" "a < length h"
  then show ?thesis using one [of h h'] one [of h' h] wf_heap_shape shape_length by metis
qed

end
