(* ===== verification/Thought_Tree.thy ===== *)
theory Thought_Tree
  imports Heap_Trees
begin

section \<open>The tree container (cognitivetree/tree.py)\<close>

text \<open>
  \<open>thought_tree\<close> is the object \<open>ThoughtTree\<close>: the node heap, the root's address and the
  identifier index, a dictionary in insertion order. \<open>wf_tree\<close> is the class invariant: the
  links are well formed, the root is the only node without a parent, and the index lists every
  node exactly once under its own identifier.
\<close>

record thought_tree =
  tree_heap :: heap
  tree_root :: addr
  tree_index :: "(string \<times> addr) list"

definition new_tree :: "string \<Rightarrow> string \<Rightarrow> thought_tree" where
  "new_tree root_content i =
     \<lparr>tree_heap = [new_node root_content None 0 i], tree_root = 0, tree_index = [(i, 0)]\<rparr>"

definition tree_len :: "thought_tree \<Rightarrow> nat" where
  "tree_len t = length (tree_index t)"

definition tree_contains :: "thought_tree \<Rightarrow> string \<Rightarrow> bool" where
  "tree_contains t i \<longleftrightarrow> map_of (tree_index t) i \<noteq> None"

definition tree_get :: "thought_tree \<Rightarrow> string \<Rightarrow> exn + addr" where
  "tree_get t i = (case map_of (tree_index t) i of
       Some a \<Rightarrow> Inr a
     | None \<Rightarrow> Inl (Exn KeyError (py_repr (''unknown node id '' @ py_repr i))))"

definition nodes :: "thought_tree \<Rightarrow> addr list option" where
  "nodes t = walk (tree_heap t) (tree_root t)"

definition add_child :: "thought_tree \<Rightarrow> addr \<Rightarrow> string \<Rightarrow> string \<Rightarrow> exn + (thought_tree \<times> addr)" where
  "add_child t p c i =
     (if \<not> tree_contains t (node_id (tree_heap t ! p))
      then Inl (Exn KeyError (py_repr
        (''parent '' @ py_repr (node_id (tree_heap t ! p)) @ '' does not belong to this tree'')))
      else let (h, child) = attach_child (tree_heap t) p c i
           in Inr (t\<lparr>tree_heap := h, tree_index := AList.update i child (tree_index t)\<rparr>, child))"

text \<open>The body of \<open>prune_subtree\<close> over the nodes the walk yields, with its counter.\<close>

fun prune_loop :: "heap \<Rightarrow> addr list \<Rightarrow> nat \<Rightarrow> heap \<times> nat" where
  "prune_loop h [] pruned = (h, pruned)"
| "prune_loop h (d # ds) pruned =
     (if is_live (h ! d) then prune_loop (set_status h d PRUNED) ds (pruned + 1)
      else prune_loop h ds pruned)"

definition prune_subtree :: "thought_tree \<Rightarrow> addr \<Rightarrow> (thought_tree \<times> nat) option" where
  "prune_subtree t a = (case walk (tree_heap t) a of
       None \<Rightarrow> None
     | Some ds \<Rightarrow> (let (h, n) = prune_loop (tree_heap t) ds 0 in Some (t\<lparr>tree_heap := h\<rparr>, n)))"

text \<open>\<open>None\<close> is a walk that does not end; \<open>Some None\<close> a tree without an accepted terminal.\<close>

definition best_terminal :: "thought_tree \<Rightarrow> addr option option" where
  "best_terminal t = (case nodes t of
       None \<Rightarrow> None
     | Some ns \<Rightarrow> (case filter (\<lambda>a. status (tree_heap t ! a) = TERMINAL) ns of
           [] \<Rightarrow> Some None
         | a # as \<Rightarrow> Some (Some (max_key (\<lambda>x y. y < x) (\<lambda>a. score (tree_heap t ! a)) a as))))"

text \<open>Tuples compare at the first component that differs.\<close>

fun path_key_gt :: "pyfloat \<times> pyfloat \<times> int \<Rightarrow> pyfloat \<times> pyfloat \<times> int \<Rightarrow> bool" where
  "path_key_gt (m, s, v) (m', s', v') \<longleftrightarrow>
     (if \<not> feq m m' then m' < m else if \<not> feq s s' then s' < s else v' < v)"

definition path_key :: "heap \<Rightarrow> addr \<Rightarrow> pyfloat \<times> pyfloat \<times> int" where
  "path_key h c = (mean_value (h ! c), score (h ! c), visits (h ! c))"

partial_function (option) best_loop :: "heap \<Rightarrow> addr \<Rightarrow> addr list \<Rightarrow> addr list option" where
  "best_loop h node path =
     (case filter (\<lambda>c. is_live (h ! c)) (children (h ! node)) of
        [] \<Rightarrow> Some path
      | c # cs \<Rightarrow> (let best = max_key path_key_gt (path_key h) c cs in best_loop h best (path @ [best])))"

definition best_path :: "thought_tree \<Rightarrow> addr list option" where
  "best_path t = (case best_terminal t of
       None \<Rightarrow> None
     | Some (Some a) \<Rightarrow> path_from_root (tree_heap t) a
     | Some None \<Rightarrow> best_loop (tree_heap t) (tree_root t) [tree_root t])"

subsection \<open>The class invariant\<close>

definition wf_tree :: "thought_tree \<Rightarrow> bool" where
  "wf_tree t \<longleftrightarrow> wf_heap (tree_heap t) \<and> tree_root t < length (tree_heap t)
     \<and> (\<forall>a<length (tree_heap t). parent (tree_heap t ! a) = None \<longleftrightarrow> a = tree_root t)
     \<and> distinct (map fst (tree_index t))
     \<and> set (tree_index t) = {(node_id (tree_heap t ! a), a) |a. a < length (tree_heap t)}"

lemma wf_treeD:
  assumes "wf_tree t"
  shows "wf_heap (tree_heap t)" "tree_root t < length (tree_heap t)"
    "\<And>a. a < length (tree_heap t) \<Longrightarrow> parent (tree_heap t ! a) = None \<longleftrightarrow> a = tree_root t"
    "distinct (map fst (tree_index t))"
    "set (tree_index t) = {(node_id (tree_heap t ! a), a) |a. a < length (tree_heap t)}"
  using assms by (auto simp: wf_tree_def)

lemma wf_new_tree: "wf_tree (new_tree c i)"
  by (simp add: wf_tree_def new_tree_def wf_heap_def new_node_def)

lemma wf_tree_shape:
  assumes "wf_tree t" "shape (tree_heap t) = shape h"
  shows "wf_tree (t\<lparr>tree_heap := h\<rparr>)"
proof -
  note len = shape_length [OF assms(2)] and eq = shape_nth [OF assms(2)]
  have "{(node_id (tree_heap t ! a), a) |a. a < length (tree_heap t)} = {(node_id (h ! a), a) |a. a < length h}"
    using eq(4) len by auto
  then show ?thesis
    using wf_treeD [OF assms(1)] wf_heap_shape [OF assms(2)] len eq(2)
    by (simp add: wf_tree_def)
qed

lemma wf_tree_len: assumes "wf_tree t" shows "tree_len t = length (tree_heap t)"
proof -
  have "distinct (tree_index t)" using wf_treeD(4) [OF assms] by (simp add: distinct_map)
  then have "tree_len t = card (set (tree_index t))" by (simp add: tree_len_def distinct_card)
  also have "set (tree_index t) = (\<lambda>a. (node_id (tree_heap t ! a), a)) ` {..<length (tree_heap t)}"
    using wf_treeD(5) [OF assms] by auto
  also have "card \<dots> = length (tree_heap t)" by (subst card_image) (auto simp: inj_on_def)
  finally show ?thesis .
qed

lemma wf_tree_lookup:
  assumes "wf_tree t"
  shows "map_of (tree_index t) i = Some a \<longleftrightarrow> a < length (tree_heap t) \<and> node_id (tree_heap t ! a) = i"
  using wf_treeD(4,5) [OF assms] by (auto simp: map_of_eq_Some_iff)

lemma wf_tree_contains: "wf_tree t \<Longrightarrow> a < length (tree_heap t) \<Longrightarrow> tree_contains t (node_id (tree_heap t ! a))"
  using wf_tree_lookup unfolding tree_contains_def by blast

lemma wf_tree_ids: "wf_tree t \<Longrightarrow> a < length (tree_heap t) \<Longrightarrow> b < length (tree_heap t) \<Longrightarrow>
   node_id (tree_heap t ! a) = node_id (tree_heap t ! b) \<Longrightarrow> a = b"
  using wf_tree_lookup by (metis option.inject)

lemma wf_tree_below_root:
  assumes "wf_tree t" shows "a < length (tree_heap t) \<Longrightarrow> below (tree_heap t) (tree_root t) a"
proof (induction a rule: less_induct)
  case (less a)
  note wf = wf_treeD [OF assms]
  show ?case
  proof (cases "a = tree_root t")
    case False
    then obtain p where p: "parent (tree_heap t ! a) = Some p" using wf(3) less.prems by blast
    then have "p < a" "a \<in> set (children (tree_heap t ! p))" using wf_heapD(6,7) [OF wf(1)] less.prems by auto
    then show ?thesis using less.IH [of p] less.prems below.child by fastforce
  qed (simp add: below.self)
qed

subsection \<open>add\_child\<close>

lemma alist_update_fresh: "k \<notin> fst ` set al \<Longrightarrow> AList.update k v al = al @ [(k, v)]"
  by (induction al) auto

lemma attach_child_nth:
  assumes "p < length h" "attach_child h p c i = (h', ch)"
  shows "ch = length h" "length h' = Suc (length h)"
    "h' ! length h = new_node c (Some p) (depth (h ! p) + 1) i"
    "h' ! p = (h ! p)\<lparr>children := children (h ! p) @ [length h]\<rparr>"
    "\<And>a. a < length h \<Longrightarrow> a \<noteq> p \<Longrightarrow> h' ! a = h ! a"
  using assms by (auto simp: attach_child_def Let_def nth_append)

lemma attach_child_wf:
  assumes wf: "wf_heap h" and p: "p < length h" and at: "attach_child h p c i = (h', ch)"
  shows "wf_heap h'"
proof -
  note at = attach_child_nth [OF p at]
  have kids: "children (h' ! a) = (if a = p then children (h ! p) @ [length h]
      else if a = length h then [] else children (h ! a))" if "a < length h'" for a
    using at that p by (auto simp: new_node_def)
  have par: "parent (h' ! a) = (if a = length h then Some p else parent (h ! a))" if "a < length h'" for a
    using at that p by (cases "a = p") (auto simp: new_node_def)
  have dep: "depth (h' ! a) = (if a = length h then depth (h ! p) + 1 else depth (h ! a))" if "a < length h'" for a
    using at that p by (cases "a = p") (auto simp: new_node_def)
  show ?thesis unfolding wf_heap_def
  proof (intro allI impI conjI ballI)
    fix a assume a: "a < length h'"
    consider "a = length h" | "a < length h" using a at(2) by linarith
    note ca = this
    show "distinct (children (h' ! a))"
    proof (cases rule: ca)
      case 2
      then show ?thesis using kids [OF a] wf_heapD(1,3) [OF wf 2] by auto
    qed (use kids [OF a] p in auto)
    fix b assume "b \<in> set (children (h' ! a))"
    then have b: "a < length h" "b \<in> set (children (h ! a)) \<or> a = p \<and> b = length h"
      using kids [OF a] ca p by (auto split: if_splits)
    then show "a < b" "b < length h'" using wf_heapD(2,3) [OF wf b(1), of b] at(2) by auto
    then show "parent (h' ! b) = Some a" "depth (h' ! b) = depth (h' ! a) + 1"
      using b wf_heapD(3,4,5) [OF wf b(1), of b] par [of b] dep [of b] dep [OF a] by auto
  next
    fix a q assume a: "a < length h'" and q: "parent (h' ! a) = Some q"
    show "q < a" "a \<in> set (children (h' ! q))"
    proof -
      have "(a = length h \<and> q = p) \<or> (a < length h \<and> parent (h ! a) = Some q)"
        using par [OF a] q a at(2) by (auto split: if_splits)
      then have "q < a \<and> q < length h \<and> (a \<in> set (children (h ! q)) \<or> a = length h \<and> q = p)"
        using wf_heapD(6,7) [OF wf] p by fastforce
      then show "q < a" "a \<in> set (children (h' ! q))" using kids [of q] at(2) by auto
    qed
  qed
qed

lemma add_child_spec:
  assumes wf: "wf_tree t" and p: "p < length (tree_heap t)" and fresh: "\<not> tree_contains t i"
  obtains h where "attach_child (tree_heap t) p c i = (h, length (tree_heap t))"
    "add_child t p c i = Inr (t\<lparr>tree_heap := h, tree_index := tree_index t @ [(i, length (tree_heap t))]\<rparr>,
       length (tree_heap t))"
    "wf_tree (t\<lparr>tree_heap := h, tree_index := tree_index t @ [(i, length (tree_heap t))]\<rparr>)"
proof -
  obtain h ch where at: "attach_child (tree_heap t) p c i = (h, ch)" by fastforce
  note nth = attach_child_nth [OF p at] and w = wf_treeD [OF wf]
  have fresh': "i \<notin> fst ` set (tree_index t)" using fresh by (simp add: tree_contains_def map_of_eq_None_iff)
  have add: "add_child t p c i = Inr (t\<lparr>tree_heap := h, tree_index := tree_index t @ [(i, length (tree_heap t))]\<rparr>,
       length (tree_heap t))"
    using wf_tree_contains [OF wf p] at nth(1) alist_update_fresh [OF fresh'] by (simp add: add_child_def)
  have ids: "node_id (h ! a) = (if a = length (tree_heap t) then i else node_id (tree_heap t ! a))"
    and pars: "parent (h ! a) = (if a = length (tree_heap t) then Some p else parent (tree_heap t ! a))"
    if "a < length h" for a
    using nth that p by (cases "a = p"; auto simp: new_node_def)+
  have "{(node_id (h ! a), a) |a. a < length h} = insert (i, length (tree_heap t)) (set (tree_index t))"
    using w(5) ids nth(2) by (auto simp: less_Suc_eq)
  moreover have "parent (h ! a) = None \<longleftrightarrow> a = tree_root t" if "a < length h" for a
    using pars [OF that] w(2,3) that nth(2) by (auto split: if_splits)
  ultimately have "wf_tree (t\<lparr>tree_heap := h, tree_index := tree_index t @ [(i, length (tree_heap t))]\<rparr>)"
    using attach_child_wf [OF w(1) p at] w(2,4) nth(2) fresh' by (auto simp: wf_tree_def)
  then show thesis using that at add nth(1) by simp
qed

subsection \<open>prune\_subtree\<close>

definition live_nodes :: "heap \<Rightarrow> addr set" where
  "live_nodes h = {a. a < length h \<and> is_live (h ! a)}"

lemma finite_live_nodes [simp]: "finite (live_nodes h)"
  by (simp add: live_nodes_def)

lemma set_status_nth: "a < length h \<Longrightarrow> b < length h \<Longrightarrow>
   set_status h a s ! b = (if b = a then (h ! b)\<lparr>status := s\<rparr> else h ! b)"
  by (simp add: set_status_def)

lemma prune_loop_spec:
  "distinct ds \<Longrightarrow> \<forall>d\<in>set ds. d < length h \<Longrightarrow> prune_loop h ds n = (h', m) \<Longrightarrow>
     m = n + length (filter (\<lambda>d. is_live (h ! d)) ds) \<and> length h' = length h \<and>
     (\<forall>b<length h. h' ! b = (if b \<in> set ds \<and> is_live (h ! b) then (h ! b)\<lparr>status := PRUNED\<rparr> else h ! b))"
proof (induction ds arbitrary: h n)
  case (Cons d ds)
  have d: "d < length h" using Cons.prems(2) by simp
  show ?case
  proof (cases "is_live (h ! d)")
    case True
    let ?h = "set_status h d PRUNED"
    have IH: "m = n + 1 + length (filter (\<lambda>d. is_live (?h ! d)) ds) \<and> length h' = length ?h \<and>
        (\<forall>b<length ?h. h' ! b = (if b \<in> set ds \<and> is_live (?h ! b) then (?h ! b)\<lparr>status := PRUNED\<rparr> else ?h ! b))"
      by (rule Cons.IH) (use Cons.prems True in auto)
    have other: "?h ! b = h ! b" if "b \<in> set ds" for b
      using that Cons.prems(1,2) d set_status_nth [of d h b PRUNED] by auto
    then have "filter (\<lambda>d. is_live (?h ! d)) ds = filter (\<lambda>d. is_live (h ! d)) ds"
      by (intro filter_cong) auto
    then show ?thesis using IH True Cons.prems(1) d set_status_nth [of d h _ PRUNED]
      by auto
  qed (use Cons in auto)
qed simp

text \<open>What pruning does: exactly the live descendants change, and only their status.\<close>

lemma prune_subtree_spec:
  assumes wf: "wf_tree t" and a: "a < length (tree_heap t)"
  obtains h where "prune_subtree t a = Some (t\<lparr>tree_heap := h\<rparr>,
       card {b. below (tree_heap t) a b \<and> is_live (tree_heap t ! b)})"
    "length h = length (tree_heap t)"
    "\<And>b. b < length h \<Longrightarrow> h ! b = (if below (tree_heap t) a b \<and> is_live (tree_heap t ! b)
        then (tree_heap t ! b)\<lparr>status := PRUNED\<rparr> else tree_heap t ! b)"
proof -
  note w = wf_treeD [OF wf]
  obtain ds where ds: "walk (tree_heap t) a = Some ds" "distinct ds"
    "\<And>b. b \<in> set ds \<longleftrightarrow> below (tree_heap t) a b"
    using walk_total [OF w(1) a] by metis
  obtain h m where pl: "prune_loop (tree_heap t) ds 0 = (h, m)" by fastforce
  have "\<forall>d\<in>set ds. d < length (tree_heap t)" using ds(3) below_ge [OF w(1) a] by blast
  note spec = prune_loop_spec [OF ds(2) this pl]
  have "m = card (set (filter (\<lambda>d. is_live (tree_heap t ! d)) ds))"
    using spec distinct_card [of "filter (\<lambda>d. is_live (tree_heap t ! d)) ds"] ds(2) by simp
  also have "set (filter (\<lambda>d. is_live (tree_heap t ! d)) ds)
      = {b. below (tree_heap t) a b \<and> is_live (tree_heap t ! b)}"
    using ds(3) by auto
  finally show thesis using that spec ds pl by (simp add: prune_subtree_def)
qed

lemma shape_status_only:
  assumes "length h = length g"
    "\<And>b. b < length h \<Longrightarrow> h ! b = (if P b then (g ! b)\<lparr>status := s\<rparr> else g ! b)"
  shows "shape h = shape g"
  unfolding shape_def by (rule nth_equalityI) (use assms in auto)

end
