(* ===== verification/State_Machine.thy ===== *)
theory State_Machine
  imports Py_String
begin

section \<open>The search state machine (cognitivetree/state.py)\<close>

text \<open>
  The phases, the transition table, and the machine that refuses every other edge and records
  each accepted one. The locale \<open>phase_graph\<close> states what a run relies on: terminal phases
  have no way out and every other phase can be stopped at once. Its lemmas about traces are
  used by the machine's invariant here and by the controller.
\<close>

datatype search_phase =
    IDLE
  | SELECTION
  | EXPANSION
  | EVALUATION
  | BACKPROPAGATION
  | BACKTRACKING
  | SUCCEEDED
  | EXHAUSTED
  | FAILED
  | TIMED_OUT
  | BUDGET_EXHAUSTED
  | CANCELLED

fun phase_value :: "search_phase \<Rightarrow> string" where
  "phase_value IDLE = ''idle''"
| "phase_value SELECTION = ''selection''"
| "phase_value EXPANSION = ''expansion''"
| "phase_value EVALUATION = ''evaluation''"
| "phase_value BACKPROPAGATION = ''backpropagation''"
| "phase_value BACKTRACKING = ''backtracking''"
| "phase_value SUCCEEDED = ''succeeded''"
| "phase_value EXHAUSTED = ''exhausted''"
| "phase_value FAILED = ''failed''"
| "phase_value TIMED_OUT = ''timed_out''"
| "phase_value BUDGET_EXHAUSTED = ''budget_exhausted''"
| "phase_value CANCELLED = ''cancelled''"

definition all_phases :: "search_phase list" where
  "all_phases = [IDLE, SELECTION, EXPANSION, EVALUATION, BACKPROPAGATION, BACKTRACKING,
     SUCCEEDED, EXHAUSTED, FAILED, TIMED_OUT, BUDGET_EXHAUSTED, CANCELLED]"

text \<open>\<open>SearchPhase(value)\<close>: the lookup by value, which raises on an unknown one.\<close>

definition phase_of_value :: "string \<Rightarrow> exn + search_phase" where
  "phase_of_value v = (case List.find (\<lambda>p. phase_value p = v) all_phases of
       Some p \<Rightarrow> Inr p
     | None \<Rightarrow> Inl (Exn ValueError (py_repr v @ '' is not a valid SearchPhase'')))"

lemma phase_of_value_roundtrip [simp]: "phase_of_value (phase_value p) = Inr p"
  by (cases p) (simp_all add: phase_of_value_def all_phases_def)

definition TERMINAL_PHASES :: "search_phase set" where
  "TERMINAL_PHASES = {SUCCEEDED, EXHAUSTED, FAILED, TIMED_OUT, BUDGET_EXHAUSTED, CANCELLED}"

fun transitions :: "search_phase \<Rightarrow> search_phase set" where
  "transitions IDLE = {SELECTION, FAILED, TIMED_OUT, BUDGET_EXHAUSTED, CANCELLED}"
| "transitions SELECTION =
     {EXPANSION, BACKTRACKING, EXHAUSTED, FAILED, TIMED_OUT, BUDGET_EXHAUSTED, CANCELLED}"
| "transitions EXPANSION =
     {EVALUATION, BACKTRACKING, FAILED, TIMED_OUT, BUDGET_EXHAUSTED, CANCELLED}"
| "transitions EVALUATION = {BACKPROPAGATION, FAILED, TIMED_OUT, BUDGET_EXHAUSTED, CANCELLED}"
| "transitions BACKPROPAGATION =
     {SELECTION, SUCCEEDED, EXHAUSTED, FAILED, TIMED_OUT, BUDGET_EXHAUSTED, CANCELLED}"
| "transitions BACKTRACKING =
     {SELECTION, EXHAUSTED, FAILED, TIMED_OUT, BUDGET_EXHAUSTED, CANCELLED}"
| "transitions SUCCEEDED = {}"
| "transitions EXHAUSTED = {}"
| "transitions FAILED = {}"
| "transitions TIMED_OUT = {}"
| "transitions BUDGET_EXHAUSTED = {}"
| "transitions CANCELLED = {}"

record phase_transition =
  source :: search_phase
  target :: search_phase
  trans_note :: string
  timestamp :: pyfloat

record state_machine =
  phase :: search_phase
  history :: "phase_transition list"

text \<open>\<open>SearchStateMachine.__init__\<close>.\<close>

definition new_machine :: state_machine where
  "new_machine = \<lparr>phase = IDLE, history = []\<rparr>"

definition is_terminal :: "state_machine \<Rightarrow> bool" where
  "is_terminal m \<longleftrightarrow> phase m \<in> TERMINAL_PHASES"

definition can_transition :: "state_machine \<Rightarrow> search_phase \<Rightarrow> bool" where
  "can_transition m t \<longleftrightarrow> t \<in> transitions (phase m)"

text \<open>\<open>now\<close> is the reading of \<open>time.monotonic()\<close> taken for the record.\<close>

definition transition ::
  "state_machine \<Rightarrow> search_phase \<Rightarrow> string \<Rightarrow> pyfloat \<Rightarrow> exn + (phase_transition \<times> state_machine)" where
  "transition m t nt now =
     (if \<not> can_transition m t
      then Inl (Exn InvalidTransitionError
        (''illegal transition '' @ py_repr (phase_value (phase m)) @ '' -> '' @ py_repr (phase_value t)))
      else let r = \<lparr>source = phase m, target = t, trans_note = nt, timestamp = now\<rparr>
           in Inr (r, m\<lparr>phase := t, history := history m @ [r]\<rparr>))"

subsection \<open>Traces of a phase graph\<close>

fun chain :: "('p \<Rightarrow> 'p set) \<Rightarrow> 'p \<Rightarrow> ('p \<times> 'p) list \<Rightarrow> 'p \<Rightarrow> bool" where
  "chain E p [] q \<longleftrightarrow> p = q"
| "chain E p ((a, b) # es) q \<longleftrightarrow> a = p \<and> b \<in> E a \<and> chain E b es q"

lemma chain_append: "chain E p (es @ fs) q \<longleftrightarrow> (\<exists>r. chain E p es r \<and> chain E r fs q)"
  by (induction es arbitrary: p) auto

lemma chain_snoc: "chain E p (es @ [(a, b)]) q \<longleftrightarrow> chain E p es a \<and> b \<in> E a \<and> q = b"
  by (auto simp: chain_append)

lemma chain_end_unique: "chain E p es q \<Longrightarrow> chain E p es q' \<Longrightarrow> q = q'"
  by (induction es arbitrary: p) auto

locale phase_graph =
  fixes E :: "'p \<Rightarrow> 'p set" and T :: "'p set" and start :: 'p
  assumes terminal_stuck: "p \<in> T \<Longrightarrow> E p = {}"
    and stoppable: "p \<notin> T \<Longrightarrow> E p \<inter> T \<noteq> {}"
    and start_not_terminal: "start \<notin> T"
begin

lemma terminal_iff: "p \<in> T \<longleftrightarrow> E p = {}"
  using terminal_stuck stoppable by blast

lemma chain_from_terminal: "p \<in> T \<Longrightarrow> chain E p es q \<Longrightarrow> es = [] \<and> q = p"
  by (cases es) (auto dest: terminal_stuck)

lemma chain_inner_not_terminal:
  assumes "chain E p (es @ (a, b) # fs) q"
  shows "a \<notin> T" and "fs \<noteq> [] \<Longrightarrow> b \<notin> T"
proof -
  from assms have ab: "b \<in> E a" and fs: "chain E b fs q" by (auto simp: chain_append)
  from ab show "a \<notin> T" using terminal_stuck by blast
  show "b \<notin> T" if "fs \<noteq> []" using chain_from_terminal [OF _ fs] that by blast
qed

lemma ends_terminal_once:
  assumes "chain E start es q" and "q \<in> T"
  shows "es \<noteq> [] \<and> (\<forall>e\<in>set (butlast es). snd e \<notin> T)"
proof
  show "es \<noteq> []" using assms start_not_terminal by auto
  show "\<forall>e\<in>set (butlast es). snd e \<notin> T"
  proof
    fix e assume e: "e \<in> set (butlast es)"
    then obtain xs ys where bl: "butlast es = xs @ e # ys" by (meson split_list)
    then have "es = xs @ e # ys @ [last es]" using append_butlast_last_id [of es]
      by (metis append.assoc append_Cons butlast.simps(1) in_set_butlastD e list.distinct(1) self_append_conv2)
    then show "snd e \<notin> T"
      using chain_inner_not_terminal(2) [of start xs "fst e" "snd e" "ys @ [last es]" q] assms(1) by simp
  qed
qed

lemma stop_anywhere:
  assumes "chain E start es q" shows "\<exists>fs q'. chain E start (es @ fs) q' \<and> q' \<in> T"
proof (cases "q \<in> T")
  case True
  then show ?thesis using assms by (intro exI [of _ "[]"]) auto
next
  case False
  then obtain t where "t \<in> E q" "t \<in> T" using stoppable by blast
  then show ?thesis using assms by (intro exI [of _ "[(q, t)]"] exI [of _ t]) (auto simp: chain_append)
qed

end

interpretation search_graph: phase_graph transitions TERMINAL_PHASES IDLE
proof
  fix p show "p \<in> TERMINAL_PHASES \<Longrightarrow> transitions p = {}"
    by (cases p) (auto simp: TERMINAL_PHASES_def)
  show "p \<notin> TERMINAL_PHASES \<Longrightarrow> transitions p \<inter> TERMINAL_PHASES \<noteq> {}"
    by (cases p) (auto simp: TERMINAL_PHASES_def)
qed (simp add: TERMINAL_PHASES_def)

subsection \<open>Reachable machines\<close>

inductive machine_step :: "state_machine \<Rightarrow> state_machine \<Rightarrow> bool" where
  accept: "transition m t nt now = Inr (r, m') \<Longrightarrow> machine_step m m'"

inductive machine_reachable :: "state_machine \<Rightarrow> bool" where
  new: "machine_reachable new_machine"
| step: "machine_reachable m \<Longrightarrow> machine_step m m' \<Longrightarrow> machine_reachable m'"

inductive_cases machine_stepE: "machine_step m m'"

definition edges_of :: "phase_transition list \<Rightarrow> (search_phase \<times> search_phase) list" where
  "edges_of h = map (\<lambda>r. (source r, target r)) h"

lemma edges_of_snoc [simp]: "edges_of (h @ [r]) = edges_of h @ [(source r, target r)]"
  by (simp add: edges_of_def)

lemma edges_of_Nil [simp]: "edges_of [] = []"
  by (simp add: edges_of_def)

text \<open>The machine invariant: the history is a legal path from IDLE to the current phase.\<close>

definition machine_ok :: "state_machine \<Rightarrow> bool" where
  "machine_ok m \<longleftrightarrow> chain transitions IDLE (edges_of (history m)) (phase m)"

lemma transition_Inr:
  "transition m t nt now = Inr (r, m') \<longleftrightarrow>
     can_transition m t \<and> r = \<lparr>source = phase m, target = t, trans_note = nt, timestamp = now\<rparr>
     \<and> m' = m\<lparr>phase := t, history := history m @ [r]\<rparr>"
  by (auto simp: transition_def Let_def)

lemma transition_Inl:
  "transition m t nt now = Inl e \<Longrightarrow> \<not> can_transition m t"
  by (auto simp: transition_def Let_def split: if_splits)

lemma machine_ok_new: "machine_ok new_machine"
  by (simp add: machine_ok_def new_machine_def)

lemma machine_ok_step: "machine_ok m \<Longrightarrow> machine_step m m' \<Longrightarrow> machine_ok m'"
  by (elim machine_stepE)
    (auto simp: machine_ok_def transition_Inr chain_snoc can_transition_def)

lemma reachable_machine_ok: "machine_reachable m \<Longrightarrow> machine_ok m"
  by (induction rule: machine_reachable.induct) (auto intro: machine_ok_new machine_ok_step)

text \<open>Feeding a recorded trace to a fresh machine.\<close>

fun replay_history :: "state_machine \<Rightarrow> phase_transition list \<Rightarrow> exn + state_machine" where
  "replay_history m [] = Inr m"
| "replay_history m (r # rs) = (case transition m (target r) (trans_note r) (timestamp r) of
       Inl e \<Rightarrow> Inl e
     | Inr (_, m') \<Rightarrow> replay_history m' rs)"

lemma replay_history_append:
  "replay_history m (rs @ ss) = (case replay_history m rs of Inl e \<Rightarrow> Inl e | Inr m' \<Rightarrow> replay_history m' ss)"
  by (induction rs arbitrary: m) (auto split: sum.splits prod.splits)

end
