(* ===== verification/Policies.thy ===== *)
theory Policies
  imports Thought_Tree State_Machine
begin

section \<open>Policy contracts (cognitivetree/policies.py)\<close>

text \<open>
  The verdict and critique values with their constructor checks, and the bundle of policies
  a controller is wired to. A policy is a protocol in the code, so it is a parameter here: a
  function of the outside world \<open>'w\<close> (model backends, clocks, random numbers, caches) and the
  heap, which returns or raises and leaves a new world. The only node field a policy may write
  is the metadata of the node it is given; it returns that dictionary.
\<close>

definition CRITIQUE_METADATA_KEY :: string where
  "CRITIQUE_METADATA_KEY = ''critique''"

record evaluation =
  ev_score :: pyfloat
  ev_is_terminal :: bool
  ev_rationale :: string

text \<open>\<open>Evaluation(...)\<close> with its \<open>__post_init__\<close>.\<close>

definition make_evaluation :: "pyfloat \<Rightarrow> bool \<Rightarrow> string \<Rightarrow> exn + evaluation" where
  "make_evaluation s t r =
     (if \<not> (0 \<le> s \<and> s \<le> 1) then Inl (Exn ValueError ''score must lie within [0.0, 1.0]'')
      else Inr \<lparr>ev_score = s, ev_is_terminal = t, ev_rationale = r\<rparr>)"

definition valid_evaluation :: "evaluation \<Rightarrow> bool" where
  "valid_evaluation e \<longleftrightarrow> 0 \<le> ev_score e \<and> ev_score e \<le> 1"

lemma make_evaluation_valid: "make_evaluation s t r = Inr e \<Longrightarrow> valid_evaluation e"
  by (auto simp: make_evaluation_def valid_evaluation_def split: if_splits)

datatype failure_class = NO_EXECUTION | TIMEOUT_FAILURE | SYNTAX | ASSERTION | EXCEPTION

fun failure_value :: "failure_class \<Rightarrow> string" where
  "failure_value NO_EXECUTION = ''no_execution''"
| "failure_value TIMEOUT_FAILURE = ''timeout''"
| "failure_value SYNTAX = ''syntax''"
| "failure_value ASSERTION = ''assertion''"
| "failure_value EXCEPTION = ''exception''"

definition all_failures :: "failure_class list" where
  "all_failures = [NO_EXECUTION, TIMEOUT_FAILURE, SYNTAX, ASSERTION, EXCEPTION]"

text \<open>\<open>FailureClass(value)\<close>; \<open>None\<close> is its ValueError.\<close>

definition failure_of_value :: "string \<Rightarrow> failure_class option" where
  "failure_of_value v = List.find (\<lambda>f. failure_value f = v) all_failures"

lemma failure_of_value_roundtrip [simp]: "failure_of_value (failure_value f) = Some f"
  by (cases f) (simp_all add: failure_of_value_def all_failures_def)

record critique =
  failure_class :: failure_class
  summary :: string
  guidance :: string
  severity :: pyfloat

definition make_critique :: "failure_class \<Rightarrow> string \<Rightarrow> string \<Rightarrow> pyfloat \<Rightarrow> exn + critique" where
  "make_critique f s g sev =
     (if \<not> (0 \<le> sev \<and> sev \<le> 1) then Inl (Exn ValueError ''severity must lie within [0.0, 1.0]'')
      else Inr \<lparr>failure_class = f, summary = s, guidance = g, severity = sev\<rparr>)"

definition valid_critique :: "critique \<Rightarrow> bool" where
  "valid_critique c \<longleftrightarrow> 0 \<le> severity c \<and> severity c \<le> 1"

definition critique_to_dict :: "critique \<Rightarrow> dict" where
  "critique_to_dict c =
     [(''failure_class'', VStr (failure_value (failure_class c))),
      (''summary'', VStr (summary c)),
      (''guidance'', VStr (guidance c)),
      (''severity'', VFloat (py_round (severity c) 4))]"

text \<open>\<open>SearchEvent\<close>.\<close>

record search_event =
  event_iteration :: int
  event_phase :: search_phase
  event_node :: "string option"
  event_detail :: string

text \<open>
  The controller's collaborators. The optional ones are \<open>None\<close> when they are not wired.
  \<^item> \<open>generate\<close>, \<open>evaluate\<close>, \<open>critic\<close>, \<open>revision_policy\<close>, \<open>reward_model\<close>, \<open>stop_condition\<close>:
    the protocols of \<open>policies.py\<close>;
  \<^item> \<open>on_event\<close>: the event sink, which may read the live tree (\<open>active_tree\<close>);
  \<^item> \<open>cancel_event\<close>: \<open>is_set\<close> of the caller's event;
  \<^item> \<open>monotonic\<close>, \<open>random_unit\<close>, \<open>uid\<close>: \<open>time.monotonic()\<close>, \<open>Random.random()\<close> and the identifier of
    the n-th node created;
  \<^item> \<open>pool_order\<close>: which candidates the worker pool completes before the results are read, and in
    which order; the scheduler chooses it.
\<close>

record 'w environment =
  generate :: "'w \<Rightarrow> heap \<Rightarrow> addr \<Rightarrow> int \<Rightarrow> (exn + string list) \<times> 'w"
  evaluate :: "'w \<Rightarrow> heap \<Rightarrow> addr \<Rightarrow> (exn + evaluation) \<times> dict \<times> 'w"
  critic :: "('w \<Rightarrow> heap \<Rightarrow> addr \<Rightarrow> (exn + critique option) \<times> 'w) option"
  revision_policy :: "('w \<Rightarrow> heap \<Rightarrow> addr \<Rightarrow> (exn + bool) \<times> dict \<times> 'w) option"
  reward_model :: "('w \<Rightarrow> heap \<Rightarrow> addr \<Rightarrow> pyfloat \<Rightarrow> critique option \<Rightarrow> (exn + pyfloat) \<times> dict \<times> 'w) option"
  stop_condition :: "('w \<Rightarrow> (exn + string option) \<times> 'w) option"
  on_event :: "('w \<Rightarrow> thought_tree \<Rightarrow> search_event \<Rightarrow> (exn + unit) \<times> 'w) option"
  cancel_event :: "('w \<Rightarrow> bool \<times> 'w) option"
  monotonic :: "'w \<Rightarrow> pyfloat \<times> 'w"
  random_unit :: "'w \<Rightarrow> pyfloat \<times> 'w"
  uid :: "nat \<Rightarrow> string"
  pool_order :: "'w \<Rightarrow> nat \<Rightarrow> nat list \<times> 'w"

end
