(* ===== verification/Search_Config.thy ===== *)
theory Search_Config
  imports Py_String
begin

section \<open>Search parameters (cognitivetree/config.py)\<close>

text \<open>
  The frozen configuration record and the checks of \<open>__post_init__\<close> in the code's order.
  \<open>valid_config\<close> is what a constructed configuration satisfies; it is what the controller's
  proofs assume of their configuration.
\<close>

definition MAX_SUPPORTED_DEPTH :: int where
  "MAX_SUPPORTED_DEPTH = 256"

record search_config =
  max_iterations :: int
  max_depth :: int
  branching_factor :: int
  exploration_weight :: pyfloat
  accept_threshold :: pyfloat
  prune_threshold :: pyfloat
  seed :: "int option"
  max_wall_seconds :: "pyfloat option"
  evaluation_workers :: int

definition default_config :: search_config where
  "default_config = \<lparr>max_iterations = 64, max_depth = 8, branching_factor = 3,
     exploration_weight = Fin 1.414, accept_threshold = Fin 0.95, prune_threshold = Fin 0.15,
     seed = None, max_wall_seconds = None, evaluation_workers = 1\<rparr>"

text \<open>\<open>SearchConfig(...)\<close>: the fields as given, or the first failing check's error.\<close>

definition check_config :: "search_config \<Rightarrow> exn + search_config" where
  "check_config c =
     (if max_iterations c < 1 then Inl (Exn ValueError ''max_iterations must be a positive integer'')
      else if max_depth c < 1 then Inl (Exn ValueError ''max_depth must be a positive integer'')
      else if max_depth c > MAX_SUPPORTED_DEPTH then Inl (Exn ValueError
        (''max_depth must not exceed '' @ str_int MAX_SUPPORTED_DEPTH @
         ''; deeper trees cannot be serialized to JSON for archiving or streaming''))
      else if branching_factor c < 1 then Inl (Exn ValueError ''branching_factor must be a positive integer'')
      else if exploration_weight c < 0 then Inl (Exn ValueError ''exploration_weight must be non-negative'')
      else if \<not> (0 \<le> prune_threshold c \<and> prune_threshold c < accept_threshold c
               \<and> accept_threshold c \<le> 1) then Inl (Exn ValueError
        ''thresholds must satisfy 0.0 <= prune_threshold < accept_threshold <= 1.0'')
      else if (case max_wall_seconds c of None \<Rightarrow> False | Some s \<Rightarrow> s \<le> 0)
        then Inl (Exn ValueError ''max_wall_seconds must be positive when provided'')
      else if evaluation_workers c < 1 then Inl (Exn ValueError ''evaluation_workers must be a positive integer'')
      else Inr c)"

definition valid_config :: "search_config \<Rightarrow> bool" where
  "valid_config c \<longleftrightarrow> check_config c = Inr c"

text \<open>What the checks leave true, as facts about the fields.\<close>

lemma check_config_Inr:
  "check_config c = Inr c' \<longleftrightarrow> c' = c \<and> 1 \<le> max_iterations c \<and> 1 \<le> max_depth c \<and> max_depth c \<le> 256
     \<and> 1 \<le> branching_factor c \<and> \<not> exploration_weight c < 0
     \<and> 0 \<le> prune_threshold c \<and> prune_threshold c < accept_threshold c \<and> accept_threshold c \<le> 1
     \<and> (\<forall>s. max_wall_seconds c = Some s \<longrightarrow> \<not> s \<le> 0) \<and> 1 \<le> evaluation_workers c"
  by (auto simp: check_config_def MAX_SUPPORTED_DEPTH_def not_less not_le split: option.splits)

lemma valid_configD:
  assumes "valid_config c"
  shows "1 \<le> max_iterations c" "1 \<le> max_depth c" "max_depth c \<le> 256" "1 \<le> branching_factor c"
    "1 \<le> evaluation_workers c"
  using assms by (auto simp: valid_config_def check_config_Inr)

lemma valid_config_thresholds:
  assumes "valid_config c"
  shows "\<exists>p a. prune_threshold c = Fin p \<and> accept_threshold c = Fin a \<and> 0 \<le> p \<and> p < a \<and> a \<le> 1"
proof -
  have "0 \<le> prune_threshold c" "prune_threshold c < accept_threshold c" "accept_threshold c \<le> 1"
    using assms by (auto simp: valid_config_def check_config_Inr)
  then show ?thesis
    by (cases "prune_threshold c"; cases "accept_threshold c") (auto simp: float_consts)
qed

lemma valid_default_config: "valid_config default_config"
  by (simp add: valid_config_def check_config_Inr default_config_def float_consts)

end
