(* ===== verification/Best_Path.thy ===== *)
theory Best_Path
  imports Thought_Tree
begin

section \<open>Extraction of the best chain\<close>

text \<open>
  Facts about \<open>best_terminal\<close> and \<open>best_path\<close> of the tree container: the loops return on a
  well-formed tree, the result is a chain of parent and child links that starts at the root,
  it ends in the accepted terminal with the highest score when there is one, and otherwise
  follows live children down to a node that has none.
\<close>

fun child_chain :: "heap \<Rightarrow> addr list \<Rightarrow> bool" where
  "child_chain h [] = True"
| "child_chain h [a] = True"
| "child_chain h (a # b # xs) \<longleftrightarrow> b \<in> set (children (h ! a)) \<and> child_chain h (b # xs)"

lemma child_chain_snoc:
  "child_chain h (xs @ [a]) \<longleftrightarrow> child_chain h xs \<and> (xs = [] \<or> a \<in> set (children (h ! last xs)))"
  by (induction h xs rule: child_chain.induct) auto

lemma root_path_chain:
  assumes "wf_heap h" shows "root_path h a xs \<Longrightarrow> a < length h \<Longrightarrow> child_chain h xs"
proof (induction rule: root_path.induct)
  case (up a p xs)
  note pa = wf_heapD(6,7) [OF assms up.prems up.hyps(1)]
  then have "p < length h" using up.prems by simp
  then show ?case using up root_path_facts [OF assms up.hyps(2)] pa by (simp add: child_chain_snoc)
qed simp

text \<open>Every ancestor chain of the tree starts at the root.\<close>

lemma tree_path_total:
  assumes "wf_tree t" "a < length (tree_heap t)"
  obtains xs where "path_from_root (tree_heap t) a = Some xs" "xs \<noteq> []" "hd xs = tree_root t" "last xs = a"
    "child_chain (tree_heap t) xs" "distinct xs"
    "depth (tree_heap t ! a) = depth (tree_heap t ! tree_root t) + int (length xs) - 1"
    "\<And>b. b \<in> set xs \<longleftrightarrow> below (tree_heap t) b a \<and> b < length (tree_heap t)"
proof -
  note w = wf_treeD [OF assms(1)]
  obtain xs where r: "root_path (tree_heap t) a xs" using root_path_exists w(1) assms(2) by blast
  note f = root_path_facts [OF w(1) r assms(2)]
  have "hd xs < length (tree_heap t)" using f hd_in_set by blast
  then have hd: "hd xs = tree_root t" using f w(3) by blast
  have dis: "distinct xs" using f strict_sorted_iff by blast
  show thesis
    by (rule that [of xs])
      (use f hd dis root_path_chain [OF w(1) r assms(2)] path_loop_root_path [OF r, of "[]"]
        in \<open>simp_all add: path_from_root_def\<close>)
qed

lemma nodes_total:
  assumes "wf_tree t"
  obtains ns where "nodes t = Some ns" "distinct ns" "set ns = {..<length (tree_heap t)}"
proof -
  note w = wf_treeD [OF assms]
  obtain ns where ns: "walk (tree_heap t) (tree_root t) = Some ns" "distinct ns"
    "\<And>b. b \<in> set ns \<longleftrightarrow> below (tree_heap t) (tree_root t) b"
    using walk_total [OF w(1,2)] by metis
  moreover have "set ns = {..<length (tree_heap t)}"
    using ns(3) wf_tree_below_root [OF assms] below_ge [OF w(1,2)] by auto
  ultimately show thesis using that by (simp add: nodes_def)
qed

lemma best_terminal_total:
  assumes "wf_tree t"
  obtains r where "best_terminal t = Some r"
    "r = None \<longleftrightarrow> (\<forall>a<length (tree_heap t). status (tree_heap t ! a) \<noteq> TERMINAL)"
    "\<And>a. r = Some a \<Longrightarrow> a < length (tree_heap t) \<and> status (tree_heap t ! a) = TERMINAL"
proof -
  obtain ns where ns: "nodes t = Some ns" "set ns = {..<length (tree_heap t)}"
    using nodes_total [OF assms] by metis
  define ts where "ts = filter (\<lambda>a. status (tree_heap t ! a) = TERMINAL) ns"
  have ts: "set ts = {a. a < length (tree_heap t) \<and> status (tree_heap t ! a) = TERMINAL}"
    using ns(2) by (auto simp: ts_def)
  show thesis
  proof (cases ts)
    case Nil
    then show ?thesis using ts ns(1) by (intro that [of None]) (auto simp: best_terminal_def ts_def)
  next
    case (Cons a as)
    let ?m = "max_key (\<lambda>x y. y < x) (\<lambda>a. score (tree_heap t ! a)) a as"
    have "?m \<in> set ts" using Cons max_key_in [of _ _ a as] by auto
    then show ?thesis using ts ns(1) Cons
      by (intro that [of "Some ?m"]) (auto simp: best_terminal_def ts_def)
  qed
qed

text \<open>With scores that are numbers, no other accepted terminal scores higher.\<close>

lemma best_terminal_max:
  assumes "wf_tree t" "best_terminal t = Some (Some a)"
    and b: "b < length (tree_heap t)" "status (tree_heap t ! b) = TERMINAL"
    and fin: "\<forall>a<length (tree_heap t). is_finite (score (tree_heap t ! a))"
  shows "\<not> score (tree_heap t ! a) < score (tree_heap t ! b)"
proof -
  obtain ns where ns: "nodes t = Some ns" "set ns = {..<length (tree_heap t)}"
    using nodes_total [OF assms(1)] by metis
  define real_score where "real_score a = (case score (tree_heap t ! a) of Fin x \<Rightarrow> x | _ \<Rightarrow> 0)" for a
  have score: "score (tree_heap t ! a) = Fin (real_score a)" if "a < length (tree_heap t)" for a
    using fin that by (cases "score (tree_heap t ! a)") (auto simp: real_score_def)
  obtain c cs where ts: "filter (\<lambda>a. status (tree_heap t ! a) = TERMINAL) ns = c # cs"
    and a: "a = max_key (\<lambda>x y. y < x) (\<lambda>a. score (tree_heap t ! a)) c cs"
    using assms(2) ns(1) by (auto simp: best_terminal_def split: list.splits)
  have in_tree: "x < length (tree_heap t)" if "x \<in> set (c # cs)" for x
    using that ns(2) unfolding ts [symmetric] by auto
  have same: "max_key (\<lambda>x y. y < x) (\<lambda>a. score (tree_heap t ! a)) x xs = max_key (\<lambda>x y. y < x) real_score x xs"
    if "x < length (tree_heap t)" "\<forall>y\<in>set xs. y < length (tree_heap t)" for x xs
    using that by (induction xs arbitrary: x) (auto simp: score)
  have eq: "a = max_key (\<lambda>x y. y < x) real_score c cs"
    unfolding a by (rule same) (use in_tree in auto)
  have "b \<in> set (filter (\<lambda>a. status (tree_heap t ! a) = TERMINAL) ns)" using b ns(2) by simp
  then have "b \<in> insert c (set cs)" unfolding ts by simp
  then have "\<not> real_score a < real_score b"
    unfolding eq by (rule max_key_no_greater [where gt = "\<lambda>x y. y < x", rotated 2]) auto
  moreover have "a < length (tree_heap t)" using a max_key_in [of _ _ c cs] in_tree by auto
  ultimately show ?thesis using score b(1) by simp
qed

lemma best_loop_total:
  assumes wf: "wf_heap h"
  shows "a < length h \<Longrightarrow> \<exists>xs. best_loop h a path = Some (path @ xs) \<and> child_chain h (a # xs)
     \<and> (\<forall>x\<in>set xs. x < length h \<and> is_live (h ! x))
     \<and> (\<forall>c\<in>set (children (h ! last (a # xs))). \<not> is_live (h ! c))"
proof (induction "length h - a" arbitrary: a path rule: less_induct)
  case less
  show ?case
  proof (cases "filter (\<lambda>c. is_live (h ! c)) (children (h ! a))")
    case Nil
    then show ?thesis
      by (intro exI [of _ "[]"]) (auto simp: best_loop.simps filter_empty_conv)
  next
    case (Cons c cs)
    let ?b = "max_key path_key_gt (path_key h) c cs"
    have "?b \<in> set (filter (\<lambda>c. is_live (h ! c)) (children (h ! a)))"
      using Cons max_key_in [of _ _ c cs] by auto
    then have b: "?b \<in> set (children (h ! a))" "is_live (h ! ?b)" by auto
    note lt = wf_heapD(2,3) [OF wf less.prems b(1)]
    have "length h - ?b < length h - a" using lt by (intro diff_less_mono2) auto
    from less.hyps [OF this lt(2), of "path @ [?b]"]
    obtain xs where "best_loop h ?b (path @ [?b]) = Some ((path @ [?b]) @ xs)" "child_chain h (?b # xs)"
      "\<forall>x\<in>set xs. x < length h \<and> is_live (h ! x)"
      "\<forall>c\<in>set (children (h ! last (?b # xs))). \<not> is_live (h ! c)"
      by blast
    then show ?thesis using Cons b lt
      by (intro exI [of _ "?b # xs"]) (simp add: best_loop.simps [of h a])
  qed
qed

end
