(* ===== verification/Search.thy ===== *)
theory Search
  imports Policies Search_Config Best_Path
begin

section \<open>The tree search controller (cognitivetree/search.py)\<close>

text \<open>
  \<open>TreeSearchController.run\<close> and its helpers, one definition per method and one per block of
  \<open>run\<close>. The mutable state of a run is the record \<open>run_state\<close>: the outside world, the tree, the
  state machine and the local variable \<open>iteration\<close>. Statement sequencing is \<open>bindM\<close>, so an
  exception leaves the state as it was when it was raised. \<open>_select\<close> loops until it returns and
  is a \<open>partial_function\<close>; the main loop is bounded by the iteration counter.
\<close>

datatype search_outcome =
    OUT_SUCCEEDED | OUT_EXHAUSTED | OUT_FAILED | OUT_TIMED_OUT | OUT_BUDGET_EXHAUSTED | OUT_CANCELLED

fun outcome_value :: "search_outcome \<Rightarrow> string" where
  "outcome_value OUT_SUCCEEDED = ''succeeded''"
| "outcome_value OUT_EXHAUSTED = ''exhausted''"
| "outcome_value OUT_FAILED = ''failed''"
| "outcome_value OUT_TIMED_OUT = ''timed_out''"
| "outcome_value OUT_BUDGET_EXHAUSTED = ''budget_exhausted''"
| "outcome_value OUT_CANCELLED = ''cancelled''"

text \<open>\<open>_OUTCOME_BY_PHASE\<close>.\<close>

fun outcome_by_phase :: "search_phase \<Rightarrow> search_outcome option" where
  "outcome_by_phase SUCCEEDED = Some OUT_SUCCEEDED"
| "outcome_by_phase EXHAUSTED = Some OUT_EXHAUSTED"
| "outcome_by_phase FAILED = Some OUT_FAILED"
| "outcome_by_phase TIMED_OUT = Some OUT_TIMED_OUT"
| "outcome_by_phase BUDGET_EXHAUSTED = Some OUT_BUDGET_EXHAUSTED"
| "outcome_by_phase CANCELLED = Some OUT_CANCELLED"
| "outcome_by_phase _ = None"

record search_result =
  outcome :: search_outcome
  result_path :: "addr list"
  iterations :: int
  node_count :: int
  phase_history :: "phase_transition list"
  result_tree :: thought_tree
  result_error :: string

definition solution :: "search_result \<Rightarrow> string option" where
  "solution r = (if outcome r \<noteq> OUT_SUCCEEDED \<or> result_path r = [] then None
     else Some (content (tree_heap (result_tree r) ! last (result_path r))))"

record 'w run_state =
  world :: 'w
  tree :: thought_tree
  machine :: state_machine
  iteration :: int

definition set_heap :: "heap \<Rightarrow> 'w run_state \<Rightarrow> 'w run_state" where
  "set_heap h st = st\<lparr>tree := (tree st)\<lparr>tree_heap := h\<rparr>\<rparr>"

abbreviation nodes_of :: "'w run_state \<Rightarrow> heap" where
  "nodes_of st \<equiv> tree_heap (tree st)"

subsection \<open>\_advance\<close>

definition notify :: "'w environment \<Rightarrow> search_event \<Rightarrow> ('w run_state, unit) prog" where
  "notify env ev st = (case on_event env of
       None \<Rightarrow> (Ok (), st)
     | Some sink \<Rightarrow> (let (r, w) = sink (world st) (tree st) ev in (lift_sum r, st\<lparr>world := w\<rparr>)))"

definition advance ::
  "'w environment \<Rightarrow> search_phase \<Rightarrow> string option \<Rightarrow> string \<Rightarrow> ('w run_state, unit) prog" where
  "advance env tgt nid detail st =
     (let (now, w) = monotonic env (world st) in
      case transition (machine st) tgt detail now of
        Inl e \<Rightarrow> (Raise e, st)
      | Inr (_, m) \<Rightarrow>
          notify env \<lparr>event_iteration = iteration st, event_phase = tgt, event_node = nid, event_detail = detail\<rparr>
            (st\<lparr>machine := m, world := w\<rparr>))"

subsection \<open>\_select\<close>

definition prune_node :: "addr \<Rightarrow> ('w run_state, nat) prog" where
  "prune_node a st = (case prune_subtree (tree st) a of
       None \<Rightarrow> (Diverge, st)
     | Some (t, n) \<Rightarrow> (Ok n, st\<lparr>tree := t\<rparr>))"

definition consult_revision :: "'w environment \<Rightarrow> addr \<Rightarrow> ('w run_state, bool) prog" where
  "consult_revision env a st = (case revision_policy env of
       None \<Rightarrow> (Ok False, st)
     | Some revise \<Rightarrow>
         (let (r, md, w) = revise (world st) (nodes_of st) a
          in (lift_sum r, set_heap (set_metadata (nodes_of st) a md) (st\<lparr>world := w\<rparr>))))"

definition draw_random :: "'w environment \<Rightarrow> ('w run_state, pyfloat) prog" where
  "draw_random env st = (let (x, w) = random_unit env (world st) in (Ok x, st\<lparr>world := w\<rparr>))"

text \<open>The key of one live child: its UCT score and a random tie-breaker.\<close>

definition uct_key :: "'w environment \<Rightarrow> search_config \<Rightarrow> addr \<Rightarrow> ('w run_state, pyfloat \<times> pyfloat) prog" where
  "uct_key env cfg c st = (case uct_score (nodes_of st) c (exploration_weight cfg) of
       Inl e \<Rightarrow> (Raise e, st)
     | Inr u \<Rightarrow> bindM (draw_random env) (\<lambda>r. ret (u, r)) st)"

fun uct_keys ::
  "'w environment \<Rightarrow> search_config \<Rightarrow> addr list \<Rightarrow> ('w run_state, (addr \<times> pyfloat \<times> pyfloat) list) prog" where
  "uct_keys env cfg [] = ret []"
| "uct_keys env cfg (c # cs) =
     bindM (uct_key env cfg c) (\<lambda>k. bindM (uct_keys env cfg cs) (\<lambda>ks. ret ((c, k) # ks)))"

fun uct_gt :: "pyfloat \<times> pyfloat \<Rightarrow> pyfloat \<times> pyfloat \<Rightarrow> bool" where
  "uct_gt (u, r) (u', r') \<longleftrightarrow> (if \<not> feq u u' then u' < u else r' < r)"

definition pick_child :: "'w environment \<Rightarrow> search_config \<Rightarrow> addr list \<Rightarrow> ('w run_state, addr) prog" where
  "pick_child env cfg live = bindM (uct_keys env cfg live) (\<lambda>ks. case ks of
       [] \<Rightarrow> (\<lambda>st. (Raise (Exn ValueError ''max() iterable argument is empty''), st))
     | k # ks' \<Rightarrow> ret (fst (max_key uct_gt snd k ks')))"

text \<open>
  \<open>cur = None\<close> is the head of the outer loop, where the walk restarts from the root;
  \<open>cur = Some a\<close> is the head of the inner loop at node \<open>a\<close>. The result carries the identifiers
  appended to \<open>revived\<close>.
\<close>

partial_function (option) select_loop ::
  "'w environment \<Rightarrow> search_config \<Rightarrow> addr option \<Rightarrow> 'w run_state \<Rightarrow>
     ((addr option \<times> string list) res \<times> 'w run_state) option" where
  "select_loop env cfg cur st = (case cur of
       None \<Rightarrow>
         (if \<not> is_live (nodes_of st ! tree_root (tree st)) then Some (Ok (None, []), st)
          else select_loop env cfg (Some (tree_root (tree st))) st)
     | Some a \<Rightarrow>
         (if children (nodes_of st ! a) = [] then
            (if depth (nodes_of st ! a) < max_depth cfg then Some (Ok (Some a, []), st)
             else (case prune_node a st of
                 (Ok _, st1) \<Rightarrow> select_loop env cfg None st1
               | (Raise e, st1) \<Rightarrow> Some (Raise e, st1)
               | (Diverge, st1) \<Rightarrow> None))
          else if filter (\<lambda>c. is_live (nodes_of st ! c)) (children (nodes_of st ! a)) = [] then
            (case consult_revision env a st of
               (Raise e, st1) \<Rightarrow> Some (Raise e, st1)
             | (Diverge, st1) \<Rightarrow> None
             | (Ok granted, st1) \<Rightarrow>
                 (if granted then Some (Ok (Some a, [node_id (nodes_of st1 ! a)]), st1)
                  else (case prune_node a st1 of
                      (Ok _, st2) \<Rightarrow> select_loop env cfg None st2
                    | (Raise e, st2) \<Rightarrow> Some (Raise e, st2)
                    | (Diverge, st2) \<Rightarrow> None)))
          else
            (case pick_child env cfg (filter (\<lambda>c. is_live (nodes_of st ! c)) (children (nodes_of st ! a))) st of
               (Raise e, st1) \<Rightarrow> Some (Raise e, st1)
             | (Diverge, st1) \<Rightarrow> None
             | (Ok c, st1) \<Rightarrow> select_loop env cfg (Some c) st1)))"

definition select :: "'w environment \<Rightarrow> search_config \<Rightarrow> ('w run_state, addr option \<times> string list) prog" where
  "select env cfg st = (case select_loop env cfg None st of None \<Rightarrow> (Diverge, st) | Some r \<Rightarrow> r)"

subsection \<open>\_expand\<close>

definition create_child :: "'w environment \<Rightarrow> addr \<Rightarrow> string \<Rightarrow> ('w run_state, addr) prog" where
  "create_child env a text st = (case add_child (tree st) a text (uid env (length (nodes_of st))) of
       Inl e \<Rightarrow> (Raise e, st)
     | Inr (t, c) \<Rightarrow> (Ok c, st\<lparr>tree := t\<rparr>))"

fun expand_loop ::
  "'w environment \<Rightarrow> addr \<Rightarrow> string list \<Rightarrow> string set \<Rightarrow> addr list \<Rightarrow> ('w run_state, addr list) prog" where
  "expand_loop env a [] seen kids = ret kids"
| "expand_loop env a (c # cs) seen kids =
     (if py_strip c = [] \<or> py_strip c \<in> seen then expand_loop env a cs seen kids
      else bindM (create_child env a (py_strip c))
             (\<lambda>k. expand_loop env a cs (insert (py_strip c) seen) (kids @ [k])))"

definition expand :: "'w environment \<Rightarrow> search_config \<Rightarrow> addr \<Rightarrow> ('w run_state, addr list) prog" where
  "expand env cfg a st =
     (let (r, w) = generate env (world st) (nodes_of st) a (branching_factor cfg) in
      case r of
        Inl e \<Rightarrow> (Raise e, st\<lparr>world := w\<rparr>)
      | Inr candidates \<Rightarrow>
          expand_loop env a (take (nat (branching_factor cfg)) candidates)
            (set (map (\<lambda>c. content (nodes_of st ! c)) (children (nodes_of st ! a)))) []
            (st\<lparr>world := w\<rparr>))"

subsection \<open>\_collect\_verdicts\<close>

definition evaluate_one :: "'w environment \<Rightarrow> addr \<Rightarrow> ('w run_state, evaluation) prog" where
  "evaluate_one env c st =
     (let (r, md, w) = evaluate env (world st) (nodes_of st) c
      in (lift_sum r, set_heap (set_metadata (nodes_of st) c md) (st\<lparr>world := w\<rparr>)))"

fun evaluate_all :: "'w environment \<Rightarrow> addr list \<Rightarrow> ('w run_state, evaluation list) prog" where
  "evaluate_all env [] = ret []"
| "evaluate_all env (c # cs) =
     bindM (evaluate_one env c) (\<lambda>v. bindM (evaluate_all env cs) (\<lambda>vs. ret (v # vs)))"

text \<open>
  The thread pool. \<open>pool_complete\<close> runs the candidates that finish before the results are read,
  in the order the scheduler completes them; \<open>pool_read\<close> is \<open>list(pool.map(...))\<close>: it takes
  the results in candidate order, waits for one that is still missing, and re-raises at the first
  failing position. Candidates are independent tasks, so each one runs as one step.
\<close>

fun pool_complete ::
  "'w environment \<Rightarrow> addr list \<Rightarrow> nat list \<Rightarrow> (nat \<times> evaluation res) list \<Rightarrow>
     ('w run_state, (nat \<times> evaluation res) list) prog" where
  "pool_complete env cs [] fin = ret fin"
| "pool_complete env cs (i # is) fin =
     (if i < length cs \<and> map_of fin i = None
      then (\<lambda>st. case evaluate_one env (cs ! i) st of (r, st1) \<Rightarrow> pool_complete env cs is (fin @ [(i, r)]) st1)
      else pool_complete env cs is fin)"

fun pool_read ::
  "'w environment \<Rightarrow> addr list \<Rightarrow> nat \<Rightarrow> (nat \<times> evaluation res) list \<Rightarrow> ('w run_state, evaluation list) prog" where
  "pool_read env [] i fin = ret []"
| "pool_read env (c # cs) i fin =
     bindM (case map_of fin i of Some r \<Rightarrow> Pair r | None \<Rightarrow> evaluate_one env c)
       (\<lambda>v. bindM (pool_read env cs (Suc i) fin) (\<lambda>vs. ret (v # vs)))"

definition collect_verdicts ::
  "'w environment \<Rightarrow> search_config \<Rightarrow> addr list \<Rightarrow> ('w run_state, evaluation list) prog" where
  "collect_verdicts env cfg cs st =
     (if min (evaluation_workers cfg) (int (length cs)) \<le> 1 then evaluate_all env cs st
      else (let (order, w) = pool_order env (world st) (length cs)
            in bindM (pool_complete env cs order []) (\<lambda>fin. pool_read env cs 0 fin) (st\<lparr>world := w\<rparr>)))"

subsection \<open>\_evaluate\<close>

definition classify :: "search_config \<Rightarrow> evaluation \<Rightarrow> node_status" where
  "classify cfg v =
     (if ev_is_terminal v \<and> accept_threshold cfg \<le> ev_score v then TERMINAL
      else if ev_is_terminal v \<or> ev_score v < prune_threshold cfg then PRUNED
      else EVALUATED)"

definition consult_critic :: "'w environment \<Rightarrow> node_status \<Rightarrow> addr \<Rightarrow> ('w run_state, critique option) prog" where
  "consult_critic env s c st = (case critic env of
       None \<Rightarrow> (Ok None, st)
     | Some diagnose \<Rightarrow>
         (if s \<noteq> PRUNED then (Ok None, st)
          else (case diagnose (world st) (nodes_of st) c of
              (Inl e, w) \<Rightarrow> (Raise e, st\<lparr>world := w\<rparr>)
            | (Inr None, w) \<Rightarrow> (Ok None, st\<lparr>world := w\<rparr>)
            | (Inr (Some cr), w) \<Rightarrow>
                (Ok (Some cr), set_heap (set_metadata (nodes_of st) c
                   (dict_set CRITIQUE_METADATA_KEY (VDict (critique_to_dict cr)) (metadata (nodes_of st ! c))))
                   (st\<lparr>world := w\<rparr>)))))"

definition shape_value :: "'w environment \<Rightarrow> addr \<Rightarrow> pyfloat \<Rightarrow> critique option \<Rightarrow> ('w run_state, pyfloat) prog" where
  "shape_value env c s cr st = (case reward_model env of
       None \<Rightarrow> (Ok s, st)
     | Some reward \<Rightarrow>
         (let (r, md, w) = reward (world st) (nodes_of st) c s cr
          in (lift_sum r, set_heap (set_metadata (nodes_of st) c md) (st\<lparr>world := w\<rparr>))))"

definition store_verdict :: "addr \<Rightarrow> evaluation \<Rightarrow> node_status \<Rightarrow> ('w run_state, unit) prog" where
  "store_verdict c v s st = (Ok (), set_heap (apply_evaluation (nodes_of st) c (ev_score v) s (ev_rationale v)) st)"

text \<open>The loop body for one child: its status and the value to backpropagate.\<close>

definition apply_verdict ::
  "'w environment \<Rightarrow> search_config \<Rightarrow> addr \<Rightarrow> evaluation \<Rightarrow> ('w run_state, pyfloat) prog" where
  "apply_verdict env cfg c v =
     bindM (store_verdict c v (classify cfg v)) (\<lambda>_.
     bindM (consult_critic env (classify cfg v) c) (\<lambda>cr.
     shape_value env c (ev_score v) cr))"

fun verdict_loop ::
  "'w environment \<Rightarrow> search_config \<Rightarrow> (addr \<times> evaluation) list \<Rightarrow> addr option \<Rightarrow> (addr \<times> pyfloat) list \<Rightarrow>
     ('w run_state, addr option \<times> (addr \<times> pyfloat) list) prog" where
  "verdict_loop env cfg [] sol valued = ret (sol, valued)"
| "verdict_loop env cfg ((c, v) # cvs) sol valued =
     bindM (apply_verdict env cfg c v) (\<lambda>x.
       verdict_loop env cfg cvs
         (if classify cfg v = TERMINAL \<and> sol = None then Some c else sol)
         (valued @ [(c, x)]))"

definition evaluate_children ::
  "'w environment \<Rightarrow> search_config \<Rightarrow> addr list \<Rightarrow>
     ('w run_state, addr option \<times> (addr \<times> pyfloat) list) prog" where
  "evaluate_children env cfg cs =
     bindM (collect_verdicts env cfg cs) (\<lambda>vs. verdict_loop env cfg (zip cs vs) None [])"

subsection \<open>\_backpropagate\<close>

fun record_path :: "heap \<Rightarrow> addr list \<Rightarrow> pyfloat \<Rightarrow> heap" where
  "record_path h [] v = h"
| "record_path h (a # as) v = record_path (record_visit h a v) as v"

fun backpropagate :: "(addr \<times> pyfloat) list \<Rightarrow> ('w run_state, unit) prog" where
  "backpropagate [] = ret ()"
| "backpropagate ((c, v) # cvs) = (\<lambda>st. case path_from_root (nodes_of st) c of
       None \<Rightarrow> (Diverge, st)
     | Some p \<Rightarrow> backpropagate cvs (set_heap (record_path (nodes_of st) p v) st))"

subsection \<open>run\<close>

datatype flow = Break | Next

definition id_of :: "addr \<Rightarrow> 'w run_state \<Rightarrow> string" where
  "id_of a st = node_id (nodes_of st ! a)"

definition poll_cancel :: "'w environment \<Rightarrow> ('w run_state, bool) prog" where
  "poll_cancel env st = (case cancel_event env of
       None \<Rightarrow> (Ok False, st)
     | Some is_set \<Rightarrow>
         (let (b, w) = is_set (world st) in
          if b then bindM (advance env CANCELLED None ''run cancelled by its caller'') (\<lambda>_. ret True) (st\<lparr>world := w\<rparr>)
          else (Ok False, st\<lparr>world := w\<rparr>)))"

definition poll_deadline :: "'w environment \<Rightarrow> search_config \<Rightarrow> pyfloat option \<Rightarrow> ('w run_state, bool) prog" where
  "poll_deadline env cfg deadline st = (case deadline of
       None \<Rightarrow> (Ok False, st)
     | Some d \<Rightarrow>
         (let (now, w) = monotonic env (world st) in
          if d \<le> now then bindM (advance env TIMED_OUT None
              (''wall-clock budget of '' @ (case max_wall_seconds cfg of None \<Rightarrow> ''None'' | Some s \<Rightarrow> format_g s)
               @ ''s exhausted'')) (\<lambda>_. ret True) (st\<lparr>world := w\<rparr>)
          else (Ok False, st\<lparr>world := w\<rparr>)))"

definition poll_stop :: "'w environment \<Rightarrow> ('w run_state, bool) prog" where
  "poll_stop env st = (case stop_condition env of
       None \<Rightarrow> (Ok False, st)
     | Some check \<Rightarrow> (case check (world st) of
           (Inl e, w) \<Rightarrow> (Raise e, st\<lparr>world := w\<rparr>)
         | (Inr None, w) \<Rightarrow> (Ok False, st\<lparr>world := w\<rparr>)
         | (Inr (Some reason), w) \<Rightarrow>
             (if reason = [] then (Ok False, st\<lparr>world := w\<rparr>)
              else bindM (advance env BUDGET_EXHAUSTED None reason) (\<lambda>_. ret True) (st\<lparr>world := w\<rparr>))))"

definition count_iteration :: "('w run_state, unit) prog" where
  "count_iteration st = (Ok (), st\<lparr>iteration := iteration st + 1\<rparr>)"

text \<open>The branch of an expansion without candidates.\<close>

definition backtrack :: "'w environment \<Rightarrow> addr \<Rightarrow> ('w run_state, flow) prog" where
  "backtrack env a st =
     bindM (advance env BACKTRACKING (Some (id_of a st)) ''expansion produced no candidates'') (\<lambda>_.
     bindM (prune_node a) (\<lambda>_.
     bindM (advance env SELECTION None ''backtracked'') (\<lambda>_. ret Next))) st"

text \<open>Evaluation, backpropagation and the acceptance test.\<close>

definition settle_batch :: "'w environment \<Rightarrow> search_config \<Rightarrow> addr \<Rightarrow> addr list \<Rightarrow> ('w run_state, flow) prog" where
  "settle_batch env cfg a kids st =
     bindM (advance env EVALUATION (Some (id_of a st)) (nat_digits (length kids) @ '' candidates'')) (\<lambda>_.
     bindM (evaluate_children env cfg kids) (\<lambda>(sol, valued).
     bindM (advance env BACKPROPAGATION (Some (id_of a st)) []) (\<lambda>_.
     bindM (backpropagate valued) (\<lambda>_. case sol of
         None \<Rightarrow> bindM (advance env SELECTION None ''iteration complete'') (\<lambda>_. ret Next)
       | Some s \<Rightarrow> (\<lambda>st'. bindM (advance env SUCCEEDED (Some (id_of s st'))
             (''accepted with score '' @ format_fixed 3 (score (nodes_of st' ! s)))) (\<lambda>_. ret Break) st'))))) st"

definition expand_node :: "'w environment \<Rightarrow> search_config \<Rightarrow> addr \<Rightarrow> ('w run_state, flow) prog" where
  "expand_node env cfg a st =
     bindM (advance env EXPANSION (Some (id_of a st)) []) (\<lambda>_.
     bindM (expand env cfg a) (\<lambda>kids.
       if kids = [] then backtrack env a else settle_batch env cfg a kids)) st"

definition announce_revision :: "'w environment \<Rightarrow> addr \<Rightarrow> ('w run_state, unit) prog" where
  "announce_revision env a st =
     bindM (advance env BACKTRACKING (Some (id_of a st)) ''reopened node for revision attempt'') (\<lambda>_.
     advance env SELECTION (Some (id_of a st)) ''revision notes prepared'') st"

definition search_step :: "'w environment \<Rightarrow> search_config \<Rightarrow> ('w run_state, flow) prog" where
  "search_step env cfg =
     bindM count_iteration (\<lambda>_.
     bindM (select env cfg) (\<lambda>(sel, revived). case sel of
         None \<Rightarrow> bindM (advance env EXHAUSTED None ''frontier empty'') (\<lambda>_. ret Break)
       | Some a \<Rightarrow> bindM (if revived \<noteq> [] then announce_revision env a else ret ()) (\<lambda>_. expand_node env cfg a)))"

text \<open>One pass of the \<open>while\<close> body.\<close>

definition run_body :: "'w environment \<Rightarrow> search_config \<Rightarrow> pyfloat option \<Rightarrow> ('w run_state, flow) prog" where
  "run_body env cfg deadline =
     bindM (poll_cancel env) (\<lambda>c. if c then ret Break else
     bindM (poll_deadline env cfg deadline) (\<lambda>d. if d then ret Break else
     bindM (poll_stop env) (\<lambda>s. if s then ret Break else
     search_step env cfg)))"

end
