(* ===== verification/Search_Run.thy ===== *)
theory Search_Run
  imports Search
begin

section \<open>The main loop and the result of a run\<close>

text \<open>
  The \<open>while\<close> loop of \<open>run\<close>, its exception handler and the construction of the result. The
  loop is bounded by the iteration counter: a pass that goes round again has counted one
  iteration. \<open>quiet\<close> collects the helpers that leave the counter and the state machine alone.
\<close>

named_theorems quiet_rules "helpers that leave the iteration counter and the machine alone"

definition quiet :: "('w run_state, 'a) prog \<Rightarrow> bool" where
  "quiet m \<longleftrightarrow> (\<forall>s r s'. m s = (r, s') \<longrightarrow> iteration s' = iteration s \<and> machine s' = machine s)"

lemma quietI: "(\<And>s r s'. m s = (r, s') \<Longrightarrow> iteration s' = iteration s \<and> machine s' = machine s) \<Longrightarrow> quiet m"
  by (simp add: quiet_def)

lemma quietD: "quiet m \<Longrightarrow> m s = (r, s') \<Longrightarrow> iteration s' = iteration s \<and> machine s' = machine s"
  by (simp add: quiet_def)

lemma set_heap_simps [simp]:
  "world (set_heap h st) = world st" "machine (set_heap h st) = machine st"
  "iteration (set_heap h st) = iteration st" "tree_heap (tree (set_heap h st)) = h"
  "tree_root (tree (set_heap h st)) = tree_root (tree st)"
  "tree_index (tree (set_heap h st)) = tree_index (tree st)"
  "tree (set_heap h st) = (tree st)\<lparr>tree_heap := h\<rparr>"
  by (simp_all add: set_heap_def)

lemma quiet_ret [quiet_rules]: "quiet (ret x)"
  by (auto simp: quiet_def ret_def)

lemma quiet_bind [quiet_rules]: "quiet m \<Longrightarrow> (\<And>x. quiet (k x)) \<Longrightarrow> quiet (bindM m k)"
  unfolding quiet_def by (auto simp: bindM_def split: prod.splits res.splits)

lemma quiet_if [quiet_rules]: "(b \<Longrightarrow> quiet m) \<Longrightarrow> (\<not> b \<Longrightarrow> quiet n) \<Longrightarrow> quiet (if b then m else n)"
  by simp

lemma quiet_at: "(\<And>s0. quiet (m s0)) \<Longrightarrow> quiet (\<lambda>s. m s s)"
  by (auto simp: quiet_def)

lemma quiet_prune_node [quiet_rules]: "quiet (prune_node a)"
  by (auto simp: quiet_def prune_node_def split: option.splits)

lemma quiet_consult_revision [quiet_rules]: "quiet (consult_revision env a)"
  by (auto simp: quiet_def consult_revision_def Let_def split: option.splits prod.splits)

lemma quiet_draw_random [quiet_rules]: "quiet (draw_random env)"
  by (auto simp: quiet_def draw_random_def split: prod.splits)

lemma quiet_uct_key [quiet_rules]: "quiet (uct_key env cfg c)"
proof (rule quietI)
  have q: "quiet (bindM (draw_random env) (\<lambda>r. ret (u, r)))" for u :: pyfloat
    by (intro quiet_rules)
  fix s r s' assume "uct_key env cfg c s = (r, s')"
  then show "iteration s' = iteration s \<and> machine s' = machine s"
    by (auto simp: uct_key_def split: sum.splits dest!: quietD [OF q])
qed

lemma quiet_uct_keys [quiet_rules]: "quiet (uct_keys env cfg cs)"
  by (induction cs) (auto intro!: quiet_rules)

lemma quiet_pick_child [quiet_rules]: "quiet (pick_child env cfg cs)"
  unfolding pick_child_def
  by (intro quiet_rules) (auto simp: quiet_def ret_def split: list.splits)

lemma quiet_select_loop:
  assumes ret: "select_loop env cfg cur st = Some y"
  shows "iteration (snd y) = iteration st \<and> machine (snd y) = machine st"
proof (rule select_loop.raw_induct [where
      P = "\<lambda>env cfg cur st y. iteration (snd y) = iteration st \<and> machine (snd y) = machine st", OF _ ret])
  fix f env cfg cur st y
  assume IH: "\<And>(env :: 'a environment) cfg cur st y. f env cfg cur st = Some y \<Longrightarrow>
      iteration (snd y) = iteration st \<and> machine (snd y) = machine st"
    and eq: "(case cur of
       None \<Rightarrow>
         (if \<not> is_live (nodes_of st ! tree_root (tree st)) then Some (Ok (None, []), st)
          else f env cfg (Some (tree_root (tree st))) st)
     | Some a \<Rightarrow>
         (if children (nodes_of st ! a) = [] then
            (if depth (nodes_of st ! a) < max_depth cfg then Some (Ok (Some a, []), st)
             else (case prune_node a st of
                 (Ok _, st1) \<Rightarrow> f env cfg None st1
               | (Raise e, st1) \<Rightarrow> Some (Raise e, st1)
               | (Diverge, st1) \<Rightarrow> None))
          else if filter (\<lambda>c. is_live (nodes_of st ! c)) (children (nodes_of st ! a)) = [] then
            (case consult_revision env a st of
               (Raise e, st1) \<Rightarrow> Some (Raise e, st1)
             | (Diverge, st1) \<Rightarrow> None
             | (Ok granted, st1) \<Rightarrow>
                 (if granted then Some (Ok (Some a, [node_id (nodes_of st1 ! a)]), st1)
                  else (case prune_node a st1 of
                      (Ok _, st2) \<Rightarrow> f env cfg None st2
                    | (Raise e, st2) \<Rightarrow> Some (Raise e, st2)
                    | (Diverge, st2) \<Rightarrow> None)))
          else
            (case pick_child env cfg (filter (\<lambda>c. is_live (nodes_of st ! c)) (children (nodes_of st ! a))) st of
               (Raise e, st1) \<Rightarrow> Some (Raise e, st1)
             | (Diverge, st1) \<Rightarrow> None
             | (Ok c, st1) \<Rightarrow> f env cfg (Some c) st1))) = Some y"
  show "iteration (snd y) = iteration st \<and> machine (snd y) = machine st"
    using eq
    by (auto split: option.splits if_splits prod.splits res.splits dest!: IH
          quietD [OF quiet_prune_node] quietD [OF quiet_consult_revision] quietD [OF quiet_pick_child])
qed

lemma quiet_select [quiet_rules]: "quiet (select env cfg)"
  by (auto simp: quiet_def select_def split: option.splits dest!: quiet_select_loop)

lemma quiet_create_child [quiet_rules]: "quiet (create_child env a t)"
  by (auto simp: quiet_def create_child_def split: sum.splits prod.splits)

lemma quiet_expand_loop [quiet_rules]: "quiet (expand_loop env a cs seen kids)"
  by (induction cs arbitrary: seen kids) (auto intro!: quiet_rules)

lemma quiet_expand [quiet_rules]: "quiet (expand env cfg a)"
  unfolding quiet_def expand_def
  by (auto simp: Let_def split: prod.splits sum.splits dest!: quietD [OF quiet_expand_loop])

lemma quiet_evaluate_one [quiet_rules]: "quiet (evaluate_one env c)"
  by (auto simp: quiet_def evaluate_one_def Let_def split: prod.splits)

lemma quiet_evaluate_all [quiet_rules]: "quiet (evaluate_all env cs)"
  by (induction cs) (auto intro!: quiet_rules)

lemma quiet_pool_complete [quiet_rules]: "quiet (pool_complete env cs is fin)"
proof (induction "is" arbitrary: fin)
  case (Cons i "is")
  show ?case
    by (auto simp: quiet_def split: prod.splits dest!: quietD [OF Cons] quietD [OF quiet_evaluate_one])
qed (simp add: quiet_ret)

lemma quiet_Pair: "quiet (Pair r)"
  by (simp add: quiet_def)

lemma quiet_pool_read [quiet_rules]: "quiet (pool_read env cs i fin)"
proof (induction cs arbitrary: i)
  case (Cons c cs)
  have "quiet (case map_of fin i of Some r \<Rightarrow> Pair r | None \<Rightarrow> evaluate_one env c)"
    by (cases "map_of fin i") (simp_all add: quiet_Pair quiet_evaluate_one)
  then show ?case by (simp only: pool_read.simps) (intro quiet_bind quiet_ret Cons)
qed (simp add: quiet_ret)

lemma quiet_collect_verdicts [quiet_rules]: "quiet (collect_verdicts env cfg cs)"
  unfolding quiet_def collect_verdicts_def
  by (auto simp: Let_def split: prod.splits if_splits dest!: quietD [OF quiet_evaluate_all]
      quietD [OF quiet_bind [OF quiet_pool_complete quiet_pool_read]])

lemma quiet_consult_critic [quiet_rules]: "quiet (consult_critic env s c)"
  by (auto simp: quiet_def consult_critic_def split: option.splits prod.splits sum.splits if_splits)

lemma quiet_shape_value [quiet_rules]: "quiet (shape_value env c s cr)"
  by (auto simp: quiet_def shape_value_def Let_def split: option.splits prod.splits)

lemma quiet_store_verdict [quiet_rules]: "quiet (store_verdict c v s)"
  by (auto simp: quiet_def store_verdict_def)

lemma quiet_apply_verdict [quiet_rules]: "quiet (apply_verdict env cfg c v)"
  unfolding apply_verdict_def by (intro quiet_rules)

lemma quiet_verdict_loop [quiet_rules]: "quiet (verdict_loop env cfg cvs sol valued)"
  by (induction cvs arbitrary: sol valued) (auto intro!: quiet_rules)

lemma quiet_evaluate_children [quiet_rules]: "quiet (evaluate_children env cfg cs)"
  unfolding evaluate_children_def by (intro quiet_rules)

lemma quiet_backpropagate [quiet_rules]: "quiet (backpropagate cvs)"
proof (induction cvs)
  case (Cons cv cvs)
  obtain c v where "cv = (c, v)" by fastforce
  then show ?case by (auto simp: quiet_def split: option.splits dest!: quietD [OF Cons])
qed (simp add: quiet_ret)

subsection \<open>Steps that transition keep the counter\<close>

lemma advance_iteration [hoare_rules]: "preserves (\<lambda>s. iteration s = n) (advance env p i d)"
  by (rule preservesI)
    (auto simp: advance_def notify_def Let_def split: prod.splits sum.splits option.splits)

lemma quiet_iteration: "quiet m \<Longrightarrow> preserves (\<lambda>s. iteration s = n) m"
  by (rule preservesI) (auto dest: quietD)

lemmas iteration_rules = quiet_iteration [OF quiet_prune_node]
  quiet_iteration [OF quiet_expand] quiet_iteration [OF quiet_select]
  quiet_iteration [OF quiet_evaluate_children] quiet_iteration [OF quiet_backpropagate]

lemma preserves_at: "(\<And>s0. preserves I (m s0)) \<Longrightarrow> preserves I (\<lambda>s. m s s)"
  unfolding preserves_def hoare_def by blast

lemma preserves_option [hoare_rules]:
  "(\<And>x. preserves I (f x)) \<Longrightarrow> preserves I g \<Longrightarrow> preserves I (case opt of None \<Rightarrow> g | Some x \<Rightarrow> f x)"
  by (cases opt) auto

lemma preserves_prod [hoare_rules]:
  "(\<And>x y. preserves I (f x y)) \<Longrightarrow> preserves I (case p of (x, y) \<Rightarrow> f x y)"
  by (cases p) auto

lemma announce_revision_iteration [hoare_rules]: "preserves (\<lambda>s. iteration s = n) (announce_revision env a)"
  unfolding announce_revision_def [abs_def] by (rule preserves_at, intro hoare_rules iteration_rules)

lemma backtrack_iteration [hoare_rules]: "preserves (\<lambda>s. iteration s = n) (backtrack env a)"
  unfolding backtrack_def [abs_def] by (rule preserves_at, intro hoare_rules iteration_rules)

lemma settle_batch_iteration [hoare_rules]: "preserves (\<lambda>s. iteration s = n) (settle_batch env cfg a kids)"
  unfolding settle_batch_def [abs_def]
  by (rule preserves_at, intro hoare_rules iteration_rules) (rule preserves_at, intro hoare_rules iteration_rules)

lemma expand_node_iteration [hoare_rules]: "preserves (\<lambda>s. iteration s = n) (expand_node env cfg a)"
  unfolding expand_node_def [abs_def] by (rule preserves_at, intro hoare_rules iteration_rules)

lemma preserves_world: "preserves (\<lambda>s. iteration s = n) m \<Longrightarrow> m (st\<lparr>world := w\<rparr>) = (r, s') \<Longrightarrow>
    iteration st = n \<Longrightarrow> iteration s' = n"
  by (drule preservesD) auto

lemma poll_cancel_iteration [hoare_rules]: "preserves (\<lambda>s. iteration s = n) (poll_cancel env)"
proof (rule preservesI)
  have adv: "preserves (\<lambda>s. iteration s = n) (bindM (advance env CANCELLED None d) (\<lambda>_. ret True))" for d
    by (intro hoare_rules iteration_rules)
  fix s r s' assume "iteration s = n" "poll_cancel env s = (r, s')"
  then show "iteration s' = n"
    by (auto simp: poll_cancel_def Let_def split: option.splits prod.splits if_splits
        dest: preserves_world [OF adv])
qed

lemma poll_deadline_iteration [hoare_rules]: "preserves (\<lambda>s. iteration s = n) (poll_deadline env cfg d)"
proof (rule preservesI)
  have adv: "preserves (\<lambda>s. iteration s = n) (bindM (advance env TIMED_OUT None d) (\<lambda>_. ret True))" for d
    by (intro hoare_rules iteration_rules)
  fix s r s' assume "iteration s = n" "poll_deadline env cfg d s = (r, s')"
  then show "iteration s' = n"
    by (auto simp: poll_deadline_def Let_def split: option.splits prod.splits if_splits
        dest: preserves_world [OF adv])
qed

lemma poll_stop_iteration [hoare_rules]: "preserves (\<lambda>s. iteration s = n) (poll_stop env)"
proof (rule preservesI)
  have adv: "preserves (\<lambda>s. iteration s = n) (bindM (advance env BUDGET_EXHAUSTED None d) (\<lambda>_. ret True))" for d
    by (intro hoare_rules iteration_rules)
  fix s r s' assume "iteration s = n" "poll_stop env s = (r, s')"
  then show "iteration s' = n"
    by (auto simp: poll_stop_def Let_def split: option.splits prod.splits sum.splits if_splits
        dest: preserves_world [OF adv])
qed

text \<open>A pass that goes round again has counted exactly one iteration.\<close>

lemma search_step_iteration:
  "search_step env cfg st = (r, st') \<Longrightarrow> iteration st' = iteration st + 1"
proof -
  have rest: "preserves (\<lambda>s. iteration s = n)
     (bindM (select env cfg) (\<lambda>(sel, revived). case sel of
         None \<Rightarrow> bindM (advance env EXHAUSTED None ''frontier empty'') (\<lambda>_. ret Break)
       | Some a \<Rightarrow> bindM (if revived \<noteq> [] then announce_revision env a else ret ()) (\<lambda>_. expand_node env cfg a)))" for n
    by (intro hoare_rules iteration_rules)
  assume "search_step env cfg st = (r, st')"
  then have "(bindM (select env cfg) (\<lambda>(sel, revived). case sel of
         None \<Rightarrow> bindM (advance env EXHAUSTED None ''frontier empty'') (\<lambda>_. ret Break)
       | Some a \<Rightarrow> bindM (if revived \<noteq> [] then announce_revision env a else ret ()) (\<lambda>_. expand_node env cfg a)))
      (st\<lparr>iteration := iteration st + 1\<rparr>) = (r, st')"
    by (simp add: search_step_def bindM_def [of count_iteration] count_iteration_def)
  from preservesD [OF rest _ this] show ?thesis by simp
qed

text \<open>A check at the head of a pass: it stops the loop, or the pass goes on in the same invariant.\<close>

lemma hoare_poll:
  assumes m: "hoare I m (\<lambda>r s. case r of Ok b \<Rightarrow> if b then Q (Ok Break) s else I s | Raise e \<Rightarrow> Q (Raise e) s | Diverge \<Rightarrow> Q Diverge s)"
    and k: "hoare I k Q"
  shows "hoare I (bindM m (\<lambda>b. if b then ret Break else k)) Q"
proof (rule hoare_bind [OF m])
  fix b show "hoare (\<lambda>s. case Ok b of Ok b \<Rightarrow> if b then Q (Ok Break) s else I s | Raise e \<Rightarrow> Q (Raise e) s | Diverge \<Rightarrow> Q Diverge s)
      (if b then ret Break else k) Q"
    using k by (cases b) (auto intro: hoare_ret)
qed auto

lemma run_body_iteration:
  assumes run: "run_body env cfg deadline st = (r, st')"
  shows "(r = Ok Next \<longrightarrow> iteration st' = iteration st + 1) \<and> iteration st \<le> iteration st' \<and> iteration st' \<le> iteration st + 1"
proof -
  define n where "n = iteration st"
  let ?I = "\<lambda>s. iteration s = n"
  let ?Q = "\<lambda>r s. (r = Ok Next \<longrightarrow> iteration s = n + 1) \<and> n \<le> iteration s \<and> iteration s \<le> n + 1"
  have poll: "hoare ?I m (\<lambda>r s. case r of Ok b \<Rightarrow> if b then ?Q (Ok Break) s else ?I s
      | Raise e \<Rightarrow> ?Q (Raise e) s | Diverge \<Rightarrow> ?Q Diverge s)"
    if "preserves ?I m" for m :: "('a run_state, bool) prog"
    by (rule hoare_conseq [OF that [unfolded preserves_def]]) (auto split: res.splits)
  have step: "hoare ?I (search_step env cfg) ?Q"
    by (rule hoareI) (drule search_step_iteration, simp)
  have "hoare ?I (run_body env cfg deadline) ?Q"
    unfolding run_body_def
    by (rule hoare_poll [OF poll [OF poll_cancel_iteration]],
        rule hoare_poll [OF poll [OF poll_deadline_iteration]],
        rule hoare_poll [OF poll [OF poll_stop_iteration] step])
  from hoareD [OF this _ run] show ?thesis by (simp add: n_def)
qed

subsection \<open>The loop\<close>

function run_loop :: "'w environment \<Rightarrow> search_config \<Rightarrow> pyfloat option \<Rightarrow> ('w run_state, unit) prog" where
  "run_loop env cfg deadline st =
     (if \<not> iteration st < max_iterations cfg then (Ok (), st)
      else (case run_body env cfg deadline st of
          (Ok Next, st') \<Rightarrow> run_loop env cfg deadline st'
        | (Ok Break, st') \<Rightarrow> (Ok (), st')
        | (Raise e, st') \<Rightarrow> (Raise e, st')
        | (Diverge, st') \<Rightarrow> (Diverge, st')))"
  by pat_completeness auto
termination
  by (relation "measure (\<lambda>(env, cfg, deadline, st). nat (max_iterations cfg - iteration st))")
    (auto dest!: run_body_iteration [OF sym])

declare run_loop.simps [simp del]

text \<open>Induction over the passes: an invariant of the pass is an invariant of the loop.\<close>

lemma run_loop_hoare:
  assumes body: "hoare (\<lambda>s. I s \<and> iteration s < max_iterations cfg) (run_body env cfg deadline)
      (\<lambda>r s. case r of Ok Next \<Rightarrow> I s | Ok Break \<Rightarrow> Q (Ok ()) s | Raise e \<Rightarrow> Q (Raise e) s | Diverge \<Rightarrow> Q Diverge s)"
    and fin: "\<And>s. I s \<Longrightarrow> \<not> iteration s < max_iterations cfg \<Longrightarrow> Q (Ok ()) s"
  shows "hoare I (run_loop env cfg deadline) Q"
proof (rule hoareI)
  fix s r s' assume "I s" "run_loop env cfg deadline s = (r, s')"
  then show "Q r s'"
  proof (induction "nat (max_iterations cfg - iteration s)" arbitrary: s rule: less_induct)
    case less
    show ?case
    proof (cases "iteration s < max_iterations cfg")
      case True
      obtain r1 s1 where b: "run_body env cfg deadline s = (r1, s1)" by fastforce
      have R: "case r1 of Ok Next \<Rightarrow> I s1 | Ok Break \<Rightarrow> Q (Ok ()) s1 | Raise e \<Rightarrow> Q (Raise e) s1 | Diverge \<Rightarrow> Q Diverge s1"
        using hoareD [OF body _ b] less.prems True by blast
      note unfold = run_loop.simps [of env cfg deadline s]
      show ?thesis
      proof (cases "r1 = Ok Next")
        case next_pass: True
        then have "iteration s1 = iteration s + 1" using run_body_iteration [OF b] by blast
        then show ?thesis using less.hyps [of s1] less.prems(2) R b True next_pass unfold by simp
      next
        case False
        then show ?thesis using less.prems(2) R b True unfold
          by (auto split: res.splits flow.splits)
      qed
    next
      case False
      then show ?thesis using less.prems fin by (simp add: run_loop.simps [of env cfg deadline s])
    qed
  qed
qed

subsection \<open>run\<close>

definition start_deadline :: "search_config \<Rightarrow> 'w environment \<Rightarrow> ('w run_state, pyfloat option) prog" where
  "start_deadline cfg env st = (case max_wall_seconds cfg of
       None \<Rightarrow> (Ok None, st)
     | Some s \<Rightarrow> (let (now, w) = monotonic env (world st) in (Ok (Some (now + s)), st\<lparr>world := w\<rparr>)))"

text \<open>The \<open>try\<close> block around the loop; the value is the local variable \<open>error\<close>.\<close>

definition guarded_loop :: "'w environment \<Rightarrow> search_config \<Rightarrow> pyfloat option \<Rightarrow> ('w run_state, string) prog" where
  "guarded_loop env cfg deadline =
     catchM (bindM (run_loop env cfg deadline) (\<lambda>_. ret []))
       (\<lambda>e. let err = exn_name (exn_kind e) @ '': '' @ exn_text e
            in bindM (advance env FAILED None err) (\<lambda>_. ret err))"

definition spend_budget :: "'w environment \<Rightarrow> ('w run_state, unit) prog" where
  "spend_budget env st =
     (if \<not> is_terminal (machine st) then advance env EXHAUSTED None ''iteration budget spent'' st
      else (Ok (), st))"

definition build_result :: "string \<Rightarrow> ('w run_state, search_result) prog" where
  "build_result err st = (case outcome_by_phase (phase (machine st)) of
       None \<Rightarrow> (Raise (Exn KeyError (''<SearchPhase.'' @ phase_value (phase (machine st)) @ ''>'')), st)
     | Some out \<Rightarrow> (case best_path (tree st) of
           None \<Rightarrow> (Diverge, st)
         | Some p \<Rightarrow> (Ok \<lparr>outcome = out, result_path = p, iterations = iteration st,
             node_count = int (tree_len (tree st)), phase_history = history (machine st),
             result_tree = tree st, result_error = err\<rparr>, st)))"

definition initial_state :: "'w environment \<Rightarrow> string \<Rightarrow> 'w \<Rightarrow> 'w run_state" where
  "initial_state env task w =
     \<lparr>world = w, tree = new_tree task (uid env 0), machine = new_machine, iteration = 0\<rparr>"

definition run :: "'w environment \<Rightarrow> search_config \<Rightarrow> string \<Rightarrow> 'w \<Rightarrow> search_result res \<times> 'w run_state" where
  "run env cfg task w =
     bindM (start_deadline cfg env) (\<lambda>deadline.
     bindM (advance env SELECTION None ''search started'') (\<lambda>_.
     bindM (guarded_loop env cfg deadline) (\<lambda>err.
     bindM (spend_budget env) (\<lambda>_.
     build_result err)))) (initial_state env task w)"

end
