(* ===== verification/Policy_Contracts.thy ===== *)
theory Policy_Contracts
  imports Policies
begin

section \<open>What the controller may expect of its policies\<close>

text \<open>
  The contracts of the policy protocols as locales, one per protocol, each over the
  implementation's configuration type. \<open>fair\<close> is what a run needs of its environment for the
  propagated values to stay in the unit interval; the locales show that implementations which
  satisfy the contracts give a fair environment. They are interpreted on the evaluators,
  critics and the reward shaper of the code where those are modelled.
\<close>

definition unit_value :: "pyfloat \<Rightarrow> bool" where
  "unit_value x \<longleftrightarrow> 0 \<le> x \<and> x \<le> 1"

definition fair :: "'w environment \<Rightarrow> bool" where
  "fair env \<longleftrightarrow> (\<forall>w h a v. fst (evaluate env w h a) = Inr v \<longrightarrow> valid_evaluation v)
     \<and> (\<forall>f w h a k. critic env = Some f \<longrightarrow> fst (f w h a) = Inr (Some k) \<longrightarrow> valid_critique k)
     \<and> (\<forall>f w h a s cr r. reward_model env = Some f \<longrightarrow> 0 \<le> depth (h ! a) \<longrightarrow> unit_value s \<longrightarrow> (\<forall>k. cr = Some k \<longrightarrow> valid_critique k)
          \<longrightarrow> fst (f w h a s cr) = Inr r \<longrightarrow> unit_value r)"

lemma fairD:
  assumes "fair env"
  shows "fst (evaluate env w h a) = Inr v \<Longrightarrow> valid_evaluation v"
    "critic env = Some f \<Longrightarrow> fst (f w h a) = Inr (Some k) \<Longrightarrow> valid_critique k"
    "reward_model env = Some g \<Longrightarrow> 0 \<le> depth (h ! a) \<Longrightarrow> unit_value s \<Longrightarrow> (\<And>k. cr = Some k \<Longrightarrow> valid_critique k) \<Longrightarrow>
       fst (g w h a s cr) = Inr r \<Longrightarrow> unit_value r"
  using assms unfolding fair_def by blast+

locale evaluator_contract =
  fixes ev :: "'c \<Rightarrow> 'w \<Rightarrow> heap \<Rightarrow> addr \<Rightarrow> (exn + evaluation) \<times> dict \<times> 'w"
  assumes verdict_valid: "fst (ev c w h a) = Inr v \<Longrightarrow> valid_evaluation v"
begin

lemma plain_fair: "evaluate env = ev c \<Longrightarrow> critic env = None \<Longrightarrow> reward_model env = None \<Longrightarrow> fair env"
  by (auto simp: fair_def intro: verdict_valid)

end

locale critic_contract =
  fixes cr :: "'d \<Rightarrow> 'w \<Rightarrow> heap \<Rightarrow> addr \<Rightarrow> (exn + critique option) \<times> 'w"
  assumes critique_valid: "fst (cr d w h a) = Inr (Some k) \<Longrightarrow> valid_critique k"

locale reward_contract =
  fixes usable :: "'e \<Rightarrow> bool"
    and rw :: "'e \<Rightarrow> 'w \<Rightarrow> heap \<Rightarrow> addr \<Rightarrow> pyfloat \<Rightarrow> critique option \<Rightarrow> (exn + pyfloat) \<times> dict \<times> 'w"
  assumes reward_unit: "usable e \<Longrightarrow> 0 \<le> depth (h ! a) \<Longrightarrow> unit_value s \<Longrightarrow> (\<And>k. cr = Some k \<Longrightarrow> valid_critique k) \<Longrightarrow>
      fst (rw e w h a s cr) = Inr r \<Longrightarrow> unit_value r"

locale shaped_policies = evaluator_contract ev + critic_contract cr + reward_contract usable rw
  for ev :: "'c \<Rightarrow> 'w \<Rightarrow> heap \<Rightarrow> addr \<Rightarrow> (exn + evaluation) \<times> dict \<times> 'w"
    and cr :: "'d \<Rightarrow> 'w \<Rightarrow> heap \<Rightarrow> addr \<Rightarrow> (exn + critique option) \<times> 'w"
    and usable :: "'e \<Rightarrow> bool"
    and rw :: "'e \<Rightarrow> 'w \<Rightarrow> heap \<Rightarrow> addr \<Rightarrow> pyfloat \<Rightarrow> critique option \<Rightarrow> (exn + pyfloat) \<times> dict \<times> 'w"
begin

lemma shaped_fair:
  assumes "evaluate env = ev c" "critic env = Some (cr d)" "reward_model env = Some (rw e)" "usable e"
  shows "fair env"
  unfolding fair_def
proof (intro conjI allI impI)
  show "valid_evaluation v" if "fst (evaluate env w h a) = Inr v" for w h a v
    using verdict_valid that assms(1) by simp
  show "valid_critique k" if "critic env = Some f" "fst (f w h a) = Inr (Some k)" for f w h a k
    using critique_valid [of d w h a k] that assms(2) by auto
  show "unit_value r" if "reward_model env = Some f" "0 \<le> depth (h ! a)" "unit_value s" "\<forall>k. x = Some k \<longrightarrow> valid_critique k"
    "fst (f w h a s x) = Inr r" for f w h a s x r
    using reward_unit [OF assms(4) that(2,3), of x w r] that assms(3) by auto
qed

end

end
