(* ===== verification/Search_Select.thy ===== *)
theory Search_Select
  imports Search_Run Policy_Contracts
begin

section \<open>Selection returns\<close>

text \<open>
  \<open>_select\<close> loops until it finds a node. On a well-formed tree it always returns: each restart
  has pruned a live node and each descent goes to a younger node. What it leaves behind differs
  from the tree it was given only in statuses of live nodes, which it may prune, and in
  metadata, which the revision policy may write; \<open>keeps\<close> is that relation.
\<close>

text \<open>The invariant of a tree under construction by the controller.\<close>

definition struct_ok :: "'w environment \<Rightarrow> search_config \<Rightarrow> thought_tree \<Rightarrow> bool" where
  "struct_ok env cfg t \<longleftrightarrow> wf_tree t \<and> tree_root t = 0
     \<and> (\<forall>a<length (tree_heap t). node_id (tree_heap t ! a) = uid env a)
     \<and> depth (tree_heap t ! 0) = 0
     \<and> (\<forall>a<length (tree_heap t). 0 \<le> depth (tree_heap t ! a) \<and> depth (tree_heap t ! a) \<le> max_depth cfg)
     \<and> (\<forall>a<length (tree_heap t). distinct (map (\<lambda>c. content (tree_heap t ! c)) (children (tree_heap t ! a))))
     \<and> (\<forall>a<length (tree_heap t). a \<noteq> 0 \<longrightarrow> content (tree_heap t ! a) \<noteq> []
          \<and> py_strip (content (tree_heap t ! a)) = content (tree_heap t ! a))"

lemma struct_okD:
  assumes "struct_ok env cfg t"
  shows "wf_tree t" "tree_root t = 0" "wf_heap (tree_heap t)" "0 < length (tree_heap t)"
    "\<And>a. a < length (tree_heap t) \<Longrightarrow> node_id (tree_heap t ! a) = uid env a"
    "depth (tree_heap t ! 0) = 0"
    "\<And>a. a < length (tree_heap t) \<Longrightarrow> 0 \<le> depth (tree_heap t ! a)"
    "\<And>a. a < length (tree_heap t) \<Longrightarrow> depth (tree_heap t ! a) \<le> max_depth cfg"
    "\<And>a. a < length (tree_heap t) \<Longrightarrow> distinct (map (\<lambda>c. content (tree_heap t ! c)) (children (tree_heap t ! a)))"
    "\<And>a. a < length (tree_heap t) \<Longrightarrow> a \<noteq> 0 \<Longrightarrow> content (tree_heap t ! a) \<noteq> []
        \<and> py_strip (content (tree_heap t ! a)) = content (tree_heap t ! a)"
proof -
  have all: "wf_tree t" "tree_root t = 0"
    "\<forall>a<length (tree_heap t). node_id (tree_heap t ! a) = uid env a"
    "depth (tree_heap t ! 0) = 0"
    "\<forall>a<length (tree_heap t). 0 \<le> depth (tree_heap t ! a) \<and> depth (tree_heap t ! a) \<le> max_depth cfg"
    "\<forall>a<length (tree_heap t). distinct (map (\<lambda>c. content (tree_heap t ! c)) (children (tree_heap t ! a)))"
    "\<forall>a<length (tree_heap t). a \<noteq> 0 \<longrightarrow> content (tree_heap t ! a) \<noteq> []
          \<and> py_strip (content (tree_heap t ! a)) = content (tree_heap t ! a)"
    using assms unfolding struct_ok_def by blast+
  show "wf_tree t" "tree_root t = 0" "depth (tree_heap t ! 0) = 0" by (rule all)+
  show "wf_heap (tree_heap t)" by (rule wf_treeD(1) [OF all(1)])
  show "0 < length (tree_heap t)" using wf_treeD(2) [OF all(1)] unfolding all(2) .
  fix a assume a: "a < length (tree_heap t)"
  show "node_id (tree_heap t ! a) = uid env a" using all(3) a by blast
  show "0 \<le> depth (tree_heap t ! a)" "depth (tree_heap t ! a) \<le> max_depth cfg" using all(5) a by blast+
  show "distinct (map (\<lambda>c. content (tree_heap t ! c)) (children (tree_heap t ! a)))" using all(6) a by blast
  show "a \<noteq> 0 \<Longrightarrow> content (tree_heap t ! a) \<noteq> [] \<and> py_strip (content (tree_heap t ! a)) = content (tree_heap t ! a)"
    using all(7) a by blast
qed

lemma struct_ok_shape:
  assumes ok: "struct_ok env cfg t" and sh: "shape (tree_heap t) = shape h"
  shows "struct_ok env cfg (t\<lparr>tree_heap := h\<rparr>)"
proof -
  note d = struct_okD [OF ok] and eq = shape_nth [OF sh]
  have len: "length h = length (tree_heap t)" using shape_length [OF sh] by simp
  have sel: "tree_heap (t\<lparr>tree_heap := h\<rparr>) = h" "tree_root (t\<lparr>tree_heap := h\<rparr>) = tree_root t" by simp_all
  show ?thesis unfolding struct_ok_def sel len
  proof (intro conjI allI impI)
    show "wf_tree (t\<lparr>tree_heap := h\<rparr>)" by (rule wf_tree_shape [OF d(1) sh])
    show "tree_root t = 0" by (rule d(2))
    show "depth (h ! 0) = 0" using d(6) eq(3) [OF d(4)] by simp
    fix a assume a: "a < length (tree_heap t)"
    show "node_id (h ! a) = uid env a" using d(5) [OF a] eq(4) [OF a] by simp
    show "0 \<le> depth (h ! a)" "depth (h ! a) \<le> max_depth cfg" using d(7,8) [OF a] eq(3) [OF a] by simp_all
    have "map (\<lambda>c. content (h ! c)) (children (h ! a)) = map (\<lambda>c. content (tree_heap t ! c)) (children (tree_heap t ! a))"
    proof (rule map_cong)
      show "children (h ! a) = children (tree_heap t ! a)" using eq(5) [OF a] by simp
      fix c assume "c \<in> set (children (tree_heap t ! a))"
      then show "content (h ! c) = content (tree_heap t ! c)" using eq(1) [OF wf_heapD(3) [OF d(3) a]] by simp
    qed
    then show "distinct (map (\<lambda>c. content (h ! c)) (children (h ! a)))" using d(9) [OF a] by (simp only:)
    show "a \<noteq> 0 \<Longrightarrow> content (h ! a) \<noteq> []" "a \<noteq> 0 \<Longrightarrow> py_strip (content (h ! a)) = content (h ! a)"
      using d(10) [OF a] unfolding eq(1) [OF a] by blast+
  qed
qed

subsection \<open>Statuses and metadata only\<close>

definition keeps :: "heap \<Rightarrow> heap \<Rightarrow> bool" where
  "keeps h h' \<longleftrightarrow> length h' = length h \<and> (\<forall>b<length h. \<exists>s md.
     h' ! b = (h ! b)\<lparr>status := s, metadata := md\<rparr> \<and> (s = status (h ! b) \<or> is_live (h ! b) \<and> s = PRUNED))"

lemma keepsD:
  assumes "keeps h h'" "b < length h"
  shows "content (h' ! b) = content (h ! b)" "parent (h' ! b) = parent (h ! b)"
    "depth (h' ! b) = depth (h ! b)" "node_id (h' ! b) = node_id (h ! b)"
    "children (h' ! b) = children (h ! b)" "visits (h' ! b) = visits (h ! b)"
    "value_sum (h' ! b) = value_sum (h ! b)" "score (h' ! b) = score (h ! b)"
    "status (h' ! b) = status (h ! b) \<or> is_live (h ! b) \<and> status (h' ! b) = PRUNED"
    "is_live (h' ! b) \<Longrightarrow> is_live (h ! b)"
  using assms by (auto simp: keeps_def is_live_def LIVE_STATUSES_def)

lemma keeps_length: "keeps h h' \<Longrightarrow> length h' = length h"
  by (simp add: keeps_def)

lemma keeps_refl: "keeps h h"
  unfolding keeps_def
proof (intro conjI allI impI refl)
  fix b show "\<exists>s md. h ! b = (h ! b)\<lparr>status := s, metadata := md\<rparr> \<and> (s = status (h ! b) \<or> is_live (h ! b) \<and> s = PRUNED)"
    by (intro exI [of _ "status (h ! b)"] exI [of _ "metadata (h ! b)"]) simp
qed

lemma keeps_trans:
  assumes "keeps h g" "keeps g f" shows "keeps h f"
  unfolding keeps_def
proof (intro conjI allI impI)
  show "length f = length h" using assms by (simp add: keeps_def)
  fix b assume b: "b < length h"
  obtain s md where g: "g ! b = (h ! b)\<lparr>status := s, metadata := md\<rparr>" "s = status (h ! b) \<or> is_live (h ! b) \<and> s = PRUNED"
    using assms(1) b unfolding keeps_def by blast
  have "b < length g" using assms(1) b by (simp add: keeps_def)
  then obtain s' md' where f: "f ! b = (g ! b)\<lparr>status := s', metadata := md'\<rparr>" "s' = status (g ! b) \<or> is_live (g ! b) \<and> s' = PRUNED"
    using assms(2) unfolding keeps_def by blast
  show "\<exists>s md. f ! b = (h ! b)\<lparr>status := s, metadata := md\<rparr> \<and> (s = status (h ! b) \<or> is_live (h ! b) \<and> s = PRUNED)"
    using f g by (intro exI [of _ s'] exI [of _ md']) (auto simp: is_live_def LIVE_STATUSES_def)
qed

lemma keeps_shape: "keeps h h' \<Longrightarrow> shape h = shape h'"
  unfolding shape_def by (rule nth_equalityI) (auto simp: keepsD keeps_length)

lemma keeps_set_metadata: "keeps h (set_metadata h a md)"
  unfolding keeps_def
proof (intro conjI allI impI)
  fix b assume "b < length h"
  then show "\<exists>s m. set_metadata h a md ! b = (h ! b)\<lparr>status := s, metadata := m\<rparr> \<and> (s = status (h ! b) \<or> is_live (h ! b) \<and> s = PRUNED)"
    by (intro exI [of _ "status (h ! b)"] exI [of _ "if b = a then md else metadata (h ! b)"])
      (simp add: set_metadata_def nth_list_update)
qed simp

lemma prune_keeps:
  assumes "length h = length g"
    "\<And>b. b < length h \<Longrightarrow> h ! b = (if P b \<and> is_live (g ! b) then (g ! b)\<lparr>status := PRUNED\<rparr> else g ! b)"
  shows "keeps g h"
  unfolding keeps_def
proof (intro conjI allI impI)
  fix b assume "b < length g"
  then show "\<exists>s md. h ! b = (g ! b)\<lparr>status := s, metadata := md\<rparr> \<and> (s = status (g ! b) \<or> is_live (g ! b) \<and> s = PRUNED)"
    using assms by (intro exI [of _ "if P b \<and> is_live (g ! b) then PRUNED else status (g ! b)"] exI [of _ "metadata (g ! b)"]) simp
qed (use assms in simp)

lemma keeps_live: "keeps h h' \<Longrightarrow> live_nodes h' \<subseteq> live_nodes h"
  using keepsD(10) by (auto simp: live_nodes_def keeps_length)

text \<open>The change a step makes to the run state, beyond the outside world.\<close>

definition keeps_tree :: "'w run_state \<Rightarrow> 'w run_state \<Rightarrow> bool" where
  "keeps_tree s s' \<longleftrightarrow> keeps (nodes_of s) (nodes_of s') \<and> tree_root (tree s') = tree_root (tree s)
     \<and> tree_index (tree s') = tree_index (tree s)"

lemma keeps_tree_refl: "keeps_tree s s"
  by (simp add: keeps_tree_def keeps_refl)

lemma keeps_tree_trans: "keeps_tree s s' \<Longrightarrow> keeps_tree s' s'' \<Longrightarrow> keeps_tree s s''"
  by (auto simp: keeps_tree_def intro: keeps_trans)

lemma keeps_tree_same: "tree s' = tree s \<Longrightarrow> keeps_tree s s'"
  by (simp add: keeps_tree_def keeps_refl)

lemma keeps_tree_struct:
  assumes "keeps_tree s s'" "struct_ok env cfg (tree s)" shows "struct_ok env cfg (tree s')"
proof -
  have "tree s' = (tree s)\<lparr>tree_heap := nodes_of s'\<rparr>" using assms(1) by (simp add: keeps_tree_def)
  moreover have "struct_ok env cfg ((tree s)\<lparr>tree_heap := nodes_of s'\<rparr>)"
    using struct_ok_shape [OF assms(2)] keeps_shape assms(1) by (auto simp: keeps_tree_def)
  ultimately show ?thesis by simp
qed

subsection \<open>The helpers\<close>

lemma prune_node_spec:
  assumes ok: "struct_ok env cfg (tree s)" and a: "a < length (nodes_of s)" and run: "prune_node a s = (r, s')"
  shows "\<exists>n. r = Ok n" "keeps_tree s s'" "is_live (nodes_of s ! a) \<Longrightarrow> live_nodes (nodes_of s') \<subset> live_nodes (nodes_of s)"
    "status (nodes_of s' ! a) \<notin> LIVE_STATUSES"
proof -
  note wf = struct_okD(1) [OF ok]
  obtain h where h: "prune_subtree (tree s) a = Some ((tree s)\<lparr>tree_heap := h\<rparr>,
       card {b. below (nodes_of s) a b \<and> is_live (nodes_of s ! b)})" "length h = length (nodes_of s)"
    "\<And>b. b < length h \<Longrightarrow> h ! b = (if below (nodes_of s) a b \<and> is_live (nodes_of s ! b)
        then (nodes_of s ! b)\<lparr>status := PRUNED\<rparr> else nodes_of s ! b)"
    by (rule prune_subtree_spec [OF wf a]) (rule that)
  have "s' = s\<lparr>tree := (tree s)\<lparr>tree_heap := h\<rparr>\<rparr> \<and> (\<exists>n. r = Ok n)"
    using run unfolding prune_node_def h(1) by auto
  then have s': "s' = s\<lparr>tree := (tree s)\<lparr>tree_heap := h\<rparr>\<rparr>" and "\<exists>n. r = Ok n" by blast+
  then show "\<exists>n. r = Ok n" by simp
  have k: "keeps (nodes_of s) h" using prune_keeps [OF h(2,3)] .
  then show "keeps_tree s s'" by (simp add: keeps_tree_def s')
  have new: "nodes_of s' = h" by (simp add: s')
  have al: "a < length h" using h(2) a by simp
  have at: "h ! a = (if is_live (nodes_of s ! a) then (nodes_of s ! a)\<lparr>status := PRUNED\<rparr> else nodes_of s ! a)"
    using h(3) [OF al] below.self [of "nodes_of s" a] by (simp only: simp_thms)
  then have dead: "\<not> is_live (h ! a)" by (simp add: is_live_def LIVE_STATUSES_def)
  then show "status (nodes_of s' ! a) \<notin> LIVE_STATUSES" unfolding new is_live_def .
  show "live_nodes (nodes_of s') \<subset> live_nodes (nodes_of s)" if "is_live (nodes_of s ! a)"
  proof -
    have "a \<in> live_nodes (nodes_of s)" "a \<notin> live_nodes h"
      using that a dead by (simp_all add: live_nodes_def)
    then show ?thesis using keeps_live [OF k] unfolding new by blast
  qed
qed

lemma consult_revision_spec:
  assumes "consult_revision env a s = (r, s')"
  shows "r \<noteq> Diverge" "keeps_tree s s'" "live_nodes (nodes_of s') = live_nodes (nodes_of s)"
    "\<And>b. b < length (nodes_of s) \<Longrightarrow> status (nodes_of s' ! b) = status (nodes_of s ! b)"
proof -
  have "(tree s' = tree s \<or> (\<exists>md. tree s' = (tree s)\<lparr>tree_heap := set_metadata (nodes_of s) a md\<rparr>)) \<and> r \<noteq> Diverge"
    using assms by (auto simp: consult_revision_def Let_def split: option.splits prod.splits)
  moreover have "status (set_metadata (nodes_of s) a md ! b) = status (nodes_of s ! b)"
    if "b < length (nodes_of s)" for b md
    using that by (cases "b = a") (simp_all add: set_metadata_def)
  ultimately show "r \<noteq> Diverge" "keeps_tree s s'" "live_nodes (nodes_of s') = live_nodes (nodes_of s)"
    "\<And>b. b < length (nodes_of s) \<Longrightarrow> status (nodes_of s' ! b) = status (nodes_of s ! b)"
    by (auto simp: keeps_tree_def keeps_refl keeps_set_metadata live_nodes_def is_live_def)
qed

lemma uct_key_spec: "uct_key env cfg c s = (r, s') \<Longrightarrow> tree s' = tree s \<and> r \<noteq> Diverge"
  by (auto simp: uct_key_def bindM_def draw_random_def ret_def split: sum.splits prod.splits)

lemma uct_keys_spec:
  "uct_keys env cfg cs s = (r, s') \<Longrightarrow> tree s' = tree s \<and> r \<noteq> Diverge \<and> (\<forall>ks. r = Ok ks \<longrightarrow> map fst ks = cs)"
proof (induction cs arbitrary: s r s')
  case (Cons c cs)
  obtain r1 s1 where k: "uct_key env cfg c s = (r1, s1)" by fastforce
  obtain r2 s2 where ks: "uct_keys env cfg cs s1 = (r2, s2)" by fastforce
  show ?case using Cons.prems k ks uct_key_spec [OF k] Cons.IH [OF ks]
    by (cases r1; cases r2) (auto simp: bindM_def ret_def)
qed (auto simp: ret_def)

lemma pick_child_spec:
  assumes "pick_child env cfg cs s = (r, s')"
  shows "tree s' = tree s" "r \<noteq> Diverge" "r = Ok c \<Longrightarrow> c \<in> set cs"
proof -
  obtain r1 s1 where k: "uct_keys env cfg cs s = (r1, s1)" by fastforce
  note spec = uct_keys_spec [OF k]
  have "tree s' = tree s \<and> r \<noteq> Diverge \<and> (r = Ok c \<longrightarrow> c \<in> set cs)"
  proof (cases r1)
    case (Ok ks)
    show ?thesis
    proof (cases ks)
      case Nil
      then show ?thesis using assms k spec Ok by (auto simp: pick_child_def bindM_def)
    next
      case (Cons x xs)
      have "max_key uct_gt snd x xs \<in> set ks" using max_key_in [of uct_gt snd x xs] Cons by auto
      then have "fst (max_key uct_gt snd x xs) \<in> fst ` set ks" by (rule imageI)
      moreover have "fst ` set ks = set cs" using spec Ok by (metis set_map)
      ultimately have "fst (max_key uct_gt snd x xs) \<in> set cs" by simp
      then show ?thesis using assms k spec Ok Cons by (auto simp: pick_child_def bindM_def ret_def)
    qed
  qed (use assms k spec in \<open>auto simp: pick_child_def bindM_def\<close>)
  then show "tree s' = tree s" "r \<noteq> Diverge" "r = Ok c \<Longrightarrow> c \<in> set cs" by blast+
qed

subsection \<open>The loop returns\<close>

text \<open>What the loop promises about its result; \<open>cur\<close> is the node of the inner loop.\<close>

definition select_post ::
  "search_config \<Rightarrow> 'w run_state \<Rightarrow> (addr option \<times> string list) res \<times> 'w run_state \<Rightarrow> bool" where
  "select_post cfg s y \<longleftrightarrow> keeps_tree s (snd y) \<and> (case fst y of
       Ok (None, _) \<Rightarrow> \<not> is_live (nodes_of (snd y) ! tree_root (tree s))
     | Ok (Some a, revived) \<Rightarrow> a < length (nodes_of s) \<and> is_live (nodes_of (snd y) ! a)
          \<and> depth (nodes_of (snd y) ! a) < max_depth cfg
          \<and> (revived = [] \<longrightarrow> children (nodes_of (snd y) ! a) = [])
     | Raise _ \<Rightarrow> True
     | Diverge \<Rightarrow> False)"

lemma select_post_mono: "select_post cfg s' y \<Longrightarrow> keeps_tree s s' \<Longrightarrow> select_post cfg s y"
  unfolding select_post_def
  by (auto simp: keeps_tree_def keeps_length intro: keeps_trans split: res.splits option.splits)

definition select_rank :: "heap \<Rightarrow> addr option \<Rightarrow> nat" where
  "select_rank h cur = card (live_nodes h) * (length h + 2)
     + (case cur of None \<Rightarrow> length h + 1 | Some a \<Rightarrow> length h - a)"

lemma select_rank_pruned:
  assumes "live_nodes h' \<subset> live_nodes h" "length h' = length h"
  shows "select_rank h' None < select_rank h cur"
proof -
  have "card (live_nodes h') < card (live_nodes h)" using assms(1) by (simp add: psubset_card_mono)
  then have "Suc (card (live_nodes h')) * (length h + 2) \<le> card (live_nodes h) * (length h + 2)"
    by (intro mult_le_mono1) simp
  then show ?thesis using assms(2) by (simp add: select_rank_def split: option.splits)
qed

lemma select_rank_down: "a < c \<Longrightarrow> c < length h \<Longrightarrow> select_rank h (Some c) < select_rank h (Some a)"
  by (simp add: select_rank_def)

lemma prune_node_total:
  assumes "struct_ok env cfg (tree s)" "a < length (nodes_of s)"
  obtains n s' where "prune_node a s = (Ok n, s')" "keeps_tree s s'"
    "is_live (nodes_of s ! a) \<Longrightarrow> live_nodes (nodes_of s') \<subset> live_nodes (nodes_of s)"
proof -
  obtain r s' where run: "prune_node a s = (r, s')" by fastforce
  note spec = prune_node_spec [OF assms run]
  obtain n where "r = Ok n" using spec(1) by blast
  then show thesis using that run spec(2,3) by blast
qed

lemma select_loop_total:
  assumes "struct_ok env cfg (tree s)" "\<And>a. cur = Some a \<Longrightarrow> a < length (nodes_of s) \<and> is_live (nodes_of s ! a)"
  shows "\<exists>y. select_loop env cfg cur s = Some y \<and> select_post cfg s y"
  using assms
proof (induction "select_rank (nodes_of s) cur" arbitrary: cur s rule: less_induct)
  case less
  note ok = less.prems(1) and d = struct_okD [OF less.prems(1)]
  have restart: "\<exists>y. select_loop env cfg None s2 = Some y \<and> select_post cfg s y"
    if k: "keeps_tree s s2" and lv: "live_nodes (nodes_of s2) \<subset> live_nodes (nodes_of s)" for s2
  proof -
    have "select_rank (nodes_of s2) None < select_rank (nodes_of s) cur"
      by (rule select_rank_pruned [OF lv]) (use k in \<open>simp add: keeps_tree_def keeps_length\<close>)
    from less.hyps [OF this keeps_tree_struct [OF k ok]] show ?thesis
      using select_post_mono [OF _ k] by auto
  qed
  show ?case
  proof (cases cur)
    case None
    show ?thesis
    proof (cases "is_live (nodes_of s ! tree_root (tree s))")
      case True
      have "select_rank (nodes_of s) (Some (tree_root (tree s))) < select_rank (nodes_of s) cur"
        using None by (simp add: select_rank_def)
      from less.hyps [OF this ok] show ?thesis
        using None True d(2,4) by (simp add: select_loop.simps [of env cfg None])
    next
      case False
      then show ?thesis using None
        by (simp add: select_loop.simps [of env cfg None] select_post_def keeps_tree_refl)
    qed
  next
    case (Some a)
    have a: "a < length (nodes_of s)" "is_live (nodes_of s ! a)" using less.prems(2) Some by blast+
    let ?live = "filter (\<lambda>c. is_live (nodes_of s ! c)) (children (nodes_of s ! a))"
    note unfold = select_loop.simps [of env cfg "Some a" s]
    consider (leaf) "children (nodes_of s ! a) = []"
      | (dead) "children (nodes_of s ! a) \<noteq> []" "?live = []"
      | (inner) "children (nodes_of s ! a) \<noteq> []" "?live \<noteq> []" by blast
    then show ?thesis
    proof cases
      case leaf
      obtain n s2 where pr: "prune_node a s = (Ok n, s2)" "keeps_tree s s2"
        "live_nodes (nodes_of s2) \<subset> live_nodes (nodes_of s)"
        using prune_node_total [OF ok a(1)] a(2) by metis
      show ?thesis
        using Some leaf a pr restart [OF pr(2,3)] unfold by (auto simp: select_post_def keeps_tree_refl)
    next
      case dead
      obtain r s1 where cr: "consult_revision env a s = (r, s1)" by fastforce
      note spec = consult_revision_spec [OF cr]
      have ok1: "struct_ok env cfg (tree s1)" using keeps_tree_struct spec(2) ok by blast
      have k1: "keeps (nodes_of s) (nodes_of s1)" using spec(2) by (simp add: keeps_tree_def)
      have a1: "a < length (nodes_of s1)" using a(1) keeps_length [OF k1] by simp
      obtain n s2 where pr: "prune_node a s1 = (Ok n, s2)" "keeps_tree s1 s2"
        "live_nodes (nodes_of s2) \<subset> live_nodes (nodes_of s1)"
        using prune_node_total [OF ok1 a1] a spec(4) by (metis is_live_def)
      have k2: "keeps_tree s s2" using keeps_tree_trans spec(2) pr(2) by blast
      have lv: "live_nodes (nodes_of s2) \<subset> live_nodes (nodes_of s)" using pr(3) spec(3) by simp
      obtain c where c: "c \<in> set (children (nodes_of s ! a))" using dead(1) by (meson last_in_set)
      have "depth (nodes_of s ! c) = depth (nodes_of s ! a) + 1" "c < length (nodes_of s)"
        using wf_heapD(3,5) [OF d(3) a(1) c] by simp_all
      then have dep: "depth (nodes_of s1 ! a) < max_depth cfg"
        using d(8) [of c] keepsD(3) [OF k1 a(1)] by simp
      have live1: "is_live (nodes_of s1 ! a)" using spec(4) [OF a(1)] a(2) by (simp add: is_live_def)
      show ?thesis
        using Some dead cr spec(1,2) pr(1) restart [OF k2 lv] unfold dep live1 a(1)
        by (cases r) (auto simp: select_post_def)
    next
      case inner
      obtain r s1 where pc: "pick_child env cfg ?live s = (r, s1)" by fastforce
      note spec = pick_child_spec [OF pc]
      show ?thesis
      proof (cases r)
        case (Ok c)
        have c: "c \<in> set (children (nodes_of s ! a))" "is_live (nodes_of s ! c)"
          using spec(3) [OF Ok] by simp_all
        note lt = wf_heapD(2,3) [OF d(3) a(1) c(1)]
        have "select_rank (nodes_of s1) (Some c) < select_rank (nodes_of s) cur"
          using select_rank_down [OF lt] spec(1) Some by simp
        then have "\<exists>y. select_loop env cfg (Some c) s1 = Some y \<and> select_post cfg s1 y"
          by (rule less.hyps) (use spec(1) ok c lt in simp_all)
        then show ?thesis
          using Some inner pc Ok unfold select_post_mono [OF _ keeps_tree_same [OF spec(1)]] by auto
      next
        case (Raise e)
        then show ?thesis
          using Some inner pc unfold keeps_tree_same [OF spec(1)] by (simp add: select_post_def)
      qed (use spec(2) in simp)
    qed
  qed
qed

lemma select_spec:
  assumes "struct_ok env cfg (tree s)" "select env cfg s = (r, s')"
  shows "select_post cfg s (r, s')"
  using select_loop_total [of env cfg s None, OF assms(1)] assms(2) by (auto simp: select_def)

end
