(* ===== verification/Search_Expand.thy ===== *)
theory Search_Expand
  imports Search_Select
begin

section \<open>Expansion, evaluation and backpropagation\<close>

text \<open>
  What the three working phases of an iteration do to the tree: expansion appends fresh
  children under one node, evaluation scores exactly those, and backpropagation visits their
  ancestors. The invariants stated here are \<open>term_ok\<close>, every accepted node passed the
  threshold, and \<open>visits_ok\<close>, every node's visit count is the number of its descendants that
  have been backpropagated.
\<close>

subsection \<open>\_expand\<close>

text \<open>\<open>h'\<close> is \<open>h\<close> with new, unvisited, pending children of \<open>a\<close> at its end.\<close>

definition grown :: "addr \<Rightarrow> heap \<Rightarrow> heap \<Rightarrow> bool" where
  "grown a h h' \<longleftrightarrow> length h \<le> length h'
     \<and> (\<forall>b<length h. b \<noteq> a \<longrightarrow> h' ! b = h ! b)
     \<and> h' ! a = (h ! a)\<lparr>children := children (h ! a) @ [length h..<length h']\<rparr>
     \<and> (\<forall>b. length h \<le> b \<and> b < length h' \<longrightarrow> parent (h' ! b) = Some a \<and> status (h' ! b) = PENDING
          \<and> children (h' ! b) = [] \<and> visits (h' ! b) = 0 \<and> value_sum (h' ! b) = 0)"

lemma grown_refl: "grown a h h"
  unfolding grown_def by (intro conjI allI impI) auto

lemma grown_step:
  assumes a: "a < length h" and at: "attach_child h a c i = (h1, ch)" and g: "grown a h1 h2"
  shows "grown a h h2"
proof -
  note n = attach_child_nth [OF a at]
  have upt: "length h # [Suc (length h)..<length h2] = [length h..<length h2]"
    using g n(2) by (simp add: grown_def upt_conv_Cons)
  show ?thesis unfolding grown_def
  proof (intro conjI allI impI)
    show "length h \<le> length h2" using g n(2) by (simp add: grown_def)
    show "h2 ! b = h ! b" if "b < length h" "b \<noteq> a" for b
      using g n(2,5) that by (simp add: grown_def)
    show "h2 ! a = (h ! a)\<lparr>children := children (h ! a) @ [length h..<length h2]\<rparr>"
      using g n(2,4) upt by (simp add: grown_def)
    fix b assume b: "length h \<le> b \<and> b < length h2"
    have "h2 ! b = new_node c (Some a) (depth (h ! a) + 1) i" if "b = length h"
      using g n(2,3) a that by (simp add: grown_def)
    moreover have "length h1 \<le> b" if "b \<noteq> length h" using b n(2) that by simp
    ultimately show "parent (h2 ! b) = Some a" "status (h2 ! b) = PENDING" "children (h2 ! b) = []" "visits (h2 ! b) = 0"
      "value_sum (h2 ! b) = 0"
      using g b by (cases "b = length h"; simp add: grown_def new_node_def)+
  qed
qed

lemma map_of_fresh: "struct_ok env cfg t \<Longrightarrow> inj (uid env) \<Longrightarrow> \<not> tree_contains t (uid env (length (tree_heap t)))"
proof
  assume ok: "struct_ok env cfg t" and inj: "inj (uid env)" and c: "tree_contains t (uid env (length (tree_heap t)))"
  obtain b where "map_of (tree_index t) (uid env (length (tree_heap t))) = Some b"
    using c unfolding tree_contains_def by blast
  then have b: "b < length (tree_heap t)" "node_id (tree_heap t ! b) = uid env (length (tree_heap t))"
    using wf_tree_lookup [OF struct_okD(1) [OF ok]] by blast+
  then have "uid env b = uid env (length (tree_heap t))" using struct_okD(5) [OF ok b(1)] by simp
  then show False using injD [OF inj] b(1) by blast
qed

lemma create_child_spec:
  assumes ok: "struct_ok env cfg (tree s)" and inj: "inj (uid env)" and a: "a < length (nodes_of s)"
    and dep: "depth (nodes_of s ! a) < max_depth cfg" and tx: "text \<noteq> []" "py_strip text = text"
    and new: "text \<notin> set (map (\<lambda>c. content (nodes_of s ! c)) (children (nodes_of s ! a)))"
  obtains h s' where "create_child env a text s = (Ok (length (nodes_of s)), s')" "nodes_of s' = h"
    "attach_child (nodes_of s) a text (uid env (length (nodes_of s))) = (h, length (nodes_of s))"
    "world s' = world s" "tree_root (tree s') = tree_root (tree s)" "struct_ok env cfg (tree s')"
proof -
  note d = struct_okD [OF ok]
  let ?i = "uid env (length (nodes_of s))"
  obtain h where h: "attach_child (nodes_of s) a text ?i = (h, length (nodes_of s))"
    "add_child (tree s) a text ?i = Inr ((tree s)\<lparr>tree_heap := h, tree_index := tree_index (tree s) @ [(?i, length (nodes_of s))]\<rparr>,
       length (nodes_of s))"
    "wf_tree ((tree s)\<lparr>tree_heap := h, tree_index := tree_index (tree s) @ [(?i, length (nodes_of s))]\<rparr>)"
    by (rule add_child_spec [OF d(1) a map_of_fresh [OF ok inj]]) (rule that)
  note n = attach_child_nth [OF a h(1)]
  define t where "t = (tree s)\<lparr>tree_heap := h, tree_index := tree_index (tree s) @ [(?i, length (nodes_of s))]\<rparr>"
  have t: "tree_heap t = h" "tree_root t = tree_root (tree s)" by (simp_all add: t_def)
  have old: "content (h ! b) = content (nodes_of s ! b)" "depth (h ! b) = depth (nodes_of s ! b)"
    "node_id (h ! b) = node_id (nodes_of s ! b)" if "b < length (nodes_of s)" for b
    using n(4) n(5) [OF that] by (cases "b = a"; simp)+
  have last: "content (h ! length (nodes_of s)) = text" "depth (h ! length (nodes_of s)) = depth (nodes_of s ! a) + 1"
    "node_id (h ! length (nodes_of s)) = ?i" "children (h ! length (nodes_of s)) = []"
    using n(3) by (simp_all add: new_node_def)
  have split: "b < length (nodes_of s) \<or> b = length (nodes_of s)" if "b < length h" for b
    using that n(2) by auto
  have "struct_ok env cfg t"
    unfolding struct_ok_def t
  proof (intro conjI allI impI)
    show "wf_tree t" using h(3) by (simp add: t_def)
    show "tree_root (tree s) = 0" by (rule d(2))
    show "depth (h ! 0) = 0" using old(2) [OF d(4)] d(6) by simp
    fix b assume b: "b < length h"
    show "node_id (h ! b) = uid env b" using split [OF b] old(3) d(5) last(3) by auto
    show "0 \<le> depth (h ! b)" "depth (h ! b) \<le> max_depth cfg"
      using split [OF b] old(2) d(7,8) last(2) dep d(7) [OF a] by auto
    show "b \<noteq> 0 \<Longrightarrow> content (h ! b) \<noteq> []" "b \<noteq> 0 \<Longrightarrow> py_strip (content (h ! b)) = content (h ! b)"
      using split [OF b] old(1) d(10) last(1) tx by auto
    have cont: "map (\<lambda>c. content (h ! c)) (children (nodes_of s ! b)) = map (\<lambda>c. content (nodes_of s ! c)) (children (nodes_of s ! b))"
      if "b < length (nodes_of s)" for b
      by (rule map_cong [OF refl]) (use old(1) wf_heapD(3) [OF d(3) that] in auto)
    consider "b = length (nodes_of s)" | "b = a" | "b \<noteq> a" "b < length (nodes_of s)" using split [OF b] by blast
    then show "distinct (map (\<lambda>c. content (h ! c)) (children (h ! b)))"
    proof cases
      case 2
      have "map (\<lambda>c. content (h ! c)) (children (h ! b)) = map (\<lambda>c. content (nodes_of s ! c)) (children (nodes_of s ! a)) @ [text]"
        using 2 n(4) cont [OF a] last(1) by simp
      then show ?thesis using d(9) [OF a] new by (simp only: distinct_append) simp
    next
      case 3
      have "h ! b = nodes_of s ! b" using n(5) 3 by blast
      then show ?thesis using cont [OF 3(2)] d(9) [OF 3(2)] by (simp only:)
    qed (simp add: last(4))
  qed
  then show thesis using that [of "s\<lparr>tree := t\<rparr>" h] h(1,2) by (simp add: create_child_def t_def)
qed

lemma expand_loop_spec:
  assumes "struct_ok env cfg (tree s)" "inj (uid env)" "a < length (nodes_of s)"
    "depth (nodes_of s ! a) < max_depth cfg"
    "set (map (\<lambda>c. content (nodes_of s ! c)) (children (nodes_of s ! a))) \<subseteq> seen"
    "expand_loop env a cs seen kids s = (r, s')"
  shows "r = Ok (kids @ [length (nodes_of s)..<length (nodes_of s')]) \<and> grown a (nodes_of s) (nodes_of s')
     \<and> struct_ok env cfg (tree s') \<and> length (nodes_of s') \<le> length (nodes_of s) + length cs
     \<and> tree_root (tree s') = tree_root (tree s)"
  using assms
proof (induction cs arbitrary: seen kids s)
  case Nil
  then show ?case by (simp add: ret_def grown_refl)
next
  case (Cons c cs)
  show ?case
  proof (cases "py_strip c = [] \<or> py_strip c \<in> seen")
    case True
    then have "expand_loop env a cs seen kids s = (r, s')" using Cons.prems(6) by simp
    from Cons.IH [OF Cons.prems(1-5) this] show ?thesis by simp
  next
    case False
    note ok = Cons.prems(1) and a = Cons.prems(3)
    have new: "py_strip c \<notin> set (map (\<lambda>c. content (nodes_of s ! c)) (children (nodes_of s ! a)))"
      using False Cons.prems(5) by blast
    obtain h s1 where cc: "create_child env a (py_strip c) s = (Ok (length (nodes_of s)), s1)" "nodes_of s1 = h"
      "attach_child (nodes_of s) a (py_strip c) (uid env (length (nodes_of s))) = (h, length (nodes_of s))"
      "world s1 = world s" "tree_root (tree s1) = tree_root (tree s)" "struct_ok env cfg (tree s1)"
      by (rule create_child_spec [OF ok Cons.prems(2) a Cons.prems(4) _ py_strip_idem new]) (use False that in blast)+
    note n = attach_child_nth [OF a cc(3)]
    have run: "expand_loop env a cs (insert (py_strip c) seen) (kids @ [length (nodes_of s)]) s1 = (r, s')"
      using Cons.prems(6) False cc(1) by (simp add: bindM_def)
    have conts: "content (h ! b) = content (nodes_of s ! b)" if "b < length (nodes_of s)" for b
      using n(4) n(5) [OF that] by (cases "b = a") simp_all
    have sub: "set (map (\<lambda>c. content (nodes_of s1 ! c)) (children (nodes_of s1 ! a))) \<subseteq> insert (py_strip c) seen"
    proof
      fix x assume "x \<in> set (map (\<lambda>c. content (nodes_of s1 ! c)) (children (nodes_of s1 ! a)))"
      then obtain b where b: "x = content (h ! b)" "b \<in> set (children (nodes_of s ! a)) \<or> b = length (nodes_of s)"
        using n(4) unfolding cc(2) by auto
      then show "x \<in> insert (py_strip c) seen"
        using conts wf_heapD(3) [OF struct_okD(3) [OF ok] a] Cons.prems(5) n(3) by (auto simp: new_node_def)
    qed
    have "a < length (nodes_of s1)" "depth (nodes_of s1 ! a) < max_depth cfg"
      using a n(2,4) Cons.prems(4) unfolding cc(2) by simp_all
    note IH = Cons.IH [OF cc(6) Cons.prems(2) this sub run]
    have g: "grown a (nodes_of s) (nodes_of s')" using grown_step [OF a cc(3)] IH unfolding cc(2) by blast
    have len: "length (nodes_of s1) = Suc (length (nodes_of s))" using n(2) unfolding cc(2) .
    have "length (nodes_of s) # [Suc (length (nodes_of s))..<length (nodes_of s')] = [length (nodes_of s)..<length (nodes_of s')]"
      using IH len by (simp add: grown_def upt_conv_Cons)
    then show ?thesis using IH g len cc(5) by simp
  qed
qed

lemma expand_spec:
  assumes ok: "struct_ok env cfg (tree s)" and inj: "inj (uid env)" and a: "a < length (nodes_of s)"
    and dep: "depth (nodes_of s ! a) < max_depth cfg" and run: "expand env cfg a s = (r, s')"
  shows "r \<noteq> Diverge" "struct_ok env cfg (tree s')" "grown a (nodes_of s) (nodes_of s')"
    "\<And>kids. r = Ok kids \<Longrightarrow> kids = [length (nodes_of s)..<length (nodes_of s')]"
    "length (nodes_of s') \<le> length (nodes_of s) + nat (branching_factor cfg)"
proof -
  obtain g w where gen: "generate env (world s) (nodes_of s) a (branching_factor cfg) = (g, w)" by fastforce
  have "r \<noteq> Diverge \<and> struct_ok env cfg (tree s') \<and> grown a (nodes_of s) (nodes_of s')
    \<and> (\<forall>kids. r = Ok kids \<longrightarrow> kids = [length (nodes_of s)..<length (nodes_of s')])
    \<and> length (nodes_of s') \<le> length (nodes_of s) + nat (branching_factor cfg)"
  proof (cases g)
    case (Inl e)
    then show ?thesis using run gen ok grown_refl by (auto simp: expand_def)
  next
    case (Inr cs)
    let ?s = "s\<lparr>world := w\<rparr>" and ?cs = "take (nat (branching_factor cfg)) cs"
    have loop: "expand_loop env a ?cs (set (map (\<lambda>c. content (nodes_of s ! c)) (children (nodes_of s ! a)))) [] ?s = (r, s')"
      using run gen Inr by (simp add: expand_def)
    have "r = Ok ([] @ [length (nodes_of ?s)..<length (nodes_of s')]) \<and> grown a (nodes_of ?s) (nodes_of s')
      \<and> struct_ok env cfg (tree s') \<and> length (nodes_of s') \<le> length (nodes_of ?s) + length ?cs
      \<and> tree_root (tree s') = tree_root (tree ?s)"
      by (rule expand_loop_spec [OF _ inj _ _ _ loop]) (use ok a dep in simp_all)
    then show ?thesis by auto
  qed
  then show "r \<noteq> Diverge" "struct_ok env cfg (tree s')" "grown a (nodes_of s) (nodes_of s')"
    "\<And>kids. r = Ok kids \<Longrightarrow> kids = [length (nodes_of s)..<length (nodes_of s')]"
    "length (nodes_of s') \<le> length (nodes_of s) + nat (branching_factor cfg)" by blast+
qed

subsection \<open>\_evaluate\<close>

text \<open>
  \<open>scored K V cfg h h'\<close>: only the nodes of \<open>K\<close> changed, none of them in structure or visits, and
  where a status or a score changed it is the classification of a verdict of \<open>V\<close>.
\<close>

definition scored :: "search_config \<Rightarrow> addr set \<Rightarrow> evaluation set \<Rightarrow> heap \<Rightarrow> heap \<Rightarrow> bool" where
  "scored cfg K V h h' \<longleftrightarrow> shape h = shape h' \<and> (\<forall>b<length h.
       visits (h' ! b) = visits (h ! b) \<and> value_sum (h' ! b) = value_sum (h ! b)
     \<and> (b \<notin> K \<longrightarrow> h' ! b = h ! b)
     \<and> (status (h' ! b) = status (h ! b) \<and> score (h' ! b) = score (h ! b)
         \<or> (\<exists>v\<in>V. status (h' ! b) = classify cfg v \<and> score (h' ! b) = ev_score v)))"

lemma scoredD:
  assumes "scored cfg K V h h'"
  shows "shape h = shape h'" "length h' = length h"
    "\<And>b. b < length h \<Longrightarrow> visits (h' ! b) = visits (h ! b)"
    "\<And>b. b < length h \<Longrightarrow> value_sum (h' ! b) = value_sum (h ! b)"
    "\<And>b. b < length h \<Longrightarrow> b \<notin> K \<Longrightarrow> h' ! b = h ! b"
    "\<And>b. b < length h \<Longrightarrow> status (h' ! b) = status (h ! b) \<and> score (h' ! b) = score (h ! b)
         \<or> (\<exists>v\<in>V. status (h' ! b) = classify cfg v \<and> score (h' ! b) = ev_score v)"
  using assms shape_length [of h h'] unfolding scored_def by auto

lemma scored_refl: "scored cfg K V h h"
  by (simp add: scored_def)

lemma scored_trans:
  assumes "scored cfg K V h g" "scored cfg K' V' g f"
  shows "scored cfg (K \<union> K') (V \<union> V') h f"
proof -
  note a = scoredD [OF assms(1)] and b = scoredD [OF assms(2)]
  show ?thesis unfolding scored_def
  proof (intro conjI allI impI)
    show "shape h = shape f" using a(1) b(1) by (rule trans)
    fix x assume x: "x < length h"
    then have y: "x < length g" using a(2) by simp
    show "visits (f ! x) = visits (h ! x)" "value_sum (f ! x) = value_sum (h ! x)"
      using a(3,4) [OF x] b(3,4) [OF y] by simp_all
    show "x \<notin> K \<union> K' \<Longrightarrow> f ! x = h ! x" using a(5) [OF x] b(5) [OF y] by simp
    show "status (f ! x) = status (h ! x) \<and> score (f ! x) = score (h ! x)
         \<or> (\<exists>v\<in>V \<union> V'. status (f ! x) = classify cfg v \<and> score (f ! x) = ev_score v)"
      using a(6) [OF x] b(6) [OF y] by auto
  qed
qed

lemma scored_mono: "scored cfg K V h g \<Longrightarrow> K \<subseteq> K' \<Longrightarrow> V \<subseteq> V' \<Longrightarrow> scored cfg K' V' h g"
  unfolding scored_def by blast

lemma scored_set_metadata: "a \<in> K \<Longrightarrow> scored cfg K V h (set_metadata h a md)"
  unfolding scored_def
proof (intro conjI allI impI)
  fix b assume "b < length h"
  then have "set_metadata h a md ! b = (if b = a then (h ! b)\<lparr>metadata := md\<rparr> else h ! b)"
    by (simp add: set_metadata_def)
  moreover assume "a \<in> K"
  ultimately show "visits (set_metadata h a md ! b) = visits (h ! b)"
    "value_sum (set_metadata h a md ! b) = value_sum (h ! b)"
    "b \<notin> K \<Longrightarrow> set_metadata h a md ! b = h ! b"
    "status (set_metadata h a md ! b) = status (h ! b) \<and> score (set_metadata h a md ! b) = score (h ! b)
       \<or> (\<exists>v\<in>V. status (set_metadata h a md ! b) = classify cfg v \<and> score (set_metadata h a md ! b) = ev_score v)"
    by auto
qed simp

lemma scored_apply:
  assumes "a \<in> K" "v \<in> V"
  shows "scored cfg K V h (apply_evaluation h a (ev_score v) (classify cfg v) rat)"
  unfolding scored_def
proof (intro conjI allI impI)
  fix b assume b: "b < length h"
  let ?h = "apply_evaluation h a (ev_score v) (classify cfg v) rat"
  show "visits (?h ! b) = visits (h ! b)" "value_sum (?h ! b) = value_sum (h ! b)"
    using b by (cases "b = a"; simp add: apply_evaluation_def)+
  show "b \<notin> K \<Longrightarrow> ?h ! b = h ! b" using assms b by (cases "b = a") (simp_all add: apply_evaluation_def)
  show "status (?h ! b) = status (h ! b) \<and> score (?h ! b) = score (h ! b)
         \<or> (\<exists>v\<in>V. status (?h ! b) = classify cfg v \<and> score (?h ! b) = ev_score v)"
    using assms b by (cases "b = a") (auto simp: apply_evaluation_def)
qed simp

text \<open>The same of two run states: the tree's root and index are not touched.\<close>

definition graded :: "search_config \<Rightarrow> addr set \<Rightarrow> evaluation set \<Rightarrow> 'w run_state \<Rightarrow> 'w run_state \<Rightarrow> bool" where
  "graded cfg K V s s' \<longleftrightarrow> scored cfg K V (nodes_of s) (nodes_of s')
     \<and> tree_root (tree s') = tree_root (tree s) \<and> tree_index (tree s') = tree_index (tree s)"

lemma graded_refl: "graded cfg K V s s"
  by (simp add: graded_def scored_refl)

lemma graded_same_tree: "tree s' = tree s \<Longrightarrow> graded cfg K V s s'"
  by (simp add: graded_def scored_refl)

lemma graded_trans:
  assumes "graded cfg K V s s1" "graded cfg K' V' s1 s2" "K \<union> K' \<subseteq> K''" "V \<union> V' \<subseteq> V''"
  shows "graded cfg K'' V'' s s2"
proof -
  have "scored cfg (K \<union> K') (V \<union> V') (nodes_of s) (nodes_of s2)"
    using scored_trans [of cfg K V "nodes_of s" "nodes_of s1"] assms(1,2) unfolding graded_def by blast
  then have "scored cfg K'' V'' (nodes_of s) (nodes_of s2)" by (rule scored_mono) (rule assms)+
  then show ?thesis using assms(1,2) by (simp add: graded_def)
qed

lemma graded_struct:
  assumes "graded cfg K V s s'" "struct_ok env cfg (tree s)" shows "struct_ok env cfg (tree s')"
proof -
  have "tree s' = (tree s)\<lparr>tree_heap := nodes_of s'\<rparr>" using assms(1) by (simp add: graded_def)
  moreover have "struct_ok env cfg ((tree s)\<lparr>tree_heap := nodes_of s'\<rparr>)"
    by (rule struct_ok_shape [OF assms(2)]) (use assms(1) scoredD(1) in \<open>auto simp: graded_def\<close>)
  ultimately show ?thesis by simp
qed

lemma evaluate_one_spec:
  assumes "evaluate_one env c s = (r, s')"
  shows "r \<noteq> Diverge" "graded cfg {c} {} s s'"
  using assms scored_set_metadata [of c "{c}"]
  by (auto simp: evaluate_one_def Let_def graded_def split: prod.splits)

lemma evaluate_all_spec:
  "evaluate_all env cs s = (r, s') \<Longrightarrow>
     r \<noteq> Diverge \<and> graded cfg (set cs) {} s s' \<and> (\<forall>vs. r = Ok vs \<longrightarrow> length vs = length cs)"
proof (induction cs arbitrary: s r s')
  case (Cons c cs)
  obtain r1 s1 where one: "evaluate_one env c s = (r1, s1)" by fastforce
  note spec = evaluate_one_spec [OF one]
  obtain r2 s2 where rest: "evaluate_all env cs s1 = (r2, s2)" by fastforce
  note IH = Cons.IH [OF rest]
  have "graded cfg (set cs) {} s1 s2" using IH by blast
  then have g: "graded cfg (set (c # cs)) {} s s2" by (rule graded_trans [OF spec(2)]) auto
  have g1: "graded cfg (set (c # cs)) {} s s1" by (rule graded_trans [OF spec(2) graded_refl]) auto
  show ?case using Cons.prems one rest spec(1) IH g g1 by (cases r1; cases r2) (auto simp: bindM_def ret_def)
qed (auto simp: ret_def graded_refl)

lemma pool_complete_spec:
  "pool_complete env cs is fin s = (r, s') \<Longrightarrow> \<forall>x\<in>set fin. snd x \<noteq> Diverge \<Longrightarrow>
     graded cfg (set cs) {} s s' \<and> (\<exists>fin'. r = Ok fin' \<and> (\<forall>x\<in>set fin'. snd x \<noteq> Diverge))"
proof (induction "is" arbitrary: s fin)
  case (Cons i "is")
  show ?case
  proof (cases "i < length cs \<and> map_of fin i = None")
    case True
    obtain r1 s1 where one: "evaluate_one env (cs ! i) s = (r1, s1)" by fastforce
    note spec = evaluate_one_spec [OF one]
    have rest: "pool_complete env cs is (fin @ [(i, r1)]) s1 = (r, s')" using Cons.prems(1) True one by simp
    have "graded cfg (set cs) {} s1 s' \<and> (\<exists>fin'. r = Ok fin' \<and> (\<forall>x\<in>set fin'. snd x \<noteq> Diverge))"
      by (rule Cons.IH [OF rest]) (use Cons.prems(2) spec(1) in auto)
    moreover have "{cs ! i} \<union> set cs \<subseteq> set cs" using True by auto
    ultimately show ?thesis using graded_trans [OF spec(2)] by blast
  next
    case False
    then show ?thesis using Cons.IH [OF _ Cons.prems(2)] Cons.prems(1) by auto
  qed
qed (auto simp: ret_def graded_refl)

lemma pool_read_spec:
  "pool_read env cs i fin s = (r, s') \<Longrightarrow> \<forall>x\<in>set fin. snd x \<noteq> Diverge \<Longrightarrow>
     r \<noteq> Diverge \<and> graded cfg (set cs) {} s s' \<and> (\<forall>vs. r = Ok vs \<longrightarrow> length vs = length cs)"
proof (induction cs arbitrary: i s r s')
  case (Cons c cs)
  obtain r1 s1 where one: "(case map_of fin i of Some r \<Rightarrow> Pair r | None \<Rightarrow> evaluate_one env c) s = (r1, s1)"
    by fastforce
  have spec: "r1 \<noteq> Diverge" "graded cfg {c} {} s s1"
    using one evaluate_one_spec [of env c s r1 s1] Cons.prems(2) graded_refl
    by (auto split: option.splits dest!: map_of_SomeD)
  obtain r2 s2 where rest: "pool_read env cs (Suc i) fin s1 = (r2, s2)" by fastforce
  note IH = Cons.IH [OF rest Cons.prems(2)]
  have "graded cfg (set cs) {} s1 s2" using IH by blast
  then have g: "graded cfg (set (c # cs)) {} s s2" by (rule graded_trans [OF spec(2)]) auto
  have g1: "graded cfg (set (c # cs)) {} s s1" by (rule graded_trans [OF spec(2) graded_refl]) auto
  show ?case using Cons.prems(1) one rest spec(1) IH g g1 by (cases r1; cases r2) (auto simp: bindM_def ret_def)
qed (auto simp: ret_def graded_refl)

lemma collect_verdicts_spec:
  assumes "collect_verdicts env cfg cs s = (r, s')"
  shows "r \<noteq> Diverge" "graded cfg (set cs) {} s s'" "\<And>vs. r = Ok vs \<Longrightarrow> length vs = length cs"
proof -
  have "r \<noteq> Diverge \<and> graded cfg (set cs) {} s s' \<and> (\<forall>vs. r = Ok vs \<longrightarrow> length vs = length cs)"
  proof (cases "min (evaluation_workers cfg) (int (length cs)) \<le> 1")
    case True
    then show ?thesis using assms evaluate_all_spec [of env cs s r s' cfg] by (simp add: collect_verdicts_def)
  next
    case False
    obtain order w where o: "pool_order env (world s) (length cs) = (order, w)" by fastforce
    obtain r1 s1 where pc: "pool_complete env cs order [] (s\<lparr>world := w\<rparr>) = (r1, s1)" by fastforce
    obtain fin where fin: "graded cfg (set cs) {} (s\<lparr>world := w\<rparr>) s1" "r1 = Ok fin" "\<forall>x\<in>set fin. snd x \<noteq> Diverge"
      using pool_complete_spec [OF pc, of cfg] by auto
    have "pool_read env cs 0 fin s1 = (r, s')" using assms False o pc fin(2) by (simp add: collect_verdicts_def bindM_def)
    from pool_read_spec [OF this fin(3), of cfg] show ?thesis
      using graded_trans [OF fin(1), of "set cs" "{}" s' "set cs" "{}"] by (auto simp: graded_def)
  qed
  then show "r \<noteq> Diverge" "graded cfg (set cs) {} s s'" "\<And>vs. r = Ok vs \<Longrightarrow> length vs = length cs" by blast+
qed

text \<open>Applying the verdicts.\<close>

lemma consult_critic_spec:
  assumes "consult_critic env st c s = (r, s')"
  shows "r \<noteq> Diverge" "graded cfg {c} {} s s'"
proof -
  have "r \<noteq> Diverge \<and> (tree s' = tree s \<or> (\<exists>md. tree s' = (tree s)\<lparr>tree_heap := set_metadata (nodes_of s) c md\<rparr>))"
    using assms by (auto simp: consult_critic_def split: option.splits prod.splits sum.splits if_splits)
  moreover have "scored cfg {c} {} (nodes_of s) (set_metadata (nodes_of s) c md)" for md
    by (rule scored_set_metadata) simp
  ultimately show "r \<noteq> Diverge" "graded cfg {c} {} s s'" by (auto simp: graded_def scored_refl)
qed

lemma shape_value_spec:
  assumes "shape_value env c v cr s = (r, s')"
  shows "r \<noteq> Diverge" "graded cfg {c} {} s s'"
proof -
  have "r \<noteq> Diverge \<and> (tree s' = tree s \<or> (\<exists>md. tree s' = (tree s)\<lparr>tree_heap := set_metadata (nodes_of s) c md\<rparr>))"
    using assms by (auto simp: shape_value_def Let_def split: option.splits prod.splits)
  moreover have "scored cfg {c} {} (nodes_of s) (set_metadata (nodes_of s) c md)" for md
    by (rule scored_set_metadata) simp
  ultimately show "r \<noteq> Diverge" "graded cfg {c} {} s s'" by (auto simp: graded_def scored_refl)
qed

lemma apply_verdict_spec:
  assumes run: "apply_verdict env cfg c v s = (r, s')" and c: "c < length (nodes_of s)"
  shows "r \<noteq> Diverge" "graded cfg {c} {v} s s'"
    "status (nodes_of s' ! c) = classify cfg v" "score (nodes_of s' ! c) = ev_score v"
proof -
  define s1 where "s1 = set_heap (apply_evaluation (nodes_of s) c (ev_score v) (classify cfg v) (ev_rationale v)) s"
  have g1: "graded cfg {c} {v} s s1"
    using scored_apply [of c "{c}" v "{v}"] by (simp add: graded_def s1_def)
  have at1: "status (nodes_of s1 ! c) = classify cfg v" "score (nodes_of s1 ! c) = ev_score v"
    using c by (simp_all add: s1_def apply_evaluation_def)
  obtain r2 s2 where cr: "consult_critic env (classify cfg v) c s1 = (r2, s2)" by fastforce
  note g2 = consult_critic_spec [OF cr]
  have run2: "bindM (consult_critic env (classify cfg v) c) (\<lambda>cr. shape_value env c (ev_score v) cr) s1 = (r, s')"
    using run by (simp add: apply_verdict_def bindM_def [of "store_verdict c v (classify cfg v)"] store_verdict_def s1_def)
  have "r \<noteq> Diverge \<and> graded cfg {c} {} s1 s'"
  proof (cases r2)
    case (Ok x)
    then have "shape_value env c (ev_score v) x s2 = (r, s')" using run2 cr by (simp add: bindM_def)
    note g3 = shape_value_spec [OF this]
    show ?thesis using g3(1) graded_trans [OF g2(2) g3(2)] by auto
  qed (use run2 cr g2 in \<open>auto simp: bindM_def\<close>)
  then have div: "r \<noteq> Diverge" and g: "graded cfg {c} {} s1 s'" by blast+
  show "r \<noteq> Diverge" by (rule div)
  show "graded cfg {c} {v} s s'" by (rule graded_trans [OF g1 g]) auto
  have "c < length (nodes_of s1)" using c by (simp add: s1_def apply_evaluation_def)
  then have "status (nodes_of s' ! c) = status (nodes_of s1 ! c)" "score (nodes_of s' ! c) = score (nodes_of s1 ! c)"
    using scoredD(6) [of cfg "{c}" "{}" "nodes_of s1" "nodes_of s'" c] g by (auto simp: graded_def)
  then show "status (nodes_of s' ! c) = classify cfg v" "score (nodes_of s' ! c) = ev_score v" using at1 by simp_all
qed

definition first_accepted :: "search_config \<Rightarrow> (addr \<times> evaluation) list \<Rightarrow> addr option" where
  "first_accepted cfg cvs = map_option fst (List.find (\<lambda>(c, v). classify cfg v = TERMINAL) cvs)"

lemma first_accepted_Cons:
  "first_accepted cfg ((c, v) # cvs) = (if classify cfg v = TERMINAL then Some c else first_accepted cfg cvs)"
  by (simp add: first_accepted_def)

lemma verdict_loop_spec:
  "verdict_loop env cfg cvs sol valued s = (r, s') \<Longrightarrow> distinct (map fst cvs) \<Longrightarrow>
   \<forall>x\<in>set cvs. fst x < length (nodes_of s) \<Longrightarrow>
   r \<noteq> Diverge \<and> graded cfg (fst ` set cvs) (snd ` set cvs) s s' \<and>
   (\<forall>sol' valued'. r = Ok (sol', valued') \<longrightarrow>
      map fst valued' = map fst valued @ map fst cvs
      \<and> sol' = (if sol = None then first_accepted cfg cvs else sol)
      \<and> (\<forall>(c, v)\<in>set cvs. status (nodes_of s' ! c) = classify cfg v \<and> score (nodes_of s' ! c) = ev_score v))"
proof (induction cvs arbitrary: sol valued s)
  case Nil
  then show ?case by (auto simp: ret_def graded_refl first_accepted_def)
next
  case (Cons cv cvs)
  obtain c v where cv: "cv = (c, v)" by fastforce
  have c: "c < length (nodes_of s)" using Cons.prems(3) cv by simp
  obtain r1 s1 where one: "apply_verdict env cfg c v s = (r1, s1)" by fastforce
  note spec = apply_verdict_spec [OF one c]
  have len: "length (nodes_of s1) = length (nodes_of s)" using spec(2) scoredD(2) by (auto simp: graded_def)
  let ?sol = "if classify cfg v = TERMINAL \<and> sol = None then Some c else sol"
  show ?case
  proof (cases r1)
    case (Ok x)
    have rest: "verdict_loop env cfg cvs ?sol (valued @ [(c, x)]) s1 = (r, s')"
      using Cons.prems(1) one Ok by (simp add: cv bindM_def)
    have IH: "r \<noteq> Diverge \<and> graded cfg (fst ` set cvs) (snd ` set cvs) s1 s' \<and>
       (\<forall>sol' valued'. r = Ok (sol', valued') \<longrightarrow>
      map fst valued' = map fst (valued @ [(c, x)]) @ map fst cvs
      \<and> sol' = (if ?sol = None then first_accepted cfg cvs else ?sol)
      \<and> (\<forall>(c, v)\<in>set cvs. status (nodes_of s' ! c) = classify cfg v \<and> score (nodes_of s' ! c) = ev_score v))"
      by (rule Cons.IH [OF rest]) (use Cons.prems(2,3) len in auto)
    have "graded cfg (fst ` set cvs) (snd ` set cvs) s1 s'" using IH by blast
    then have g: "graded cfg (fst ` set (cv # cvs)) (snd ` set (cv # cvs)) s s'"
      by (rule graded_trans [OF spec(2)]) (auto simp: cv)
    have "c \<notin> fst ` set cvs" using Cons.prems(2) cv by auto
    then have "nodes_of s' ! c = nodes_of s1 ! c"
      using IH scoredD(5) [of cfg "fst ` set cvs" "snd ` set cvs" "nodes_of s1" "nodes_of s'" c] c len
      by (auto simp: graded_def)
    then have "status (nodes_of s' ! c) = classify cfg v" "score (nodes_of s' ! c) = ev_score v"
      using spec(3,4) by simp_all
    then show ?thesis using IH g unfolding cv by (auto simp: first_accepted_Cons)
  next
    case (Raise e)
    have "graded cfg (fst ` set (cv # cvs)) (snd ` set (cv # cvs)) s s1"
      by (rule graded_trans [OF spec(2) graded_refl]) (auto simp: cv)
    moreover have "r = Raise e" "s' = s1" using Cons.prems(1) one Raise by (simp_all add: cv bindM_def)
    ultimately show ?thesis by simp
  qed (use spec(1) in simp)
qed

lemma evaluate_children_spec:
  assumes run: "evaluate_children env cfg cs s = (r, s')" and cs: "distinct cs" "\<forall>c\<in>set cs. c < length (nodes_of s)"
  shows "r \<noteq> Diverge" "\<exists>V. graded cfg (set cs) V s s'"
    "\<And>sol valued. r = Ok (sol, valued) \<Longrightarrow> map fst valued = cs
       \<and> (\<exists>vs. length vs = length cs \<and> sol = first_accepted cfg (zip cs vs)
            \<and> (\<forall>(c, v)\<in>set (zip cs vs). status (nodes_of s' ! c) = classify cfg v \<and> score (nodes_of s' ! c) = ev_score v))"
proof -
  obtain r1 s1 where cv: "collect_verdicts env cfg cs s = (r1, s1)" by fastforce
  note c = collect_verdicts_spec [OF cv]
  have "r \<noteq> Diverge \<and> (\<exists>V. graded cfg (set cs) V s s') \<and> (\<forall>sol valued. r = Ok (sol, valued) \<longrightarrow> map fst valued = cs
       \<and> (\<exists>vs. length vs = length cs \<and> sol = first_accepted cfg (zip cs vs)
            \<and> (\<forall>(c, v)\<in>set (zip cs vs). status (nodes_of s' ! c) = classify cfg v \<and> score (nodes_of s' ! c) = ev_score v)))"
  proof (cases r1)
    case (Ok vs)
    have len: "length vs = length cs" using c(3) [OF Ok] .
    have fst: "map fst (zip cs vs) = cs" using len by simp
    have loop: "verdict_loop env cfg (zip cs vs) None [] s1 = (r, s')"
      using run cv Ok by (simp add: evaluate_children_def bindM_def)
    have n: "length (nodes_of s1) = length (nodes_of s)" using c(2) scoredD(2) by (auto simp: graded_def)
    have bound: "\<forall>x\<in>set (zip cs vs). fst x < length (nodes_of s1)"
      using cs(2) n by (auto dest: set_zip_leftD)
    have v: "r \<noteq> Diverge \<and> graded cfg (fst ` set (zip cs vs)) (snd ` set (zip cs vs)) s1 s' \<and>
      (\<forall>sol' valued'. r = Ok (sol', valued') \<longrightarrow> map fst valued' = cs
      \<and> sol' = first_accepted cfg (zip cs vs)
      \<and> (\<forall>(c, v)\<in>set (zip cs vs). status (nodes_of s' ! c) = classify cfg v \<and> score (nodes_of s' ! c) = ev_score v))"
      using verdict_loop_spec [OF loop _ bound] cs(1) fst by auto
    have sub: "fst ` set (zip cs vs) = set cs" using fst by (metis set_map)
    have "graded cfg (set cs) (snd ` set (zip cs vs)) s1 s'" using v unfolding sub by blast
    then have "graded cfg (set cs) (snd ` set (zip cs vs)) s s'" by (rule graded_trans [OF c(2)]) auto
    then show ?thesis using v fst len by auto
  qed (use run cv c in \<open>auto simp: evaluate_children_def bindM_def\<close>)
  then show "r \<noteq> Diverge" "\<exists>V. graded cfg (set cs) V s s'"
    "\<And>sol valued. r = Ok (sol, valued) \<Longrightarrow> map fst valued = cs
       \<and> (\<exists>vs. length vs = length cs \<and> sol = first_accepted cfg (zip cs vs)
            \<and> (\<forall>(c, v)\<in>set (zip cs vs). status (nodes_of s' ! c) = classify cfg v \<and> score (nodes_of s' ! c) = ev_score v))"
    by blast+
qed

subsection \<open>\_backpropagate\<close>

text \<open>\<open>n\<close> is the number of nodes whose value has been propagated, the root included.\<close>

definition visits_ok :: "heap \<Rightarrow> nat \<Rightarrow> bool" where
  "visits_ok h n \<longleftrightarrow> (\<forall>a<length h. visits (h ! a) = int (card {b. 0 < b \<and> b < n \<and> below h a b}))"

lemma record_path_nth:
  "distinct p \<Longrightarrow> b < length h \<Longrightarrow> record_path h p v ! b
     = (if b \<in> set p then (h ! b)\<lparr>visits := visits (h ! b) + 1, value_sum := value_sum (h ! b) + v\<rparr> else h ! b)"
proof (induction p arbitrary: h)
  case (Cons a p)
  show ?case using Cons.IH [of "record_visit h a v"] Cons.prems
    by (cases "b = a") (auto simp: record_visit_def Let_def)
qed simp

lemma shape_record_path [simp]: "shape (record_path h p v) = shape h"
  by (induction p arbitrary: h) simp_all

lemma length_record_path [simp]: "length (record_path h p v) = length h"
  by (induction p arbitrary: h) simp_all

lemma visits_ok_step:
  assumes wf: "wf_tree t" and n: "0 < n" "n < length (tree_heap t)" and v: "visits_ok (tree_heap t) n"
    and p: "path_from_root (tree_heap t) n = Some p"
  shows "visits_ok (record_path (tree_heap t) p x) (Suc n)"
  unfolding visits_ok_def length_record_path
proof (intro allI impI)
  fix a assume a: "a < length (tree_heap t)"
  obtain xs where xs: "path_from_root (tree_heap t) n = Some xs" "distinct xs"
    "\<And>b. b \<in> set xs \<longleftrightarrow> below (tree_heap t) b n \<and> b < length (tree_heap t)"
    by (rule tree_path_total [OF wf n(2)]) (rule that)
  then have path: "distinct p" "b \<in> set p \<longleftrightarrow> below (tree_heap t) b n \<and> b < length (tree_heap t)" for b
    using p by simp_all
  have below: "below (record_path (tree_heap t) p x) a b \<longleftrightarrow> below (tree_heap t) a b" for b
    using below_shape [of "tree_heap t" "record_path (tree_heap t) p x" a b] wf_treeD(1) [OF wf] a by simp
  let ?B = "{b. 0 < b \<and> b < n \<and> below (tree_heap t) a b}"
  have "{b. 0 < b \<and> b < Suc n \<and> below (tree_heap t) a b} = (if below (tree_heap t) a n then insert n ?B else ?B)"
    using n(1) by (auto simp: less_Suc_eq)
  moreover have "finite ?B" by (rule finite_subset [of _ "{..<n}"]) auto
  ultimately have "card {b. 0 < b \<and> b < Suc n \<and> below (tree_heap t) a b}
      = card ?B + (if below (tree_heap t) a n then 1 else 0)" by simp
  then show "visits (record_path (tree_heap t) p x ! a)
      = int (card {b. 0 < b \<and> b < Suc n \<and> below (record_path (tree_heap t) p x) a b})"
    using record_path_nth [of p a "tree_heap t" x] v a path by (simp add: below visits_ok_def)
qed

lemma backpropagate_spec:
  "struct_ok env cfg (tree s) \<Longrightarrow> map fst cvs = [n..<m] \<Longrightarrow> 0 < n \<Longrightarrow> n \<le> m \<Longrightarrow> m \<le> length (nodes_of s) \<Longrightarrow>
   visits_ok (nodes_of s) n \<Longrightarrow> backpropagate cvs s = (r, s') \<Longrightarrow>
   r = Ok () \<and> struct_ok env cfg (tree s') \<and> visits_ok (nodes_of s') m \<and> shape (nodes_of s') = shape (nodes_of s)
   \<and> (\<forall>b<length (nodes_of s). status (nodes_of s' ! b) = status (nodes_of s ! b) \<and> score (nodes_of s' ! b) = score (nodes_of s ! b))"
proof (induction cvs arbitrary: n s)
  case Nil
  have "[n..<m] = []" using Nil.prems(2) by simp
  then have "n = m" using Nil.prems(4) by (auto simp: upt_eq_Nil_conv)
  then show ?case using Nil by (simp add: ret_def)
next
  case (Cons cv cvs)
  obtain c x where cv: "cv = (c, x)" by fastforce
  have nm: "n < m" using Cons.prems(2) by (cases "n < m") simp_all
  then have "[n..<m] = n # [Suc n..<m]" by (rule upt_conv_Cons)
  then have c: "c = n" and rest: "map fst cvs = [Suc n..<m]" using Cons.prems(2) cv by simp_all
  have n: "n < length (nodes_of s)" using nm Cons.prems(5) by simp
  note wf = struct_okD(1) [OF Cons.prems(1)]
  obtain p where p: "path_from_root (nodes_of s) n = Some p" "distinct p"
    by (rule tree_path_total [OF wf n]) (rule that)
  let ?s = "set_heap (record_path (nodes_of s) p x) s"
  have heap: "nodes_of ?s = record_path (nodes_of s) p x" by simp
  have "struct_ok env cfg (tree ?s)" using struct_ok_shape [OF Cons.prems(1)] by simp
  moreover have "visits_ok (nodes_of ?s) (Suc n)" unfolding heap by (rule visits_ok_step [OF wf Cons.prems(3) n Cons.prems(6) p(1)])
  moreover have "backpropagate cvs ?s = (r, s')" using Cons.prems(7) p(1) by (simp add: cv c)
  ultimately have IH: "r = Ok () \<and> struct_ok env cfg (tree s') \<and> visits_ok (nodes_of s') m \<and> shape (nodes_of s') = shape (nodes_of ?s)
   \<and> (\<forall>b<length (nodes_of ?s). status (nodes_of s' ! b) = status (nodes_of ?s ! b) \<and> score (nodes_of s' ! b) = score (nodes_of ?s ! b))"
    using Cons.IH [of ?s "Suc n"] rest nm Cons.prems(5) by simp
  have "status (record_path (nodes_of s) p x ! b) = status (nodes_of s ! b)"
    "score (record_path (nodes_of s) p x ! b) = score (nodes_of s ! b)" if "b < length (nodes_of s)" for b
    using record_path_nth [OF p(2) that, of x] by simp_all
  then show ?case using IH by simp
qed

subsection \<open>Values in the unit interval\<close>

text \<open>
  With fair policies every value that is propagated lies in the unit interval, so the sum a
  node holds is at most its visit count: \<open>mean_value\<close> is a mean of unit values.
\<close>

definition values_ok :: "heap \<Rightarrow> bool" where
  "values_ok h \<longleftrightarrow> (\<forall>a<length h. \<exists>x. value_sum (h ! a) = Fin x \<and> 0 \<le> x \<and> x \<le> real_of_int (visits (h ! a)))"

lemma values_ok_same:
  assumes "length h' = length h" "\<And>a. a < length h \<Longrightarrow> visits (h' ! a) = visits (h ! a)"
    "\<And>a. a < length h \<Longrightarrow> value_sum (h' ! a) = value_sum (h ! a)" "values_ok h"
  shows "values_ok h'"
  using assms by (simp add: values_ok_def)

lemma record_path_values:
  assumes "values_ok h" "unit_value v" "distinct p" shows "values_ok (record_path h p v)"
  unfolding values_ok_def length_record_path
proof (intro allI impI)
  fix a assume a: "a < length h"
  obtain x where x: "value_sum (h ! a) = Fin x" "0 \<le> x" "x \<le> real_of_int (visits (h ! a))"
    using assms(1) a unfolding values_ok_def by blast
  obtain y where y: "v = Fin y" "0 \<le> y" "y \<le> 1"
    using assms(2) unit_interval_Fin unfolding unit_value_def by blast
  show "\<exists>z. value_sum (record_path h p v ! a) = Fin z \<and> 0 \<le> z \<and> z \<le> real_of_int (visits (record_path h p v ! a))"
    using x y record_path_nth [OF assms(3) a, of v] by simp
qed

lemma backpropagate_values:
  "wf_tree (tree s) \<Longrightarrow> values_ok (nodes_of s) \<Longrightarrow> \<forall>x\<in>set cvs. fst x < length (nodes_of s) \<and> unit_value (snd x) \<Longrightarrow>
   backpropagate cvs s = (r, s') \<Longrightarrow> values_ok (nodes_of s')"
proof (induction cvs arbitrary: s)
  case (Cons cv cvs)
  obtain c v where cv: "cv = (c, v)" by fastforce
  have c: "c < length (nodes_of s)" "unit_value v" using Cons.prems(3) cv by simp_all
  obtain p where p: "path_from_root (nodes_of s) c = Some p" "distinct p"
    by (rule tree_path_total [OF Cons.prems(1) c(1)]) (rule that)
  let ?s = "set_heap (record_path (nodes_of s) p v) s"
  have wf: "wf_tree (tree ?s)" using wf_tree_shape [OF Cons.prems(1)] by simp
  have val: "values_ok (nodes_of ?s)" using record_path_values [OF Cons.prems(2) c(2) p(2)] by simp
  have rest: "\<forall>x\<in>set cvs. fst x < length (nodes_of ?s) \<and> unit_value (snd x)" using Cons.prems(3) by simp
  have "backpropagate cvs ?s = (r, s')" using Cons.prems(4) p(1) by (simp add: cv)
  then show ?case by (rule Cons.IH [OF wf val rest])
qed (simp add: ret_def)

text \<open>The verdicts an environment can give are valid, whichever way they are collected.\<close>

lemma evaluate_one_fair: "fair env \<Longrightarrow> evaluate_one env c s = (Ok v, s') \<Longrightarrow> valid_evaluation v"
  using fairD(1) [of env "world s" "nodes_of s" c v]
  by (cases "fst (evaluate env (world s) (nodes_of s) c)") (auto simp: evaluate_one_def Let_def split: prod.splits)

lemma evaluate_all_fair:
  "fair env \<Longrightarrow> evaluate_all env cs s = (Ok vs, s') \<Longrightarrow> \<forall>v\<in>set vs. valid_evaluation v"
proof (induction cs arbitrary: s vs)
  case (Cons c cs)
  then show ?case
    by (auto simp: bindM_def ret_def dest: evaluate_one_fair split: prod.splits res.splits)
qed (simp add: ret_def)

lemma pool_complete_fair:
  "fair env \<Longrightarrow> pool_complete env cs is fin s = (Ok fin', s') \<Longrightarrow> \<forall>(i, r)\<in>set fin. \<forall>v. r = Ok v \<longrightarrow> valid_evaluation v \<Longrightarrow>
   \<forall>(i, r)\<in>set fin'. \<forall>v. r = Ok v \<longrightarrow> valid_evaluation v"
proof (induction "is" arbitrary: s fin)
  case (Cons i "is")
  show ?case
  proof (cases "i < length cs \<and> map_of fin i = None")
    case True
    obtain r1 s1 where one: "evaluate_one env (cs ! i) s = (r1, s1)" by fastforce
    have "\<forall>v. r1 = Ok v \<longrightarrow> valid_evaluation v" using one evaluate_one_fair [OF Cons.prems(1)] by blast
    then have "\<forall>(i, r)\<in>set (fin @ [(i, r1)]). \<forall>v. r = Ok v \<longrightarrow> valid_evaluation v" using Cons.prems(3) by auto
    moreover have "pool_complete env cs is (fin @ [(i, r1)]) s1 = (Ok fin', s')" using Cons.prems(2) True one by simp
    ultimately show ?thesis by (intro Cons.IH [OF Cons.prems(1)])
  next
    case False
    then have "pool_complete env cs is fin s = (Ok fin', s')" using Cons.prems(2) by auto
    then show ?thesis by (rule Cons.IH [OF Cons.prems(1) _ Cons.prems(3)])
  qed
qed (simp add: ret_def)

lemma pool_read_fair:
  "fair env \<Longrightarrow> pool_read env cs i fin s = (Ok vs, s') \<Longrightarrow> \<forall>(i, r)\<in>set fin. \<forall>v. r = Ok v \<longrightarrow> valid_evaluation v \<Longrightarrow>
   \<forall>v\<in>set vs. valid_evaluation v"
proof (induction cs arbitrary: i s vs)
  case (Cons c cs)
  then show ?case
    by (auto simp: bindM_def ret_def dest!: evaluate_one_fair map_of_SomeD split: prod.splits res.splits option.splits)
qed (simp add: ret_def)

lemma collect_verdicts_fair:
  "fair env \<Longrightarrow> collect_verdicts env cfg cs s = (Ok vs, s') \<Longrightarrow> \<forall>v\<in>set vs. valid_evaluation v"
proof (cases "min (evaluation_workers cfg) (int (length cs)) \<le> 1")
  case True
  assume "fair env" "collect_verdicts env cfg cs s = (Ok vs, s')"
  then show ?thesis using True evaluate_all_fair [of env cs s vs s'] by (simp add: collect_verdicts_def)
next
  case False
  assume f: "fair env" and run: "collect_verdicts env cfg cs s = (Ok vs, s')"
  obtain order w where o: "pool_order env (world s) (length cs) = (order, w)" by fastforce
  obtain fin s1 where "pool_complete env cs order [] (s\<lparr>world := w\<rparr>) = (Ok fin, s1)" "pool_read env cs 0 fin s1 = (Ok vs, s')"
    using run False o by (auto simp: collect_verdicts_def bindM_def split: prod.splits res.splits)
  then show ?thesis using pool_complete_fair [OF f, of cs order "[]"] pool_read_fair [OF f, of cs 0 fin s1 vs s'] by auto
qed

lemma consult_critic_fair:
  "fair env \<Longrightarrow> consult_critic env st c s = (Ok (Some k), s') \<Longrightarrow> valid_critique k"
  using fairD(2) [of env _ "world s" "nodes_of s" c k]
  by (auto simp: consult_critic_def split: if_splits prod.splits sum.splits option.splits)

text \<open>The candidate exists and is not above the root; grading keeps that.\<close>

definition deep :: "'w run_state \<Rightarrow> addr \<Rightarrow> bool" where
  "deep s c \<longleftrightarrow> c < length (nodes_of s) \<and> 0 \<le> depth (nodes_of s ! c)"

lemma graded_deep: "graded cfg K V s s' \<Longrightarrow> deep s c \<Longrightarrow> deep s' c"
  using scoredD(1,2) [of cfg K V "nodes_of s" "nodes_of s'"] shape_nth(3) [of "nodes_of s" "nodes_of s'" c]
  by (simp add: graded_def deep_def)

lemma shape_value_fair:
  "fair env \<Longrightarrow> deep s c \<Longrightarrow> shape_value env c v cr s = (Ok x, s') \<Longrightarrow> unit_value v \<Longrightarrow> (\<And>k. cr = Some k \<Longrightarrow> valid_critique k) \<Longrightarrow> unit_value x"
proof (cases "reward_model env")
  case (Some f)
  assume f: "fair env" and d: "deep s c" and run: "shape_value env c v cr s = (Ok x, s')" and v: "unit_value v"
    and k: "\<And>k. cr = Some k \<Longrightarrow> valid_critique k"
  obtain r md w where r: "f (world s) (nodes_of s) c v cr = (r, md, w)" by (metis prod_cases3)
  have "0 \<le> depth (nodes_of s ! c)" using d by (simp add: deep_def)
  moreover have "r = Inr x" using run Some r by (cases r) (auto simp: shape_value_def Let_def)
  ultimately show ?thesis using fairD(3) [OF f Some _ v k, where w = "world s" and h = "nodes_of s" and a = c and r = x] r by simp
qed (auto simp: shape_value_def)

lemma apply_verdict_fair:
  assumes "fair env" "deep s c" "apply_verdict env cfg c v s = (Ok x, s')" "valid_evaluation v" shows "unit_value x"
proof -
  obtain s1 r2 s2 where 1: "store_verdict c v (classify cfg v) s = (Ok (), s1)"
    and 2: "consult_critic env (classify cfg v) c s1 = (r2, s2)" by (metis old.prod.exhaust store_verdict_def)
  have "graded cfg {c} {v} s s1"
    using 1 scored_apply [of c "{c}" v "{v}"] by (auto simp: graded_def store_verdict_def)
  then have d2: "deep s2 c" using graded_deep assms(2) consult_critic_spec(2) [OF 2] by blast
  show ?thesis
  proof (cases r2)
    case (Ok cr)
    then have "shape_value env c (ev_score v) cr s2 = (Ok x, s')"
      using assms(3) 1 2 by (simp add: apply_verdict_def bindM_def)
    moreover have "unit_value (ev_score v)" using assms(4) by (simp add: unit_value_def valid_evaluation_def)
    moreover have "valid_critique k" if "cr = Some k" for k
      using consult_critic_fair [OF assms(1)] 2 Ok that by blast
    ultimately show ?thesis using shape_value_fair [OF assms(1) d2] by blast
  qed (use assms(3) 1 2 in \<open>simp_all add: apply_verdict_def bindM_def\<close>)
qed

lemma verdict_loop_fair:
  "fair env \<Longrightarrow> \<forall>x\<in>set cvs. deep s (fst x) \<Longrightarrow> verdict_loop env cfg cvs sol valued s = (Ok (sol', valued'), s') \<Longrightarrow>
   \<forall>x\<in>set cvs. valid_evaluation (snd x) \<Longrightarrow> \<forall>x\<in>set valued. unit_value (snd x) \<Longrightarrow> \<forall>x\<in>set valued'. unit_value (snd x)"
proof (induction cvs arbitrary: sol valued s)
  case (Cons cv cvs)
  obtain c v where cv: "cv = (c, v)" by fastforce
  obtain r1 s1 where one: "apply_verdict env cfg c v s = (r1, s1)" by fastforce
  have dc: "deep s c" using Cons.prems(2) cv by simp
  show ?case
  proof (cases r1)
    case (Ok x)
    have x: "unit_value x" using apply_verdict_fair [OF Cons.prems(1) dc] one Ok Cons.prems(4) cv by fastforce
    have "graded cfg {c} {v} s s1" by (rule apply_verdict_spec(2) [OF one]) (use dc in \<open>simp add: deep_def\<close>)
    then have d1: "\<forall>x\<in>set cvs. deep s1 (fst x)" using Cons.prems(2) graded_deep by (metis list.set_intros(2))
    have "verdict_loop env cfg cvs (if classify cfg v = TERMINAL \<and> sol = None then Some c else sol) (valued @ [(c, x)]) s1
        = (Ok (sol', valued'), s')" using Cons.prems(3) one Ok by (simp add: cv bindM_def)
    from Cons.IH [OF Cons.prems(1) d1 this] show ?thesis using Cons.prems(4,5) x by auto
  qed (use Cons.prems(3) one cv in \<open>simp_all add: bindM_def\<close>)
qed (simp add: ret_def)

lemma evaluate_children_fair:
  assumes "fair env" "\<forall>c\<in>set cs. deep s c" "evaluate_children env cfg cs s = (Ok (sol, valued), s')"
  shows "\<forall>x\<in>set valued. unit_value (snd x)"
proof -
  obtain vs s1 where run: "collect_verdicts env cfg cs s = (Ok vs, s1)" "verdict_loop env cfg (zip cs vs) None [] s1 = (Ok (sol, valued), s')"
    using assms(3) by (auto simp: evaluate_children_def bindM_def split: prod.splits res.splits)
  have v: "\<forall>v\<in>set vs. valid_evaluation v" by (rule collect_verdicts_fair [OF assms(1) run(1)])
  have "\<forall>c\<in>set cs. deep s1 c" using assms(2) graded_deep collect_verdicts_spec(2) [OF run(1)] by blast
  then have d: "\<forall>x\<in>set (zip cs vs). deep s1 (fst x)" by (auto dest: set_zip_leftD)
  have "\<forall>x\<in>set (zip cs vs). valid_evaluation (snd x)" using v by (auto dest: set_zip_rightD)
  then show ?thesis using verdict_loop_fair [OF assms(1) d run(2)] by simp
qed

end
