(* ===== verification/Search_Correct.thy ===== *)
theory Search_Correct
  imports Search_Expand Search_Run
begin

section \<open>The controller is correct\<close>

text \<open>
  The invariants of a run, block by block. \<open>triple P m A F\<close> says that \<open>m\<close>, started in \<open>P\<close>,
  returns a value with \<open>A\<close> or raises with \<open>F\<close>, and does not diverge. \<open>headed\<close> is the
  invariant at the head of the loop, \<open>faulty\<close> what an exception leaves behind, \<open>ended\<close> what
  a regular stop leaves behind.
\<close>

named_theorems triple_rules "rules of the controller's triples"

definition triple :: "('s \<Rightarrow> bool) \<Rightarrow> ('s, 'a) prog \<Rightarrow> ('a \<Rightarrow> 's \<Rightarrow> bool) \<Rightarrow> ('s \<Rightarrow> bool) \<Rightarrow> bool" where
  "triple P m A F \<longleftrightarrow> hoare P m (\<lambda>r s. case r of Ok x \<Rightarrow> A x s | Raise _ \<Rightarrow> F s | Diverge \<Rightarrow> False)"

lemma tripleI:
  "(\<And>s r s'. P s \<Longrightarrow> m s = (r, s') \<Longrightarrow> r \<noteq> Diverge \<and> (\<forall>x. r = Ok x \<longrightarrow> A x s') \<and> (\<forall>e. r = Raise e \<longrightarrow> F s'))
     \<Longrightarrow> triple P m A F"
  unfolding triple_def by (rule hoareI) (auto split: res.splits)

lemma tripleD:
  assumes "triple P m A F" "P s" "m s = (r, s')"
  shows "r \<noteq> Diverge" "r = Ok x \<Longrightarrow> A x s'" "r = Raise e \<Longrightarrow> F s'"
  using hoareD [OF assms(1) [unfolded triple_def] assms(2,3)] by (auto split: res.splits)

lemma triple_bind:
  assumes "triple P m A F" "\<And>x. triple (A x) (k x) B F" shows "triple P (bindM m k) B F"
  unfolding triple_def
  by (rule hoare_bind [OF assms(1) [unfolded triple_def]]) (use assms(2) in \<open>auto simp: triple_def\<close>)

lemma triple_ret: "(\<And>s. P s \<Longrightarrow> A x s) \<Longrightarrow> triple P (ret x) A F"
  by (rule tripleI) (auto simp: ret_def)

lemma triple_conseq:
  assumes "triple P m A F" "\<And>s. P' s \<Longrightarrow> P s" "\<And>x s. A x s \<Longrightarrow> A' x s" "\<And>s. F s \<Longrightarrow> F' s"
  shows "triple P' m A' F'"
  unfolding triple_def
  by (rule hoare_conseq [OF assms(1) [unfolded triple_def]]) (use assms(2-4) in \<open>auto split: res.splits\<close>)

lemma triple_pre: "triple P m A F \<Longrightarrow> (\<And>s. P' s \<Longrightarrow> P s) \<Longrightarrow> triple P' m A F"
  by (rule triple_conseq [of P]) auto

lemma triple_if: "(b \<Longrightarrow> triple P m A F) \<Longrightarrow> (\<not> b \<Longrightarrow> triple P n A F) \<Longrightarrow> triple P (if b then m else n) A F"
  by simp

lemma triple_fun: "(\<And>s0. triple (\<lambda>s. P s \<and> s = s0) (m s0) A F) \<Longrightarrow> triple P (\<lambda>s. m s s) A F"
  unfolding triple_def hoare_def by blast

subsection \<open>Invariants\<close>

text \<open>Every accepted node passed the acceptance threshold.\<close>

definition accepted_ok :: "search_config \<Rightarrow> heap \<Rightarrow> bool" where
  "accepted_ok cfg h \<longleftrightarrow> (\<forall>a<length h. status (h ! a) = TERMINAL \<longrightarrow> accept_threshold cfg \<le> score (h ! a))"

definition none_accepted :: "heap \<Rightarrow> bool" where
  "none_accepted h \<longleftrightarrow> (\<forall>a<length h. status (h ! a) \<noteq> TERMINAL)"

definition tree_inv :: "'w environment \<Rightarrow> search_config \<Rightarrow> nat \<Rightarrow> thought_tree \<Rightarrow> bool" where
  "tree_inv env cfg n t \<longleftrightarrow> struct_ok env cfg t \<and> accepted_ok cfg (tree_heap t) \<and> visits_ok (tree_heap t) n
     \<and> 0 < n \<and> n \<le> length (tree_heap t) \<and> (fair env \<longrightarrow> values_ok (tree_heap t))"

definition sized :: "search_config \<Rightarrow> thought_tree \<Rightarrow> int \<Rightarrow> bool" where
  "sized cfg t i \<longleftrightarrow> int (length (tree_heap t)) \<le> 1 + i * branching_factor cfg"

definition counted :: "search_config \<Rightarrow> int \<Rightarrow> bool" where
  "counted cfg i \<longleftrightarrow> 0 \<le> i \<and> i \<le> max_iterations cfg"

definition at_phase :: "search_phase \<Rightarrow> 'w run_state \<Rightarrow> bool" where
  "at_phase p s \<longleftrightarrow> machine_ok (machine s) \<and> phase (machine s) = p"

text \<open>An event sink that does not raise.\<close>

definition silent :: "'w environment \<Rightarrow> bool" where
  "silent env \<longleftrightarrow> (\<forall>sink w t ev. on_event env = Some sink \<longrightarrow> (\<exists>w'. sink w t ev = (Inr (), w')))"

definition whole :: "'w environment \<Rightarrow> search_config \<Rightarrow> thought_tree \<Rightarrow> int \<Rightarrow> bool" where
  "whole env cfg t i \<longleftrightarrow> tree_inv env cfg (length (tree_heap t)) t \<and> sized cfg t i \<and> counted cfg i"

definition partial :: "'w environment \<Rightarrow> search_config \<Rightarrow> thought_tree \<Rightarrow> int \<Rightarrow> bool" where
  "partial env cfg t i \<longleftrightarrow> (\<exists>n. tree_inv env cfg n t) \<and> sized cfg t i \<and> counted cfg i"

definition faulty :: "'w environment \<Rightarrow> search_config \<Rightarrow> 'w run_state \<Rightarrow> bool" where
  "faulty env cfg s \<longleftrightarrow> machine_ok (machine s) \<and> (silent env \<longrightarrow> phase (machine s) \<notin> TERMINAL_PHASES)
     \<and> partial env cfg (tree s) (iteration s)"

definition headed :: "'w environment \<Rightarrow> search_config \<Rightarrow> thought_tree \<Rightarrow> int \<Rightarrow> bool" where
  "headed env cfg t i \<longleftrightarrow> whole env cfg t i \<and> none_accepted (tree_heap t)"

definition stop_phases :: "search_phase set" where
  "stop_phases = {EXHAUSTED, TIMED_OUT, BUDGET_EXHAUSTED, CANCELLED}"

definition ended :: "'w environment \<Rightarrow> search_config \<Rightarrow> 'w run_state \<Rightarrow> bool" where
  "ended env cfg s \<longleftrightarrow> machine_ok (machine s) \<and> whole env cfg (tree s) (iteration s)
     \<and> (phase (machine s) = SUCCEEDED \<and> \<not> none_accepted (nodes_of s)
        \<or> phase (machine s) \<in> stop_phases \<and> none_accepted (nodes_of s))"

lemma whole_partial: "whole env cfg t i \<Longrightarrow> partial env cfg t i"
  unfolding whole_def partial_def by blast

lemma headed_partial: "headed env cfg t i \<Longrightarrow> partial env cfg t i"
  unfolding headed_def by (blast intro: whole_partial)

lemma endedI:
  "at_phase p s \<Longrightarrow> p \<in> stop_phases \<Longrightarrow> headed env cfg (tree s) (iteration s) \<Longrightarrow> ended env cfg s"
  by (auto simp: ended_def at_phase_def headed_def)

subsection \<open>\_advance\<close>

lemma advance_spec:
  assumes "at_phase p s" "q \<in> transitions p" "advance env q i d s = (r, s')"
  shows "at_phase q s'" "tree s' = tree s" "iteration s' = iteration s" "r \<noteq> Diverge"
    "silent env \<Longrightarrow> r = Ok ()"
proof -
  obtain now w where now: "monotonic env (world s) = (now, w)" by fastforce
  obtain x m where t: "transition (machine s) q d now = Inr (x, m)"
    using assms(1,2) by (auto simp: transition_Inr can_transition_def at_phase_def)
  have m: "machine_ok m" "phase m = q"
    using assms(1) t machine_ok_step [OF _ machine_step.intros [OF t]] by (auto simp: at_phase_def transition_Inr)
  have run: "notify env \<lparr>event_iteration = iteration s, event_phase = q, event_node = i, event_detail = d\<rparr>
      (s\<lparr>machine := m, world := w\<rparr>) = (r, s')"
    using assms(3) now t by (simp add: advance_def)
  have "machine s' = m \<and> tree s' = tree s \<and> iteration s' = iteration s \<and> r \<noteq> Diverge"
    using run by (auto simp: notify_def Let_def split: option.splits prod.splits)
  then show "at_phase q s'" "tree s' = tree s" "iteration s' = iteration s" "r \<noteq> Diverge"
    using m by (simp_all add: at_phase_def)
  show "r = Ok ()" if sil: "silent env"
  proof (cases "on_event env")
    case (Some sink)
    obtain w' where "sink w (tree s) \<lparr>event_iteration = iteration s, event_phase = q, event_node = i, event_detail = d\<rparr> = (Inr (), w')"
      using sil Some unfolding silent_def by metis
    then show ?thesis using run Some by (simp add: notify_def)
  qed (use run in \<open>simp add: notify_def\<close>)
qed

lemma advance_triple:
  assumes "q \<in> transitions p" "\<And>t i. R t i \<Longrightarrow> partial env cfg t i"
  shows "triple (\<lambda>s. at_phase p s \<and> R (tree s) (iteration s)) (advance env q nid d)
     (\<lambda>_ s. at_phase q s \<and> R (tree s) (iteration s)) (faulty env cfg)"
proof (rule tripleI)
  fix s r s' assume s: "at_phase p s \<and> R (tree s) (iteration s)" and run: "advance env q nid d s = (r, s')"
  note a = advance_spec [OF conjunct1 [OF s] assms(1) run]
  have R: "R (tree s') (iteration s')" using s a(2,3) by simp
  have "faulty env cfg s'" if "r = Raise e" for e
    using a(1,5) that assms(2) [OF R] by (auto simp: faulty_def at_phase_def)
  then show "r \<noteq> Diverge \<and> (\<forall>x. r = Ok x \<longrightarrow> at_phase q s' \<and> R (tree s') (iteration s')) \<and> (\<forall>e. r = Raise e \<longrightarrow> faulty env cfg s')"
    using a(1,4) R by blast
qed

subsection \<open>The blocks of an iteration\<close>

text \<open>A check at the head of a pass either stops the run or leaves it where it is.\<close>

definition poll_post :: "'w environment \<Rightarrow> search_config \<Rightarrow> bool res \<Rightarrow> 'w run_state \<Rightarrow> bool" where
  "poll_post env cfg r s \<longleftrightarrow> r \<noteq> Diverge
     \<and> (\<forall>b. r = Ok b \<longrightarrow> (if b then ended env cfg s else at_phase SELECTION s \<and> headed env cfg (tree s) (iteration s)))
     \<and> (\<forall>e. r = Raise e \<longrightarrow> faulty env cfg s)"

lemma poll_triple:
  "(\<And>s r s'. at_phase SELECTION s \<Longrightarrow> headed env cfg (tree s) (iteration s) \<Longrightarrow> m s = (r, s') \<Longrightarrow> poll_post env cfg r s') \<Longrightarrow>
   triple (\<lambda>s. at_phase SELECTION s \<and> headed env cfg (tree s) (iteration s)) m
     (\<lambda>b s. if b then ended env cfg s else at_phase SELECTION s \<and> headed env cfg (tree s) (iteration s)) (faulty env cfg)"
  unfolding poll_post_def by (rule tripleI) blast

lemma stop_post:
  assumes "bindM (advance env q None d) (\<lambda>_. ret True) (s\<lparr>world := w\<rparr>) = (r, s')" "q \<in> stop_phases"
    "q \<in> transitions SELECTION" "at_phase SELECTION s" "headed env cfg (tree s) (iteration s)"
  shows "poll_post env cfg r s'"
proof -
  have "triple (\<lambda>s. at_phase SELECTION s \<and> headed env cfg (tree s) (iteration s))
     (bindM (advance env q None d) (\<lambda>_. ret True)) (\<lambda>b s. b \<and> ended env cfg s) (faulty env cfg)"
    by (rule triple_bind [OF advance_triple [OF assms(3) headed_partial] triple_ret])
      (auto intro: endedI [OF _ assms(2)])
  from tripleD [OF this _ assms(1)] show ?thesis
    using assms(4,5) by (auto simp: poll_post_def at_phase_def)
qed

lemma stay_post: "at_phase SELECTION s \<Longrightarrow> headed env cfg (tree s) (iteration s) \<Longrightarrow>
    poll_post env cfg (Ok False) s \<and> poll_post env cfg (Ok False) (s\<lparr>world := w\<rparr>) \<and> poll_post env cfg (Raise e) (s\<lparr>world := w\<rparr>)"
  by (auto simp: poll_post_def faulty_def at_phase_def TERMINAL_PHASES_def intro: headed_partial)

lemma poll_cancel_triple:
  "triple (\<lambda>s. at_phase SELECTION s \<and> headed env cfg (tree s) (iteration s)) (poll_cancel env)
     (\<lambda>b s. if b then ended env cfg s else at_phase SELECTION s \<and> headed env cfg (tree s) (iteration s)) (faulty env cfg)"
  by (rule poll_triple)
    (auto simp: poll_cancel_def Let_def stay_post stop_phases_def split: option.splits prod.splits if_splits elim: stop_post)

lemma poll_deadline_triple:
  "triple (\<lambda>s. at_phase SELECTION s \<and> headed env cfg (tree s) (iteration s)) (poll_deadline env cfg dl)
     (\<lambda>b s. if b then ended env cfg s else at_phase SELECTION s \<and> headed env cfg (tree s) (iteration s)) (faulty env cfg)"
  by (rule poll_triple)
    (auto simp: poll_deadline_def Let_def stay_post stop_phases_def split: option.splits prod.splits if_splits elim: stop_post)

lemma poll_stop_triple:
  "triple (\<lambda>s. at_phase SELECTION s \<and> headed env cfg (tree s) (iteration s)) (poll_stop env)
     (\<lambda>b s. if b then ended env cfg s else at_phase SELECTION s \<and> headed env cfg (tree s) (iteration s)) (faulty env cfg)"
  by (rule poll_triple)
    (auto simp: poll_stop_def Let_def stay_post stop_phases_def split: option.splits prod.splits sum.splits if_splits elim: stop_post)

text \<open>The node the selection hands over.\<close>

definition chosen :: "'w environment \<Rightarrow> search_config \<Rightarrow> addr \<Rightarrow> thought_tree \<Rightarrow> int \<Rightarrow> bool" where
  "chosen env cfg a t i \<longleftrightarrow> headed env cfg t i \<and> sized cfg t (i - 1)
     \<and> a < length (tree_heap t) \<and> depth (tree_heap t ! a) < max_depth cfg"

definition grown_by :: "'w environment \<Rightarrow> search_config \<Rightarrow> addr list \<Rightarrow> thought_tree \<Rightarrow> int \<Rightarrow> bool" where
  "grown_by env cfg kids t i \<longleftrightarrow> (\<exists>n. tree_inv env cfg n t \<and> kids = [n..<length (tree_heap t)])
     \<and> sized cfg t i \<and> counted cfg i \<and> none_accepted (tree_heap t)"

definition settled :: "addr option \<Rightarrow> heap \<Rightarrow> bool" where
  "settled sol h \<longleftrightarrow> (case sol of None \<Rightarrow> none_accepted h | Some c \<Rightarrow> c < length h \<and> status (h ! c) = TERMINAL)"

definition valued_by ::
  "'w environment \<Rightarrow> search_config \<Rightarrow> addr option \<Rightarrow> (addr \<times> pyfloat) list \<Rightarrow> thought_tree \<Rightarrow> int \<Rightarrow> bool" where
  "valued_by env cfg sol valued t i \<longleftrightarrow> (\<exists>n. tree_inv env cfg n t \<and> map fst valued = [n..<length (tree_heap t)])
     \<and> sized cfg t i \<and> counted cfg i \<and> settled sol (tree_heap t) \<and> (fair env \<longrightarrow> (\<forall>x\<in>set valued. unit_value (snd x)))"

lemma chosen_partial: "chosen env cfg a t i \<Longrightarrow> partial env cfg t i"
  unfolding chosen_def by (blast intro: headed_partial)

lemma grown_by_partial: "grown_by env cfg kids t i \<Longrightarrow> partial env cfg t i"
  unfolding grown_by_def partial_def by blast

lemma valued_by_partial: "valued_by env cfg sol valued t i \<Longrightarrow> partial env cfg t i"
  unfolding valued_by_def partial_def by blast

lemma grown_by_Nil: "grown_by env cfg [] t i \<Longrightarrow> headed env cfg t i"
proof -
  assume g: "grown_by env cfg [] t i"
  then obtain n where n: "tree_inv env cfg n t" "[n..<length (tree_heap t)] = []"
    unfolding grown_by_def by (metis (full_types))
  then have "n = length (tree_heap t)" by (auto simp: upt_eq_Nil_conv tree_inv_def)
  then show ?thesis using n(1) g by (simp add: grown_by_def headed_def whole_def)
qed

lemma faultyI: "at_phase p s \<Longrightarrow> p \<notin> TERMINAL_PHASES \<Longrightarrow> partial env cfg (tree s) (iteration s) \<Longrightarrow> faulty env cfg s"
  by (auto simp: faulty_def at_phase_def)

text \<open>Helpers that leave the machine and the counter alone, on the tree invariants.\<close>

lemma quiet_triple:
  assumes q: "quiet m" and p: "p \<notin> TERMINAL_PHASES"
    and m: "\<And>s r s'. R (tree s) (iteration s) \<Longrightarrow> m s = (r, s') \<Longrightarrow>
        r \<noteq> Diverge \<and> (\<forall>x. r = Ok x \<longrightarrow> A x (tree s') (iteration s)) \<and> (\<forall>e. r = Raise e \<longrightarrow> partial env cfg (tree s') (iteration s))"
  shows "triple (\<lambda>s. at_phase p s \<and> R (tree s) (iteration s)) m
     (\<lambda>x s. at_phase p s \<and> A x (tree s) (iteration s)) (faulty env cfg)"
proof (rule tripleI)
  fix s r s' assume s: "at_phase p s \<and> R (tree s) (iteration s)" and run: "m s = (r, s')"
  have "machine s' = machine s" "iteration s' = iteration s" using quietD [OF q run] by auto
  moreover from this have ph: "at_phase p s'" using s by (simp add: at_phase_def)
  ultimately show "r \<noteq> Diverge \<and> (\<forall>x. r = Ok x \<longrightarrow> at_phase p s' \<and> A x (tree s') (iteration s')) \<and> (\<forall>e. r = Raise e \<longrightarrow> faulty env cfg s')"
    using m [OF conjunct2 [OF s] run] faultyI [OF ph p, of env cfg] by simp
qed

text \<open>Changes of the heap that keep structure, visits and accepted nodes keep the invariant.\<close>

lemma visits_ok_shape:
  assumes "shape h = shape h'" "wf_heap h" "\<And>a. a < length h \<Longrightarrow> visits (h' ! a) = visits (h ! a)" "visits_ok h n"
  shows "visits_ok h' n"
  unfolding visits_ok_def
proof (intro allI impI)
  fix a assume "a < length h'"
  then have a: "a < length h" using shape_length [OF assms(1)] by simp
  have "{b. 0 < b \<and> b < n \<and> below h' a b} = {b. 0 < b \<and> b < n \<and> below h a b}"
    using below_shape [OF assms(1,2) a] by blast
  then show "visits (h' ! a) = int (card {b. 0 < b \<and> b < n \<and> below h' a b})"
    using assms(3,4) a by (simp add: visits_ok_def)
qed

lemma keeps_inv:
  assumes k: "keeps_tree s s'" and inv: "tree_inv env cfg n (tree s)"
  shows "tree_inv env cfg n (tree s')" "length (nodes_of s') = length (nodes_of s)"
    "none_accepted (nodes_of s) \<Longrightarrow> none_accepted (nodes_of s')"
proof -
  have kh: "keeps (nodes_of s) (nodes_of s')" using k by (simp add: keeps_tree_def)
  note len = keeps_length [OF kh] and kd = keepsD [OF kh]
  show "length (nodes_of s') = length (nodes_of s)" by (rule len)
  have st: "struct_ok env cfg (tree s)" using inv by (simp add: tree_inv_def)
  have "struct_ok env cfg (tree s')" by (rule keeps_tree_struct [OF k st])
  moreover have "visits_ok (nodes_of s') n"
    by (rule visits_ok_shape [OF keeps_shape [OF kh] struct_okD(3) [OF st]]) (use kd(6) inv in \<open>auto simp: tree_inv_def\<close>)
  moreover have "accepted_ok cfg (nodes_of s')"
    unfolding accepted_ok_def
  proof (intro allI impI)
    fix a assume a: "a < length (nodes_of s')" and t: "status (nodes_of s' ! a) = TERMINAL"
    have al: "a < length (nodes_of s)" using a len by simp
    have "status (nodes_of s ! a) = TERMINAL" using kd(9) [OF al] t by auto
    then show "accept_threshold cfg \<le> score (nodes_of s' ! a)"
      using inv al kd(8) [OF al] by (simp add: tree_inv_def accepted_ok_def)
  qed
  moreover have "fair env \<Longrightarrow> values_ok (nodes_of s')"
    using inv len kd(6,7) values_ok_same [of "nodes_of s'" "nodes_of s"] by (simp add: tree_inv_def)
  ultimately show "tree_inv env cfg n (tree s')" using inv len by (simp add: tree_inv_def)
  show "none_accepted (nodes_of s) \<Longrightarrow> none_accepted (nodes_of s')"
    using kd(9) len by (force simp: none_accepted_def)
qed

lemma select_triple:
  "triple (\<lambda>s. at_phase SELECTION s \<and> (headed env cfg (tree s) (iteration s) \<and> sized cfg (tree s) (iteration s - 1))) (select env cfg)
     (\<lambda>x s. at_phase SELECTION s \<and> (case fst x of None \<Rightarrow> headed env cfg (tree s) (iteration s)
        | Some a \<Rightarrow> chosen env cfg a (tree s) (iteration s))) (faulty env cfg)"
proof (rule quiet_triple [OF quiet_select])
  show "SELECTION \<notin> TERMINAL_PHASES" by (simp add: TERMINAL_PHASES_def)
  fix s r s' assume h: "headed env cfg (tree s) (iteration s) \<and> sized cfg (tree s) (iteration s - 1)"
    and run: "select env cfg s = (r, s')"
  have inv: "tree_inv env cfg (length (nodes_of s)) (tree s)" using h by (simp add: headed_def whole_def)
  then have "struct_ok env cfg (tree s)" by (simp add: tree_inv_def)
  note post = select_spec [OF this run]
  have k: "keeps_tree s s'" using post by (simp add: select_post_def)
  note ki = keeps_inv [OF k inv]
  have hd: "headed env cfg (tree s') (iteration s)" "sized cfg (tree s') (iteration s - 1)"
    using h ki by (simp_all add: headed_def whole_def sized_def)
  have ch: "chosen env cfg a (tree s') (iteration s)" if "r = Ok (Some a, rv)" for a rv
    using post that hd ki(2) by (simp add: select_post_def chosen_def)
  show "r \<noteq> Diverge \<and> (\<forall>x. r = Ok x \<longrightarrow> (case fst x of None \<Rightarrow> headed env cfg (tree s') (iteration s)
        | Some a \<Rightarrow> chosen env cfg a (tree s') (iteration s))) \<and> (\<forall>e. r = Raise e \<longrightarrow> partial env cfg (tree s') (iteration s))"
    using post hd ch headed_partial by (auto simp: select_post_def split: option.splits)
qed

lemma grown_below:
  assumes g: "grown a h h'" and wf: "wf_heap h" and wf': "wf_heap h'" and x: "x < length h" and b: "b < length h"
  shows "below h' x b \<longleftrightarrow> below h x b"
proof
  have kids: "set (children (h' ! y)) \<inter> {..<length h} \<subseteq> set (children (h ! y))" "set (children (h ! y)) \<subseteq> set (children (h' ! y))"
    if "y < length h" for y
    using g that unfolding grown_def by (cases "y = a"; auto)+
  have x': "x < length h'" using g x by (simp add: grown_def)
  have "below h' x b \<Longrightarrow> b < length h \<longrightarrow> below h x b"
  proof (induction rule: below.induct)
    case (child b c)
    have "b < c" using wf_heapD(2) [OF wf' _ child.hyps(2)] below_ge [OF wf' x' child.hyps(1)] by blast
    moreover have "c \<in> set (children (h ! b))" if "c < length h" "b < length h"
      using kids(1) [OF that(2)] child.hyps(2) that(1) by blast
    ultimately show ?case using child.IH below.child [of h x b c] by auto
  qed (simp add: below.self)
  then show "below h' x b \<Longrightarrow> below h x b" using b by blast
  show "below h x b \<Longrightarrow> below h' x b"
  proof (induction rule: below.induct)
    case (child b c)
    then have "b < length h" using below_ge [OF wf x] by blast
    then show ?case using child kids(2) [of b] below.child by blast
  qed (rule below.self)
qed

lemma grown_inv:
  assumes g: "grown a (tree_heap t) (tree_heap t')" and inv: "tree_inv env cfg (length (tree_heap t)) t"
    and ok: "struct_ok env cfg t'" and a: "a < length (tree_heap t)"
  shows "tree_inv env cfg (length (tree_heap t)) t'"
    "none_accepted (tree_heap t) \<Longrightarrow> none_accepted (tree_heap t')"
proof -
  let ?h = "tree_heap t" and ?h' = "tree_heap t'"
  have st: "struct_ok env cfg t" using inv by (simp add: tree_inv_def)
  note wf = struct_okD(3) [OF st] and wf' = struct_okD(3) [OF ok]
  have le: "length ?h \<le> length ?h'" using g by (simp add: grown_def)
  have same: "status (?h' ! b) = status (?h ! b) \<and> score (?h' ! b) = score (?h ! b) \<and> visits (?h' ! b) = visits (?h ! b)
      \<and> value_sum (?h' ! b) = value_sum (?h ! b)"
    if "b < length ?h" for b
    using g that unfolding grown_def by (cases "b = a") auto
  have new: "status (?h' ! b) = PENDING \<and> visits (?h' ! b) = 0 \<and> value_sum (?h' ! b) = 0 \<and> parent (?h' ! b) = Some a"
    if "b < length ?h'" "\<not> b < length ?h" for b
    using g that unfolding grown_def by simp
  have "visits_ok ?h' (length ?h)"
    unfolding visits_ok_def
  proof (intro allI impI)
    fix x assume x': "x < length ?h'"
    show "visits (?h' ! x) = int (card {b. 0 < b \<and> b < length ?h \<and> below ?h' x b})"
    proof (cases "x < length ?h")
      case True
      have "{b. 0 < b \<and> b < length ?h \<and> below ?h' x b} = {b. 0 < b \<and> b < length ?h \<and> below ?h x b}"
        using grown_below [OF g wf wf' True] by blast
      then show ?thesis using inv same [OF True] True by (simp add: tree_inv_def visits_ok_def)
    next
      case False
      have none: "{b. 0 < b \<and> b < length ?h \<and> below ?h' x b} = {}"
        using below_ge [OF wf' x'] False by fastforce
      show ?thesis unfolding none using new [OF x' False] by simp
    qed
  qed
  moreover have "accepted_ok cfg ?h'"
    using inv same new unfolding tree_inv_def accepted_ok_def by (metis node_status.distinct(3))
  moreover have "values_ok ?h'" if "fair env"
    unfolding values_ok_def
  proof (intro allI impI)
    fix b assume b: "b < length ?h'"
    show "\<exists>x. value_sum (?h' ! b) = Fin x \<and> 0 \<le> x \<and> x \<le> real_of_int (visits (?h' ! b))"
      using inv that same [of b] new [OF b] by (cases "b < length ?h") (auto simp: tree_inv_def values_ok_def float_consts)
  qed
  ultimately show "tree_inv env cfg (length ?h) t'" using ok le inv by (simp add: tree_inv_def)
  show "none_accepted ?h \<Longrightarrow> none_accepted ?h'"
    using same new unfolding none_accepted_def by (metis node_status.distinct(3))
qed

lemma expand_triple:
  assumes "inj (uid env)" "0 \<le> branching_factor cfg"
  shows "triple (\<lambda>s. at_phase EXPANSION s \<and> chosen env cfg a (tree s) (iteration s)) (expand env cfg a)
     (\<lambda>kids s. at_phase EXPANSION s \<and> (grown_by env cfg kids (tree s) (iteration s)
         \<and> a < length (nodes_of s))) (faulty env cfg)"
proof (rule quiet_triple [OF quiet_expand])
  show "EXPANSION \<notin> TERMINAL_PHASES" by (simp add: TERMINAL_PHASES_def)
  fix s r s' assume c: "chosen env cfg a (tree s) (iteration s)" and run: "expand env cfg a s = (r, s')"
  have inv: "tree_inv env cfg (length (nodes_of s)) (tree s)" and none: "none_accepted (nodes_of s)"
    and cnt: "counted cfg (iteration s)"
    and a: "a < length (nodes_of s)" "depth (nodes_of s ! a) < max_depth cfg"
    using c by (auto simp: chosen_def headed_def whole_def)
  have st: "struct_ok env cfg (tree s)" using inv by (simp add: tree_inv_def)
  note e = expand_spec [OF st assms(1) a run]
  note g = grown_inv [OF e(3) inv e(2) a(1)]
  have "int (length (nodes_of s')) \<le> int (length (nodes_of s)) + branching_factor cfg" using e(5) assms(2) by simp
  moreover have "int (length (nodes_of s)) \<le> 1 + (iteration s - 1) * branching_factor cfg"
    using c by (simp add: chosen_def sized_def)
  ultimately have sz: "sized cfg (tree s') (iteration s)" by (simp add: sized_def algebra_simps)
  have gr: "grown_by env cfg kids (tree s') (iteration s)" if "r = Ok kids" for kids
    using e(4) [OF that] g none sz cnt unfolding grown_by_def by blast
  have "a < length (nodes_of s')" using a e(3) by (simp add: grown_def)
  then show "r \<noteq> Diverge \<and> (\<forall>x. r = Ok x \<longrightarrow> grown_by env cfg x (tree s') (iteration s) \<and> a < length (nodes_of s'))
      \<and> (\<forall>e. r = Raise e \<longrightarrow> partial env cfg (tree s') (iteration s))"
    using e(1) gr g(1) sz cnt unfolding partial_def by blast
qed

lemma graded_inv:
  assumes g: "graded cfg K V s s'" and inv: "tree_inv env cfg n (tree s)"
  shows "tree_inv env cfg n (tree s')" "length (nodes_of s') = length (nodes_of s)"
proof -
  have sc: "scored cfg K V (nodes_of s) (nodes_of s')" using g by (simp add: graded_def)
  note d = scoredD [OF sc]
  have st: "struct_ok env cfg (tree s)" using inv by (simp add: tree_inv_def)
  show "length (nodes_of s') = length (nodes_of s)" by (rule d(2))
  have "visits_ok (nodes_of s') n"
    by (rule visits_ok_shape [OF d(1) struct_okD(3) [OF st]]) (use d(3) inv in \<open>auto simp: tree_inv_def\<close>)
  moreover have "accepted_ok cfg (nodes_of s')"
    unfolding accepted_ok_def d(2)
  proof (intro allI impI)
    fix a assume a: "a < length (nodes_of s)" and t: "status (nodes_of s' ! a) = TERMINAL"
    show "accept_threshold cfg \<le> score (nodes_of s' ! a)"
      using d(6) [OF a] inv a t by (auto simp: tree_inv_def accepted_ok_def classify_def split: if_splits)
  qed
  moreover have "fair env \<Longrightarrow> values_ok (nodes_of s')"
    using inv values_ok_same [OF d(2,3,4)] by (simp add: tree_inv_def)
  ultimately show "tree_inv env cfg n (tree s')" using graded_struct [OF g st] inv d(2) by (simp add: tree_inv_def)
qed

lemma first_accepted_Some:
  "first_accepted cfg cvs = Some c \<Longrightarrow> \<exists>v. (c, v) \<in> set cvs \<and> classify cfg v = TERMINAL"
proof (induction cvs)
  case (Cons cv cvs)
  then show ?case by (cases cv) (auto simp: first_accepted_Cons split: if_splits)
qed (simp add: first_accepted_def)

lemma evaluate_triple:
  "triple (\<lambda>s. at_phase EVALUATION s \<and> grown_by env cfg kids (tree s) (iteration s)) (evaluate_children env cfg kids)
     (\<lambda>x s. at_phase EVALUATION s \<and> valued_by env cfg (fst x) (snd x) (tree s) (iteration s)) (faulty env cfg)"
proof (rule quiet_triple [OF quiet_evaluate_children])
  show "EVALUATION \<notin> TERMINAL_PHASES" by (simp add: TERMINAL_PHASES_def)
  fix s r s' assume gr: "grown_by env cfg kids (tree s) (iteration s)" and run: "evaluate_children env cfg kids s = (r, s')"
  obtain n where inv: "tree_inv env cfg n (tree s)" and kids: "kids = [n..<length (nodes_of s)]"
    using gr unfolding grown_by_def by blast
  have dist: "distinct kids" "\<forall>c\<in>set kids. c < length (nodes_of s)" using kids by simp_all
  have deep: "\<forall>c\<in>set kids. deep s c"
    using dist(2) inv struct_okD(7) [of env cfg "tree s"] by (simp add: deep_def tree_inv_def)
  note e = evaluate_children_spec [OF run dist]
  obtain V where V: "graded cfg (set kids) V s s'" using e(2) by blast
  note gi = graded_inv [OF V inv]
  have sz: "sized cfg (tree s') (iteration s)" "counted cfg (iteration s)"
    using gr gi(2) by (simp_all add: grown_by_def sized_def)
  have sc: "scored cfg (set kids) V (nodes_of s) (nodes_of s')" using V by (simp add: graded_def)
  have val: "valued_by env cfg sol valued (tree s') (iteration s)" if ok: "r = Ok (sol, valued)" for sol valued
  proof -
    obtain vs where vs: "length vs = length kids" "sol = first_accepted cfg (zip kids vs)"
      "\<And>c v. (c, v) \<in> set (zip kids vs) \<Longrightarrow> status (nodes_of s' ! c) = classify cfg v"
      using e(3) [OF ok] by blast
    have fst: "map fst valued = [n..<length (nodes_of s')]" using e(3) [OF ok] kids gi(2) by simp
    have "settled sol (nodes_of s')"
    proof (cases sol)
      case None
      then have rej: "\<forall>x\<in>set (zip kids vs). classify cfg (snd x) \<noteq> TERMINAL"
        using vs(2) by (auto simp: first_accepted_def find_None_iff)
      have "status (nodes_of s' ! a) \<noteq> TERMINAL" if a: "a < length (nodes_of s)" for a
      proof (cases "a \<in> set kids")
        case True
        then obtain v where "(a, v) \<in> set (zip kids vs)" using vs(1) by (metis in_set_impl_in_set_zip1)
        then show ?thesis using vs(3) rej by fastforce
      next
        case False
        then show ?thesis using scoredD(5) [OF sc a] gr a by (simp add: grown_by_def none_accepted_def)
      qed
      then show ?thesis using None gi(2) by (simp add: settled_def none_accepted_def)
    next
      case (Some c)
      then obtain v where v: "(c, v) \<in> set (zip kids vs)" "classify cfg v = TERMINAL"
        using vs(2) first_accepted_Some by metis
      then have "c < length (nodes_of s)" using dist(2) by (meson set_zip_leftD)
      then show ?thesis using Some vs(3) [OF v(1)] v(2) gi(2) by (simp add: settled_def)
    qed
    moreover have "fair env \<Longrightarrow> \<forall>x\<in>set valued. unit_value (snd x)"
      using evaluate_children_fair [OF _ deep] run ok by blast
    ultimately show ?thesis using fst gi(1) sz unfolding valued_by_def by blast
  qed
  have "partial env cfg (tree s') (iteration s)" using gi(1) sz unfolding partial_def by blast
  then show "r \<noteq> Diverge \<and> (\<forall>x. r = Ok x \<longrightarrow> valued_by env cfg (fst x) (snd x) (tree s') (iteration s))
      \<and> (\<forall>e. r = Raise e \<longrightarrow> partial env cfg (tree s') (iteration s))"
    using e(1) val by simp
qed

lemma backpropagate_triple:
  "triple (\<lambda>s. at_phase BACKPROPAGATION s \<and> valued_by env cfg sol valued (tree s) (iteration s)) (backpropagate valued)
     (\<lambda>_ s. at_phase BACKPROPAGATION s \<and> (whole env cfg (tree s) (iteration s) \<and> settled sol (nodes_of s))) (faulty env cfg)"
proof (rule quiet_triple [OF quiet_backpropagate])
  show "BACKPROPAGATION \<notin> TERMINAL_PHASES" by (simp add: TERMINAL_PHASES_def)
  fix s r s' assume v: "valued_by env cfg sol valued (tree s) (iteration s)" and run: "backpropagate valued s = (r, s')"
  obtain n where inv: "tree_inv env cfg n (tree s)" and fst: "map fst valued = [n..<length (nodes_of s)]"
    using v unfolding valued_by_def by blast
  have b: "r = Ok () \<and> struct_ok env cfg (tree s') \<and> visits_ok (nodes_of s') (length (nodes_of s)) \<and> shape (nodes_of s') = shape (nodes_of s)
   \<and> (\<forall>b<length (nodes_of s). status (nodes_of s' ! b) = status (nodes_of s ! b) \<and> score (nodes_of s' ! b) = score (nodes_of s ! b))"
    by (rule backpropagate_spec [OF _ fst _ _ _ _ run]) (use inv in \<open>simp_all add: tree_inv_def\<close>)
  have len: "length (nodes_of s') = length (nodes_of s)" using b shape_length by blast
  have pos: "nodes_of s \<noteq> []" using inv by (auto simp: tree_inv_def)
  have mem: "\<forall>x\<in>set valued. fst x < length (nodes_of s)"
  proof
    fix x assume "x \<in> set valued"
    then have "fst x \<in> set (map fst valued)" by simp
    then show "fst x < length (nodes_of s)" unfolding fst by simp
  qed
  have val: "values_ok (nodes_of s')" if "fair env"
    by (rule backpropagate_values [OF _ _ _ run])
      (use that inv v mem in \<open>auto simp: tree_inv_def valued_by_def intro: struct_okD(1)\<close>)
  have "whole env cfg (tree s') (iteration s)"
    using b inv v len pos val by (simp add: whole_def tree_inv_def accepted_ok_def valued_by_def sized_def)
  moreover have "settled sol (nodes_of s')"
    using b v len by (auto simp: settled_def valued_by_def none_accepted_def split: option.splits)
  ultimately show "r \<noteq> Diverge \<and> (\<forall>x. r = Ok x \<longrightarrow> whole env cfg (tree s') (iteration s) \<and> settled sol (nodes_of s'))
     \<and> (\<forall>e. r = Raise e \<longrightarrow> partial env cfg (tree s') (iteration s))"
    using b by simp
qed

subsection \<open>One pass\<close>

abbreviation flow_post :: "'w environment \<Rightarrow> search_config \<Rightarrow> flow \<Rightarrow> 'w run_state \<Rightarrow> bool" where
  "flow_post env cfg x s \<equiv> (case x of
       Next \<Rightarrow> at_phase SELECTION s \<and> headed env cfg (tree s) (iteration s)
     | Break \<Rightarrow> ended env cfg s)"

lemma prune_node_triple:
  "triple (\<lambda>s. at_phase BACKTRACKING s \<and> (headed env cfg (tree s) (iteration s) \<and> a < length (nodes_of s))) (prune_node a)
     (\<lambda>_ s. at_phase BACKTRACKING s \<and> headed env cfg (tree s) (iteration s)) (faulty env cfg)"
proof (rule quiet_triple [OF quiet_prune_node])
  show "BACKTRACKING \<notin> TERMINAL_PHASES" by (simp add: TERMINAL_PHASES_def)
  fix s r s' assume h: "headed env cfg (tree s) (iteration s) \<and> a < length (nodes_of s)" and run: "prune_node a s = (r, s')"
  have inv: "tree_inv env cfg (length (nodes_of s)) (tree s)" using h by (simp add: headed_def whole_def)
  then have "struct_ok env cfg (tree s)" by (simp add: tree_inv_def)
  note p = prune_node_spec [OF this _ run]
  have k: "keeps_tree s s'" using p(2) h by blast
  have "headed env cfg (tree s') (iteration s)"
    using h keeps_inv [OF k inv] by (simp add: headed_def whole_def sized_def)
  then show "r \<noteq> Diverge \<and> (\<forall>x. r = Ok x \<longrightarrow> headed env cfg (tree s') (iteration s)) \<and> (\<forall>e. r = Raise e \<longrightarrow> partial env cfg (tree s') (iteration s))"
    using p(1) h headed_partial by auto
qed

lemma backtrack_triple:
  "triple (\<lambda>s. at_phase EXPANSION s \<and> (headed env cfg (tree s) (iteration s) \<and> a < length (nodes_of s))) (backtrack env a)
     (flow_post env cfg) (faulty env cfg)"
  unfolding backtrack_def [abs_def]
proof (rule triple_fun, rule triple_bind, rule triple_pre)
  fix s0
  show "triple (\<lambda>s. at_phase EXPANSION s \<and> (headed env cfg (tree s) (iteration s) \<and> a < length (nodes_of s)))
     (advance env BACKTRACKING (Some (id_of a s0)) ''expansion produced no candidates'')
     (\<lambda>_ s. at_phase BACKTRACKING s \<and> (headed env cfg (tree s) (iteration s) \<and> a < length (nodes_of s))) (faulty env cfg)"
    by (rule advance_triple) (auto intro: headed_partial)
  show "triple (\<lambda>s. at_phase BACKTRACKING s \<and> (headed env cfg (tree s) (iteration s) \<and> a < length (nodes_of s)))
     (bindM (prune_node a) (\<lambda>_. bindM (advance env SELECTION None ''backtracked'') (\<lambda>_. ret Next)))
     (flow_post env cfg) (faulty env cfg)"
    by (rule triple_bind [OF prune_node_triple], rule triple_bind [OF advance_triple])
      (auto intro: headed_partial triple_ret)
qed auto

lemma accept_triple:
  "triple (\<lambda>s. at_phase BACKPROPAGATION s \<and> (whole env cfg (tree s) (iteration s) \<and> settled (Some c) (nodes_of s)))
     (\<lambda>st'. bindM (advance env SUCCEEDED (Some (id_of c st'))
             (''accepted with score '' @ format_fixed 3 (score (nodes_of st' ! c)))) (\<lambda>_. ret Break) st')
     (flow_post env cfg) (faulty env cfg)"
proof (rule triple_fun, rule triple_bind, rule triple_pre)
  fix s0 :: "'a run_state"
  show "triple (\<lambda>s. at_phase BACKPROPAGATION s \<and> (whole env cfg (tree s) (iteration s) \<and> settled (Some c) (nodes_of s)))
     (advance env SUCCEEDED (Some (id_of c s0)) (''accepted with score '' @ format_fixed 3 (score (nodes_of s0 ! c))))
     (\<lambda>_ s. at_phase SUCCEEDED s \<and> (whole env cfg (tree s) (iteration s) \<and> settled (Some c) (nodes_of s))) (faulty env cfg)"
    by (rule advance_triple) (auto intro: whole_partial)
  show "triple (\<lambda>s. at_phase SUCCEEDED s \<and> (whole env cfg (tree s) (iteration s) \<and> settled (Some c) (nodes_of s)))
     (ret Break) (flow_post env cfg) (faulty env cfg)"
    by (rule triple_ret) (auto simp: ended_def at_phase_def settled_def none_accepted_def)
qed auto

lemma settle_batch_triple:
  "triple (\<lambda>s. at_phase EXPANSION s \<and> grown_by env cfg kids (tree s) (iteration s)) (settle_batch env cfg a kids)
     (flow_post env cfg) (faulty env cfg)"
  unfolding settle_batch_def [abs_def]
proof (rule triple_fun, rule triple_bind, rule triple_pre)
  fix s0 :: "'a run_state" and d
  show "triple (\<lambda>s. at_phase EXPANSION s \<and> grown_by env cfg kids (tree s) (iteration s))
     (advance env EVALUATION (Some (id_of a s0)) (nat_digits (length kids) @ '' candidates''))
     (\<lambda>_ s. at_phase EVALUATION s \<and> grown_by env cfg kids (tree s) (iteration s)) (faulty env cfg)"
    by (rule advance_triple) (auto intro: grown_by_partial)
  have go: "triple (\<lambda>s. at_phase BACKPROPAGATION s \<and> (whole env cfg (tree s) (iteration s) \<and> settled None (nodes_of s)))
      (bindM (advance env SELECTION None ''iteration complete'') (\<lambda>_. ret Next)) (flow_post env cfg) (faulty env cfg)"
    by (rule triple_bind [OF advance_triple]) (auto intro: whole_partial triple_ret simp: headed_def settled_def)
  show "triple (\<lambda>s. at_phase EVALUATION s \<and> grown_by env cfg kids (tree s) (iteration s))
     (bindM (evaluate_children env cfg kids) (\<lambda>(sol, valued).
     bindM (advance env BACKPROPAGATION (Some (id_of a s0)) []) (\<lambda>_.
     bindM (backpropagate valued) (\<lambda>_. case sol of
         None \<Rightarrow> bindM (advance env SELECTION None ''iteration complete'') (\<lambda>_. ret Next)
       | Some s \<Rightarrow> (\<lambda>st'. bindM (advance env SUCCEEDED (Some (id_of s st'))
             (''accepted with score '' @ format_fixed 3 (score (nodes_of st' ! s)))) (\<lambda>_. ret Break) st')))))
     (flow_post env cfg) (faulty env cfg)"
  proof (rule triple_bind [OF evaluate_triple], clarsimp)
    fix sol valued
    show "triple (\<lambda>s. at_phase EVALUATION s \<and> valued_by env cfg sol valued (tree s) (iteration s))
     (bindM (advance env BACKPROPAGATION (Some (id_of a s0)) []) (\<lambda>_.
     bindM (backpropagate valued) (\<lambda>_. case sol of
         None \<Rightarrow> bindM (advance env SELECTION None ''iteration complete'') (\<lambda>_. ret Next)
       | Some s \<Rightarrow> (\<lambda>st'. bindM (advance env SUCCEEDED (Some (id_of s st'))
             (''accepted with score '' @ format_fixed 3 (score (nodes_of st' ! s)))) (\<lambda>_. ret Break) st'))))
     (flow_post env cfg) (faulty env cfg)"
      by (rule triple_bind [OF advance_triple], simp, erule valued_by_partial,
          rule triple_bind [OF backpropagate_triple], cases sol)
        (simp_all only: option.case go accept_triple)
  qed
qed auto

lemma expand_node_triple:
  assumes "inj (uid env)" "0 \<le> branching_factor cfg"
  shows "triple (\<lambda>s. at_phase SELECTION s \<and> chosen env cfg a (tree s) (iteration s)) (expand_node env cfg a)
     (flow_post env cfg) (faulty env cfg)"
  unfolding expand_node_def [abs_def]
proof (rule triple_fun, rule triple_bind, rule triple_pre)
  fix s0 :: "'a run_state"
  show "triple (\<lambda>s. at_phase SELECTION s \<and> chosen env cfg a (tree s) (iteration s)) (advance env EXPANSION (Some (id_of a s0)) [])
     (\<lambda>_ s. at_phase EXPANSION s \<and> chosen env cfg a (tree s) (iteration s)) (faulty env cfg)"
    by (rule advance_triple) (auto intro: chosen_partial)
  show "triple (\<lambda>s. at_phase EXPANSION s \<and> chosen env cfg a (tree s) (iteration s))
     (bindM (expand env cfg a) (\<lambda>kids. if kids = [] then backtrack env a else settle_batch env cfg a kids))
     (flow_post env cfg) (faulty env cfg)"
  proof (rule triple_bind [OF expand_triple [OF assms]], rule triple_if)
    fix kids :: "addr list"
    show "triple (\<lambda>s. at_phase EXPANSION s \<and> (grown_by env cfg kids (tree s) (iteration s) \<and> a < length (nodes_of s)))
       (backtrack env a) (flow_post env cfg) (faulty env cfg)" if "kids = []"
      by (rule triple_pre [OF backtrack_triple]) (use that in \<open>auto intro: grown_by_Nil\<close>)
    show "triple (\<lambda>s. at_phase EXPANSION s \<and> (grown_by env cfg kids (tree s) (iteration s) \<and> a < length (nodes_of s)))
       (settle_batch env cfg a kids) (flow_post env cfg) (faulty env cfg)"
      by (rule triple_pre [OF settle_batch_triple]) simp
  qed
qed auto

lemma announce_triple:
  "triple (\<lambda>s. at_phase SELECTION s \<and> chosen env cfg a (tree s) (iteration s)) (announce_revision env a)
     (\<lambda>_ s. at_phase SELECTION s \<and> chosen env cfg a (tree s) (iteration s)) (faulty env cfg)"
  unfolding announce_revision_def [abs_def]
proof (rule triple_fun, rule triple_bind, rule triple_pre)
  fix s0 :: "'a run_state"
  show "triple (\<lambda>s. at_phase SELECTION s \<and> chosen env cfg a (tree s) (iteration s))
     (advance env BACKTRACKING (Some (id_of a s0)) ''reopened node for revision attempt'')
     (\<lambda>_ s. at_phase BACKTRACKING s \<and> chosen env cfg a (tree s) (iteration s)) (faulty env cfg)"
    by (rule advance_triple) (auto intro: chosen_partial)
  show "triple (\<lambda>s. at_phase BACKTRACKING s \<and> chosen env cfg a (tree s) (iteration s))
     (advance env SELECTION (Some (id_of a s0)) ''revision notes prepared'')
     (\<lambda>_ s. at_phase SELECTION s \<and> chosen env cfg a (tree s) (iteration s)) (faulty env cfg)"
    by (rule advance_triple) (auto intro: chosen_partial)
qed auto

lemma search_step_triple:
  assumes "inj (uid env)" "0 \<le> branching_factor cfg"
  shows "triple (\<lambda>s. (at_phase SELECTION s \<and> headed env cfg (tree s) (iteration s)) \<and> iteration s < max_iterations cfg)
     (search_step env cfg) (flow_post env cfg) (faulty env cfg)"
  unfolding search_step_def
proof (rule triple_bind)
  show "triple (\<lambda>s. (at_phase SELECTION s \<and> headed env cfg (tree s) (iteration s)) \<and> iteration s < max_iterations cfg) count_iteration
     (\<lambda>_ s. at_phase SELECTION s \<and> (headed env cfg (tree s) (iteration s) \<and> sized cfg (tree s) (iteration s - 1))) (faulty env cfg)"
  proof (rule tripleI)
    fix s s' :: "'a run_state" and r
    assume s: "(at_phase SELECTION s \<and> headed env cfg (tree s) (iteration s)) \<and> iteration s < max_iterations cfg"
      and run: "count_iteration s = (r, s')"
    have "sized cfg (tree s) (iteration s + 1)"
      using s assms(2) by (simp add: headed_def whole_def sized_def algebra_simps)
    then show "r \<noteq> Diverge \<and> (\<forall>x. r = Ok x \<longrightarrow> at_phase SELECTION s' \<and> (headed env cfg (tree s') (iteration s') \<and> sized cfg (tree s') (iteration s' - 1)))
        \<and> (\<forall>e. r = Raise e \<longrightarrow> faulty env cfg s')"
      using s run by (auto simp: count_iteration_def at_phase_def headed_def whole_def counted_def)
  qed
  show "triple (\<lambda>s. at_phase SELECTION s \<and> (headed env cfg (tree s) (iteration s) \<and> sized cfg (tree s) (iteration s - 1)))
    (bindM (select env cfg) (\<lambda>(sel, revived). case sel of
         None \<Rightarrow> bindM (advance env EXHAUSTED None ''frontier empty'') (\<lambda>_. ret Break)
       | Some a \<Rightarrow> bindM (if revived \<noteq> [] then announce_revision env a else ret ()) (\<lambda>_. expand_node env cfg a)))
    (flow_post env cfg) (faulty env cfg)"
  proof (rule triple_bind [OF select_triple], clarify)
    fix sel and revived :: "string list"
    show "triple (\<lambda>s. at_phase SELECTION s \<and> (case fst (sel, revived) of None \<Rightarrow> headed env cfg (tree s) (iteration s)
          | Some a \<Rightarrow> chosen env cfg a (tree s) (iteration s)))
       (case sel of None \<Rightarrow> bindM (advance env EXHAUSTED None ''frontier empty'') (\<lambda>_. ret Break)
        | Some a \<Rightarrow> bindM (if revived \<noteq> [] then announce_revision env a else ret ()) (\<lambda>_. expand_node env cfg a))
       (flow_post env cfg) (faulty env cfg)"
    proof (cases sel)
      case None
      have "triple (\<lambda>s. at_phase SELECTION s \<and> headed env cfg (tree s) (iteration s))
         (bindM (advance env EXHAUSTED None ''frontier empty'') (\<lambda>_. ret Break)) (flow_post env cfg) (faulty env cfg)"
        by (rule triple_bind [OF advance_triple triple_ret]) (auto intro: headed_partial endedI simp: stop_phases_def)
      then show ?thesis unfolding None prod.sel option.case .
    next
      case (Some a)
      have "triple (\<lambda>s. at_phase SELECTION s \<and> chosen env cfg a (tree s) (iteration s))
         (bindM (if revived \<noteq> [] then announce_revision env a else ret ()) (\<lambda>_. expand_node env cfg a))
         (flow_post env cfg) (faulty env cfg)"
        by (rule triple_bind [OF triple_if expand_node_triple [OF assms]]) (auto intro: announce_triple triple_ret)
      then show ?thesis unfolding Some prod.sel option.case .
    qed
  qed
qed

lemma run_body_triple:
  assumes "inj (uid env)" "0 \<le> branching_factor cfg"
  shows "hoare (\<lambda>s. (at_phase SELECTION s \<and> headed env cfg (tree s) (iteration s)) \<and> iteration s < max_iterations cfg)
     (run_body env cfg deadline)
     (\<lambda>r s. case r of Ok x \<Rightarrow> flow_post env cfg x s | Raise _ \<Rightarrow> faulty env cfg s | Diverge \<Rightarrow> False)"
proof (rule hoareI)
  fix s r s' assume s: "(at_phase SELECTION s \<and> headed env cfg (tree s) (iteration s)) \<and> iteration s < max_iterations cfg"
    and run: "run_body env cfg deadline s = (r, s')"
  let ?I = "\<lambda>s'. (at_phase SELECTION s' \<and> headed env cfg (tree s') (iteration s')) \<and> iteration s' = iteration s"
  let ?Q = "\<lambda>r s. case r of Ok x \<Rightarrow> flow_post env cfg x s | Raise _ \<Rightarrow> faulty env cfg s | Diverge \<Rightarrow> False"
  have poll: "hoare ?I m (\<lambda>r s. case r of Ok b \<Rightarrow> if b then ?Q (Ok Break) s else ?I s
      | Raise e \<Rightarrow> ?Q (Raise e) s | Diverge \<Rightarrow> ?Q Diverge s)"
    if t: "triple (\<lambda>s. at_phase SELECTION s \<and> headed env cfg (tree s) (iteration s)) m
     (\<lambda>b s. if b then ended env cfg s else at_phase SELECTION s \<and> headed env cfg (tree s) (iteration s)) (faulty env cfg)"
      and p: "preserves (\<lambda>s'. iteration s' = iteration s) m" for m :: "('a run_state, bool) prog"
    by (rule hoare_conseq [OF hoare_conj [OF t [unfolded triple_def] p [unfolded preserves_def]]])
      (auto split: res.splits if_splits)
  have step: "hoare ?I (search_step env cfg) ?Q"
    by (rule hoare_conseq [OF search_step_triple [OF assms, unfolded triple_def]]) (use s in auto)
  have "hoare ?I (run_body env cfg deadline) ?Q"
    unfolding run_body_def
    by (rule hoare_poll [OF poll [OF poll_cancel_triple poll_cancel_iteration]],
        rule hoare_poll [OF poll [OF poll_deadline_triple poll_deadline_iteration]],
        rule hoare_poll [OF poll [OF poll_stop_triple poll_stop_iteration] step])
  from hoareD [OF this _ run] s show "?Q r s'" by simp
qed

subsection \<open>The whole run\<close>

lemma run_loop_triple:
  assumes "inj (uid env)" "0 \<le> branching_factor cfg"
  shows "triple (\<lambda>s. at_phase SELECTION s \<and> headed env cfg (tree s) (iteration s)) (run_loop env cfg deadline)
     (\<lambda>_ s. at_phase SELECTION s \<and> headed env cfg (tree s) (iteration s) \<or> ended env cfg s) (faulty env cfg)"
  unfolding triple_def
proof (rule run_loop_hoare)
  show "hoare (\<lambda>s. (at_phase SELECTION s \<and> headed env cfg (tree s) (iteration s)) \<and> iteration s < max_iterations cfg) (run_body env cfg deadline)
    (\<lambda>r s. case r of Ok Next \<Rightarrow> at_phase SELECTION s \<and> headed env cfg (tree s) (iteration s)
      | Ok Break \<Rightarrow> (case Ok () of Ok x \<Rightarrow> at_phase SELECTION s \<and> headed env cfg (tree s) (iteration s) \<or> ended env cfg s
          | Raise _ \<Rightarrow> faulty env cfg s | Diverge \<Rightarrow> False)
      | Raise e \<Rightarrow> (case Raise e of Ok x \<Rightarrow> at_phase SELECTION s \<and> headed env cfg (tree s) (iteration s) \<or> ended env cfg s
          | Raise _ \<Rightarrow> faulty env cfg s | Diverge \<Rightarrow> False)
      | Diverge \<Rightarrow> (case Diverge of Ok x \<Rightarrow> at_phase SELECTION s \<and> headed env cfg (tree s) (iteration s) \<or> ended env cfg s
          | Raise _ \<Rightarrow> faulty env cfg s | Diverge \<Rightarrow> False))"
    by (rule hoare_conseq [OF run_body_triple [OF assms]]) (auto split: res.splits flow.splits)
qed simp

definition complete :: "'w environment \<Rightarrow> search_config \<Rightarrow> string \<Rightarrow> 'w run_state \<Rightarrow> bool" where
  "complete env cfg err s \<longleftrightarrow> (err = [] \<and> ended env cfg s)
     \<or> (err \<noteq> [] \<and> at_phase FAILED s \<and> partial env cfg (tree s) (iteration s))"

lemma failed_reachable: "p \<notin> TERMINAL_PHASES \<Longrightarrow> FAILED \<in> transitions p"
  by (cases p) (auto simp: TERMINAL_PHASES_def)

lemma advance_silent_fault:
  assumes "faulty env cfg s" "advance env FAILED i d s = (r, s')"
  shows "r \<noteq> Diverge" "r = Ok x \<Longrightarrow> at_phase FAILED s' \<and> partial env cfg (tree s') (iteration s')"
    "r = Raise e \<Longrightarrow> \<not> silent env"
proof -
  have "r \<noteq> Diverge \<and> (r = Ok x \<longrightarrow> at_phase FAILED s' \<and> partial env cfg (tree s') (iteration s')) \<and> (r = Raise e \<longrightarrow> \<not> silent env)"
  proof (cases "phase (machine s) \<in> TERMINAL_PHASES")
    case True
    then have "\<not> can_transition (machine s) FAILED"
      using search_graph.terminal_stuck unfolding can_transition_def by fastforce
    then show ?thesis using assms True by (auto simp: advance_def transition_def Let_def faulty_def split: prod.splits)
  next
    case False
    have "at_phase (phase (machine s)) s" using assms(1) by (simp add: faulty_def at_phase_def)
    note a = advance_spec [OF this failed_reachable [OF False] assms(2)]
    show ?thesis using a assms(1) by (auto simp: faulty_def)
  qed
  then show "r \<noteq> Diverge" "r = Ok x \<Longrightarrow> at_phase FAILED s' \<and> partial env cfg (tree s') (iteration s')"
    "r = Raise e \<Longrightarrow> \<not> silent env" by blast+
qed

lemma guarded_loop_triple:
  assumes "inj (uid env)" "0 \<le> branching_factor cfg"
  shows "triple (\<lambda>s. at_phase SELECTION s \<and> headed env cfg (tree s) (iteration s)) (guarded_loop env cfg deadline)
     (\<lambda>err s. (err = [] \<and> at_phase SELECTION s \<and> headed env cfg (tree s) (iteration s)) \<or> complete env cfg err s) (\<lambda>s. \<not> silent env)"
proof (rule tripleI)
  fix s r s' assume s: "at_phase SELECTION s \<and> headed env cfg (tree s) (iteration s)" and run: "guarded_loop env cfg deadline s = (r, s')"
  obtain r1 s1 where loop: "run_loop env cfg deadline s = (r1, s1)" by fastforce
  note t = tripleD [OF run_loop_triple [OF assms] s loop]
  show "r \<noteq> Diverge \<and> (\<forall>err. r = Ok err \<longrightarrow> (err = [] \<and> at_phase SELECTION s' \<and> headed env cfg (tree s') (iteration s')) \<or> complete env cfg err s')
     \<and> (\<forall>e. r = Raise e \<longrightarrow> \<not> silent env)"
  proof (cases r1)
    case (Ok x)
    then have "r = Ok []" "s' = s1" using run loop by (simp_all add: guarded_loop_def catchM_def bindM_def ret_def)
    then show ?thesis using t(2) [OF Ok] by (auto simp: complete_def)
  next
    case (Raise e)
    let ?err = "exn_name (exn_kind e) @ '': '' @ exn_text e"
    obtain r2 s2 where adv: "advance env FAILED None ?err s1 = (r2, s2)" by fastforce
    have eq: "(r, s') = bindM (advance env FAILED None ?err) (\<lambda>_. ret ?err) s1"
      using run loop Raise by (simp add: guarded_loop_def catchM_def bindM_def [of "run_loop env cfg deadline"] Let_def)
    note a = advance_silent_fault [OF t(3) [OF Raise] adv]
    have "?err \<noteq> []" by simp
    then show ?thesis using a eq adv by (cases r2) (auto simp: bindM_def ret_def complete_def)
  qed (use t in simp)
qed

lemma spend_budget_triple:
  "triple (\<lambda>s. (err = [] \<and> at_phase SELECTION s \<and> headed env cfg (tree s) (iteration s)) \<or> complete env cfg err s) (spend_budget env)
     (\<lambda>_ s. complete env cfg err s) (\<lambda>s. \<not> silent env)"
proof (rule tripleI)
  fix s r s' assume s: "(err = [] \<and> at_phase SELECTION s \<and> headed env cfg (tree s) (iteration s)) \<or> complete env cfg err s"
    and run: "spend_budget env s = (r, s')"
  show "r \<noteq> Diverge \<and> (\<forall>x. r = Ok x \<longrightarrow> complete env cfg err s') \<and> (\<forall>e. r = Raise e \<longrightarrow> \<not> silent env)"
  proof (cases "is_terminal (machine s)")
    case True
    then have "complete env cfg err s" using s by (auto simp: is_terminal_def at_phase_def TERMINAL_PHASES_def)
    then show ?thesis using run True by (auto simp: spend_budget_def)
  next
    case False
    then have h: "err = []" "at_phase SELECTION s" "headed env cfg (tree s) (iteration s)"
      using s by (auto simp: complete_def ended_def at_phase_def is_terminal_def TERMINAL_PHASES_def stop_phases_def)
    have adv: "advance env EXHAUSTED None ''iteration budget spent'' s = (r, s')"
      using run False by (simp add: spend_budget_def)
    note a = advance_spec [OF h(2) _ adv]
    have "ended env cfg s'" using a h by (intro endedI [of EXHAUSTED]) (auto simp: stop_phases_def)
    then show ?thesis using a h(1) by (auto simp: complete_def)
  qed
qed

lemma best_path_total:
  assumes "wf_tree t" obtains p where "best_path t = Some p"
proof -
  obtain r where r: "best_terminal t = Some r" "\<And>a. r = Some a \<Longrightarrow> a < length (tree_heap t)"
    using best_terminal_total [OF assms] by metis
  show thesis
  proof (cases r)
    case (Some a)
    obtain xs where "path_from_root (tree_heap t) a = Some xs" using tree_path_total [OF assms r(2) [OF Some]] by metis
    then show ?thesis using that r(1) Some by (simp add: best_path_def)
  next
    case None
    obtain xs where "best_loop (tree_heap t) (tree_root t) [tree_root t] = Some ([tree_root t] @ xs)"
      using best_loop_total [OF wf_treeD(1,2) [OF assms]] by metis
    then show ?thesis using that r(1) None by (simp add: best_path_def)
  qed
qed

text \<open>What a run returns, in terms of the state it ends in.\<close>

definition reports :: "search_result \<Rightarrow> 'w run_state \<Rightarrow> bool" where
  "reports res s \<longleftrightarrow> outcome_by_phase (phase (machine s)) = Some (outcome res) \<and> best_path (tree s) = Some (result_path res)
     \<and> iterations res = iteration s \<and> node_count res = int (length (nodes_of s)) \<and> phase_history res = history (machine s)
     \<and> result_tree res = tree s"

lemma partial_wf: "partial env cfg t i \<Longrightarrow> wf_tree t"
  unfolding partial_def tree_inv_def by (blast intro: struct_okD(1))

lemma complete_partial: "complete env cfg err s \<Longrightarrow> partial env cfg (tree s) (iteration s)"
  unfolding complete_def ended_def by (blast intro: whole_partial)

lemma complete_terminal: "complete env cfg err s \<Longrightarrow> phase (machine s) \<in> TERMINAL_PHASES"
  by (auto simp: complete_def ended_def at_phase_def TERMINAL_PHASES_def stop_phases_def)

lemma outcome_total: "p \<in> TERMINAL_PHASES \<longleftrightarrow> outcome_by_phase p \<noteq> None"
  by (cases p) (auto simp: TERMINAL_PHASES_def)

lemma build_result_triple:
  "triple (complete env cfg err) (build_result err)
     (\<lambda>res s. reports res s \<and> result_error res = err \<and> complete env cfg err s) (\<lambda>s. \<not> silent env)"
proof (rule tripleI)
  fix s r s' assume s: "complete env cfg err s" and run: "build_result err s = (r, s')"
  obtain out where out: "outcome_by_phase (phase (machine s)) = Some out"
    using complete_terminal [OF s] outcome_total by blast
  have wf: "wf_tree (tree s)" using partial_wf [OF complete_partial [OF s]] .
  obtain p where p: "best_path (tree s) = Some p" by (rule best_path_total [OF wf])
  show "r \<noteq> Diverge \<and> (\<forall>x. r = Ok x \<longrightarrow> reports x s' \<and> result_error x = err \<and> complete env cfg err s') \<and> (\<forall>e. r = Raise e \<longrightarrow> \<not> silent env)"
    using run out p s wf_tree_len [OF wf] by (auto simp: build_result_def reports_def)
qed

lemma initial_headed:
  assumes "valid_config cfg"
  shows "headed env cfg (new_tree task (uid env 0)) 0"
proof -
  have "struct_ok env cfg (new_tree task (uid env 0))"
    using valid_configD(2) [OF assms] wf_new_tree [of task "uid env 0"]
    by (simp add: struct_ok_def new_tree_def new_node_def)
  moreover have "visits_ok (tree_heap (new_tree task (uid env 0))) 1"
    by (auto simp: visits_ok_def new_tree_def new_node_def)
  ultimately show ?thesis
    using valid_configD(1) [OF assms]
    by (simp add: headed_def whole_def tree_inv_def none_accepted_def accepted_ok_def sized_def counted_def
        new_tree_def new_node_def values_ok_def float_consts)
qed

lemma run_triple:
  assumes cfg: "valid_config cfg" and inj: "inj (uid env)" and run: "run env cfg task w = (r, s')"
  shows "r \<noteq> Diverge" "silent env \<Longrightarrow> \<exists>res. r = Ok res"
    "r = Ok res \<Longrightarrow> reports res s' \<and> complete env cfg (result_error res) s'"
proof -
  have bf: "0 \<le> branching_factor cfg" using valid_configD(4) [OF cfg] by simp
  let ?I = "\<lambda>p s. at_phase p s \<and> headed env cfg (tree s) (iteration s)"
  have start: "triple (?I IDLE) (start_deadline cfg env) (\<lambda>_. ?I IDLE) (\<lambda>s. \<not> silent env)"
    by (rule tripleI) (auto simp: start_deadline_def Let_def at_phase_def split: option.splits prod.splits)
  have adv: "triple (?I IDLE) (advance env SELECTION None ''search started'') (\<lambda>_. ?I SELECTION) (\<lambda>s. \<not> silent env)"
  proof (rule tripleI)
    fix s s' :: "'a run_state" and r
    assume s: "?I IDLE s" and a: "advance env SELECTION None ''search started'' s = (r, s')"
    have "SELECTION \<in> transitions IDLE" by simp
    from advance_spec [OF conjunct1 [OF s] this a] s
    show "r \<noteq> Diverge \<and> (\<forall>x. r = Ok x \<longrightarrow> ?I SELECTION s') \<and> (\<forall>e. r = Raise e \<longrightarrow> \<not> silent env)"
      by auto
  qed
  have main: "triple (?I IDLE)
     (bindM (start_deadline cfg env) (\<lambda>deadline. bindM (advance env SELECTION None ''search started'') (\<lambda>_.
      bindM (guarded_loop env cfg deadline) (\<lambda>err. bindM (spend_budget env) (\<lambda>_. build_result err)))))
     (\<lambda>res s. reports res s \<and> complete env cfg (result_error res) s) (\<lambda>s. \<not> silent env)"
  proof (rule triple_bind [OF start], rule triple_bind [OF adv], rule triple_bind [OF guarded_loop_triple [OF inj bf]],
      rule triple_bind [OF spend_budget_triple])
    fix err show "triple (complete env cfg err) (build_result err)
       (\<lambda>res s. reports res s \<and> complete env cfg (result_error res) s) (\<lambda>s. \<not> silent env)"
      by (rule triple_conseq [OF build_result_triple]) auto
  qed
  have "?I IDLE (initial_state env task w)"
    using initial_headed [OF cfg] by (simp add: initial_state_def at_phase_def machine_ok_new) (simp add: new_machine_def)
  note t = tripleD [OF main this run [unfolded run_def]]
  show "r \<noteq> Diverge" by (rule t(1))
  show "silent env \<Longrightarrow> \<exists>res. r = Ok res" using t(1,3) by (cases r) auto
  show "r = Ok res \<Longrightarrow> reports res s' \<and> complete env cfg (result_error res) s'" by (rule t(2))
qed

end
