(* ===== verification/Search_Theorems.thy ===== *)
theory Search_Theorems
  imports Search_Correct
begin

section \<open>What a caller of run can rely on\<close>

text \<open>
  The theorems about \<open>TreeSearchController.run\<close> as its caller sees it, for every configuration
  that \<open>SearchConfig\<close> accepts, every choice of policies and every outside world. The only
  hypothesis about the environment is that node identifiers are fresh (\<open>uuid4\<close>), and for the
  absence of exceptions that the event sink does not raise. The sample environment makes the
  witnesses concrete: a generator that proposes a fixed list and an evaluator with one verdict.
\<close>

definition sample_env :: "string list \<Rightarrow> pyfloat \<Rightarrow> bool \<Rightarrow> unit environment" where
  "sample_env cands sc fin = \<lparr>generate = (\<lambda>w h a n. (Inr cands, w)),
     evaluate = (\<lambda>w h c. (Inr \<lparr>ev_score = sc, ev_is_terminal = fin, ev_rationale = []\<rparr>, metadata (h ! c), w)),
     critic = None, revision_policy = None, reward_model = None, stop_condition = None, on_event = None,
     cancel_event = None, monotonic = (\<lambda>w. (0, w)), random_unit = (\<lambda>w. (0, w)),
     uid = (\<lambda>n. replicate n CHR ''x''), pool_order = (\<lambda>w n. ([], w))\<rparr>"

lemma sample_inj: "inj (uid (sample_env cands sc fin))"
  by (auto simp: inj_def sample_env_def dest: arg_cong [where f = length])

lemma sample_silent: "silent (sample_env cands sc fin)"
  by (simp add: silent_def sample_env_def)

lemmas run_eval = run_def start_deadline_def advance_def guarded_loop_def run_loop.simps catchM_def bindM_def ret_def
  spend_budget_def build_result_def initial_state_def run_body_def poll_cancel_def poll_deadline_def poll_stop_def
  search_step_def count_iteration_def select_def select_loop.simps expand_node_def expand_def create_child_def
  settle_batch_def evaluate_children_def collect_verdicts_def evaluate_one_def apply_verdict_def store_verdict_def
  consult_critic_def shape_value_def classify_def notify_def transition_def can_transition_def id_of_def
  set_heap_def set_metadata_def apply_evaluation_def record_visit_def path_from_root_def path_loop.simps
  best_path_def best_terminal_def nodes_def walk_def walk_loop.simps best_loop.simps add_child_def attach_child_def
  tree_contains_def new_tree_def new_node_def new_machine_def tree_len_def is_live_def LIVE_STATUSES_def
  is_terminal_def TERMINAL_PHASES_def default_config_def sample_env_def py_strip_def py_lstrip_def py_rstrip_def
  py_space_def py_ord_def Let_def less_eq_pyfloat.simps float_consts backtrack_def prune_node_def
  prune_subtree_def set_status_def

lemma sample_success:
  "\<exists>r. fst (run (sample_env [''a''] 1 True) default_config ''t'' ()) = Ok r \<and> outcome r = OUT_SUCCEEDED
     \<and> result_error r = [] \<and> solution r = Some ''a''"
  by (simp add: run_eval solution_def)

lemma run_Ok:
  assumes "valid_config cfg" "inj (uid env)" "fst (run env cfg task w) = Ok res"
  obtains s where "reports res s" "complete env cfg (result_error res) s" "partial env cfg (result_tree res) (iterations res)"
proof -
  obtain r s where run: "run env cfg task w = (r, s)" by fastforce
  then have "r = Ok res" using assms(3) by simp
  note t = run_triple(3) [OF assms(1,2) run this]
  have "partial env cfg (result_tree res) (iterations res)"
    using t complete_partial [of env cfg "result_error res" s] by (simp add: reports_def)
  then show thesis using that t by blast
qed

lemma run_silent_Ok:
  assumes "valid_config cfg" "inj (uid env)" "silent env"
  shows "\<exists>res. fst (run env cfg task w) = Ok res"
proof -
  obtain r s where run: "run env cfg task w = (r, s)" by fastforce
  show ?thesis using run_triple(1,2) [OF assms(1,2) run] run assms(3) by simp
qed

lemma run_root:
  assumes "valid_config cfg" "inj (uid env)" "fst (run env cfg task w) = Ok res"
  shows "int 0 < node_count res"
proof -
  obtain s where "complete env cfg (result_error res) s" and s: "reports res s" "partial env cfg (result_tree res) (iterations res)"
    using run_Ok [OF assms] by metis
  have "struct_ok env cfg (result_tree res)" using s(2) unfolding partial_def tree_inv_def by blast
  then show ?thesis using struct_okD(4) s(1) by (simp add: reports_def)
qed

text \<open>C1: A run always returns to its caller: selection, expansion, evaluation, backpropagation and the
  main loop all end for every configuration the constructor accepts, whatever the policies answer. When
  the event sink does not raise, the run returns a \<open>SearchResult\<close> and no exception of any policy
  escapes it.\<close>

theorem run_returns:
  assumes "valid_config cfg" "inj (uid env)"
  shows "fst (run env cfg task w) \<noteq> Diverge \<and> (silent env \<longrightarrow> (\<exists>res. fst (run env cfg task w) = Ok res))"
proof -
  obtain r s where run: "run env cfg task w = (r, s)" by fastforce
  show ?thesis using run_triple(1,2) [OF assms run] run by simp
qed

theorem run_returns_witness:
  "fst (run (sample_env [''a''] 1 True) default_config ''t'' ()) \<noteq> Diverge
   \<and> (\<exists>res. fst (run (sample_env [''a''] 1 True) default_config ''t'' ()) = Ok res)"
  using run_returns [OF valid_default_config sample_inj, of "[''a'']" 1 True "''t''" "()"] sample_silent by blast

text \<open>C5: The phase history a run reports is a path of the transition table from IDLE, it ends in a
  terminal phase and passes through no other terminal phase, and the outcome is the one of that phase.\<close>

theorem run_phase_history:
  assumes "valid_config cfg" "inj (uid env)" "fst (run env cfg task w) = Ok res"
  shows "\<exists>p. chain transitions IDLE (edges_of (phase_history res)) p \<and> outcome_by_phase p = Some (outcome res)
     \<and> edges_of (phase_history res) \<noteq> []
     \<and> (\<forall>e\<in>set (butlast (edges_of (phase_history res))). snd e \<notin> TERMINAL_PHASES)"
proof -
  obtain s where s: "reports res s" "complete env cfg (result_error res) s" by (rule run_Ok [OF assms])
  have "chain transitions IDLE (edges_of (phase_history res)) (phase (machine s))"
    using s by (auto simp: reports_def complete_def ended_def at_phase_def machine_ok_def)
  then show ?thesis
    using search_graph.ends_terminal_once [OF _ complete_terminal [OF s(2)]] s(1) unfolding reports_def by blast
qed

theorem run_phase_history_witness:
  "\<exists>res p. fst (run (sample_env [''a''] 1 True) default_config ''t'' ()) = Ok res
     \<and> chain transitions IDLE (edges_of (phase_history res)) p \<and> outcome_by_phase p = Some (outcome res)"
  using run_phase_history [OF valid_default_config sample_inj] sample_success by blast

lemma run_success_facts:
  assumes "valid_config cfg" "inj (uid env)" "fst (run env cfg task w) = Ok res" "outcome res = OUT_SUCCEEDED"
  shows "\<exists>a. int a < node_count res \<and> result_path res \<noteq> [] \<and> hd (result_path res) = 0 \<and> last (result_path res) = a
     \<and> child_chain (tree_heap (result_tree res)) (result_path res)
     \<and> status (tree_heap (result_tree res) ! a) = TERMINAL
     \<and> accept_threshold cfg \<le> score (tree_heap (result_tree res) ! a)
     \<and> solution res = Some (content (tree_heap (result_tree res) ! a))"
proof -
  obtain s where s: "reports res s" "complete env cfg (result_error res) s" by (rule run_Ok [OF assms(1-3)])
  let ?t = "result_tree res"
  have t: "?t = tree s" using s(1) by (simp add: reports_def)
  have "phase (machine s) = SUCCEEDED"
    using s(1) assms(4) by (cases "phase (machine s)") (auto simp: reports_def)
  then have w: "whole env cfg ?t (iteration s)" and acc: "\<not> none_accepted (tree_heap ?t)"
    using s(2) t by (auto simp: complete_def ended_def at_phase_def stop_phases_def)
  have st: "struct_ok env cfg ?t" and ok: "accepted_ok cfg (tree_heap ?t)" using w by (simp_all add: whole_def tree_inv_def)
  note wf = struct_okD(1) [OF st]
  obtain b where b: "best_terminal ?t = Some b" "b = None \<longleftrightarrow> none_accepted (tree_heap ?t)"
    "\<And>a. b = Some a \<Longrightarrow> a < length (tree_heap ?t) \<and> status (tree_heap ?t ! a) = TERMINAL"
    using best_terminal_total [OF wf] unfolding none_accepted_def by metis
  obtain a where a: "b = Some a" using b(2) acc by blast
  note at = b(3) [OF a]
  obtain xs where xs: "path_from_root (tree_heap ?t) a = Some xs" "xs \<noteq> []" "hd xs = tree_root ?t" "last xs = a"
    "child_chain (tree_heap ?t) xs"
    by (rule tree_path_total [OF wf conjunct1 [OF at]]) (rule that)
  have p: "result_path res = xs" using s(1) xs(1) b(1) a t by (simp add: reports_def best_path_def)
  show ?thesis
    using xs p at ok struct_okD(2) [OF st] s(1) t assms(4)
    by (intro exI [of _ a]) (simp add: reports_def accepted_ok_def solution_def)
qed

text \<open>C2: A run that reports success ends its best path, a parent-child chain from the root, in an
  accepted node whose score reaches the acceptance threshold, and \<open>solution\<close> is that node's content.\<close>

theorem run_success_sound:
  assumes "valid_config cfg" "inj (uid env)" "fst (run env cfg task w) = Ok res" "outcome res = OUT_SUCCEEDED"
  shows "\<exists>a. int a < node_count res \<and> result_path res \<noteq> [] \<and> hd (result_path res) = 0 \<and> last (result_path res) = a
     \<and> child_chain (tree_heap (result_tree res)) (result_path res)
     \<and> status (tree_heap (result_tree res) ! a) = TERMINAL
     \<and> accept_threshold cfg \<le> score (tree_heap (result_tree res) ! a)
     \<and> solution res = Some (content (tree_heap (result_tree res) ! a))"
  by (rule run_success_facts [OF assms])

theorem run_success_sound_witness:
  "\<exists>res a. fst (run (sample_env [''a''] 1 True) default_config ''t'' ()) = Ok res
     \<and> last (result_path res) = a \<and> accept_threshold default_config \<le> score (tree_heap (result_tree res) ! a)
     \<and> solution res = Some (content (tree_heap (result_tree res) ! a))"
  using run_success_sound [OF valid_default_config sample_inj] sample_success by blast

lemma run_bound_facts:
  assumes "valid_config cfg" "inj (uid env)" "fst (run env cfg task w) = Ok res"
  shows "0 \<le> iterations res \<and> iterations res \<le> max_iterations cfg
     \<and> node_count res \<le> 1 + iterations res * branching_factor cfg
     \<and> wf_tree (result_tree res) \<and> node_count res = int (tree_len (result_tree res))
     \<and> (\<forall>a. int a < node_count res \<longrightarrow> depth (tree_heap (result_tree res) ! a) \<le> max_depth cfg)"
proof -
  obtain s where "complete env cfg (result_error res) s" and s: "reports res s" "partial env cfg (result_tree res) (iterations res)"
    using run_Ok [OF assms] by metis
  obtain n where n: "tree_inv env cfg n (result_tree res)" using s(2) unfolding partial_def by blast
  then have st: "struct_ok env cfg (result_tree res)" by (simp add: tree_inv_def)
  note wf = struct_okD(1) [OF st]
  show ?thesis
    using s wf wf_tree_len [OF wf] struct_okD(8) [OF st] by (auto simp: reports_def partial_def sized_def counted_def)
qed

text \<open>C7: Size limits of a run: it counts at most \<open>max_iterations\<close> iterations, creates at most
  \<open>branching_factor\<close> nodes per counted iteration besides the root, never goes deeper than \<open>max_depth\<close>,
  and the final tree is a well-formed tree.\<close>

theorem run_bounds:
  assumes "valid_config cfg" "inj (uid env)" "fst (run env cfg task w) = Ok res"
  shows "0 \<le> iterations res \<and> iterations res \<le> max_iterations cfg
     \<and> node_count res \<le> 1 + iterations res * branching_factor cfg
     \<and> wf_tree (result_tree res) \<and> node_count res = int (tree_len (result_tree res))
     \<and> (\<forall>a. int a < node_count res \<longrightarrow> depth (tree_heap (result_tree res) ! a) \<le> max_depth cfg)"
  by (rule run_bound_facts [OF assms])

theorem run_bounds_witness:
  "\<exists>res. fst (run (sample_env [''a''] 1 True) default_config ''t'' ()) = Ok res \<and> node_count res \<le> 193"
proof -
  obtain res where r: "fst (run (sample_env [''a''] 1 True) default_config ''t'' ()) = Ok res" using sample_success by blast
  have "iterations res \<le> 64" "node_count res \<le> 1 + iterations res * 3"
    using run_bounds [OF valid_default_config sample_inj r] by (simp_all add: default_config_def)
  then show ?thesis using r by (intro exI [of _ res]) simp
qed

text \<open>C8: The candidates of a run are genuine: below any node no two children have the same content, and
  every node but the root has a non-empty content without surrounding white space.\<close>

theorem run_candidates_fresh:
  assumes "valid_config cfg" "inj (uid env)" "fst (run env cfg task w) = Ok res" "int a < node_count res"
  shows "distinct (map (\<lambda>c. content (tree_heap (result_tree res) ! c)) (children (tree_heap (result_tree res) ! a)))
     \<and> (a \<noteq> 0 \<longrightarrow> content (tree_heap (result_tree res) ! a) \<noteq> []
          \<and> py_strip (content (tree_heap (result_tree res) ! a)) = content (tree_heap (result_tree res) ! a))"
proof -
  obtain s where "complete env cfg (result_error res) s" and s: "reports res s" "partial env cfg (result_tree res) (iterations res)"
    using run_Ok [OF assms(1-3)] by metis
  have st: "struct_ok env cfg (result_tree res)" using s(2) unfolding partial_def tree_inv_def by blast
  have a: "a < length (tree_heap (result_tree res))" using assms(4) s(1) by (simp add: reports_def)
  show ?thesis using struct_okD(9,10) [OF st a] by blast
qed

theorem run_candidates_fresh_witness:
  "\<exists>res. fst (run (sample_env [''a''] 1 True) default_config ''t'' ()) = Ok res
     \<and> distinct (map (\<lambda>c. content (tree_heap (result_tree res) ! c)) (children (tree_heap (result_tree res) ! 0)))"
proof -
  obtain res where r: "fst (run (sample_env [''a''] 1 True) default_config ''t'' ()) = Ok res" "solution res = Some ''a''"
    using sample_success by blast
  have "int 0 < node_count res" by (rule run_root [OF valid_default_config sample_inj r(1)])
  then show ?thesis using run_candidates_fresh [OF valid_default_config sample_inj r(1)] r(1) by blast
qed

text \<open>C6: Backpropagation loses nothing: after a run that did not fail, every node has been visited exactly
  once for each node created at or below it (the root is not counted), so the root's visit count is the
  number of generated nodes.\<close>

theorem run_visit_counts:
  assumes "valid_config cfg" "inj (uid env)" "fst (run env cfg task w) = Ok res" "outcome res \<noteq> OUT_FAILED"
    "int a < node_count res"
  shows "visits (tree_heap (result_tree res) ! a)
     = int (card {b. 0 < b \<and> int b < node_count res \<and> below (tree_heap (result_tree res)) a b})"
proof -
  obtain s where s: "reports res s" "complete env cfg (result_error res) s" by (rule run_Ok [OF assms(1-3)])
  have "ended env cfg s" using s assms(4) by (auto simp: reports_def complete_def at_phase_def)
  then have "visits_ok (nodes_of s) (length (nodes_of s))" by (simp add: ended_def whole_def tree_inv_def)
  then show ?thesis using s(1) assms(5) by (simp add: reports_def visits_ok_def)
qed

theorem run_visit_counts_witness:
  "\<exists>res. fst (run (sample_env [''a''] 1 True) default_config ''t'' ()) = Ok res
     \<and> visits (tree_heap (result_tree res) ! 0)
       = int (card {b. 0 < b \<and> int b < node_count res \<and> below (tree_heap (result_tree res)) 0 b})"
proof -
  obtain res where r: "fst (run (sample_env [''a''] 1 True) default_config ''t'' ()) = Ok res" "outcome res = OUT_SUCCEEDED"
    using sample_success by blast
  have "int 0 < node_count res" by (rule run_root [OF valid_default_config sample_inj r(1)])
  moreover have "outcome res \<noteq> OUT_FAILED" using r(2) by simp
  ultimately show ?thesis using run_visit_counts [OF valid_default_config sample_inj r(1)] r(1) by blast
qed

text \<open>C9: Failures are reported as such: the error text is non-empty exactly when the outcome is FAILED; on
  every other outcome than SUCCEEDED and FAILED the tree holds no accepted node.\<close>

theorem run_failure_reported:
  assumes "valid_config cfg" "inj (uid env)" "fst (run env cfg task w) = Ok res"
  shows "(result_error res \<noteq> [] \<longleftrightarrow> outcome res = OUT_FAILED)
     \<and> (outcome res \<noteq> OUT_FAILED \<and> outcome res \<noteq> OUT_SUCCEEDED \<longrightarrow>
          (\<forall>a. int a < node_count res \<longrightarrow> status (tree_heap (result_tree res) ! a) \<noteq> TERMINAL) \<and> solution res = None)"
proof -
  obtain s where s: "reports res s" "complete env cfg (result_error res) s" by (rule run_Ok [OF assms])
  then show ?thesis
    by (cases "phase (machine s)")
      (auto simp: reports_def complete_def ended_def at_phase_def stop_phases_def none_accepted_def solution_def)
qed

theorem run_failure_reported_witness:
  "\<exists>res. fst (run (sample_env [''a''] 1 True) default_config ''t'' ()) = Ok res
     \<and> (result_error res \<noteq> [] \<longleftrightarrow> outcome res = OUT_FAILED)"
  using run_failure_reported [OF valid_default_config sample_inj] sample_success by blast

lemma mean_values_unit:
  assumes "valid_config cfg" "inj (uid env)" "fair env" "fst (run env cfg task w) = Ok res" "int a < node_count res"
  shows "unit_value (mean_value (tree_heap (result_tree res) ! a))"
proof -
  obtain s where "complete env cfg (result_error res) s" and s: "reports res s" "partial env cfg (result_tree res) (iterations res)"
    using run_Ok [OF assms(1,2,4)] by metis
  have val: "values_ok (tree_heap (result_tree res))" using s(2) assms(3) unfolding partial_def tree_inv_def by blast
  have a: "a < length (tree_heap (result_tree res))" using assms(5) s(1) by (simp add: reports_def)
  obtain x where x: "value_sum (tree_heap (result_tree res) ! a) = Fin x" "0 \<le> x" "x \<le> real_of_int (visits (tree_heap (result_tree res) ! a))"
    using val a unfolding values_ok_def by blast
  have "0 \<le> x / real_of_int v \<and> x / real_of_int v \<le> 1" if "visits (tree_heap (result_tree res) ! a) = v" "v \<noteq> 0" for v
    using x that by (simp add: divide_le_eq)
  then show ?thesis using x by (simp add: mean_value_def unit_value_def py_float_of_int_def float_consts)
qed

text \<open>With fair policies (valid evaluations and critiques, a reward in the unit interval) every node of the
  final tree has a mean value in the unit interval, as UCT selection and the best path assume.\<close>

theorem run_mean_values:
  assumes "valid_config cfg" "inj (uid env)" "fair env" "fst (run env cfg task w) = Ok res" "int a < node_count res"
  shows "unit_value (mean_value (tree_heap (result_tree res) ! a))"
  by (rule mean_values_unit [OF assms])

theorem run_mean_values_witness:
  "\<exists>res. fst (run (sample_env [''a''] 1 True) default_config ''t'' ()) = Ok res
     \<and> unit_value (mean_value (tree_heap (result_tree res) ! 0))"
proof -
  obtain res where r: "fst (run (sample_env [''a''] 1 True) default_config ''t'' ()) = Ok res" using sample_success by blast
  have "int 0 < node_count res" by (rule run_root [OF valid_default_config sample_inj r])
  moreover have "fair (sample_env [''a''] 1 True)"
    by (auto simp: fair_def sample_env_def valid_evaluation_def float_consts)
  ultimately show ?thesis using run_mean_values [OF valid_default_config sample_inj _ r] r by blast
qed

subsection \<open>The order of the stop checks\<close>

text \<open>The limit a pass reports, as the documentation of \<open>run\<close> states it: cancellation first, then the
  deadline, then the stop condition.\<close>

definition first_limit :: "'w environment \<Rightarrow> pyfloat option \<Rightarrow> 'w \<Rightarrow> search_phase option" where
  "first_limit env deadline w =
     (let (cancelled, w1) = (case cancel_event env of None \<Rightarrow> (False, w) | Some is_set \<Rightarrow> is_set w);
          (late, w2) = (case deadline of None \<Rightarrow> (False, w1)
            | Some d \<Rightarrow> (let (now, w2) = monotonic env w1 in (d \<le> now, w2)));
          spent = (case stop_condition env of None \<Rightarrow> False
            | Some check \<Rightarrow> (case fst (check w2) of Inr (Some reason) \<Rightarrow> reason \<noteq> [] | _ \<Rightarrow> False))
      in if cancelled then Some CANCELLED else if late then Some TIMED_OUT
         else if spent then Some BUDGET_EXHAUSTED else None)"

lemma stop_at:
  assumes "silent env" "at_phase SELECTION s" "q \<in> stop_phases" "q \<in> transitions SELECTION"
  shows "\<exists>s'. bindM (advance env q None d) (\<lambda>_. ret True) (s\<lparr>world := w\<rparr>) = (Ok True, s')
     \<and> phase (machine s') = q \<and> tree s' = tree s \<and> iteration s' = iteration s"
proof -
  obtain r s' where a: "advance env q None d (s\<lparr>world := w\<rparr>) = (r, s')" by fastforce
  have "at_phase SELECTION (s\<lparr>world := w\<rparr>)" using assms(2) by (simp add: at_phase_def)
  from advance_spec [OF this assms(4) a] assms(1) a show ?thesis
    by (simp add: bindM_def ret_def at_phase_def)
qed

lemma body_stops:
  assumes "silent env" "at_phase SELECTION s" "first_limit env deadline (world s) = Some p"
  shows "\<exists>s'. run_body env cfg deadline s = (Ok Break, s') \<and> phase (machine s') = p
     \<and> tree s' = tree s \<and> iteration s' = iteration s"
proof -
  note stop = stop_at [OF assms(1)]
  have sel: "q \<in> stop_phases \<Longrightarrow> q \<in> transitions SELECTION" for q by (auto simp: stop_phases_def)
  obtain c w1 where c: "(case cancel_event env of None \<Rightarrow> (False, world s) | Some is_set \<Rightarrow> is_set (world s)) = (c, w1)"
    by fastforce
  obtain l w2 where l: "(case deadline of None \<Rightarrow> (False, w1)
            | Some d \<Rightarrow> (let (now, w2) = monotonic env w1 in (d \<le> now, w2))) = (l, w2)" by fastforce
  show ?thesis
  proof (cases c)
    case True
    then have p: "p = CANCELLED" using assms(3) c by (simp add: first_limit_def Let_def split: prod.splits)
    obtain f where f: "cancel_event env = Some f" "f (world s) = (True, w1)" using c True by (auto split: option.splits)
    obtain s' where s': "bindM (advance env CANCELLED None ''run cancelled by its caller'') (\<lambda>_. ret True) (s\<lparr>world := w1\<rparr>) = (Ok True, s')"
      "phase (machine s') = CANCELLED" "tree s' = tree s" "iteration s' = iteration s"
      using stop [OF assms(2), of CANCELLED] by (auto simp: stop_phases_def)
    have "poll_cancel env s = (Ok True, s')" unfolding poll_cancel_def using f s'(1) by simp
    then show ?thesis using s'(2-4) p by (simp add: run_body_def bindM_def [of "poll_cancel env"] ret_def)
  next
    case False
    obtain s1 where s1: "poll_cancel env s = (Ok False, s1)" "s1 = s\<lparr>world := w1\<rparr>"
      using c False by (auto simp: poll_cancel_def split: option.splits)
    have at1: "at_phase SELECTION s1" using assms(2) s1(2) by (simp add: at_phase_def)
    show ?thesis
    proof (cases l)
      case True
      then have p: "p = TIMED_OUT" using assms(3) c l False by (simp add: first_limit_def Let_def)
      obtain d now where d: "deadline = Some d" "monotonic env w1 = (now, w2)" "d \<le> now"
        using l True by (auto split: option.splits prod.splits)
      obtain s' where s': "poll_deadline env cfg deadline s1 = (Ok True, s')"
        "phase (machine s') = TIMED_OUT" "tree s' = tree s1" "iteration s' = iteration s1"
        using stop [OF at1, of TIMED_OUT] d s1(2) unfolding poll_deadline_def by (auto simp: stop_phases_def)
      then show ?thesis using s1 p by (simp add: run_body_def bindM_def ret_def)
    next
      case late: False
      obtain s2 where s2: "poll_deadline env cfg deadline s1 = (Ok False, s2)" "s2 = s1\<lparr>world := w2\<rparr>"
        using l late s1(2) by (auto simp: poll_deadline_def Let_def split: option.splits prod.splits)
      have at2: "at_phase SELECTION s2" using at1 s2(2) by (simp add: at_phase_def)
      obtain check reason w3 where k: "stop_condition env = Some check" "check w2 = (Inr (Some reason), w3)" "reason \<noteq> []"
        "p = BUDGET_EXHAUSTED"
        using assms(3) c l False late
        by (cases "stop_condition env") (auto simp: first_limit_def Let_def prod_eq_iff split: sum.splits option.splits if_splits)
      obtain s' where s': "poll_stop env s2 = (Ok True, s')"
        "phase (machine s') = BUDGET_EXHAUSTED" "tree s' = tree s2" "iteration s' = iteration s2"
        using stop [OF at2, of BUDGET_EXHAUSTED] k s2(2) unfolding poll_stop_def by (auto simp: stop_phases_def)
      then show ?thesis using s1 s2 k(4) by (simp add: run_body_def bindM_def ret_def)
    qed
  qed
qed

text \<open>C10: Each pass tests the limits in the documented order and stops before any policy is called: in the
  selection phase the pass ends the loop in the phase of the first limit that is crossed, and neither the
  tree nor the iteration counter has changed.\<close>

theorem run_body_stops:
  assumes "silent env" "at_phase SELECTION s" "first_limit env deadline (world s) = Some p"
  shows "\<exists>s'. run_body env cfg deadline s = (Ok Break, s') \<and> phase (machine s') = p
     \<and> tree s' = tree s \<and> iteration s' = iteration s"
  by (rule body_stops [OF assms])

definition cancelling_env :: "unit environment" where
  "cancelling_env = (sample_env [''a''] 1 True)\<lparr>cancel_event := Some (\<lambda>w. (True, w))\<rparr>"

theorem run_body_stops_witness:
  "\<exists>s'. run_body cancelling_env default_config (Some 0)
       ((initial_state cancelling_env ''t'' ())\<lparr>machine := \<lparr>phase = SELECTION,
          history = [\<lparr>source = IDLE, target = SELECTION, trans_note = [], timestamp = 0\<rparr>]\<rparr>\<rparr>) = (Ok Break, s')
     \<and> phase (machine s') = CANCELLED"
  using run_body_stops [of cancelling_env "(initial_state cancelling_env ''t'' ())\<lparr>machine := \<lparr>phase = SELECTION,
          history = [\<lparr>source = IDLE, target = SELECTION, trans_note = [], timestamp = 0\<rparr>]\<rparr>\<rparr>" "Some 0" CANCELLED default_config]
  by (auto simp: cancelling_env_def sample_env_def silent_def at_phase_def machine_ok_def edges_of_def first_limit_def Let_def)

end
