(* ===== verification/Parallel_Evaluation.thy ===== *)
theory Parallel_Evaluation
  imports Search_Theorems
begin

section \<open>Parallel evaluation agrees with sequential evaluation\<close>

text \<open>
  \<open>_collect_verdicts\<close> promises that the verdicts of a batch do not depend on the number of
  workers. The locale \<open>independent_evaluator\<close> states what the worker pool needs of an
  evaluator: a verdict depends on the structure of the tree and the candidate only, and the
  candidate's metadata is all it writes. Then every schedule of the pool gives the sequential
  verdicts, the sequential exception, and the sequential tree.
\<close>

fun first_fault :: "(addr \<Rightarrow> exn + evaluation) \<Rightarrow> addr list \<Rightarrow> evaluation list res" where
  "first_fault V [] = Ok []"
| "first_fault V (c # cs) = (case V c of Inl e \<Rightarrow> Raise e
     | Inr v \<Rightarrow> (case first_fault V cs of Ok vs \<Rightarrow> Ok (v # vs) | Raise e \<Rightarrow> Raise e | Diverge \<Rightarrow> Diverge))"

text \<open>The heap after the candidates of \<open>S\<close> have been evaluated.\<close>

definition noted :: "(addr \<Rightarrow> dict \<Rightarrow> dict) \<Rightarrow> addr set \<Rightarrow> heap \<Rightarrow> heap" where
  "noted M S h = map (\<lambda>a. if a \<in> S then (h ! a)\<lparr>metadata := M a (metadata (h ! a))\<rparr> else h ! a) [0..<length h]"

lemma noted_length [simp]: "length (noted M S h) = length h"
  by (simp add: noted_def)

lemma noted_nth: "a < length h \<Longrightarrow> noted M S h ! a = (if a \<in> S then (h ! a)\<lparr>metadata := M a (metadata (h ! a))\<rparr> else h ! a)"
  by (simp add: noted_def)

lemma noted_empty [simp]: "noted M {} h = h"
  by (rule nth_equalityI) (simp_all add: noted_nth)

lemma noted_shape [simp]: "shape (noted M S h) = shape h"
  unfolding shape_def by (rule nth_equalityI) (simp_all add: noted_nth)

lemma noted_step:
  assumes "a < length h" "a \<notin> S"
  shows "set_metadata (noted M S h) a (M a (metadata (noted M S h ! a))) = noted M (insert a S) h"
proof (rule nth_equalityI)
  fix b assume "b < length (set_metadata (noted M S h) a (M a (metadata (noted M S h ! a))))"
  then have "b < length h" by simp
  then show "set_metadata (noted M S h) a (M a (metadata (noted M S h ! a))) ! b = noted M (insert a S) h ! b"
    using assms by (cases "b = a") (simp_all add: set_metadata_def noted_nth)
qed simp

locale independent_evaluator =
  fixes ev :: "'c \<Rightarrow> 'w \<Rightarrow> heap \<Rightarrow> addr \<Rightarrow> (exn + evaluation) \<times> dict \<times> 'w"
    and verdict :: "'c \<Rightarrow> (string \<times> addr option \<times> int \<times> string \<times> addr list) list \<Rightarrow> addr \<Rightarrow> exn + evaluation"
    and note_down :: "'c \<Rightarrow> (string \<times> addr option \<times> int \<times> string \<times> addr list) list \<Rightarrow> addr \<Rightarrow> dict \<Rightarrow> dict"
  assumes independent: "a < length h \<Longrightarrow> ev c w h a = (verdict c (shape h) a, note_down c (shape h) a (metadata (h ! a)), w)"
begin

lemma one:
  assumes "evaluate env = ev c" "nodes_of s = noted (note_down c (shape h)) S h" "a < length h" "a \<notin> S"
  shows "\<exists>s'. evaluate_one env a s = (lift_sum (verdict c (shape h) a), s')
     \<and> tree s' = (tree s)\<lparr>tree_heap := noted (note_down c (shape h)) (insert a S) h\<rparr> \<and> nodes_of s' = noted (note_down c (shape h)) (insert a S) h"
  using assms independent [of a "nodes_of s" c "world s"] noted_step [of a h S "note_down c (shape h)"]
  by (simp add: evaluate_one_def)

lemma all:
  assumes ev: "evaluate env = ev c"
  shows "nodes_of s = noted (note_down c (shape h)) S h \<Longrightarrow> distinct cs \<Longrightarrow> set cs \<inter> S = {} \<Longrightarrow> \<forall>a\<in>set cs. a < length h \<Longrightarrow>
    evaluate_all env cs s = (r, s') \<Longrightarrow> r = first_fault (verdict c (shape h)) cs
      \<and> (\<forall>vs. r = Ok vs \<longrightarrow> tree s' = (tree s)\<lparr>tree_heap := noted (note_down c (shape h)) (S \<union> set cs) h\<rparr>)"
proof (induction cs arbitrary: s S r s')
  case Nil
  then have "tree s = (tree s)\<lparr>tree_heap := noted (note_down c (shape h)) S h\<rparr>" by simp
  then show ?case using Nil by (simp add: ret_def)
next
  case (Cons a cs)
  obtain s1 where s1: "evaluate_one env a s = (lift_sum (verdict c (shape h) a), s1)"
    "tree s1 = (tree s)\<lparr>tree_heap := noted (note_down c (shape h)) (insert a S) h\<rparr>"
    "nodes_of s1 = noted (note_down c (shape h)) (insert a S) h"
    using one [OF ev Cons.prems(1), of a] Cons.prems by auto
  obtain r2 s2 where rest: "evaluate_all env cs s1 = (r2, s2)" by fastforce
  have IH: "r2 = first_fault (verdict c (shape h)) cs
      \<and> (\<forall>vs. r2 = Ok vs \<longrightarrow> tree s2 = (tree s1)\<lparr>tree_heap := noted (note_down c (shape h)) (insert a S \<union> set cs) h\<rparr>)"
    by (rule Cons.IH [OF s1(3) _ _ _ rest]) (use Cons.prems in auto)
  show ?case using Cons.prems(5) s1 rest IH
    by (cases "verdict c (shape h) a") (auto simp: bindM_def ret_def split: res.splits)
qed

text \<open>What the pool has finished is what a sequential run would have computed for those candidates.\<close>

definition finished :: "'c \<Rightarrow> heap \<Rightarrow> addr list \<Rightarrow> (nat \<times> evaluation res) list \<Rightarrow> bool" where
  "finished c h cs fin \<longleftrightarrow> (\<forall>(i, r)\<in>set fin. i < length cs \<and> r = lift_sum (verdict c (shape h) (cs ! i)))"

lemma complete:
  assumes ev: "evaluate env = ev c" and cs: "distinct cs" "\<forall>a\<in>set cs. a < length h"
  shows "nodes_of s = noted (note_down c (shape h)) ((!) cs ` fst ` set fin) h \<Longrightarrow> finished c h cs fin \<Longrightarrow>
    pool_complete env cs is fin s = (r, s') \<Longrightarrow> \<exists>fin'. r = Ok fin' \<and> finished c h cs fin'
      \<and> tree s' = (tree s)\<lparr>tree_heap := noted (note_down c (shape h)) ((!) cs ` fst ` set fin') h\<rparr>"
proof (induction "is" arbitrary: s fin)
  case Nil
  then have "tree s = (tree s)\<lparr>tree_heap := noted (note_down c (shape h)) ((!) cs ` fst ` set fin) h\<rparr>" by simp
  moreover have "r = Ok fin" "s' = s" using Nil.prems(3) by (simp_all add: ret_def)
  ultimately show ?case using Nil.prems(2) by blast
next
  case (Cons i "is")
  show ?case
  proof (cases "i < length cs \<and> map_of fin i = None")
    case True
    have notin: "cs ! i \<notin> (!) cs ` fst ` set fin"
    proof
      assume "cs ! i \<in> (!) cs ` fst ` set fin"
      then obtain j r where j: "(j, r) \<in> set fin" "cs ! i = cs ! j" by auto
      then have "j < length cs" using Cons.prems(2) by (auto simp: finished_def)
      then have "i = j" using j(2) cs(1) True nth_eq_iff_index_eq by blast
      then show False using j(1) True by (simp add: map_of_eq_None_iff) (metis fst_conv imageI)
    qed
    have il: "cs ! i < length h" using cs(2) True by simp
    obtain s1 where s1: "evaluate_one env (cs ! i) s = (lift_sum (verdict c (shape h) (cs ! i)), s1)"
      "tree s1 = (tree s)\<lparr>tree_heap := noted (note_down c (shape h)) (insert (cs ! i) ((!) cs ` fst ` set fin)) h\<rparr>"
      using one [OF ev Cons.prems(1) il notin] by blast
    let ?fin = "fin @ [(i, lift_sum (verdict c (shape h) (cs ! i)))]"
    have img: "(!) cs ` fst ` set ?fin = insert (cs ! i) ((!) cs ` fst ` set fin)" by auto
    have "\<exists>fin'. r = Ok fin' \<and> finished c h cs fin'
      \<and> tree s' = (tree s1)\<lparr>tree_heap := noted (note_down c (shape h)) ((!) cs ` fst ` set fin') h\<rparr>"
    proof (rule Cons.IH)
      show "nodes_of s1 = noted (note_down c (shape h)) ((!) cs ` fst ` set ?fin) h" unfolding img using s1(2) by simp
      show "finished c h cs ?fin" using Cons.prems(2) True by (auto simp: finished_def)
      show "pool_complete env cs is ?fin s1 = (r, s')" using Cons.prems(3) True s1(1) by simp
    qed
    then show ?thesis using s1(2) by simp
  next
    case False
    then show ?thesis using Cons.IH [OF Cons.prems(1,2)] Cons.prems(3) by auto
  qed
qed

lemma read:
  assumes ev: "evaluate env = ev c"
  shows "nodes_of s = noted (note_down c (shape h)) S h \<Longrightarrow> distinct cs \<Longrightarrow> \<forall>a\<in>set cs. a < length h \<Longrightarrow>
    (\<And>j x. j < length cs \<Longrightarrow> map_of fin (i + j) = Some x \<Longrightarrow> x = lift_sum (verdict c (shape h) (cs ! j)) \<and> cs ! j \<in> S) \<Longrightarrow>
    (\<And>j. j < length cs \<Longrightarrow> map_of fin (i + j) = None \<Longrightarrow> cs ! j \<notin> S) \<Longrightarrow>
    pool_read env cs i fin s = (r, s') \<Longrightarrow> r = first_fault (verdict c (shape h)) cs
      \<and> (\<forall>vs. r = Ok vs \<longrightarrow> tree s' = (tree s)\<lparr>tree_heap := noted (note_down c (shape h)) (S \<union> set cs) h\<rparr>)"
proof (induction cs arbitrary: i s S r s')
  case Nil
  then have "tree s = (tree s)\<lparr>tree_heap := noted (note_down c (shape h)) S h\<rparr>" by simp
  then show ?case using Nil by (simp add: ret_def)
next
  case (Cons a cs)
  let ?N = "note_down c (shape h)" and ?V = "verdict c (shape h)"
  obtain s1 where s1: "(case map_of fin i of Some r \<Rightarrow> Pair r | None \<Rightarrow> evaluate_one env a) s = (lift_sum (?V a), s1)"
    "tree s1 = (tree s)\<lparr>tree_heap := noted ?N (insert a S) h\<rparr>"
  proof (cases "map_of fin i")
    case None
    then have "a \<notin> S" using Cons.prems(5) [of 0] by simp
    from one [OF ev Cons.prems(1) _ this] Cons.prems(3) None that show thesis by auto
  next
    case (Some x)
    then have x: "x = lift_sum (?V a)" "a \<in> S" using Cons.prems(4) [of 0 x] by simp_all
    then have "tree s = (tree s)\<lparr>tree_heap := noted ?N (insert a S) h\<rparr>" using Cons.prems(1) by (simp add: insert_absorb)
    then show thesis using that [of s] Some x(1) by simp
  qed
  have n1: "nodes_of s1 = noted ?N (insert a S) h" using s1(2) by simp
  obtain r2 s2 where rest: "pool_read env cs (Suc i) fin s1 = (r2, s2)" by fastforce
  have "a \<notin> set cs" using Cons.prems(2) by simp
  have IH: "r2 = first_fault ?V cs \<and> (\<forall>vs. r2 = Ok vs \<longrightarrow> tree s2 = (tree s1)\<lparr>tree_heap := noted ?N (insert a S \<union> set cs) h\<rparr>)"
  proof (rule Cons.IH [OF n1 _ _ _ _ rest])
    show "distinct cs" "\<forall>a\<in>set cs. a < length h" using Cons.prems(2,3) by simp_all
    fix j assume j: "j < length cs"
    show "x = lift_sum (?V (cs ! j)) \<and> cs ! j \<in> insert a S" if "map_of fin (Suc i + j) = Some x" for x
      using Cons.prems(4) [of "Suc j" x] j that by simp
    show "cs ! j \<notin> insert a S" if "map_of fin (Suc i + j) = None"
      using Cons.prems(5) [of "Suc j"] j that \<open>a \<notin> set cs\<close> nth_mem [OF j] by auto
  qed
  show ?case using Cons.prems(6) s1 rest IH
    by (cases "?V a") (auto simp: bindM_def ret_def split: res.splits)
qed

text \<open>The promise of the pool, for any number of workers and any schedule.\<close>

lemma any_schedule:
  assumes ev: "evaluate env = ev c" and cs: "distinct cs" "\<forall>a\<in>set cs. a < length (nodes_of s)"
  shows "fst (collect_verdicts env cfg cs s) = fst (evaluate_all env cs s)
     \<and> (\<forall>vs. fst (evaluate_all env cs s) = Ok vs \<longrightarrow> tree (snd (collect_verdicts env cfg cs s)) = tree (snd (evaluate_all env cs s)))"
proof -
  let ?h = "nodes_of s" and ?N = "note_down c (shape (nodes_of s))"
  obtain r s' where seq: "evaluate_all env cs s = (r, s')" by fastforce
  have S: "r = first_fault (verdict c (shape ?h)) cs \<and> (\<forall>vs. r = Ok vs \<longrightarrow> tree s' = (tree s)\<lparr>tree_heap := noted ?N ({} \<union> set cs) ?h\<rparr>)"
    by (rule all [OF ev _ cs(1) _ cs(2) seq]) simp_all
  show ?thesis
  proof (cases "min (evaluation_workers cfg) (int (length cs)) \<le> 1")
    case True
    then show ?thesis by (simp add: collect_verdicts_def)
  next
    case False
    obtain order w where o: "pool_order env (world s) (length cs) = (order, w)" by fastforce
    obtain r1 s1 where pc: "pool_complete env cs order [] (s\<lparr>world := w\<rparr>) = (r1, s1)" by fastforce
    obtain fin where fin: "r1 = Ok fin" "finished c ?h cs fin"
      "tree s1 = (tree s)\<lparr>tree_heap := noted ?N ((!) cs ` fst ` set fin) ?h\<rparr>"
      using complete [OF ev cs _ _ pc] by (auto simp: finished_def)
    obtain r2 s2 where pr: "pool_read env cs 0 fin s1 = (r2, s2)" by fastforce
    have R: "r2 = first_fault (verdict c (shape ?h)) cs
        \<and> (\<forall>vs. r2 = Ok vs \<longrightarrow> tree s2 = (tree s1)\<lparr>tree_heap := noted ?N ((!) cs ` fst ` set fin \<union> set cs) ?h\<rparr>)"
    proof (rule read [OF ev _ cs _ _ pr])
      show "nodes_of s1 = noted ?N ((!) cs ` fst ` set fin) ?h" using fin(3) by simp
      fix j assume j: "j < length cs"
      show "x = lift_sum (verdict c (shape ?h) (cs ! j)) \<and> cs ! j \<in> (!) cs ` fst ` set fin" if "map_of fin (0 + j) = Some x" for x
        using fin(2) map_of_SomeD [OF that] by (force simp: finished_def)
      show "cs ! j \<notin> (!) cs ` fst ` set fin" if none: "map_of fin (0 + j) = None"
      proof
        assume "cs ! j \<in> (!) cs ` fst ` set fin"
        then obtain k where k: "k \<in> fst ` set fin" "cs ! j = cs ! k" by auto
        then have "k < length cs" using fin(2) by (auto simp: finished_def)
        then have "j = k" using k(2) cs(1) j nth_eq_iff_index_eq by blast
        then show False using k(1) none by (simp add: map_of_eq_None_iff)
      qed
    qed
    have sub: "(!) cs ` fst ` set fin \<union> set cs = set cs" using fin(2) by (auto simp: finished_def)
    have "collect_verdicts env cfg cs s = (r2, s2)" using False o pc fin(1) pr by (simp add: collect_verdicts_def bindM_def)
    then show ?thesis using S R fin(3) seq unfolding sub by simp
  qed
qed

end

end
