(* ===== verification/Execution_Evaluation.thy ===== *)
theory Execution_Evaluation
  imports Sandbox_Execution Parallel_Evaluation
begin

section \<open>Execution-grounded evaluation and critique (sandbox/evaluation.py, feedback/execution\_critic.py)\<close>

text \<open>
  The evaluator runs the code a thought carries and leaves the execution record in the node's
  metadata; the critic reads that record back and turns a failure into guidance. The evaluator's
  executor is any \<open>CodeExecutor\<close>, a function of the outside world. Both are interpreted against
  the policy contracts, the evaluator also against the worker pool's.
\<close>

definition EXECUTION_KEY :: string where
  "EXECUTION_KEY = ''execution''"

type_synonym 'w executor = "'w \<Rightarrow> execution_request \<Rightarrow> (exn + execution_result) \<times> 'w"

record code_evaluator =
  harness :: string
  success_score :: pyfloat
  failure_score :: pyfloat
  timeout_score :: pyfloat
  missing_payload_score :: pyfloat
  terminal_on_success :: bool

definition make_code_evaluator :: "code_evaluator \<Rightarrow> exn + code_evaluator" where
  "make_code_evaluator c =
     (if \<not> (0 \<le> failure_score c \<and> failure_score c \<le> success_score c \<and> success_score c \<le> 1)
      then Inl (Exn ValueError ''scores must satisfy 0 <= failure <= success <= 1'')
      else Inr (c\<lparr>harness := py_rstrip (harness c)\<rparr>))"

definition default_code_evaluator :: code_evaluator where
  "default_code_evaluator = \<lparr>harness = [], success_score = 1, failure_score = Fin 0.05, timeout_score = 0,
     missing_payload_score = Fin 0.3, terminal_on_success = True\<rparr>"

text \<open>The last non-blank line of a traceback.\<close>

definition last_meaningful_line :: "string \<Rightarrow> string" where
  "last_meaningful_line err = (case filter (\<lambda>l. l \<noteq> []) (map py_strip (rev (py_splitlines (py_strip err)))) of
       [] \<Rightarrow> [] | l # _ \<Rightarrow> l)"

definition text_of_code :: "int option \<Rightarrow> string" where
  "text_of_code c = (case c of None \<Rightarrow> ''None'' | Some n \<Rightarrow> str_int n)"

definition failure_rationale :: "int option \<Rightarrow> string \<Rightarrow> string" where
  "failure_rationale code err =
     (let l = last_meaningful_line err in
      ''payload failed with exit code '' @ text_of_code code @ (if l = [] then [] else '': '' @ l))"

definition program_of :: "code_evaluator \<Rightarrow> string \<Rightarrow> string" where
  "program_of c payload = (if harness c = [] then payload else payload @ newline @ newline @ harness c @ newline)"

text \<open>The verdict on an execution result.\<close>

definition grade :: "code_evaluator \<Rightarrow> execution_result \<Rightarrow> exn + evaluation" where
  "grade c r =
     (if res_status r = SANDBOX_ERROR then Inl (Exn SandboxError (''sandbox infrastructure fault: ''
        @ (if res_detail r \<noteq> [] then res_detail r else take 200 (stderr r))))
      else if res_status r = TIMEOUT_STATUS then make_evaluation (timeout_score c) False
        (if res_detail r \<noteq> [] then res_detail r else ''payload timed out'')
      else if result_ok r then make_evaluation (success_score c) (terminal_on_success c)
        ''payload and validation harness executed cleanly''
      else make_evaluation (failure_score c) False (failure_rationale (exit_code r) (stderr r)))"

definition code_evaluate ::
  "'w executor \<times> code_evaluator \<Rightarrow> 'w \<Rightarrow> heap \<Rightarrow> addr \<Rightarrow> (exn + evaluation) \<times> dict \<times> 'w" where
  "code_evaluate cfg w h a = (case cfg of (exec, c) \<Rightarrow>
     (case extract_python_payload (content (h ! a)) of
        None \<Rightarrow> (make_evaluation (missing_payload_score c) False ''no executable payload found'', metadata (h ! a), w)
      | Some payload \<Rightarrow>
          (case make_request (program_of c payload) [] None of
             Inl e \<Rightarrow> (Inl e, metadata (h ! a), w)
           | Inr rq \<Rightarrow>
               (case exec w rq of
                  (Inl e, w1) \<Rightarrow> (Inl e, metadata (h ! a), w1)
                | (Inr r, w1) \<Rightarrow>
                    (grade c r, dict_set EXECUTION_KEY (VDict (result_to_dict r)) (metadata (h ! a)), w1)))))"

subsection \<open>ExecutionTraceCritic\<close>

definition name_start :: "char \<Rightarrow> bool" where
  "name_start c \<longleftrightarrow> (let n = py_ord c in 65 \<le> n \<and> n \<le> 90 \<or> 97 \<le> n \<and> n \<le> 122 \<or> n = 95)"

definition name_char :: "char \<Rightarrow> bool" where
  "name_char c \<longleftrightarrow> name_start c \<or> is_digit c"

definition ends_with :: "string \<Rightarrow> string \<Rightarrow> bool" where
  "ends_with suffix s \<longleftrightarrow> length suffix \<le> length s \<and> drop (length s - length suffix) s = suffix"

text \<open>
  \<open>_ERROR_LINE.match(line)\<close>: the exception name and the message group. The name is the longest
  run of identifier characters, since what follows it is the end or a colon; it has at least one
  character before its suffix.
\<close>

definition error_line :: "string \<Rightarrow> (string \<times> string option) option" where
  "error_line line =
     (let nm = takeWhile name_char line; rest = dropWhile name_char line in
      if nm \<noteq> [] \<and> name_start (hd nm)
         \<and> (\<exists>suffix\<in>set [''Error'', ''Exception'', ''Exit'', ''Interrupt'', ''Warning''].
               ends_with suffix nm \<and> length suffix < length nm)
      then (case rest of
          [] \<Rightarrow> Some (nm, None)
        | c # cs \<Rightarrow> if c = CHR '':'' then Some (nm, Some (py_lstrip cs)) else None)
      else None)"

definition diagnose_stderr :: "string \<Rightarrow> string \<Rightarrow> exn + critique" where
  "diagnose_stderr err code =
     (let line = last_meaningful_line err in
      case error_line line of
        None \<Rightarrow> make_critique EXCEPTION (''payload exited with code '' @ code)
          (if line \<noteq> [] then ''Inspect the failure output and revise the implementation to exit cleanly: '' @ line
           else ''Revise the implementation so the payload exits cleanly.'') (Fin 0.7)
      | Some (nm, msg) \<Rightarrow>
          (let message = py_strip (case msg of None \<Rightarrow> [] | Some m \<Rightarrow> m);
               detail = (if message \<noteq> [] then nm @ '': '' @ message else nm)
           in if nm = ''AssertionError'' then
                make_critique ASSERTION
                  (if message \<noteq> [] then ''validation check failed: '' @ message else ''a validation check failed without a message'')
                  (if message \<noteq> [] then ''Revise the implementation so that this requirement holds: '' @ message
                   else ''Revise the implementation until every validation assertion passes.'') (Fin 0.6)
              else if nm \<in> {''SyntaxError'', ''IndentationError'', ''TabError''} then
                make_critique SYNTAX (''payload failed to parse: '' @ detail)
                  ''Repair the syntax so the payload parses before resubmitting.'' (Fin 0.8)
              else make_critique EXCEPTION (''payload raised '' @ detail)
                (''Handle or eliminate the '' @ nm @ '' raised at runtime''
                  @ (if message \<noteq> [] then '' ('' @ message @ '')'' else []) @ ''.'') (Fin 0.7)))"

definition diagnose_record :: "(pyval \<Rightarrow> string) \<Rightarrow> pyval \<Rightarrow> exn + critique option" where
  "diagnose_record fr record =
     sum_bind (py_get record ''status'' VNone) (\<lambda>status.
       if status = VStr ''timeout'' then
         sum_bind (make_critique TIMEOUT_FAILURE ''payload exceeded its execution deadline''
           ''Remove unbounded loops or reduce algorithmic complexity; the payload must terminate within its time budget.''
           (Fin 0.9)) (\<lambda>k. Inr (Some k))
       else sum_bind (py_get record ''exit_code'' VNone) (\<lambda>code.
         if py_eq_int code 0 then Inr None
         else sum_bind (py_get record ''stderr'' (VStr [])) (\<lambda>err.
           sum_bind (diagnose_stderr (py_text fr err) (py_text fr code)) (\<lambda>k. Inr (Some k)))))"

definition execution_critique ::
  "(pyval \<Rightarrow> string) \<Rightarrow> 'w \<Rightarrow> heap \<Rightarrow> addr \<Rightarrow> (exn + critique option) \<times> 'w" where
  "execution_critique fr w h a =
     (case dict_get (metadata (h ! a)) EXECUTION_KEY of
        None \<Rightarrow> (sum_bind (make_critique NO_EXECUTION ''thought carries no executable payload''
          ''Produce a complete implementation inside a fenced ```python``` block.'' (Fin 0.4)) (\<lambda>k. Inr (Some k)), w)
      | Some VNone \<Rightarrow> (sum_bind (make_critique NO_EXECUTION ''thought carries no executable payload''
          ''Produce a complete implementation inside a fenced ```python``` block.'' (Fin 0.4)) (\<lambda>k. Inr (Some k)), w)
      | Some record \<Rightarrow> (diagnose_record fr record, w))"

subsection \<open>The contracts\<close>

lemma make_critique_valid: "make_critique f s g sev = Inr k \<Longrightarrow> valid_critique k"
  by (auto simp: make_critique_def valid_critique_def split: if_splits)

lemma diagnose_stderr_valid: "diagnose_stderr err code = Inr k \<Longrightarrow> valid_critique k"
  by (auto simp: diagnose_stderr_def Let_def dest: make_critique_valid split: option.splits if_splits prod.splits)

lemma diagnose_record_valid: "diagnose_record fr record = Inr (Some k) \<Longrightarrow> valid_critique k"
  by (auto simp: diagnose_record_def sum_bind_Inr dest: make_critique_valid diagnose_stderr_valid split: if_splits)

lemma grade_valid: "grade c r = Inr v \<Longrightarrow> valid_evaluation v"
  by (auto simp: grade_def dest: make_evaluation_valid split: if_splits)

interpretation code_evaluator: evaluator_contract code_evaluate
proof
  fix c :: "'a executor \<times> code_evaluator" and w h a v
  show "fst (code_evaluate c w h a) = Inr v \<Longrightarrow> valid_evaluation v"
    by (auto simp: code_evaluate_def dest: make_evaluation_valid grade_valid split: prod.splits option.splits sum.splits)
qed

interpretation trace_critic: critic_contract execution_critique
proof
  fix fr and w :: 'a and h a k
  show "fst (execution_critique fr w h a) = Inr (Some k) \<Longrightarrow> valid_critique k"
    by (auto simp: execution_critique_def sum_bind_Inr dest: make_critique_valid diagnose_record_valid
        split: option.splits pyval.splits)
qed

subsection \<open>Evaluation in the worker pool\<close>

text \<open>
  A payload that always ends the same way: the executor is a function of the request. Then the
  evaluator is independent of the order of evaluation, because all it writes is the candidate's
  own metadata.
\<close>

definition pure_executor :: "(execution_request \<Rightarrow> exn + execution_result) \<Rightarrow> 'w executor" where
  "pure_executor f = (\<lambda>w rq. (f rq, w))"

definition code_verdict :: "(execution_request \<Rightarrow> exn + execution_result) \<times> code_evaluator \<Rightarrow> string \<Rightarrow> exn + evaluation" where
  "code_verdict cfg text = (case extract_python_payload text of
        None \<Rightarrow> make_evaluation (missing_payload_score (snd cfg)) False ''no executable payload found''
      | Some payload \<Rightarrow> sum_bind (make_request (program_of (snd cfg) payload) [] None)
          (\<lambda>rq. sum_bind (fst cfg rq) (grade (snd cfg))))"

definition code_record :: "(execution_request \<Rightarrow> exn + execution_result) \<times> code_evaluator \<Rightarrow> string \<Rightarrow> dict \<Rightarrow> dict" where
  "code_record cfg text d = (case extract_python_payload text of
        None \<Rightarrow> d
      | Some payload \<Rightarrow> (case sum_bind (make_request (program_of (snd cfg) payload) [] None) (fst cfg) of
          Inl e \<Rightarrow> d
        | Inr r \<Rightarrow> dict_set EXECUTION_KEY (VDict (result_to_dict r)) d))"

interpretation code_pool: independent_evaluator "\<lambda>cfg. code_evaluate (pure_executor (fst cfg), snd cfg)"
  "\<lambda>cfg sh a. code_verdict cfg (fst (sh ! a))" "\<lambda>cfg sh a. code_record cfg (fst (sh ! a))"
proof
  fix a :: addr and h :: heap and cfg :: "(execution_request \<Rightarrow> exn + execution_result) \<times> code_evaluator" and w :: 'w
  assume "a < length h"
  then show "code_evaluate (pure_executor (fst cfg), snd cfg) w h a
      = (code_verdict cfg (fst (shape h ! a)), code_record cfg (fst (shape h ! a)) (metadata (h ! a)), w)"
    by (simp add: code_evaluate_def code_verdict_def code_record_def pure_executor_def shape_def
        split: option.splits sum.splits)
qed

text \<open>C12: Evaluating a batch in the worker pool gives what evaluating it one by one gives, for any number of
  workers and any order in which the workers finish: the same verdicts in the same order, the same exception
  when a candidate fails, and the same tree with the same execution records.\<close>

theorem code_pool_sequential:
  assumes "evaluate env = code_evaluate (pure_executor f, c)" "distinct cs" "\<forall>a\<in>set cs. a < length (nodes_of s)"
  shows "fst (collect_verdicts env cfg cs s) = fst (evaluate_all env cs s)
     \<and> (\<forall>vs. fst (evaluate_all env cs s) = Ok vs \<longrightarrow>
          tree (snd (collect_verdicts env cfg cs s)) = tree (snd (evaluate_all env cs s)))"
  by (rule code_pool.any_schedule [where c = "(f, c)"]) (use assms in simp_all)

definition clean_result :: execution_result where
  "clean_result = \<lparr>res_status = COMPLETED, exit_code = Some 0, stdout = [], stderr = [], duration_seconds = 0,
     truncated = False, res_detail = []\<rparr>"

definition pool_env :: "unit environment" where
  "pool_env = (sample_env [] 1 True)\<lparr>evaluate := code_evaluate (pure_executor (\<lambda>_. Inr clean_result), default_code_evaluator),
     pool_order := (\<lambda>w n. (rev [0..<n], w))\<rparr>"

definition pool_state :: "unit run_state" where
  "pool_state = (initial_state pool_env ''t'' ())\<lparr>tree := \<lparr>tree_heap = [new_node ''t'' None 0 ''a'', new_node ''x'' (Some 0) 1 ''b'',
     new_node ''y'' (Some 0) 1 ''c''], tree_root = 0, tree_index = []\<rparr>\<rparr>"

theorem code_pool_sequential_witness:
  "fst (collect_verdicts pool_env (default_config\<lparr>evaluation_workers := 4\<rparr>) [1, 2] pool_state)
     = fst (evaluate_all pool_env [1, 2] pool_state)"
  using code_pool_sequential [of pool_env "\<lambda>_. Inr clean_result" default_code_evaluator "[1, 2]" pool_state]
  by (simp add: pool_env_def pool_state_def)

subsection \<open>The critic reads what the evaluator wrote\<close>

lemma make_critique_total: "0 \<le> sev \<Longrightarrow> sev \<le> 1 \<Longrightarrow> make_critique f s g sev = Inr \<lparr>failure_class = f, summary = s, guidance = g, severity = sev\<rparr>"
  by (simp add: make_critique_def)

lemma diagnose_stderr_total: "\<exists>k. diagnose_stderr err code = Inr k \<and> failure_class k \<in> {SYNTAX, ASSERTION, EXCEPTION}"
  by (simp add: diagnose_stderr_def Let_def make_critique_total float_consts split: option.splits)

lemma diagnose_result:
  "\<exists>k. diagnose_record fr (VDict (result_to_dict r)) = Inr k
     \<and> (k = None \<longleftrightarrow> res_status r \<noteq> TIMEOUT_STATUS \<and> exit_code r = Some 0)
     \<and> (\<forall>x. k = Some x \<longrightarrow> (failure_class x = TIMEOUT_FAILURE \<longleftrightarrow> res_status r = TIMEOUT_STATUS) \<and> failure_class x \<noteq> NO_EXECUTION)"
proof (cases "res_status r = TIMEOUT_STATUS")
  case True
  then show ?thesis
    by (simp add: diagnose_record_def result_to_dict_def make_critique_total float_consts)
next
  case False
  then have st: "execution_value (res_status r) \<noteq> ''timeout''" by (cases "res_status r") auto
  show ?thesis
  proof (cases "exit_code r = Some 0")
    case True
    then show ?thesis using False st by (simp add: diagnose_record_def result_to_dict_def)
  next
    case nz: False
    obtain k where "diagnose_stderr (stderr r) (py_text fr (case exit_code r of None \<Rightarrow> VNone | Some c \<Rightarrow> VInt c)) = Inr k"
      "failure_class k \<in> {SYNTAX, ASSERTION, EXCEPTION}" using diagnose_stderr_total by blast
    then show ?thesis using False st nz
      by (cases "exit_code r") (auto simp: diagnose_record_def result_to_dict_def)
  qed
qed

text \<open>C11: Evaluator and critic agree about every execution that was graded. On a node without an earlier
  record the critic never raises; it has nothing to say exactly when the run was clean, and then the verdict
  is the success verdict; a deadline is diagnosed as a timeout; a thought without payload as such; and a
  verdict the critic criticises is never terminal.\<close>

theorem diagnosis_follows_execution:
  assumes "code_evaluate (exec, c) w h a = (Inr v, d, w')" "dict_get (metadata (h ! a)) EXECUTION_KEY = None" "a < length h"
  shows "\<exists>k. fst (execution_critique fr w'' (set_metadata h a d) a) = Inr k
     \<and> (case extract_python_payload (content (h ! a)) of
          None \<Rightarrow> (\<exists>x. k = Some x \<and> failure_class x = NO_EXECUTION) \<and> ev_score v = missing_payload_score c
        | Some p \<Rightarrow> (\<exists>rq r. make_request (program_of c p) [] None = Inr rq \<and> exec w rq = (Inr r, w')
             \<and> (k = None \<longleftrightarrow> result_ok r) \<and> (result_ok r \<longrightarrow> ev_score v = success_score c \<and> ev_is_terminal v = terminal_on_success c)
             \<and> ((\<exists>x. k = Some x \<and> failure_class x = TIMEOUT_FAILURE) \<longleftrightarrow> res_status r = TIMEOUT_STATUS)))
     \<and> (k \<noteq> None \<longrightarrow> \<not> ev_is_terminal v)"
proof (cases "extract_python_payload (content (h ! a))")
  case None
  then have "d = metadata (h ! a)" "ev_score v = missing_payload_score c" "\<not> ev_is_terminal v"
    using assms(1) by (auto simp: code_evaluate_def make_evaluation_def split: if_splits)
  then show ?thesis using None assms(2,3)
    by (simp add: execution_critique_def set_metadata_def make_critique_total float_consts)
next
  case (Some p)
  then obtain rq r where rq: "make_request (program_of c p) [] None = Inr rq" "exec w rq = (Inr r, w')"
    and g: "grade c r = Inr v" and d: "d = dict_set EXECUTION_KEY (VDict (result_to_dict r)) (metadata (h ! a))"
    using assms(1) by (auto simp: code_evaluate_def split: sum.splits prod.splits)
  have se: "res_status r \<noteq> SANDBOX_ERROR" using g by (auto simp: grade_def)
  have v: "ev_score v = (if result_ok r then success_score c else ev_score v) \<and> ev_is_terminal v = (result_ok r \<and> terminal_on_success c)"
    using g se by (auto simp: grade_def make_evaluation_def result_ok_def split: if_splits)
  have ok: "result_ok r \<longleftrightarrow> res_status r \<noteq> TIMEOUT_STATUS \<and> exit_code r = Some 0"
    using se by (cases "res_status r") (auto simp: result_ok_def)
  obtain k where k: "diagnose_record fr (VDict (result_to_dict r)) = Inr k"
     "(k = None \<longleftrightarrow> res_status r \<noteq> TIMEOUT_STATUS \<and> exit_code r = Some 0)"
     "\<forall>x. k = Some x \<longrightarrow> (failure_class x = TIMEOUT_FAILURE \<longleftrightarrow> res_status r = TIMEOUT_STATUS) \<and> failure_class x \<noteq> NO_EXECUTION"
    using diagnose_result by metis
  have "fst (execution_critique fr w'' (set_metadata h a d) a) = Inr k"
    using assms(3) k(1) by (simp add: execution_critique_def set_metadata_def d)
  then show ?thesis using Some rq k(2,3) v ok by (cases k) auto
qed

theorem diagnosis_follows_execution_witness:
  "\<exists>k. fst (execution_critique (\<lambda>_. []) () (set_metadata [new_node ''plan'' None 0 ''a''] 0 []) 0) = Inr (Some k)
     \<and> failure_class k = NO_EXECUTION"
proof -
  have x: "extract_python_payload ''plan'' = None" by code_simp
  have "code_evaluate (pure_executor (\<lambda>_. Inr clean_result), default_code_evaluator) () [new_node ''plan'' None 0 ''a''] 0
     = (Inr \<lparr>ev_score = Fin (3 / 10), ev_is_terminal = False, ev_rationale = ''no executable payload found''\<rparr>, [], ())"
    by (simp add: code_evaluate_def new_node_def x make_evaluation_def default_code_evaluator_def float_consts)
  from diagnosis_follows_execution [OF this, where fr = "\<lambda>_. []" and w'' = "()"] show ?thesis by (auto simp: new_node_def x)
qed

end
