(* ===== verification/Feedback.thy ===== *)
theory Feedback
  imports Execution_Evaluation
begin

section \<open>Feedback: rewards, revision, chained critics (cognitivetree/feedback)\<close>

text \<open>
  The reward shaper with the checks of its weights, the notes compiled from the critiques of
  failed children, the bounded revision policy, and the chain of critics. The shaper is
  interpreted against the reward contract, and with the execution evaluator and the trace critic
  it gives the stack of the feedback demo, whose runs keep their values in the unit interval.
\<close>

subsection \<open>rewards.py\<close>

definition REWARD_METADATA_KEY :: string where
  "REWARD_METADATA_KEY = ''reward''"

record reward_weights =
  w_evaluation :: pyfloat
  w_critique :: pyfloat
  w_depth :: pyfloat
  depth_horizon :: int

definition default_weights :: reward_weights where
  "default_weights = \<lparr>w_evaluation = Fin 0.7, w_critique = Fin 0.2, w_depth = Fin 0.1, depth_horizon = 16\<rparr>"

definition check_weights :: "reward_weights \<Rightarrow> exn + reward_weights" where
  "check_weights w =
     (if py_min2 (py_min2 (w_evaluation w) (w_critique w)) (w_depth w) < 0
        then Inl (Exn ValueError ''reward weights must be non-negative'')
      else if w_evaluation w + w_critique w + w_depth w \<le> 0
        then Inl (Exn ValueError ''at least one reward weight must be positive'')
      else if depth_horizon w < 1 then Inl (Exn ValueError ''depth_horizon must be a positive integer'')
      else Inr w)"

definition critique_term :: "critique option \<Rightarrow> pyfloat" where
  "critique_term cr = (case cr of None \<Rightarrow> 1 | Some k \<Rightarrow> 1 - severity k)"

definition depth_term :: "reward_weights \<Rightarrow> int \<Rightarrow> pyfloat" where
  "depth_term w d = py_max2 0 (1 - fdiv (py_float_of_int d) (py_float_of_int (depth_horizon w)))"

definition shape_reward ::
  "reward_weights \<Rightarrow> 'w \<Rightarrow> heap \<Rightarrow> addr \<Rightarrow> pyfloat \<Rightarrow> critique option \<Rightarrow> (exn + pyfloat) \<times> dict \<times> 'w" where
  "shape_reward wt w h a base cr =
     (let kt = critique_term cr; dt = depth_term wt (depth (h ! a));
          total = w_evaluation wt + w_critique wt + w_depth wt
      in case py_div (w_evaluation wt * base + w_critique wt * kt + w_depth wt * dt) total of
           Inl e \<Rightarrow> (Inl e, metadata (h ! a), w)
         | Inr shaped \<Rightarrow> (Inr shaped, dict_set REWARD_METADATA_KEY (VDict
               [(''base_score'', VFloat (py_round base 6)), (''critique_term'', VFloat (py_round kt 6)),
                (''depth_term'', VFloat (py_round dt 6)), (''shaped'', VFloat (py_round shaped 6))]) (metadata (h ! a)), w))"

text \<open>The weights the constructor accepts, when they are finite.\<close>

definition usable_weights :: "reward_weights \<Rightarrow> bool" where
  "usable_weights w \<longleftrightarrow> check_weights w = Inr w \<and> is_finite (w_evaluation w) \<and> is_finite (w_critique w) \<and> is_finite (w_depth w)"

lemma usable_weightsE:
  assumes "usable_weights w"
  obtains e k d where "w_evaluation w = Fin e" "w_critique w = Fin k" "w_depth w = Fin d" "0 \<le> e" "0 \<le> k" "0 \<le> d"
    "0 < e + k + d" "1 \<le> depth_horizon w"
proof -
  obtain e k d where f: "w_evaluation w = Fin e" "w_critique w = Fin k" "w_depth w = Fin d"
    using assms unfolding usable_weights_def by (cases "w_evaluation w"; cases "w_critique w"; cases "w_depth w") auto
  then show thesis using assms that [of e k d]
    by (simp add: usable_weights_def check_weights_def py_min2_def split: if_splits)
qed

lemma depth_term_unit:
  assumes "1 \<le> depth_horizon w"
  shows "\<exists>t. depth_term w d = Fin t \<and> 0 \<le> t \<and> t = max 0 (1 - real_of_int d / real_of_int (depth_horizon w))"
  using assms by (simp add: depth_term_def py_float_of_int_def py_max2_def float_consts max_def)

lemma shape_value:
  assumes "usable_weights wt"
  obtains e k d where "w_evaluation wt = Fin e" "w_critique wt = Fin k" "w_depth wt = Fin d" "0 \<le> e" "0 \<le> k" "0 \<le> d"
    "0 < e + k + d"
    "\<And>w h a b c. critique_term cr = Fin c \<Longrightarrow> fst (shape_reward wt w h a (Fin b) cr)
       = Inr (Fin ((e * b + k * c + d * max 0 (1 - real_of_int (depth (h ! a)) / real_of_int (depth_horizon wt))) / (e + k + d)))"
proof -
  obtain e k d where w: "w_evaluation wt = Fin e" "w_critique wt = Fin k" "w_depth wt = Fin d" "0 \<le> e" "0 \<le> k" "0 \<le> d"
    "0 < e + k + d" "1 \<le> depth_horizon wt" by (rule usable_weightsE [OF assms])
  show thesis
  proof (rule that [OF w(1-7)])
    fix w :: 'a and h a b c assume "critique_term cr = Fin c"
    then show "fst (shape_reward wt w h a (Fin b) cr)
       = Inr (Fin ((e * b + k * c + d * max 0 (1 - real_of_int (depth (h ! a)) / real_of_int (depth_horizon wt))) / (e + k + d)))"
      using w depth_term_unit [OF w(8), of "depth (h ! a)"] by (auto simp: shape_reward_def py_div_def float_consts)
  qed
qed

lemma critique_term_unit:
  assumes "\<And>k. cr = Some k \<Longrightarrow> valid_critique k"
  shows "\<exists>c. critique_term cr = Fin c \<and> 0 \<le> c \<and> c \<le> 1"
proof (cases cr)
  case (Some k)
  then obtain s where "severity k = Fin s" "0 \<le> s" "s \<le> 1"
    using assms unit_interval_Fin unfolding valid_critique_def by blast
  then show ?thesis using Some by (simp add: critique_term_def float_consts)
qed (simp add: critique_term_def float_consts)

lemma weighted_mean:
  fixes e k d :: real
  assumes "0 \<le> e" "0 \<le> k" "0 \<le> d" "0 < e + k + d" "0 \<le> x" "x \<le> 1" "0 \<le> y" "y \<le> 1" "0 \<le> z" "z \<le> 1"
  shows "0 \<le> (e * x + k * y + d * z) / (e + k + d)" "(e * x + k * y + d * z) / (e + k + d) \<le> 1"
proof -
  have "e * x \<le> e" "k * y \<le> k" "d * z \<le> d" using assms by (simp_all add: mult_left_le)
  then show "(e * x + k * y + d * z) / (e + k + d) \<le> 1" using assms(4) by (simp add: divide_le_eq)
  show "0 \<le> (e * x + k * y + d * z) / (e + k + d)" using assms by simp
qed

interpretation reward_shaper: reward_contract usable_weights shape_reward
proof
  fix e :: reward_weights and h :: heap and a s cr r and w :: 'w
  assume e: "usable_weights e" and d: "0 \<le> depth (h ! a)" and s: "unit_value s"
    and cr: "\<And>k. cr = Some k \<Longrightarrow> valid_critique k" and run: "fst (shape_reward e w h a s cr) = Inr r"
  obtain b where b: "s = Fin b" "0 \<le> b" "b \<le> 1" using s unit_interval_Fin unfolding unit_value_def by blast
  obtain c where c: "critique_term cr = Fin c" "0 \<le> c" "c \<le> 1" using critique_term_unit [OF cr] by blast
  obtain x k y where w: "0 \<le> x" "0 \<le> k" "0 \<le> y" "0 < x + k + y" "1 \<le> depth_horizon e" and
    val: "\<And>w h a b c. critique_term cr = Fin c \<Longrightarrow> fst (shape_reward e (w :: 'w) h a (Fin b) cr)
       = Inr (Fin ((x * b + k * c + y * max 0 (1 - real_of_int (depth (h ! a)) / real_of_int (depth_horizon e))) / (x + k + y)))"
    using shape_value [OF e] usable_weightsE [OF e] by metis
  have r: "r = Fin ((x * b + k * c + y * max 0 (1 - real_of_int (depth (h ! a)) / real_of_int (depth_horizon e))) / (x + k + y))"
    using run val [OF c(1), of w h a b] b(1) by simp
  have z: "0 \<le> max 0 (1 - real_of_int (depth (h ! a)) / real_of_int (depth_horizon e))"
    "max 0 (1 - real_of_int (depth (h ! a)) / real_of_int (depth_horizon e)) \<le> 1" using d w(5) by simp_all
  show "unit_value r" unfolding r unit_value_def
    using weighted_mean [OF w(1-4) b(2,3) c(2,3) z] by (simp add: float_consts)
qed

interpretation feedback_stack: shaped_policies code_evaluate execution_critique usable_weights shape_reward
  by unfold_locales

text \<open>The shaped reward of usable weights rewards what it means to: it never falls when the evaluator's
  score rises, when the critique gets milder or is absent, or when the node is shallower; and it records its
  components in the node.\<close>

theorem reward_monotone:
  assumes "usable_weights wt" "b \<le> b'" "critique_term cr = Fin c" "critique_term cr' = Fin c'" "c \<le> c'"
    "depth (h' ! a') \<le> depth (h ! a)"
  shows "\<exists>r r'. fst (shape_reward wt w h a (Fin b) cr) = Inr (Fin r) \<and> fst (shape_reward wt w' h' a' (Fin b') cr') = Inr (Fin r') \<and> r \<le> r'
     \<and> (\<exists>entry. dict_get (fst (snd (shape_reward wt w h a (Fin b) cr))) REWARD_METADATA_KEY = Some (VDict entry)
          \<and> dict_get entry ''shaped'' = Some (VFloat (py_round (Fin r) 6)))"
proof -
  obtain e k d where we: "0 \<le> e" "0 \<le> k" "0 \<le> d" "0 < e + k + d" "1 \<le> depth_horizon wt"
    and vals: "w_evaluation wt = Fin e" "w_critique wt = Fin k" "w_depth wt = Fin d"
    using usable_weightsE [OF assms(1)] by metis
  define t where "t x = max 0 (1 - real_of_int x / real_of_int (depth_horizon wt))" for x
  have dt: "depth_term wt x = Fin (t x)" for x using depth_term_unit [OF we(5), of x] by (auto simp: t_def)
  have t: "t (depth (h ! a)) \<le> t (depth (h' ! a'))"
    unfolding t_def by (rule max.mono) (use assms(6) we(5) in \<open>simp_all add: divide_right_mono\<close>)
  have "e * b + k * c + d * t (depth (h ! a)) \<le> e * b' + k * c' + d * t (depth (h' ! a'))"
    by (intro add_mono mult_left_mono assms t we)
  then have le: "(e * b + k * c + d * t (depth (h ! a))) / (e + k + d) \<le> (e * b' + k * c' + d * t (depth (h' ! a'))) / (e + k + d)"
    using we(4) by (simp add: divide_right_mono)
  have nz: "e + k + d \<noteq> 0" using we(4) by simp
  have run: "shape_reward wt v g x (Fin y) q = (Inr (Fin ((e * y + k * z + d * t (depth (g ! x))) / (e + k + d))),
      dict_set REWARD_METADATA_KEY (VDict
               [(''base_score'', VFloat (py_round (Fin y) 6)), (''critique_term'', VFloat (py_round (Fin z) 6)),
                (''depth_term'', VFloat (py_round (Fin (t (depth (g ! x)))) 6)),
                (''shaped'', VFloat (py_round (Fin ((e * y + k * z + d * t (depth (g ! x))) / (e + k + d))) 6))]) (metadata (g ! x)), v)"
    if "critique_term q = Fin z" for v :: 'v and g x y z q
    unfolding shape_reward_def using that nz by (simp add: vals dt py_div_def float_consts)
  show ?thesis using run [OF assms(3), of w h a b] run [OF assms(4), of w' h' a' b'] le by simp
qed

lemma default_weights_usable: "usable_weights default_weights"
  by (simp add: usable_weights_def check_weights_def default_weights_def py_min2_def float_consts)

theorem reward_monotone_witness:
  "\<exists>r r'. fst (shape_reward default_weights () [new_node ''t'' None 0 ''a''] 0 (Fin (1/2)) None) = Inr (Fin r)
     \<and> fst (shape_reward default_weights () [new_node ''t'' None 0 ''a''] 0 (Fin 1) None) = Inr (Fin r') \<and> r \<le> r'"
  using reward_monotone [OF default_weights_usable, of "1/2" 1 None 1 None 1 "[new_node ''t'' None 0 ''a'']" 0
      "[new_node ''t'' None 0 ''a'']" 0 "()" "()"] by (auto simp: critique_term_def float_consts)

text \<open>Searching with the shipped feedback stack (execution evaluator, trace critic, reward shaper) keeps every
  mean value of the final tree in the unit interval, whatever the executor answers.\<close>

theorem feedback_run_values:
  assumes "valid_config cfg" "inj (uid env)" "evaluate env = code_evaluate (exec, c)"
    "critic env = Some (execution_critique fr)" "reward_model env = Some (shape_reward wt)" "usable_weights wt"
    "fst (run env cfg task w) = Ok res" "int a < node_count res"
  shows "unit_value (mean_value (tree_heap (result_tree res) ! a))"
  by (rule mean_values_unit [OF assms(1,2) feedback_stack.shaped_fair [OF assms(3-6)] assms(7,8)])

definition feedback_env :: "unit environment" where
  "feedback_env = (sample_env [''plan''] 1 True)\<lparr>evaluate := code_evaluate (pure_executor (\<lambda>_. Inr clean_result), default_code_evaluator),
     critic := Some (execution_critique (\<lambda>_. [])), reward_model := Some (shape_reward default_weights)\<rparr>"

theorem feedback_run_values_witness:
  "\<exists>res. fst (run feedback_env default_config ''t'' ()) = Ok res \<and> unit_value (mean_value (tree_heap (result_tree res) ! 0))"
proof -
  have env: "inj (uid feedback_env)" "silent feedback_env"
    using sample_inj [of "[''plan'']" 1 True] sample_silent [of "[''plan'']" 1 True]
    by (simp_all add: feedback_env_def silent_def)
  obtain res where r: "fst (run feedback_env default_config ''t'' ()) = Ok res"
    using run_silent_Ok [OF valid_default_config env] by blast
  have "unit_value (mean_value (tree_heap (result_tree res) ! 0))"
    by (rule feedback_run_values [OF valid_default_config env(1) _ _ _ default_weights_usable r run_root [OF valid_default_config env(1) r]])
      (simp_all add: feedback_env_def)
  then show ?thesis using r by blast
qed

end
