(* ===== verification/Revision.thy ===== *)
theory Revision
  imports Feedback "HOL-Library.Sublist"
begin

section \<open>Revision notes, the revision policy, chained critics (feedback/revision.py, feedback/composite.py)\<close>

text \<open>
  A saturated node may be reopened: the critiques of its failed children are compiled into notes
  for the generator and the node's attempt counter goes up. The controller asks the policy again
  whenever it meets the node, so what bounds the search is that the policy grants a node at most
  \<open>max_attempts\<close> revisions, whatever happens to the tree between the calls. \<open>firsts\<close> is the
  reference for the deduplication of the notes.
\<close>

definition REVISION_NOTES_KEY :: string where
  "REVISION_NOTES_KEY = ''revision_notes''"

definition REVISION_ATTEMPTS_KEY :: string where
  "REVISION_ATTEMPTS_KEY = ''revision_attempts''"

text \<open>The loop over the children; \<open>seen\<close> holds the guidance texts met so far.\<close>

fun notes_loop :: "(pyval \<Rightarrow> string) \<Rightarrow> heap \<Rightarrow> string list \<Rightarrow> addr list \<Rightarrow> exn + string list" where
  "notes_loop fr h seen [] = Inr []"
| "notes_loop fr h seen (c # cs) =
     (case dict_get (metadata (h ! c)) CRITIQUE_METADATA_KEY of
        None \<Rightarrow> notes_loop fr h seen cs
      | Some k \<Rightarrow>
          (if \<not> py_truthy k then notes_loop fr h seen cs
           else sum_bind (py_get k ''guidance'' (VStr [])) (\<lambda>g. sum_bind (py_strip_val g) (\<lambda>text.
             if text = [] \<or> text \<in> set seen then notes_loop fr h seen cs
             else sum_bind (py_get k ''failure_class'' (VStr ''unknown'')) (\<lambda>f.
               sum_bind (notes_loop fr h (text # seen) cs) (\<lambda>ls.
                 Inr ((''- ['' @ py_text fr f @ ''] '' @ text) # ls)))))))"

definition compile_revision_notes :: "(pyval \<Rightarrow> string) \<Rightarrow> heap \<Rightarrow> addr \<Rightarrow> exn + string" where
  "compile_revision_notes fr h a =
     sum_bind (notes_loop fr h [] (children (h ! a))) (\<lambda>ls. Inr (py_join newline ls))"

record bounded_revision =
  max_attempts :: int
  require_guidance :: bool

definition make_revision :: "bounded_revision \<Rightarrow> exn + bounded_revision" where
  "make_revision p = (if max_attempts p < 1 then Inl (Exn ValueError ''max_attempts must be a positive integer'') else Inr p)"

definition attempts_of :: "dict \<Rightarrow> exn + int" where
  "attempts_of d = py_int (case dict_get d REVISION_ATTEMPTS_KEY of None \<Rightarrow> VInt 0 | Some v \<Rightarrow> v)"

definition revise ::
  "(pyval \<Rightarrow> string) \<times> bounded_revision \<Rightarrow> 'w \<Rightarrow> heap \<Rightarrow> addr \<Rightarrow> (exn + bool) \<times> dict \<times> 'w" where
  "revise cfg w h a =
     (let p = snd cfg; n = h ! a; md = metadata n in
      if children n = [] then (Inr False, md, w)
      else if \<exists>c\<in>set (children n). is_live (h ! c) then (Inr False, md, w)
      else if \<exists>c\<in>set (children n). status (h ! c) = TERMINAL then (Inr False, md, w)
      else (case attempts_of md of
          Inl e \<Rightarrow> (Inl e, md, w)
        | Inr attempts \<Rightarrow>
            (if max_attempts p \<le> attempts then (Inr False, md, w)
             else (case compile_revision_notes (fst cfg) h a of
                 Inl e \<Rightarrow> (Inl e, md, w)
               | Inr notes \<Rightarrow>
                   (if require_guidance p \<and> notes = [] then (Inr False, md, w)
                    else (Inr True, dict_set REVISION_ATTEMPTS_KEY (VInt (attempts + 1))
                                      (dict_set REVISION_NOTES_KEY (VStr notes) md), w))))))"

subsection \<open>The notes\<close>

definition firsts :: "'a list \<Rightarrow> 'a list" where
  "firsts xs = rev (remdups (rev xs))"

lemma remdups_snoc: "remdups (ys @ [x]) = filter (\<lambda>y. y \<noteq> x) (remdups ys) @ [x]"
  by (induction ys) auto

lemma firsts_simps [simp]: "firsts [] = []" "firsts (x # xs) = x # filter (\<lambda>y. y \<noteq> x) (firsts xs)"
  by (simp_all add: firsts_def remdups_snoc rev_filter)

definition note_line :: "critique \<Rightarrow> string" where
  "note_line k = ''- ['' @ failure_value (failure_class k) @ ''] '' @ py_strip (guidance k)"

lemma notes_loop_spec:
  assumes "\<forall>c\<in>set cs. dict_get (metadata (h ! c)) CRITIQUE_METADATA_KEY = map_option (\<lambda>k. VDict (critique_to_dict k)) (crit c)"
  shows "\<exists>ks. notes_loop fr h seen cs = Inr (map note_line ks) \<and> subseq ks (List.map_filter crit cs)
     \<and> map (\<lambda>k. py_strip (guidance k)) ks = filter (\<lambda>t. t \<notin> set seen)
         (firsts (filter (\<lambda>t. t \<noteq> []) (map (\<lambda>k. py_strip (guidance k)) (List.map_filter crit cs))))"
  using assms
proof (induction cs arbitrary: seen)
  case (Cons c cs)
  have IH: "\<exists>ks. notes_loop fr h sn cs = Inr (map note_line ks) \<and> subseq ks (List.map_filter crit cs)
     \<and> map (\<lambda>k. py_strip (guidance k)) ks = filter (\<lambda>t. t \<notin> set sn)
         (firsts (filter (\<lambda>t. t \<noteq> []) (map (\<lambda>k. py_strip (guidance k)) (List.map_filter crit cs))))" for sn
    by (rule Cons.IH) (use Cons.prems in simp)
  have c: "dict_get (metadata (h ! c)) CRITIQUE_METADATA_KEY = map_option (\<lambda>k. VDict (critique_to_dict k)) (crit c)"
    using Cons.prems by simp
  show ?case
  proof (cases "crit c")
    case None
    then show ?thesis using IH [of seen] c by (simp add: map_filter_simps)
  next
    case (Some k)
    let ?t = "py_strip (guidance k)"
    have step: "notes_loop fr h seen (c # cs) = (if ?t = [] \<or> ?t \<in> set seen then notes_loop fr h seen cs
        else sum_bind (notes_loop fr h (?t # seen) cs) (\<lambda>ls. Inr (note_line k # ls)))"
      using c Some by (simp add: critique_to_dict_def note_line_def)
    show ?thesis
    proof (cases "?t = [] \<or> ?t \<in> set seen")
      case True
      obtain ks where ks: "notes_loop fr h seen cs = Inr (map note_line ks)" "subseq ks (List.map_filter crit cs)"
        "map (\<lambda>k. py_strip (guidance k)) ks = filter (\<lambda>t. t \<notin> set seen)
         (firsts (filter (\<lambda>t. t \<noteq> []) (map (\<lambda>k. py_strip (guidance k)) (List.map_filter crit cs))))"
        using IH [of seen] by blast
      have "filter (\<lambda>t. t \<notin> set seen) (filter (\<lambda>y. y \<noteq> ?t) xs) = filter (\<lambda>t. t \<notin> set seen) xs" if "?t \<in> set seen" for xs
        using that by (induction xs) auto
      then show ?thesis using True ks step Some
        by (intro exI [of _ ks]) (auto simp: map_filter_simps)
    next
      case False
      obtain ks where ks: "notes_loop fr h (?t # seen) cs = Inr (map note_line ks)" "subseq ks (List.map_filter crit cs)"
        "map (\<lambda>k. py_strip (guidance k)) ks = filter (\<lambda>t. t \<notin> set (?t # seen))
         (firsts (filter (\<lambda>t. t \<noteq> []) (map (\<lambda>k. py_strip (guidance k)) (List.map_filter crit cs))))"
        using IH [of "?t # seen"] by blast
      then show ?thesis using False step Some
        by (intro exI [of _ "k # ks"]) (auto simp: map_filter_simps conj_commute)
    qed
  qed
qed (simp add: map_filter_simps)

text \<open>Compiled notes surface each failure mode once: over critiques written by the controller the policy never
  raises, the lines are those of a subsequence of the children's critiques, and their guidance texts are the
  non-blank guidance texts in first-seen order without repetition.\<close>

theorem revision_notes_deduplicated:
  assumes "\<forall>c\<in>set (children (h ! a)). dict_get (metadata (h ! c)) CRITIQUE_METADATA_KEY
     = map_option (\<lambda>k. VDict (critique_to_dict k)) (crit c)"
  shows "\<exists>ks. compile_revision_notes fr h a = Inr (py_join newline (map note_line ks))
     \<and> subseq ks (List.map_filter crit (children (h ! a)))
     \<and> map (\<lambda>k. py_strip (guidance k)) ks
        = firsts (filter (\<lambda>t. t \<noteq> []) (map (\<lambda>k. py_strip (guidance k)) (List.map_filter crit (children (h ! a)))))"
proof -
  obtain ks where "notes_loop fr h [] (children (h ! a)) = Inr (map note_line ks)" "subseq ks (List.map_filter crit (children (h ! a)))"
     "map (\<lambda>k. py_strip (guidance k)) ks = firsts (filter (\<lambda>t. t \<noteq> []) (map (\<lambda>k. py_strip (guidance k)) (List.map_filter crit (children (h ! a)))))"
    using notes_loop_spec [OF assms, of fr "[]"] by auto
  then show ?thesis by (intro exI [of _ ks]) (simp add: compile_revision_notes_def)
qed

definition guided :: "addr \<Rightarrow> critique option" where
  "guided c = Some \<lparr>failure_class = ASSERTION, summary = ''s'', guidance = '' g'', severity = 1\<rparr>"

definition guided_heap :: heap where
  "guided_heap = [(new_node ''t'' None 0 ''a'')\<lparr>children := [1, 2]\<rparr>,
     (new_node ''x'' (Some 0) 1 ''b'')\<lparr>status := PRUNED, metadata := [(CRITIQUE_METADATA_KEY, VDict (critique_to_dict (the (guided 1))))]\<rparr>,
     (new_node ''y'' (Some 0) 1 ''c'')\<lparr>status := PRUNED, metadata := [(CRITIQUE_METADATA_KEY, VDict (critique_to_dict (the (guided 2))))]\<rparr>]"

theorem revision_notes_deduplicated_witness:
  "\<exists>ks. compile_revision_notes (\<lambda>_. []) guided_heap 0 = Inr (py_join newline (map note_line ks))
     \<and> map (\<lambda>k. py_strip (guidance k)) ks = [''g'']"
proof -
  have g: "py_strip '' g'' = ''g''" by code_simp
  have c: "\<forall>c\<in>set (children (guided_heap ! 0)). dict_get (metadata (guided_heap ! c)) CRITIQUE_METADATA_KEY
     = map_option (\<lambda>k. VDict (critique_to_dict k)) (guided c)"
    by (simp add: guided_heap_def guided_def)
  show ?thesis using revision_notes_deduplicated [OF c, of "\<lambda>_. []"]
    by (auto simp: guided_heap_def guided_def map_filter_simps g)
qed

subsection \<open>The attempt budget\<close>

lemma revise_outcome:
  assumes "revise cfg w h a = (r, d, w')"
  shows "w' = w"
    "r = Inr True \<Longrightarrow> \<exists>n notes. attempts_of (metadata (h ! a)) = Inr n \<and> n < max_attempts (snd cfg)
        \<and> compile_revision_notes (fst cfg) h a = Inr notes \<and> (require_guidance (snd cfg) \<longrightarrow> notes \<noteq> [])
        \<and> dict_get d REVISION_ATTEMPTS_KEY = Some (VInt (n + 1)) \<and> dict_get d REVISION_NOTES_KEY = Some (VStr notes)"
    "r \<noteq> Inr True \<Longrightarrow> d = metadata (h ! a)"
  using assms unfolding revise_def Let_def
  by (auto simp: REVISION_ATTEMPTS_KEY_def REVISION_NOTES_KEY_def split: if_splits sum.splits)

text \<open>
  A history of calls for one node: between two calls anything may happen to the tree, except that
  nobody else writes the node's attempt counter.
\<close>

fun linked :: "(pyval \<Rightarrow> string) \<times> bounded_revision \<Rightarrow> addr \<Rightarrow> heap list \<Rightarrow> bool" where
  "linked cfg a (h # h' # hs) \<longleftrightarrow>
     dict_get (metadata (h' ! a)) REVISION_ATTEMPTS_KEY = dict_get (fst (snd (revise cfg () h a))) REVISION_ATTEMPTS_KEY
       \<and> linked cfg a (h' # hs)"
| "linked cfg a hs \<longleftrightarrow> True"

definition grants :: "(pyval \<Rightarrow> string) \<times> bounded_revision \<Rightarrow> addr \<Rightarrow> heap list \<Rightarrow> nat" where
  "grants cfg a hs = length (filter (\<lambda>h. fst (revise cfg () h a) = Inr True) hs)"

lemma grants_bound:
  "linked cfg a (h # hs) \<Longrightarrow> attempts_of (metadata (h ! a)) = Inr n \<Longrightarrow>
     int (grants cfg a (h # hs)) \<le> max 0 (max_attempts (snd cfg) - n)"
proof (induction hs arbitrary: h n)
  case Nil
  obtain r d where rd: "revise cfg () h a = (r, d, ())" by (metis old.prod.exhaust old.unit.exhaust)
  show ?case using revise_outcome(2) [OF rd] Nil rd by (auto simp: grants_def)
next
  case (Cons h' hs)
  obtain r d where rd: "revise cfg () h a = (r, d, ())" by (metis old.prod.exhaust old.unit.exhaust)
  have link: "dict_get (metadata (h' ! a)) REVISION_ATTEMPTS_KEY = dict_get d REVISION_ATTEMPTS_KEY" "linked cfg a (h' # hs)"
    using Cons.prems(1) rd by simp_all
  show ?case
  proof (cases "r = Inr True")
    case True
    then have d: "dict_get d REVISION_ATTEMPTS_KEY = Some (VInt (n + 1))" "n < max_attempts (snd cfg)"
      using revise_outcome(2) [OF rd] Cons.prems(2) by auto
    have "attempts_of (metadata (h' ! a)) = Inr (n + 1)" using link(1) d(1) by (simp add: attempts_of_def)
    from Cons.IH [OF link(2) this] show ?thesis using True rd d(2) by (simp add: grants_def)
  next
    case False
    then have "attempts_of (metadata (h' ! a)) = Inr n"
      using link(1) revise_outcome(3) [OF rd] Cons.prems(2) by (simp add: attempts_of_def)
    from Cons.IH [OF link(2) this] show ?thesis using False rd by (simp add: grants_def)
  qed
qed

text \<open>C18: The revision budget holds over a whole search: for any sequence of calls on a node, with anything
  happening to the tree in between, the policy grants at most \<open>max_attempts\<close> revisions.\<close>

theorem revisions_bounded:
  assumes "linked cfg a (h # hs)" "dict_get (metadata (h ! a)) REVISION_ATTEMPTS_KEY = None" "make_revision (snd cfg) = Inr p"
  shows "int (grants cfg a (h # hs)) \<le> max_attempts p"
proof -
  have "p = snd cfg" "1 \<le> max_attempts p" using assms(3) by (auto simp: make_revision_def split: if_splits)
  moreover have "attempts_of (metadata (h ! a)) = Inr 0" using assms(2) by (simp add: attempts_of_def)
  ultimately show ?thesis using grants_bound [OF assms(1)] by fastforce
qed

definition revised_heap :: heap where
  "revised_heap = set_metadata guided_heap 0
     (fst (snd (revise ((\<lambda>_. []), \<lparr>max_attempts = 1, require_guidance = True\<rparr>) () guided_heap 0)))"

theorem revisions_bounded_witness:
  "int (grants ((\<lambda>_. []), \<lparr>max_attempts = 1, require_guidance = True\<rparr>) 0 [guided_heap, revised_heap]) \<le> 1"
  using revisions_bounded [of "((\<lambda>_. []), \<lparr>max_attempts = 1, require_guidance = True\<rparr>)" 0 guided_heap "[revised_heap]"
      "\<lparr>max_attempts = 1, require_guidance = True\<rparr>"]
  by (simp add: revised_heap_def guided_heap_def set_metadata_def make_revision_def new_node_def)

text \<open>When a revision is granted: exactly for a node that has children, all of which failed (none live, none
  accepted), whose attempts are not used up and, if guidance is required, whose compiled notes are not
  empty. The grant stores the notes and increments the counter; a refusal changes nothing.\<close>

lemma revise_decision:
  assumes "attempts_of (metadata (h ! a)) = Inr n" "compile_revision_notes (fst cfg) h a = Inr notes"
  shows "revise cfg w h a =
     (if children (h ! a) \<noteq> [] \<and> (\<forall>c\<in>set (children (h ! a)). status (h ! c) \<in> {PRUNED, FAILED_NODE})
         \<and> n < max_attempts (snd cfg) \<and> (require_guidance (snd cfg) \<longrightarrow> notes \<noteq> [])
      then (Inr True, dict_set REVISION_ATTEMPTS_KEY (VInt (n + 1)) (dict_set REVISION_NOTES_KEY (VStr notes) (metadata (h ! a))), w)
      else (Inr False, metadata (h ! a), w))"
proof -
  have s: "status (h ! c) \<in> {PRUNED, FAILED_NODE} \<longleftrightarrow> \<not> is_live (h ! c) \<and> status (h ! c) \<noteq> TERMINAL" for c
    by (cases "status (h ! c)") (auto simp: is_live_def LIVE_STATUSES_def)
  show ?thesis using assms unfolding s by (auto simp: revise_def Let_def)
qed

subsection \<open>Chained critics\<close>

type_synonym 'w critic_fun = "'w \<Rightarrow> heap \<Rightarrow> addr \<Rightarrow> (exn + critique option) \<times> 'w"

definition make_chain :: "'w critic_fun list \<Rightarrow> exn + 'w critic_fun list" where
  "make_chain cs = (if cs = [] then Inl (Exn ValueError ''critics must contain at least one critic'') else Inr cs)"

fun chained_critique :: "'w critic_fun list \<Rightarrow> 'w critic_fun" where
  "chained_critique [] w h a = (Inr None, w)"
| "chained_critique (c # cs) w h a = (case c w h a of
       (Inl e, w1) \<Rightarrow> (Inl e, w1)
     | (Inr (Some k), w1) \<Rightarrow> (Inr (Some k), w1)
     | (Inr None, w1) \<Rightarrow> chained_critique cs w1 h a)"

lemma chained_append:
  "chained_critique (xs @ ys) w h a = (case chained_critique xs w h a of
       (Inr None, w1) \<Rightarrow> chained_critique ys w1 h a | other \<Rightarrow> other)"
  by (induction xs arbitrary: w) (auto split: prod.splits sum.splits option.splits)

lemma chained_valid:
  "\<forall>c\<in>set cs. \<forall>w k. fst (c w h a) = Inr (Some k) \<longrightarrow> valid_critique k \<Longrightarrow>
     fst (chained_critique cs w h a) = Inr (Some k) \<Longrightarrow> valid_critique k"
proof (induction cs arbitrary: w)
  case (Cons c cs)
  obtain r w1 where c: "c w h a = (r, w1)" by fastforce
  show ?case
  proof (cases r)
    case (Inr x)
    then show ?thesis
    proof (cases x)
      case None
      then show ?thesis using Cons.IH [of w1] Cons.prems c Inr by simp
    next
      case (Some y)
      then have "y = k" using Cons.prems(2) c Inr by simp
      then show ?thesis using Cons.prems(1) c Inr Some by (metis fst_conv list.set_intros(1))
    qed
  qed (use Cons.prems(2) c in simp)
qed simp

text \<open>A chain stops at the first critic that has something to say: if the critics before it had nothing to
  say, its verdict (or its exception) is the verdict of the chain and the critics after it are not consulted;
  and the chain has nothing to say only if none of them has.\<close>

theorem chain_first_verdict:
  assumes "chained_critique xs w h a = (Inr None, w1)" "c w1 h a = (r, w2)" "r \<noteq> Inr None"
  shows "chained_critique (xs @ c # ys) w h a = (r, w2)"
  using assms by (auto simp: chained_append split: sum.splits option.splits)

theorem chain_first_verdict_witness:
  "chained_critique ([\<lambda>w h a. (Inr None, w + 1)] @ (\<lambda>w h a. (Inl (Exn ValueError []), w)) # [\<lambda>w h a. (Inr None, w + 1)]) (0::nat) [] 0
     = (Inl (Exn ValueError []), 1)"
  by (rule chain_first_verdict [where ?w1.0 = 1]) simp_all

end
