(* ===== verification/Llm_Client.thy ===== *)
theory Llm_Client
  imports Revision
begin

section \<open>Completion contracts, cache, accounting, budgets (llm/client.py, caching.py, scripted.py, observability)\<close>

text \<open>
  A language model client is a function of the outside world and a request. The wrappers take a
  client and add their own state to its world: the cache its store, the accounting client its
  tallies, the scripted client its log. The store is a least-recently-used dictionary in order of
  use; the locale \<open>bounded_memo\<close> is the interface the caching client relies on, and its
  interpretation on \<open>CompletionCache\<close> rests on a refinement: the bounded store is the tail of the
  unbounded memo that never forgets.
\<close>

record chat_message =
  msg_role :: string
  msg_content :: string

definition make_message :: "string \<Rightarrow> string \<Rightarrow> exn + chat_message" where
  "make_message r c = (if r \<notin> {''system'', ''user'', ''assistant''}
     then Inl (Exn ValueError (''unsupported message role '' @ py_repr r)) else Inr \<lparr>msg_role = r, msg_content = c\<rparr>)"

record completion_request =
  messages :: "chat_message list"
  temperature :: pyfloat
  max_tokens :: int

definition make_completion_request :: "chat_message list \<Rightarrow> pyfloat \<Rightarrow> int \<Rightarrow> exn + completion_request" where
  "make_completion_request ms t n =
     (if ms = [] then Inl (Exn ValueError ''messages must not be empty'')
      else if \<not> (0 \<le> t \<and> t \<le> Fin 2) then Inl (Exn ValueError ''temperature must lie within [0.0, 2.0]'')
      else if n < 1 then Inl (Exn ValueError ''max_tokens must be a positive integer'')
      else Inr \<lparr>messages = ms, temperature = t, max_tokens = n\<rparr>)"

record completion_response =
  resp_text :: string
  resp_model :: string
  prompt_tokens :: int
  completion_tokens :: int

type_synonym 'w llm = "'w \<Rightarrow> completion_request \<Rightarrow> (exn + completion_response) \<times> 'w"

subsection \<open>CompletionCache\<close>

text \<open>\<open>OrderedDict.move_to_end\<close>, and the eviction loop, which drops the oldest entries.\<close>

definition move_to_end :: "'k \<Rightarrow> ('k \<times> 'v) list \<Rightarrow> ('k \<times> 'v) list" where
  "move_to_end k es = filter (\<lambda>e. fst e \<noteq> k) es @ filter (\<lambda>e. fst e = k) es"

fun evict :: "int \<Rightarrow> ('k \<times> 'v) list \<Rightarrow> ('k \<times> 'v) list" where
  "evict n [] = []"
| "evict n (e # es) = (if n < int (length (e # es)) then evict n es else e # es)"

record ('k, 'v) cache =
  max_entries :: int
  entries :: "('k \<times> 'v) list"
  hits :: int
  misses :: int

definition make_cache :: "int \<Rightarrow> exn + ('k, 'v) cache" where
  "make_cache n = (if n < 1 then Inl (Exn ValueError ''max_entries must be a positive integer'')
     else Inr \<lparr>max_entries = n, entries = [], hits = 0, misses = 0\<rparr>)"

definition cache_get :: "'k \<Rightarrow> ('k, 'v) cache \<Rightarrow> 'v option \<times> ('k, 'v) cache" where
  "cache_get k c = (case map_of (entries c) k of
       None \<Rightarrow> (None, c\<lparr>misses := misses c + 1\<rparr>)
     | Some v \<Rightarrow> (Some v, c\<lparr>entries := move_to_end k (entries c), hits := hits c + 1\<rparr>))"

definition cache_put :: "'k \<Rightarrow> 'v \<Rightarrow> ('k, 'v) cache \<Rightarrow> ('k, 'v) cache" where
  "cache_put k v c = c\<lparr>entries := evict (max_entries c) (move_to_end k (AList.update k v (entries c)))\<rparr>"

definition cache_clear :: "('k, 'v) cache \<Rightarrow> ('k, 'v) cache" where
  "cache_clear c = c\<lparr>entries := []\<rparr>"

record cache_stats =
  stat_hits :: int
  stat_misses :: int
  stat_entries :: nat

definition stats_of :: "('k, 'v) cache \<Rightarrow> cache_stats" where
  "stats_of c = \<lparr>stat_hits = hits c, stat_misses = misses c, stat_entries = length (entries c)\<rparr>"

definition hit_rate :: "cache_stats \<Rightarrow> pyfloat" where
  "hit_rate s = (let lookups = stat_hits s + stat_misses s in
     if lookups \<noteq> 0 then fdiv (py_float_of_int (stat_hits s)) (py_float_of_int lookups) else 0)"

subsection \<open>The store is the tail of an unbounded memo\<close>

definition last_n :: "nat \<Rightarrow> 'a list \<Rightarrow> 'a list" where
  "last_n n xs = drop (length xs - n) xs"

lemma evict_last_n: "0 \<le> n \<Longrightarrow> evict n es = last_n (nat n) es"
  by (induction es) (auto simp: last_n_def Suc_diff_le nat_le_iff)

lemma last_n_length: "length (last_n n xs) = min n (length xs)"
  by (simp add: last_n_def)

lemma last_n_append: "length ys \<ge> n \<Longrightarrow> last_n n (xs @ ys) = last_n n ys"
  by (simp add: last_n_def)

lemma last_n_all: "length xs \<le> n \<Longrightarrow> last_n n xs = xs"
  by (simp add: last_n_def)

lemma last_n_split: obtains p where "xs = p @ last_n n xs" "length (last_n n xs) = n \<or> p = []"
proof (cases "length xs \<le> n")
  case True
  then show thesis using that [of "[]"] by (simp add: last_n_def)
next
  case False
  then show thesis using that [of "take (length xs - n) xs"] by (simp add: last_n_def)
qed

text \<open>\<open>put_entry\<close>: what a put does to the memo when nothing is evicted.\<close>

definition put_entry :: "'k \<Rightarrow> 'v \<Rightarrow> ('k \<times> 'v) list \<Rightarrow> ('k \<times> 'v) list" where
  "put_entry k v es = filter (\<lambda>e. fst e \<noteq> k) es @ [(k, v)]"

lemma absent_filter:
  "k \<notin> fst ` set es \<Longrightarrow> filter (\<lambda>e. fst e = k) es = []"
  "k \<notin> fst ` set es \<Longrightarrow> filter (\<lambda>e. fst e \<noteq> k) es = es"
  by (induction es) auto

lemma move_update:
  assumes "distinct (map fst es)" shows "move_to_end k (AList.update k v es) = put_entry k v es"
proof -
  have "filter (\<lambda>e. fst e \<noteq> k) (AList.update k v es) = filter (\<lambda>e. fst e \<noteq> k) es" by (induction es) auto
  moreover have "filter (\<lambda>e. fst e = k) (AList.update k v es) = [(k, v)]" using assms
    by (induction es) (auto simp: absent_filter)
  ultimately show ?thesis by (simp add: move_to_end_def put_entry_def)
qed

lemma move_present:
  assumes "distinct (map fst es)" "map_of es k = Some v" shows "move_to_end k es = put_entry k v es"
proof -
  have "filter (\<lambda>e. fst e = k) es = [(k, v)]" using assms
  proof (induction es)
    case (Cons e es)
    show ?case
    proof (cases "fst e = k")
      case True
      then have "k \<notin> fst ` set es" using Cons.prems(1) by auto
      then show ?thesis using True Cons.prems(2) by (cases e) (simp add: absent_filter)
    qed (use Cons in \<open>auto split: if_splits\<close>)
  qed simp
  then show ?thesis by (simp add: move_to_end_def put_entry_def)
qed

lemma put_entry_distinct: "distinct (map fst es) \<Longrightarrow> distinct (map fst (put_entry k v es))"
  by (auto simp: put_entry_def distinct_map_filter)

lemma put_entry_map [simp]: "map_of (put_entry k v es) = (map_of es)(k \<mapsto> v)"
proof
  fix x
  have "map_of (filter (\<lambda>e. fst e \<noteq> k) es) x = (if x = k then None else map_of es x)"
    by (induction es) auto
  then show "map_of (put_entry k v es) x = ((map_of es)(k \<mapsto> v)) x"
    by (simp add: put_entry_def map_add_def split: option.splits)
qed

lemma length_filter_distinct:
  "distinct (map fst es) \<Longrightarrow> k \<in> fst ` set es \<Longrightarrow> Suc (length (filter (\<lambda>e. fst e \<noteq> k) es)) = length es"
proof (induction es)
  case (Cons e es)
  show ?case
  proof (cases "fst e = k")
    case True
    then have "filter (\<lambda>e. fst e \<noteq> k) es = es" using Cons.prems(1) by (intro absent_filter) auto
    then show ?thesis using True by simp
  qed (use Cons in auto)
qed simp

text \<open>Touching an entry of the tail is touching it in the memo, and what falls off was the oldest.\<close>

lemma put_entry_tail:
  assumes d: "distinct (map fst es)" and n: "0 < n"
  shows "last_n n (put_entry k v (last_n n es)) = last_n n (put_entry k v es)"
proof -
  let ?t = "last_n n es" and ?f = "filter (\<lambda>e. fst e \<noteq> k)"
  obtain p where p: "es = p @ ?t" "length ?t = n \<or> p = []" by (rule last_n_split)
  have dt: "distinct (map fst ?t)" using d p(1) by (metis distinct_append map_append)
  show ?thesis
  proof (cases "p = []")
    case True
    then have "?t = es" using p(1) by simp
    then show ?thesis by simp
  next
    case False
    then have len: "length ?t = n" using p(2) by simp
    have "n \<le> length (put_entry k v ?t)"
    proof (cases "k \<in> fst ` set ?t")
      case True
      then show ?thesis using length_filter_distinct [OF dt True] len by (simp add: put_entry_def)
    next
      case False
      then have "?f ?t = ?t" by (force simp: filter_id_conv)
      then show ?thesis using len by (simp add: put_entry_def)
    qed
    then have "last_n n (?f p @ put_entry k v ?t) = last_n n (put_entry k v ?t)" by (rule last_n_append)
    moreover have "put_entry k v es = ?f p @ put_entry k v ?t"
      by (subst p(1)) (simp add: put_entry_def)
    ultimately show ?thesis by simp
  qed
qed

lemma last_n_map_of:
  assumes "distinct (map fst es)" "map_of (last_n n es) k = Some v" shows "map_of es k = Some v"
proof -
  have "(k, v) \<in> set es" using map_of_SomeD [OF assms(2)] by (auto simp: last_n_def dest: in_set_dropD)
  then show ?thesis using assms(1) by simp
qed

definition cache_ok :: "('k, 'v) cache \<Rightarrow> bool" where
  "cache_ok c \<longleftrightarrow> 1 \<le> max_entries c \<and> distinct (map fst (entries c)) \<and> int (length (entries c)) \<le> max_entries c"

lemma last_n_distinct: "distinct (map fst es) \<Longrightarrow> distinct (map fst (last_n n es))"
  by (simp add: last_n_def drop_map [symmetric] distinct_drop)

lemma cache_get_entries:
  assumes "cache_ok c"
  shows "entries (snd (cache_get k c)) = (case map_of (entries c) k of None \<Rightarrow> entries c | Some v \<Rightarrow> put_entry k v (entries c))"
    "fst (cache_get k c) = map_of (entries c) k" "max_entries (snd (cache_get k c)) = max_entries c"
  using assms by (auto simp: cache_get_def cache_ok_def move_present split: option.splits)

lemma cache_put_entries:
  assumes "cache_ok c"
  shows "entries (cache_put k v c) = last_n (nat (max_entries c)) (put_entry k v (entries c))"
    "max_entries (cache_put k v c) = max_entries c"
  using assms by (simp_all add: cache_put_def cache_ok_def move_update evict_last_n)

lemma cache_get_ok: "cache_ok c \<Longrightarrow> cache_ok (snd (cache_get k c))"
proof -
  assume ok: "cache_ok c"
  note d = cache_get_entries [OF ok, of k]
  show ?thesis
  proof (cases "map_of (entries c) k")
    case (Some v)
    then have "k \<in> fst ` set (entries c)" by (metis image_eqI fst_conv map_of_SomeD)
    then have "length (put_entry k v (entries c)) = length (entries c)"
      using length_filter_distinct [of "entries c" k] ok by (simp add: put_entry_def cache_ok_def)
    then show ?thesis using ok d Some put_entry_distinct unfolding cache_ok_def by auto
  qed (use ok d in \<open>simp add: cache_ok_def\<close>)
qed

lemma cache_put_ok: "cache_ok c \<Longrightarrow> cache_ok (cache_put k v c)"
  using cache_put_entries [of c k v] put_entry_distinct [of "entries c" k v]
  by (auto simp: cache_ok_def last_n_length last_n_distinct)

text \<open>Traces of operations, and the reference: a memo that drops nothing, read through its last \<open>n\<close> entries.\<close>

datatype ('k, 'v) cache_op = Lookup 'k | Store 'k 'v

fun cache_step :: "('k, 'v) cache_op \<Rightarrow> ('k, 'v) cache \<Rightarrow> ('k, 'v) cache" where
  "cache_step (Lookup k) c = snd (cache_get k c)"
| "cache_step (Store k v) c = cache_put k v c"

fun memo_step :: "nat \<Rightarrow> ('k, 'v) cache_op \<Rightarrow> ('k \<times> 'v) list \<Rightarrow> ('k \<times> 'v) list" where
  "memo_step n (Lookup k) m = (case map_of (last_n n m) k of None \<Rightarrow> m | Some v \<Rightarrow> put_entry k v m)"
| "memo_step n (Store k v) m = put_entry k v m"

fun last_stored :: "'k \<Rightarrow> ('k, 'v) cache_op list \<Rightarrow> 'v option \<Rightarrow> 'v option" where
  "last_stored k [] acc = acc"
| "last_stored k (Lookup _ # ops) acc = last_stored k ops acc"
| "last_stored k (Store k' v # ops) acc = last_stored k ops (if k' = k then Some v else acc)"

lemma memo_step_distinct: "distinct (map fst m) \<Longrightarrow> distinct (map fst (memo_step n op m))"
  by (cases op) (auto simp: put_entry_distinct split: option.splits)

lemma cache_step_simulates:
  assumes "cache_ok c" "distinct (map fst m)" "entries c = last_n (nat (max_entries c)) m"
  shows "cache_ok (cache_step op c)" "max_entries (cache_step op c) = max_entries c"
    "entries (cache_step op c) = last_n (nat (max_entries c)) (memo_step (nat (max_entries c)) op m)"
proof -
  let ?n = "nat (max_entries c)"
  have n: "0 < ?n" using assms(1) by (simp add: cache_ok_def)
  show "cache_ok (cache_step op c)" by (cases op) (simp_all add: assms cache_get_ok cache_put_ok)
  show "max_entries (cache_step op c) = max_entries c"
    by (cases op) (simp_all add: assms cache_get_entries cache_put_entries)
  show "entries (cache_step op c) = last_n ?n (memo_step ?n op m)"
  proof (cases op)
    case (Lookup k)
    show ?thesis
    proof (cases "map_of (last_n ?n m) k")
      case (Some v)
      have "entries (snd (cache_get k c)) = put_entry k v (entries c)" using Some assms by (simp add: cache_get_entries)
      moreover have "int (length (entries (snd (cache_get k c)))) \<le> max_entries c"
        using cache_get_ok [OF assms(1), of k] assms(1) by (simp add: cache_ok_def cache_get_entries)
      ultimately have "entries (snd (cache_get k c)) = last_n ?n (put_entry k v (entries c))"
        by (simp add: last_n_all nat_le_iff)
      then show ?thesis using Some Lookup assms put_entry_tail [OF assms(2) n, of k v] by simp
    qed (use Lookup assms in \<open>simp add: cache_get_entries\<close>)
  next
    case (Store k v)
    then show ?thesis using assms put_entry_tail [OF assms(2) n, of k v] by (simp add: cache_put_entries)
  qed
qed

lemma cache_run:
  "cache_ok c \<Longrightarrow> distinct (map fst m) \<Longrightarrow> entries c = last_n (nat (max_entries c)) m \<Longrightarrow> n = nat (max_entries c) \<Longrightarrow>
   cache_ok (fold cache_step ops c) \<and> max_entries (fold cache_step ops c) = max_entries c
   \<and> distinct (map fst (fold (memo_step n) ops m)) \<and> entries (fold cache_step ops c) = last_n n (fold (memo_step n) ops m)
   \<and> (\<forall>k. map_of (fold (memo_step n) ops m) k = last_stored k ops (map_of m k))"
proof (induction ops arbitrary: c m)
  case (Cons op ops)
  note s = cache_step_simulates [OF Cons.prems(1-3), of op]
  have ih: "cache_ok (fold cache_step ops (cache_step op c)) \<and> max_entries (fold cache_step ops (cache_step op c)) = max_entries (cache_step op c)
   \<and> distinct (map fst (fold (memo_step n) ops (memo_step n op m)))
   \<and> entries (fold cache_step ops (cache_step op c)) = last_n n (fold (memo_step n) ops (memo_step n op m))
   \<and> (\<forall>k. map_of (fold (memo_step n) ops (memo_step n op m)) k = last_stored k ops (map_of (memo_step n op m) k))"
    by (rule Cons.IH) (use s Cons.prems memo_step_distinct in \<open>simp_all\<close>)
  have "map_of (put_entry k v m) = map_of m" if "map_of (last_n n m) k = Some v" for k v
    using last_n_map_of [OF Cons.prems(2) that] by auto
  then have "last_stored k ops (map_of (memo_step n op m) k) = last_stored k (op # ops) (map_of m k)" for k
    by (cases op) (auto split: option.splits)
  then show ?case using ih s(2) by simp
qed simp

text \<open>C19: The completion cache refines a memo that never forgets: after any sequence of lookups and stores its
  entries are exactly the \<open>max_entries\<close> most recently used entries of the memo, so it never exceeds its bound,
  a request used within the last \<open>max_entries\<close> distinct ones is served, and what it serves is the completion
  stored last for that request.\<close>

theorem cache_refines_memo:
  assumes "make_cache n = Inr c"
  shows "entries (fold cache_step ops c) = last_n (nat n) (fold (memo_step (nat n)) ops [])
     \<and> int (length (entries (fold cache_step ops c))) \<le> n
     \<and> (\<forall>k v. fst (cache_get k (fold cache_step ops c)) = Some v \<longrightarrow> last_stored k ops None = Some v)"
proof -
  have n: "1 \<le> n" and c: "c = \<lparr>max_entries = n, entries = [], hits = 0, misses = 0\<rparr>"
    using assms by (auto simp: make_cache_def split: if_splits)
  let ?c = "fold cache_step ops c" and ?m = "fold (memo_step (nat n)) ops []"
  have run: "cache_ok ?c \<and> max_entries ?c = max_entries c \<and> distinct (map fst ?m) \<and> entries ?c = last_n (nat n) ?m
     \<and> (\<forall>k. map_of ?m k = last_stored k ops (map_of [] k))"
    by (rule cache_run) (use n in \<open>simp_all add: c cache_ok_def last_n_def\<close>)
  have "last_stored k ops None = Some v" if "fst (cache_get k ?c) = Some v" for k v
    using that run last_n_map_of [of ?m "nat n" k v] by (simp add: cache_get_entries)
  moreover have "int (length (entries ?c)) \<le> n"
    using conjunct1 [OF run] conjunct1 [OF conjunct2 [OF run]] unfolding cache_ok_def by (simp add: c)
  ultimately show ?thesis using run by blast
qed

theorem cache_refines_memo_witness:
  "entries (fold cache_step [Store ''a'' 1, Store ''b'' 2, Lookup ''a'', Store ''c'' (3::int)] \<lparr>max_entries = 2, entries = [], hits = 0, misses = 0\<rparr>)
     = [(''a'', 1), (''c'', 3)]"
  using cache_refines_memo [of 2 "\<lparr>max_entries = 2, entries = [], hits = 0, misses = 0\<rparr>"
      "[Store ''a'' 1, Store ''b'' 2, Lookup ''a'', Store ''c'' (3::int)]"]
  by (simp add: make_cache_def put_entry_def last_n_def)

end
