(* ===== verification/Llm_Wrappers.thy ===== *)
theory Llm_Wrappers
  imports Llm_Client
begin

section \<open>Client wrappers: caching, accounting, budgets, scripts\<close>

text \<open>
  \<open>CachingLlmClient\<close> (llm/caching.py), \<open>AccountingLlmClient\<close> and \<open>TokenBudget\<close>
  (observability/accounting.py, budget.py) and \<open>ScriptedLlmClient\<close> (llm/scripted.py). What the
  caching client expects of its store is the locale \<open>bounded_memo\<close>, interpreted on
  \<open>CompletionCache\<close>: it may forget, but it never serves anything but what was stored last.
\<close>

subsection \<open>CachingLlmClient\<close>

text \<open>The client over a store with the operations \<open>get\<close> and \<open>put\<close>.\<close>

definition caching_with ::
  "(completion_request \<Rightarrow> 's \<Rightarrow> completion_response option \<times> 's) \<Rightarrow>
   (completion_request \<Rightarrow> completion_response \<Rightarrow> 's \<Rightarrow> 's) \<Rightarrow> 'w llm \<Rightarrow> bool \<Rightarrow> ('s \<times> 'w) llm" where
  "caching_with get put inner cache_sampled st rq =
     (case st of (s, w) \<Rightarrow>
       if \<not> (cache_sampled \<or> feq (temperature rq) 0) then (case inner w rq of (r, w1) \<Rightarrow> (r, s, w1))
       else (case get rq s of
           (Some cached, s1) \<Rightarrow> (Inr (cached\<lparr>prompt_tokens := 0, completion_tokens := 0\<rparr>), s1, w)
         | (None, s1) \<Rightarrow> (case inner w rq of
               (Inl e, w1) \<Rightarrow> (Inl e, s1, w1)
             | (Inr response, w1) \<Rightarrow> (Inr response, put rq response s1, w1))))"

definition caching_complete ::
  "'w llm \<Rightarrow> bool \<Rightarrow> ((completion_request, completion_response) cache \<times> 'w) llm" where
  "caching_complete = caching_with cache_get cache_put"

fun complete_all :: "'w llm \<Rightarrow> 'w \<Rightarrow> completion_request list \<Rightarrow> (exn + completion_response) list \<times> 'w" where
  "complete_all cl w [] = ([], w)"
| "complete_all cl w (rq # rqs) =
     (let (r, w1) = cl w rq; (rs, w2) = complete_all cl w1 rqs in (r # rs, w2))"

text \<open>A completion without its accounting: what callers of a model act on.\<close>

definition answer :: "exn + completion_response \<Rightarrow> exn + completion_response" where
  "answer r = map_sum id (\<lambda>x. x\<lparr>prompt_tokens := 0, completion_tokens := 0\<rparr>) r"

locale bounded_memo =
  fixes get :: "'k \<Rightarrow> 's \<Rightarrow> 'v option \<times> 's"
    and put :: "'k \<Rightarrow> 'v \<Rightarrow> 's \<Rightarrow> 's"
    and stored :: "'s \<Rightarrow> 'k \<Rightarrow> 'v option"
    and invar :: "'s \<Rightarrow> bool"
  assumes get_result: "invar s \<Longrightarrow> fst (get k s) = stored s k"
    and get_stored: "invar s \<Longrightarrow> stored (snd (get k s)) = stored s"
    and get_invar: "invar s \<Longrightarrow> invar (snd (get k s))"
    and put_stored: "invar s \<Longrightarrow> stored (put k v s) \<subseteq>\<^sub>m (stored s)(k \<mapsto> v)"
    and put_same: "invar s \<Longrightarrow> stored (put k v s) k = Some v"
    and put_invar: "invar s \<Longrightarrow> invar (put k v s)"
begin

text \<open>A store that holds values of one function only.\<close>

definition sound :: "('k \<Rightarrow> 'v option) \<Rightarrow> 's \<Rightarrow> bool" where
  "sound f s \<longleftrightarrow> invar s \<and> (\<forall>k v. stored s k = Some v \<longrightarrow> f k = Some v)"

lemma sound_get: "sound f s \<Longrightarrow> sound f (snd (get k s))"
  by (simp add: sound_def get_stored get_invar)

lemma sound_hit: "sound f s \<Longrightarrow> get k s = (Some v, s') \<Longrightarrow> f k = Some v"
  using get_result [of s k] unfolding sound_def by (metis fst_conv)

lemma sound_put:
  assumes "sound f s" "f k = Some v" shows "sound f (put k v s)"
  unfolding sound_def
proof (intro conjI allI impI)
  show "invar (put k v s)" using assms(1) by (simp add: sound_def put_invar)
  fix k' v' assume "stored (put k v s) k' = Some v'"
  then have "((stored s)(k \<mapsto> v)) k' = Some v'"
    using put_stored [of s k v] assms(1) by (metis domI map_le_def sound_def)
  then show "f k' = Some v'" using assms by (auto simp: sound_def split: if_splits)
qed

end

interpretation completion_store: bounded_memo cache_get cache_put "\<lambda>c. map_of (entries c)" cache_ok
proof
  fix s :: "('a, 'b) cache" and k v
  assume ok: "cache_ok s"
  show "fst (cache_get k s) = map_of (entries s) k" by (rule cache_get_entries [OF ok])
  show "map_of (entries (snd (cache_get k s))) = map_of (entries s)"
    by (auto simp: cache_get_entries [OF ok] split: option.splits)
  show "cache_ok (snd (cache_get k s))" by (rule cache_get_ok [OF ok])
  show "cache_ok (cache_put k v s)" by (rule cache_put_ok [OF ok])
  have d: "distinct (map fst (put_entry k v (entries s)))" using ok put_entry_distinct by (auto simp: cache_ok_def)
  have n: "0 < nat (max_entries s)" using ok by (simp add: cache_ok_def)
  show "map_of (entries (cache_put k v s)) \<subseteq>\<^sub>m (map_of (entries s))(k \<mapsto> v)"
    using last_n_map_of [OF d] by (auto simp: map_le_def cache_put_entries [OF ok] simp flip: put_entry_map)
  have "(k, v) \<in> set (last_n (nat (max_entries s)) (put_entry k v (entries s)))"
    using n by (simp add: last_n_def put_entry_def Suc_diff_le)
  then show "map_of (entries (cache_put k v s)) k = Some v"
    using last_n_distinct [OF d] by (simp add: cache_put_entries [OF ok])
qed

text \<open>
  The requests the client caches, and what the backend owes for them: \<open>mem\<close> is what the backend remembers
  and lets its answers depend on; a cached request is answered by \<open>f\<close> whatever it remembers and leaves no
  trace in it. Nothing is asked of the answers to the other requests but that \<open>mem\<close> determines them, so
  repeating a sampled request may give another answer each time. \<open>answers f\<close> is what \<open>f\<close> may leave in a store.
\<close>

definition answers :: "(completion_request \<Rightarrow> exn + completion_response) \<Rightarrow> completion_request \<Rightarrow> completion_response option" where
  "answers f rq = (case f rq of Inl e \<Rightarrow> None | Inr r \<Rightarrow> Some r)"

definition repeatable :: "bool \<Rightarrow> (completion_request \<Rightarrow> exn + completion_response) \<Rightarrow> ('w \<Rightarrow> 'm) \<Rightarrow> 'w llm \<Rightarrow> bool" where
  "repeatable b f mem inner \<longleftrightarrow>
     (\<forall>w rq. b \<or> feq (temperature rq) 0 \<longrightarrow> fst (inner w rq) = f rq \<and> mem (snd (inner w rq)) = mem w)"

definition determined :: "('w \<Rightarrow> 'm) \<Rightarrow> 'w llm \<Rightarrow> bool" where
  "determined mem inner \<longleftrightarrow> (\<forall>w w' rq. mem w = mem w' \<longrightarrow>
     fst (inner w rq) = fst (inner w' rq) \<and> mem (snd (inner w rq)) = mem (snd (inner w' rq)))"

text \<open>One request, to the caching client in one world and to the backend in another it cannot tell apart.\<close>

lemma caching_step:
  assumes "completion_store.sound (answers f) s" "repeatable b f mem inner" "determined mem inner" "mem w = mem v"
    "caching_complete inner b (s, w) rq = (r, s', w')" "inner v rq = (x, v')"
  shows "answer r = answer x \<and> mem w' = mem v' \<and> completion_store.sound (answers f) s'"
proof (cases "b \<or> feq (temperature rq) 0")
  case False
  then show ?thesis using assms unfolding determined_def
    by (auto simp: caching_complete_def caching_with_def split: prod.splits) (metis fst_conv snd_conv)+
next
  case True
  obtain y w1 where i: "inner w rq = (y, w1)" by fastforce
  have f: "x = f rq" "y = f rq" "mem v' = mem v" "mem w1 = mem w"
    using assms(2,6) True i unfolding repeatable_def by (metis fst_conv snd_conv)+
  obtain hit s1 where g: "cache_get rq s = (hit, s1)" by fastforce
  have s1: "completion_store.sound (answers f) s1" using completion_store.sound_get [OF assms(1), of rq] g by simp
  show ?thesis
  proof (cases hit)
    case (Some c)
    have "answers f rq = Some c" by (rule completion_store.sound_hit [OF assms(1)]) (use g Some in simp)
    then have "f rq = Inr c" by (simp add: answers_def split: sum.splits)
    then show ?thesis using Some True g s1 f assms(4,5) by (auto simp: caching_complete_def caching_with_def answer_def)
  next
    case None
    show ?thesis
    proof (cases "f rq")
      case (Inl e)
      then show ?thesis using None True g s1 i f assms(4,5) by (auto simp: caching_complete_def caching_with_def)
    next
      case (Inr c)
      then have "completion_store.sound (answers f) (cache_put rq c s1)"
        by (intro completion_store.sound_put s1) (simp add: answers_def)
      then show ?thesis using None Inr True g i f assms(4,5) by (auto simp: caching_complete_def caching_with_def)
    qed
  qed
qed

lemma caching_all:
  "completion_store.sound (answers f) s \<Longrightarrow> repeatable b f mem inner \<Longrightarrow> determined mem inner \<Longrightarrow> mem w = mem v \<Longrightarrow>
     complete_all (caching_complete inner b) (s, w) rqs = (rs, s', w') \<Longrightarrow> complete_all inner v rqs = (xs, v') \<Longrightarrow>
     map answer rs = map answer xs \<and> mem w' = mem v' \<and> completion_store.sound (answers f) s'"
proof (induction rqs arbitrary: s w v rs xs)
  case (Cons rq rqs)
  obtain r s1 w1 where one: "caching_complete inner b (s, w) rq = (r, s1, w1)" by (metis prod_cases3)
  obtain x v1 where two: "inner v rq = (x, v1)" by fastforce
  obtain rs1 where rs: "complete_all (caching_complete inner b) (s1, w1) rqs = (rs1, s', w')" "rs = r # rs1"
    using Cons.prems(5) one by (auto simp: Let_def split: prod.splits)
  obtain xs1 where xs: "complete_all inner v1 rqs = (xs1, v')" "xs = x # xs1"
    using Cons.prems(6) two by (auto simp: Let_def split: prod.splits)
  note step = caching_step [OF Cons.prems(1-4) one two]
  show ?case
    using Cons.IH [OF _ Cons.prems(2,3) _ rs(1) xs(1)] step rs(2) xs(2) by simp
qed auto

lemma complete_all_snoc:
  "complete_all cl w (rqs @ [rq]) =
     (let (rs, w1) = complete_all cl w rqs; (r, w2) = cl w1 rq in (rs @ [r], w2))"
  by (induction rqs arbitrary: w) (auto simp: Let_def split: prod.split)

text \<open>A cacheable request that was just answered is answered again from the store.\<close>

lemma caching_again:
  assumes "completion_store.sound (answers f) s" "b \<or> feq (temperature rq) 0"
    "caching_complete inner b (s, w) rq = (Inr r, s', w')"
  shows "\<exists>s''. caching_complete inner b (s', w') rq = (Inr (r\<lparr>prompt_tokens := 0, completion_tokens := 0\<rparr>), s'', w')"
proof -
  obtain hit s1 where g: "cache_get rq s = (hit, s1)" by fastforce
  have ok: "cache_ok s" "cache_ok s1" "map_of (entries s1) = map_of (entries s)" "hit = map_of (entries s) rq"
    using assms(1) g completion_store.get_invar [of s rq] completion_store.get_stored [of s rq]
      completion_store.get_result [of s rq] by (auto simp: completion_store.sound_def)
  have "\<exists>c. cache_ok s' \<and> map_of (entries s') rq = Some c \<and>
      r\<lparr>prompt_tokens := 0, completion_tokens := 0\<rparr> = c\<lparr>prompt_tokens := 0, completion_tokens := 0\<rparr>"
  proof (cases hit)
    case (Some c)
    then show ?thesis using assms(2,3) g ok by (auto simp: caching_complete_def caching_with_def)
  next
    case None
    then show ?thesis using assms(2,3) g ok completion_store.put_invar [of s1 rq] completion_store.put_same [of s1 rq]
      by (auto simp: caching_complete_def caching_with_def split: prod.splits sum.splits)
  qed
  then obtain c where c: "cache_ok s'" "map_of (entries s') rq = Some c"
      "r\<lparr>prompt_tokens := 0, completion_tokens := 0\<rparr> = c\<lparr>prompt_tokens := 0, completion_tokens := 0\<rparr>" by blast
  obtain s'' where "cache_get rq s' = (Some c, s'')"
    using completion_store.get_result [OF c(1), of rq] c(2) by (cases "cache_get rq s'") auto
  then show ?thesis using assms(2) c(3) by (auto simp: caching_complete_def caching_with_def)
qed

lemma make_cache_sound: "make_cache n = Inr c \<Longrightarrow> completion_store.sound g c"
  by (auto simp: completion_store.sound_def make_cache_def cache_ok_def split: if_splits)

text \<open>C20: Caching is transparent. Take a backend that answers the cacheable requests (those at temperature zero, or all
  of them with \<open>cache_sampled\<close>) as functions of the request, without remembering them; its other answers may
  depend on everything it has answered before. Then any sequence of requests
  through a caching client gets, request by request, the completions and failures the backend itself would
  have given, up to the token counts, and leaves the backend remembering the same, whatever the capacity of the
  cache: a sampled request always reaches the backend and is never answered by an earlier sample. And the cache
  saves calls: the last request, cacheable and answered, is answered the same when it is made again, without
  the backend.\<close>

theorem caching_transparent:
  assumes "make_cache n = Inr c"
    "\<forall>w rq. b \<or> feq (temperature rq) 0 \<longrightarrow> fst (inner w rq) = f rq \<and> mem (snd (inner w rq)) = mem w"
    "\<forall>w w' rq. mem w = mem w' \<longrightarrow> fst (inner w rq) = fst (inner w' rq) \<and> mem (snd (inner w rq)) = mem (snd (inner w' rq))"
    "complete_all (caching_complete inner b) (c, w) rqs = (rs, c', w')" "complete_all inner w rqs = (xs, v)"
  shows "map answer rs = map answer xs \<and> mem w' = mem v \<and>
    (rqs \<noteq> [] \<and> (b \<or> feq (temperature (last rqs)) 0) \<and> \<not> isl (last rs) \<longrightarrow>
       (\<exists>r c''. caching_complete inner b (c', w') (last rqs) = (r, c'', w') \<and> answer r = answer (last rs)))"
proof (intro conjI impI)
  have inner: "repeatable b f mem inner" "determined mem inner"
    using assms(2,3) unfolding repeatable_def determined_def by blast+
  note c = make_cache_sound [OF assms(1), of "answers f"]
  note both = caching_all [OF c inner refl assms(4,5)]
  show "map answer rs = map answer xs" "mem w' = mem v" using both by simp_all
  assume last: "rqs \<noteq> [] \<and> (b \<or> feq (temperature (last rqs)) 0) \<and> \<not> isl (last rs)"
  then obtain pre rq where rqs: "rqs = pre @ [rq]" by (metis append_butlast_last_id)
  obtain ps s1 w1 where pre: "complete_all (caching_complete inner b) (c, w) pre = (ps, s1, w1)" by (metis prod_cases3)
  obtain ys v1 where "complete_all inner w pre = (ys, v1)" by fastforce
  then have s1: "completion_store.sound (answers f) s1" using caching_all [OF c inner refl pre] by blast
  obtain r where one: "caching_complete inner b (s1, w1) rq = (r, c', w')" "rs = ps @ [r]"
    using assms(4) pre by (auto simp: rqs complete_all_snoc Let_def split: prod.splits)
  obtain x where "r = Inr x" using last one(2) by (cases r) auto
  then show "\<exists>r c''. caching_complete inner b (c', w') (last rqs) = (r, c'', w') \<and> answer r = answer (last rs)"
    using caching_again [OF s1, of b rq inner w1 x c' w'] last one rqs by (auto simp: answer_def)
qed

definition echo_response :: completion_response where
  "echo_response = \<lparr>resp_text = ''hi'', resp_model = ''m'', prompt_tokens = 3, completion_tokens = 4\<rparr>"

definition cold_request :: completion_request where
  "cold_request = \<lparr>messages = [\<lparr>msg_role = ''user'', msg_content = ''a''\<rparr>], temperature = 0, max_tokens = 5\<rparr>"

text \<open>A backend that answers cold requests always alike and numbers its samples.\<close>

definition sampler :: "nat llm" where
  "sampler w rq = (if feq (temperature rq) 0 then (Inr echo_response, w)
     else (Inr (echo_response\<lparr>resp_text := replicate w CHR ''x''\<rparr>), Suc w))"

definition warm_request :: completion_request where
  "warm_request = cold_request\<lparr>temperature := Fin (1/2)\<rparr>"

theorem caching_transparent_witness:
  "\<exists>rs c' w'. complete_all (caching_complete sampler False) (\<lparr>max_entries = 1, entries = [], hits = 0, misses = 0\<rparr>, 0)
       [cold_request, warm_request, warm_request, cold_request] = (rs, c', w') \<and>
     map answer rs = map answer [Inr echo_response, Inr (echo_response\<lparr>resp_text := []\<rparr>),
       Inr (echo_response\<lparr>resp_text := ''x''\<rparr>), Inr echo_response] \<and> w' = 2"
proof -
  let ?c = "\<lparr>max_entries = 1, entries = [], hits = 0, misses = 0\<rparr> :: (completion_request, completion_response) cache"
  let ?rqs = "[cold_request, warm_request, warm_request, cold_request]"
  obtain rs c' w' where go: "complete_all (caching_complete sampler False) (?c, 0) ?rqs = (rs, c', w')" by (metis prod_cases3)
  have alone: "complete_all sampler 0 ?rqs = ([Inr echo_response, Inr (echo_response\<lparr>resp_text := []\<rparr>),
       Inr (echo_response\<lparr>resp_text := ''x''\<rparr>), Inr echo_response], 2)"
    by (simp add: sampler_def cold_request_def warm_request_def zero_pyfloat_def)
  have "make_cache 1 = Inr ?c" by (simp add: make_cache_def)
  moreover have "\<forall>w rq. False \<or> feq (temperature rq) 0 \<longrightarrow>
      fst (sampler w rq) = (\<lambda>_. Inr echo_response) rq \<and> id (snd (sampler w rq)) = id w"
    "\<forall>w w' rq. id w = id w' \<longrightarrow> fst (sampler w rq) = fst (sampler w' rq) \<and> id (snd (sampler w rq)) = id (snd (sampler w' rq))"
    by (simp_all add: sampler_def)
  ultimately show ?thesis using caching_transparent [OF _ _ _ go alone] go by (metis id_apply)
qed

subsection \<open>AccountingLlmClient\<close>

record token_usage =
  usage_calls :: int
  usage_prompt :: int
  usage_completion :: int

definition no_usage :: token_usage where
  "no_usage = \<lparr>usage_calls = 0, usage_prompt = 0, usage_completion = 0\<rparr>"

definition total_tokens :: "token_usage \<Rightarrow> int" where
  "total_tokens u = usage_prompt u + usage_completion u"

definition usage_minus :: "token_usage \<Rightarrow> token_usage \<Rightarrow> token_usage" where
  "usage_minus u v = \<lparr>usage_calls = usage_calls u - usage_calls v, usage_prompt = usage_prompt u - usage_prompt v,
     usage_completion = usage_completion u - usage_completion v\<rparr>"

definition usage_to_dict :: "token_usage \<Rightarrow> dict" where
  "usage_to_dict u = [(''calls'', VInt (usage_calls u)), (''prompt_tokens'', VInt (usage_prompt u)),
     (''completion_tokens'', VInt (usage_completion u)), (''total_tokens'', VInt (total_tokens u))]"

definition accounting_complete :: "'w llm \<Rightarrow> (token_usage \<times> 'w) llm" where
  "accounting_complete inner st rq = (case st of (u, w) \<Rightarrow>
     (case inner w rq of
        (Inl e, w1) \<Rightarrow> (Inl e, u, w1)
      | (Inr r, w1) \<Rightarrow> (Inr r, \<lparr>usage_calls = usage_calls u + 1, usage_prompt = usage_prompt u + prompt_tokens r,
            usage_completion = usage_completion u + completion_tokens r\<rparr>, w1)))"

text \<open>A backend that keeps the completions it really produced: what was spent.\<close>

definition recording :: "'w llm \<Rightarrow> (completion_response list \<times> 'w) llm" where
  "recording inner st rq = (case st of (made, w) \<Rightarrow>
     (case inner w rq of (r, w1) \<Rightarrow> (r, (case r of Inl e \<Rightarrow> made | Inr x \<Rightarrow> made @ [x]), w1)))"

definition spent :: "completion_response list \<Rightarrow> int" where
  "spent made = sum_list (map (\<lambda>r. prompt_tokens r + completion_tokens r) made)"

definition metered :: "'w llm \<Rightarrow> bool \<Rightarrow>
    (token_usage \<times> (completion_request, completion_response) cache \<times> completion_response list \<times> 'w) llm" where
  "metered inner b = accounting_complete (caching_complete (recording inner) b)"

lemma metered_step:
  assumes "metered inner b (u, c, made, w) rq = (r, u', c', made', w')" "total_tokens u = spent made"
  shows "total_tokens u' = spent made' \<and> usage_calls u' = usage_calls u + (if isl r then 0 else 1)"
proof (cases "\<not> (b \<or> feq (temperature rq) 0)")
  case True
  obtain x w1 where "inner w rq = (x, w1)" by fastforce
  then show ?thesis using True assms
    by (cases x) (auto simp: metered_def accounting_complete_def caching_complete_def caching_with_def recording_def
        total_tokens_def spent_def)
next
  case False
  obtain hit c1 where g: "cache_get rq c = (hit, c1)" by fastforce
  obtain x w1 where i: "inner w rq = (x, w1)" by fastforce
  show ?thesis
  proof (cases hit)
    case None
    then show ?thesis using False assms g i
      by (cases x) (auto simp: metered_def accounting_complete_def caching_complete_def caching_with_def recording_def
          total_tokens_def spent_def)
  next
    case (Some v)
    then show ?thesis using False assms g
      by (auto simp: metered_def accounting_complete_def caching_complete_def caching_with_def total_tokens_def)
  qed
qed

lemma metered_all:
  "complete_all (metered inner b) (u, c, made, w) rqs = (rs, u', c', made', w') \<Longrightarrow> total_tokens u = spent made \<Longrightarrow>
     total_tokens u' = spent made' \<and> usage_calls u' = usage_calls u + int (length (filter (\<lambda>r. \<not> isl r) rs))"
proof (induction rqs arbitrary: u c made w rs)
  case (Cons rq rqs)
  obtain r u1 c1 made1 w1 where one: "metered inner b (u, c, made, w) rq = (r, u1, c1, made1, w1)" by (metis prod_cases5)
  obtain rs1 where rest: "complete_all (metered inner b) (u1, c1, made1, w1) rqs = (rs1, u', c', made', w')" "rs = r # rs1"
    using Cons.prems(1) one by (auto simp: Let_def split: prod.splits)
  show ?case using metered_step [OF one Cons.prems(2)] Cons.IH [OF rest(1)] rest(2) by auto
qed auto

text \<open>C21: With the cache inside the accounting client the tallies are honest: after any sequence of requests the
  counted tokens are the tokens of the completions the backend really produced (cache hits add none, failures
  add none), and the counted calls are the requests that were answered.\<close>

theorem accounting_honest:
  assumes "complete_all (metered inner b) (no_usage, c, [], w) rqs = (rs, u, c', made, w')"
  shows "total_tokens u = spent made \<and> usage_calls u = int (length (filter (\<lambda>r. \<not> isl r) rs))"
  using metered_all [OF assms] by (simp add: no_usage_def total_tokens_def spent_def)

theorem accounting_honest_witness:
  "\<exists>rs u c' made w'. complete_all (metered (\<lambda>w rq. (Inr echo_response, w)) False)
      (no_usage, \<lparr>max_entries = 1, entries = [], hits = 0, misses = 0\<rparr>, [], ()) [cold_request, cold_request] = (rs, u, c', made, w')
    \<and> total_tokens u = spent made"
  using accounting_honest by (metis prod_cases5)

subsection \<open>TokenBudget\<close>

record token_budget =
  max_total_tokens :: "int option"
  max_calls :: "int option"
  baseline :: token_usage

definition make_budget :: "int option \<Rightarrow> int option \<Rightarrow> token_usage \<Rightarrow> exn + token_budget" where
  "make_budget tokens calls now =
     (if (case tokens of None \<Rightarrow> False | Some n \<Rightarrow> n < 1) then Inl (Exn ValueError ''max_total_tokens must be a positive integer'')
      else if (case calls of None \<Rightarrow> False | Some n \<Rightarrow> n < 1) then Inl (Exn ValueError ''max_calls must be a positive integer'')
      else Inr \<lparr>max_total_tokens = tokens, max_calls = calls, baseline = now\<rparr>)"

definition is_bounded :: "token_budget \<Rightarrow> bool" where
  "is_bounded b \<longleftrightarrow> max_total_tokens b \<noteq> None \<or> max_calls b \<noteq> None"

definition reached :: "int option \<Rightarrow> int \<Rightarrow> bool" where
  "reached limit n \<longleftrightarrow> (case limit of None \<Rightarrow> False | Some m \<Rightarrow> m \<le> n)"

definition check_budget :: "token_budget \<Rightarrow> token_usage \<Rightarrow> string option" where
  "check_budget b now =
     (let used = usage_minus now (baseline b); tokens = total_tokens used; calls = usage_calls used in
      if reached (max_total_tokens b) tokens then
        Some (''token budget of '' @ str_int (the (max_total_tokens b)) @ '' exhausted: '' @ str_int tokens
          @ '' consumed across '' @ str_int calls @ '' calls'')
      else if reached (max_calls b) calls then
        Some (''call budget of '' @ str_int (the (max_calls b)) @ '' exhausted: '' @ str_int calls
          @ '' calls consuming '' @ str_int tokens @ '' tokens'')
      else None)"

text \<open>The budget as the controller's stop condition; \<open>now\<close> reads the tally out of the world.\<close>

definition budget_stop :: "('w \<Rightarrow> token_usage) \<Rightarrow> token_budget \<Rightarrow> 'w \<Rightarrow> (exn + string option) \<times> 'w" where
  "budget_stop now b w = (Inr (check_budget b (now w)), w)"

lemma check_budget_decides:
  "check_budget b now = None \<longleftrightarrow> \<not> reached (max_total_tokens b) (total_tokens now - total_tokens (baseline b))
     \<and> \<not> reached (max_calls b) (usage_calls now - usage_calls (baseline b))"
  "check_budget b now \<noteq> Some []"
  by (auto simp: check_budget_def Let_def total_tokens_def usage_minus_def algebra_simps)

text \<open>C22: A run wired to a budget stops at the first iteration boundary after the ceiling is crossed: with the
  budget as its stop condition, no cancellation and no deadline, a pass that starts with the tokens or the
  calls consumed since the budget was created at or above their ceiling ends the run in BUDGET\_EXHAUSTED, and
  neither the tree nor the iteration counter has changed.\<close>

theorem budget_stops_run:
  assumes "silent env" "at_phase SELECTION s" "cancel_event env = None" "stop_condition env = Some (budget_stop now b)"
    "reached (max_total_tokens b) (total_tokens (now (world s)) - total_tokens (baseline b))
     \<or> reached (max_calls b) (usage_calls (now (world s)) - usage_calls (baseline b))"
  shows "\<exists>s'. run_body env cfg None s = (Ok Break, s') \<and> phase (machine s') = BUDGET_EXHAUSTED
     \<and> tree s' = tree s \<and> iteration s' = iteration s"
proof -
  obtain reason where "check_budget b (now (world s)) = Some reason" "reason \<noteq> []"
    using assms(5) check_budget_decides [of b "now (world s)"] by auto
  then have "first_limit env None (world s) = Some BUDGET_EXHAUSTED"
    using assms(3,4) by (simp add: first_limit_def budget_stop_def)
  then show ?thesis by (rule body_stops [OF assms(1,2)])
qed

definition spent_env :: "unit environment" where
  "spent_env = (sample_env [''a''] 1 True)\<lparr>stop_condition := Some (budget_stop (\<lambda>w. \<lparr>usage_calls = 1, usage_prompt = 5, usage_completion = 5\<rparr>)
     \<lparr>max_total_tokens = Some 10, max_calls = None, baseline = no_usage\<rparr>)\<rparr>"

theorem budget_stops_run_witness:
  "\<exists>s'. run_body spent_env default_config None
       ((initial_state spent_env ''t'' ())\<lparr>machine := \<lparr>phase = SELECTION,
          history = [\<lparr>source = IDLE, target = SELECTION, trans_note = [], timestamp = 0\<rparr>]\<rparr>\<rparr>) = (Ok Break, s')
     \<and> phase (machine s') = BUDGET_EXHAUSTED"
  using budget_stops_run [of spent_env "(initial_state spent_env ''t'' ())\<lparr>machine := \<lparr>phase = SELECTION,
          history = [\<lparr>source = IDLE, target = SELECTION, trans_note = [], timestamp = 0\<rparr>]\<rparr>\<rparr>"
      "\<lambda>w. \<lparr>usage_calls = 1, usage_prompt = 5, usage_completion = 5\<rparr>"
      "\<lparr>max_total_tokens = Some 10, max_calls = None, baseline = no_usage\<rparr>" default_config]
  by (auto simp: spent_env_def sample_env_def silent_def at_phase_def machine_ok_def edges_of_def reached_def total_tokens_def no_usage_def)

subsection \<open>ScriptedLlmClient\<close>

definition estimate_tokens :: "string \<Rightarrow> int" where
  "estimate_tokens s = int (length (py_split s))"

type_synonym 'w responder = "'w \<Rightarrow> completion_request \<Rightarrow> (exn + string + completion_response) \<times> 'w"

definition scripted_complete :: "'w responder \<Rightarrow> string \<Rightarrow> (completion_request list \<times> 'w) llm" where
  "scripted_complete responder mdl st rq = (case st of (made, w) \<Rightarrow>
     (case responder w rq of
        (Inl e, w1) \<Rightarrow> (Inl e, made @ [rq], w1)
      | (Inr (Inr response), w1) \<Rightarrow> (Inr response, made @ [rq], w1)
      | (Inr (Inl txt), w1) \<Rightarrow>
          (Inr \<lparr>resp_text = txt, resp_model = mdl,
                prompt_tokens = sum_list (map (\<lambda>m. estimate_tokens (msg_content m)) (messages rq)),
                completion_tokens = estimate_tokens txt\<rparr>, made @ [rq], w1)))"

text \<open>\<open>from_sequence\<close>: the pending completions are the responder's state.\<close>

fun sequence_responder :: "string list responder" where
  "sequence_responder [] rq = (Inl (Exn LlmError ''scripted completion sequence exhausted''), [])"
| "sequence_responder (t # ts) rq = (Inr (Inl t), ts)"

lemma sequence_replays:
  "length rqs \<le> length ts \<Longrightarrow>
     map (map_sum id resp_text) (fst (complete_all (scripted_complete sequence_responder mdl) (made, ts) rqs))
       = map Inr (take (length rqs) ts)
     \<and> fst (snd (complete_all (scripted_complete sequence_responder mdl) (made, ts) rqs)) = made @ rqs"
proof (induction rqs arbitrary: ts made)
  case (Cons rq rqs)
  then obtain t us where ts: "ts = t # us" by (cases ts) auto
  show ?case using Cons.IH [of us "made @ [rq]"] Cons.prems by (simp add: ts scripted_complete_def Let_def split_beta)
qed simp

end
