(* ===== verification/Llm_Parsing.thy ===== *)
theory Llm_Parsing
  imports Llm_Wrappers
begin

section \<open>Structured content in completions (llm/parsing.py)\<close>

text \<open>
  A completion is split at marker lines, or at numbered lines, and a JSON object is scanned out of
  surrounding prose. The two regular expressions are the functions they denote at one position of
  the text: what they consume and what is left. \<open>json.loads\<close> is an argument.
\<close>

definition word_char :: "char \<Rightarrow> bool" where
  "word_char c \<longleftrightarrow> (let n = py_ord c in 48 \<le> n \<and> n \<le> 57 \<or> 65 \<le> n \<and> n \<le> 90 \<or> 97 \<le> n \<and> n \<le> 122 \<or> n = 95
     \<or> n \<in> {170, 178, 179, 181, 185, 186, 188, 189, 190} \<or> 192 \<le> n \<and> n \<noteq> 215 \<and> n \<noteq> 247)"

definition boundary :: "string \<Rightarrow> bool" where
  "boundary s \<longleftrightarrow> (case s of [] \<Rightarrow> True | c # _ \<Rightarrow> \<not> word_char c)"

text \<open>
  A match is the rest of the text and whether the match ended with a newline.
  \<open>_MARKER_LINE\<close>: the white space after the hashes is consumed whole, since a letter follows it.
\<close>

definition marker_line :: "string \<Rightarrow> (bool \<times> string) option" where
  "marker_line s =
     (let t = dropWhile py_space (drop 3 s) in
      if take 3 s = ''###'' \<and> py_lower (take 9 t) = ''candidate'' \<and> boundary (drop 9 t)
      then Some (False, dropWhile (\<lambda>c. c \<noteq> CHR 0x0A) (drop 9 t)) else None)"

definition numbered_line :: "string \<Rightarrow> (bool \<times> string) option" where
  "numbered_line s =
     (let t = dropWhile py_space s; rest = dropWhile is_digit t in
      if takeWhile is_digit t = [] then None
      else (case rest of [] \<Rightarrow> None
        | c # cs \<Rightarrow>
            (if (c = CHR ''.'' \<or> c = CHR '')'') \<and> takeWhile py_space cs \<noteq> []
             then Some (last (takeWhile py_space cs) = CHR 0x0A, dropWhile py_space cs) else None)))"

text \<open>
  Splitting at the matches of \<open>m\<close> that start on a line: \<open>start\<close> says that the position follows a
  newline or the beginning. A match consumes something, which the guard makes explicit.
\<close>

function split_scan :: "(string \<Rightarrow> (bool \<times> string) option) \<Rightarrow> bool \<Rightarrow> string \<Rightarrow> string \<Rightarrow> string list" where
  "split_scan m start cur [] = [rev cur]"
| "split_scan m start cur (c # cs) =
     (case (if start then m (c # cs) else None) of
        Some (nl, rest) \<Rightarrow> (if length rest < length (c # cs) then rev cur # split_scan m nl [] rest else [rev cur])
      | None \<Rightarrow> split_scan m (c = CHR 0x0A) (c # cur) cs)"
  by pat_completeness auto
termination
  by (relation "measure (\<lambda>(m, b, cur, s). length s)") auto

definition cleaned :: "string list \<Rightarrow> string list" where
  "cleaned parts = filter (\<lambda>p. p \<noteq> []) (map py_strip parts)"

text \<open>With fewer than two matches there is nothing to split; the text before the first match is dropped.\<close>

definition split_numbered :: "string \<Rightarrow> string list" where
  "split_numbered txt = (let parts = split_scan numbered_line True [] txt in
     if length parts < 3 then [] else cleaned (tl parts))"

definition split_candidates :: "string \<Rightarrow> string list" where
  "split_candidates txt =
     (let parts = split_scan marker_line True [] txt in
      if 1 < length parts then cleaned parts
      else if split_numbered txt \<noteq> [] then split_numbered txt
      else if py_strip txt \<noteq> [] then [py_strip txt] else [])"

subsection \<open>extract\_json\_object\<close>

text \<open>
  One character of the scan: the brace depth, whether the position is inside a string, and
  whether the next character is escaped.
\<close>

definition scan_step :: "int \<times> bool \<times> bool \<Rightarrow> char \<Rightarrow> int \<times> bool \<times> bool" where
  "scan_step st c = (case st of (d, in_str, esc) \<Rightarrow>
     (if in_str then
        (if esc then (d, True, False) else if c = CHR 0x5C then (d, True, True) else (d, py_ord c \<noteq> 34, False))
      else if py_ord c = 34 then (d, True, False)
      else if c = CHR ''{'' then (d + 1, False, False)
      else if c = CHR ''}'' then (d - 1, False, False)
      else (d, False, False)))"

definition scan_done :: "int \<times> bool \<times> bool \<Rightarrow> char \<Rightarrow> bool" where
  "scan_done st c \<longleftrightarrow> \<not> fst (snd st) \<and> c = CHR ''}'' \<and> fst (scan_step st c) = 0"

text \<open>The scan from an opening brace; the result is the text up to its closing brace.\<close>

fun scan_object :: "int \<times> bool \<times> bool \<Rightarrow> string \<Rightarrow> string \<Rightarrow> string option" where
  "scan_object st cur [] = None"
| "scan_object st cur (c # cs) =
     (if scan_done st c then Some (rev (c # cur)) else scan_object (scan_step st c) (c # cur) cs)"

definition object_at :: "string \<Rightarrow> string option" where
  "object_at s = scan_object (0, False, False) [] s"

fun extract_json_object :: "(string \<Rightarrow> exn + pyval) \<Rightarrow> string \<Rightarrow> exn + dict option" where
  "extract_json_object loads [] = Inr None"
| "extract_json_object loads (c # cs) =
     (if c \<noteq> CHR ''{'' then extract_json_object loads cs
      else (case object_at (c # cs) of
          None \<Rightarrow> extract_json_object loads cs
        | Some obj \<Rightarrow> (case loads obj of
              Inl e \<Rightarrow> (if exn_kind e = JSONDecodeError then extract_json_object loads cs else Inl e)
            | Inr (VDict d) \<Rightarrow> Inr (Some d)
            | Inr _ \<Rightarrow> Inr None)))"

subsection \<open>Every candidate is usable\<close>

lemma cleaned_props: "x \<in> set (cleaned ps) \<Longrightarrow> x \<noteq> [] \<and> py_strip x = x"
  by (auto simp: cleaned_def)

lemma split_candidates_usable: "x \<in> set (split_candidates txt) \<Longrightarrow> x \<noteq> [] \<and> py_strip x = x"
  using cleaned_props by (auto simp: split_candidates_def split_numbered_def Let_def split: if_splits)

subsection \<open>Round trip of the marker format\<close>

definition marker_header :: string where
  "marker_header = ''### CANDIDATE'' @ newline"

definition marked :: "string list \<Rightarrow> string" where
  "marked cs = concat (map (\<lambda>c. marker_header @ c @ newline) cs)"

fun no_marker :: "string \<Rightarrow> bool" where
  "no_marker [] \<longleftrightarrow> True"
| "no_marker (c # cs) \<longleftrightarrow> marker_line (c # cs) = None \<and> no_marker cs"

definition markerless :: "string \<Rightarrow> bool" where
  "markerless c \<longleftrightarrow> c \<noteq> [] \<and> py_strip c = c \<and> no_marker c"

lemma no_marker_drop: "no_marker s \<Longrightarrow> i < length s \<Longrightarrow> marker_line (drop i s) = None"
  by (induction s arbitrary: i) (auto simp: drop_Cons split: nat.splits)

lemma take_split: "length s < n \<Longrightarrow> take n (s @ c # u) = t \<Longrightarrow> length s < length t \<and> t ! length s = c"
  by (cases "n - length s") (auto simp: nth_append)

lemma marker_extend:
  assumes s: "s \<noteq> []" "marker_line s = None" and u: "u = [] \<or> take 3 u = ''###''"
  shows "marker_line (s @ newline @ u) = None"
proof (rule ccontr)
  assume "marker_line (s @ newline @ u) \<noteq> None"
  then have m: "take 3 (s @ newline @ u) = ''###''"
      "py_lower (take 9 (dropWhile py_space (drop 3 (s @ newline @ u)))) = ''candidate''"
      "boundary (drop 9 (dropWhile py_space (drop 3 (s @ newline @ u))))"
    by (auto simp: marker_line_def Let_def split: if_splits)
  have nl: "py_space (CHR 0x0A)" by (simp add: py_space_def py_ord_def)
  have three: "3 \<le> length s"
  proof (rule ccontr)
    assume "\<not> 3 \<le> length s"
    then have "''###'' ! length s = CHR 0x0A" using take_split [of s 3 "CHR 0x0A" u "''###''"] m(1) by simp
    moreover have "length s = 0 \<or> length s = 1 \<or> length s = 2" using \<open>\<not> 3 \<le> length s\<close> by linarith
    ultimately show False by auto
  qed
  show False
  proof (cases "\<forall>c\<in>set (drop 3 s). py_space c")
    case True
    then have "dropWhile py_space (drop 3 (s @ newline @ u)) = dropWhile py_space u"
      using three nl by (simp add: dropWhile_append2)
    moreover have "dropWhile py_space u = u"
      using u by (cases u) (auto simp: py_space_def py_ord_def)
    ultimately have low: "py_lower (take 9 u) = ''candidate''" using m(2) by simp
    then have "u \<noteq> []" by (auto simp: py_lower_def)
    then obtain v where "u = CHR ''#'' # v" using u by (cases u) auto
    then show False using low by (simp add: py_lower_def py_lower_char_def py_ord_def)
  next
    case False
    let ?v = "dropWhile py_space (drop 3 s)"
    have eq: "dropWhile py_space (drop 3 (s @ newline @ u)) = ?v @ newline @ u"
      using three False dropWhile_append1 [of _ "drop 3 s" py_space] by auto
    show False
    proof (cases "9 \<le> length ?v")
      case True
      then have low: "py_lower (take 9 ?v) = ''candidate''" using m(2) eq by simp
      have "boundary (drop 9 ?v)" using m(3) eq True by (cases "drop 9 ?v") (simp_all add: boundary_def)
      moreover have "take 3 s = ''###''" using m(1) three by simp
      ultimately show False using low s(2) by (simp add: marker_line_def Let_def)
    next
      case short: False
      have "length (py_lower (take 9 (?v @ newline @ u))) = 9" using m(2) eq by simp
      then have "py_lower (take 9 (?v @ newline @ u)) ! length ?v = CHR 0x0A"
        using short by (simp add: py_lower_def nth_append py_lower_char_def py_ord_def Let_def)
      moreover have "CHR 0x0A \<notin> set ''candidate''" by simp
      ultimately show False using m(2) eq short by (metis length_take min.absorb2 nth_mem not_le_imp_less
            \<open>length (py_lower (take 9 (?v @ newline @ u))) = 9\<close>)
    qed
  qed
qed

lemma scan_quiet:
  "\<forall>i<length c. marker_line (drop i c @ t) = None \<Longrightarrow>
     split_scan marker_line b cur (c @ t) = split_scan marker_line (if c = [] then b else last c = CHR 0x0A) (rev c @ cur) t"
proof (induction c arbitrary: b cur)
  case (Cons x c)
  have "marker_line (x # c @ t) = None" using Cons.prems by force
  moreover have "\<forall>i<length c. marker_line (drop i c @ t) = None" using Cons.prems by force
  ultimately show ?case using Cons.IH [of "x = CHR 0x0A" "x # cur"] by (cases b) auto
qed simp

lemma marker_header_match: "marker_line (marker_header @ s) = Some (False, newline @ s)"
proof -
  have "py_lower ''CANDIDATE'' = ''candidate''" by code_simp
  then show ?thesis by (simp add: marker_line_def marker_header_def Let_def py_space_def py_ord_def boundary_def word_char_def)
qed

lemma marked_head: "marked cs = [] \<or> take 3 (marked cs) = ''###''"
  by (cases cs) (simp_all add: marked_def marker_header_def)

lemma marker_newline: "marker_line (CHR 0x0A # s) = None"
  by (simp add: marker_line_def Let_def)

lemma split_marked:
  "\<forall>c\<in>set cs. markerless c \<Longrightarrow> split_scan marker_line True cur (marked cs) = rev cur # map (\<lambda>c. newline @ c @ newline) cs"
proof (induction cs arbitrary: cur)
  case (Cons c cs)
  have c: "c \<noteq> []" "\<forall>i<length c. marker_line (drop i c) = None" using Cons.prems no_marker_drop by (simp_all add: markerless_def)
  obtain x xs where h: "marker_header @ c @ newline @ marked cs = x # xs" by (simp add: marker_header_def)
  have "\<forall>i<length c. marker_line (drop i c @ newline @ marked cs) = None"
    using marker_extend [OF _ _ marked_head [of cs]] c(2) by simp
  from scan_quiet [OF this, of True "[CHR 0x0A]"]
  have inner: "split_scan marker_line False [] (newline @ c @ newline @ marked cs)
      = split_scan marker_line True (CHR 0x0A # rev c @ newline) (marked cs)"
    using c(1) by (simp add: marker_newline split: if_splits)
  have "marked (c # cs) = x # xs" using h by (simp add: marked_def)
  moreover have "marker_line (x # xs) = Some (False, newline @ c @ newline @ marked cs)"
    using marker_header_match [of "c @ newline @ marked cs"] h by simp
  moreover have "length (newline @ c @ newline @ marked cs) < length (x # xs)"
    using arg_cong [OF h, of length] by (simp add: marker_header_def)
  ultimately have "split_scan marker_line True cur (marked (c # cs)) = rev cur # split_scan marker_line False [] (newline @ c @ newline @ marked cs)"
    by simp
  then show ?case using inner Cons.IH [of "CHR 0x0A # rev c @ newline"] Cons.prems by simp
qed (simp add: marked_def)

lemma cleaned_parts: "\<forall>c\<in>set cs. markerless c \<Longrightarrow> cleaned (map (\<lambda>c. newline @ c @ newline) cs) = cs"
proof (induction cs)
  case (Cons c cs)
  have c: "c \<noteq> []" "py_strip c = c" using Cons.prems by (simp_all add: markerless_def)
  have nl: "py_space (CHR 0x0A)" by (simp add: py_space_def py_ord_def)
  have "py_strip (newline @ c @ newline) = c"
  proof -
    have "\<not> (\<forall>x\<in>set c. py_space x)" using c py_strip_eq_Nil [of c] by auto
    then have "dropWhile py_space (c @ newline) = dropWhile py_space c @ newline" using dropWhile_append1 by metis
    then have "py_strip (newline @ c @ newline) = py_strip c"
      using nl by (simp add: py_strip_def py_lstrip_def py_rstrip_def)
    then show ?thesis using c(2) by simp
  qed
  then show ?case using c(1) Cons by (simp add: cleaned_def)
qed (simp add: cleaned_def)

text \<open>C23: The format the prompts ask for is read back exactly: candidates that are non-blank, stripped and hold no
  marker line of their own, each put under a \<open>### CANDIDATE\<close> line, are the candidates the parser returns, in
  order, whatever code fences or numbered lines they contain.\<close>

theorem candidates_round_trip:
  assumes "\<forall>c\<in>set cs. markerless c"
  shows "split_candidates (marked cs) = cs"
proof (cases cs)
  case Nil
  then show ?thesis by (simp add: marked_def split_candidates_def split_numbered_def)
next
  case (Cons c cs')
  then have "split_candidates (marked cs) = cleaned ([] # map (\<lambda>c. newline @ c @ newline) cs)"
    using split_marked [OF assms, of "[]"] by (simp add: split_candidates_def)
  also have "\<dots> = cs" using cleaned_parts [OF assms] by (simp add: cleaned_def)
  finally show ?thesis .
qed

theorem candidates_round_trip_witness:
  "split_candidates (marked [''1. a'' @ newline @ ''2. b'', ''c'']) = [''1. a'' @ newline @ ''2. b'', ''c'']"
proof (rule candidates_round_trip)
  have "markerless (''1. a'' @ newline @ ''2. b'')" "markerless ''c''" by code_simp+
  then show "\<forall>c\<in>set [''1. a'' @ newline @ ''2. b'', ''c'']. markerless c" by simp
qed

subsection \<open>Finding the object\<close>

lemma scan_object_extend: "scan_object st cur s = Some obj \<Longrightarrow> scan_object st cur (s @ t) = Some obj"
  by (induction s arbitrary: st cur) (auto split: if_splits)

lemma scan_object_prefix: "scan_object st cur s = Some obj \<Longrightarrow> \<exists>x post. s = x @ post \<and> obj = rev cur @ x"
proof (induction s arbitrary: st cur)
  case (Cons c cs)
  show ?case
  proof (cases "scan_done st c")
    case True
    then show ?thesis using Cons.prems by (intro exI [of _ "[c]"] exI [of _ cs]) simp
  next
    case False
    then have "scan_object (scan_step st c) (c # cur) cs = Some obj" using Cons.prems by simp
    from Cons.IH [OF this] obtain x post where "cs = x @ post" "obj = rev (c # cur) @ x" by blast
    then show ?thesis by (intro exI [of _ "c # x"] exI [of _ post]) simp
  qed
qed simp

text \<open>What is returned was in the text, in balance, and decoded to the object.\<close>

lemma extract_json_sound:
  "extract_json_object loads s = Inr (Some d) \<Longrightarrow>
     \<exists>pre obj post. s = pre @ obj @ post \<and> loads obj = Inr (VDict d)"
proof (induction s)
  case (Cons c cs)
  have skip: "\<exists>pre obj post. c # cs = pre @ obj @ post \<and> loads obj = Inr (VDict d)"
    if "extract_json_object loads cs = Inr (Some d)"
    using Cons.IH [OF that] by (metis append_Cons)
  show ?case
  proof (cases "c = CHR ''{''")
    case True
    then show ?thesis
    proof (cases "object_at (c # cs)")
      case (Some obj)
      obtain x post where x: "c # cs = x @ post" "obj = x" using scan_object_prefix [OF Some [unfolded object_at_def]] by auto
      show ?thesis
      proof (cases "loads obj")
        case (Inr v)
        then have "v = VDict d" using Cons.prems True Some by (cases v) auto
        then show ?thesis using x Inr by (metis append_Nil)
      qed (use Cons.prems True Some skip in \<open>auto split: if_splits\<close>)
    qed (use Cons.prems skip in auto)
  qed (use Cons.prems skip in auto)
qed simp

text \<open>A JSON object is found in prose: for surrounding text with no opening brace before it, an object whose
  braces balance outside its strings and which decodes to a dictionary is exactly what the scanner returns,
  whatever follows it.\<close>

theorem json_object_found:
  assumes "CHR ''{'' \<notin> set pre" "object_at (CHR ''{'' # obj) = Some (CHR ''{'' # obj)"
    "loads (CHR ''{'' # obj) = Inr (VDict d)"
  shows "extract_json_object loads (pre @ (CHR ''{'' # obj) @ post) = Inr (Some d)"
  using assms(1)
proof (induction pre)
  case Nil
  have "object_at ((CHR ''{'' # obj) @ post) = Some (CHR ''{'' # obj)"
    using scan_object_extend assms(2) unfolding object_at_def by blast
  then show ?case using assms(3) by simp
next
  case (Cons a pre)
  then have "a \<noteq> CHR ''{''" by auto
  then show ?case using Cons by simp
qed

theorem json_object_found_witness:
  "extract_json_object (\<lambda>s. if s = ''{}'' then Inr (VDict []) else Inl (Exn JSONDecodeError [])) (''Sure: '' @ ''{}'' @ '' }'')
     = Inr (Some [])"
  using json_object_found [of "''Sure: ''" "''}''" "\<lambda>s. if s = ''{}'' then Inr (VDict []) else Inl (Exn JSONDecodeError [])" "[]" "'' }''"]
  by (simp add: object_at_def scan_step_def scan_done_def py_ord_def)

end
