(* ===== verification/Llm_Policies.thy ===== *)
theory Llm_Policies
  imports Llm_Parsing
begin

section \<open>Model-backed generator and critic (llm/prompts.py, generator.py, critic.py)\<close>

text \<open>
  The policies that talk to a model: they build a request from the node, send it through any
  client, and parse the completion. \<open>fr\<close> is the text of a float or container under \<open>str\<close>,
  \<open>json_dumps\<close> and \<open>json_loads\<close> are the json module's functions; a policy is configured by them, its
  client and its sampling parameters. The critic degrades to silence where the generator raises.
\<close>

subsection \<open>Prompts\<close>

definition GENERATOR_SYSTEM_PROMPT :: string where
  "GENERATOR_SYSTEM_PROMPT = py_join newline
     [''You are the expansion policy of a tree-search reasoning engine. Given a task,'',
      ''the reasoning path so far, and optional revision notes from failed attempts,'',
      ''you propose distinct candidate next thoughts.'',
      [],
      ''Rules:'',
      ''- Propose exactly the requested number of candidates, each meaningfully'',
      ''  different from the others and from previously failed candidates.'',
      ''- When a candidate contains an implementation, place the complete runnable'',
      ''  code inside a single fenced ```python block; the code is executed and'',
      ''  validated in a sandbox, so it must be self-contained.'',
      ''- When revision notes are present, treat every note as a hard requirement'',
      ''  that previous candidates violated.'',
      ''- Separate candidates with a line that reads exactly: ### CANDIDATE'',
      ''- Output candidates only. No preamble, no commentary, no conclusion.'',
      []]"

definition generator_message :: "string \<Rightarrow> string \<Rightarrow> string \<Rightarrow> int \<Rightarrow> string" where
  "generator_message tsk pth blk k = py_join newline
     [''TASK:'',
      tsk,
      [],
      ''REASONING PATH (root to current node):'',
      pth,
      [],
      blk @ ''Propose '' @ str_int k @ '' candidate next thoughts. Start each with a line that reads exactly: ### CANDIDATE'',
      []]"

definition revision_block :: "string \<Rightarrow> string" where
  "revision_block nts = py_join newline
     [''REVISION NOTES (requirements violated by pruned candidates):'',
      nts,
      [],
      []]"

definition CRITIC_SYSTEM_PROMPT :: string where
  "CRITIC_SYSTEM_PROMPT = py_join newline
     [''You are the critique policy of a tree-search reasoning engine. You receive a'',
      ''rejected thought together with the record of its sandboxed execution, and you'',
      ''diagnose the failure so the next expansion can avoid it.'',
      [],
      ''Answer with a single JSON object and nothing else, using exactly these keys:'',
      ''{'',
      ''  \"failure_class\": one of \"no_execution\" | \"timeout\" | \"syntax\" | \"assertion\" | \"exception\",'',
      ''  \"summary\": one-line diagnosis of what went wrong,'',
      ''  \"guidance\": one actionable instruction for producing a corrected candidate,'',
      ''  \"severity\": number between 0.0 and 1.0'',
      ''}'',
      []]"

definition critic_message :: "string \<Rightarrow> string \<Rightarrow> string" where
  "critic_message cnt exe = py_join newline
     [''REJECTED THOUGHT:'',
      cnt,
      [],
      ''EXECUTION RECORD:'',
      exe,
      [],
      ''Diagnose the failure. Answer with the JSON object only.'',
      []]"

subsection \<open>LlmThoughtGenerator\<close>

record 'w llm_policy =
  client :: "'w llm"
  policy_temperature :: pyfloat
  policy_max_tokens :: int
  text_of :: "pyval \<Rightarrow> string"
  json_loads :: "string \<Rightarrow> exn + pyval"
  json_dumps :: "dict \<Rightarrow> exn + string"

definition conversation :: "'w llm_policy \<Rightarrow> string \<Rightarrow> string \<Rightarrow> exn + completion_request" where
  "conversation p sys usr = sum_bind (make_message ''system'' sys) (\<lambda>m1. sum_bind (make_message ''user'' usr) (\<lambda>m2.
     make_completion_request [m1, m2] (policy_temperature p) (policy_max_tokens p)))"

definition revision_notes :: "(pyval \<Rightarrow> string) \<Rightarrow> dict \<Rightarrow> string" where
  "revision_notes fr md = py_strip (py_text fr (case dict_get md REVISION_NOTES_KEY of None \<Rightarrow> VStr [] | Some v \<Rightarrow> v))"

text \<open>\<open>_render_user_message\<close>; \<open>None\<close> when following the parent links does not end.\<close>

definition generator_prompt :: "(pyval \<Rightarrow> string) \<Rightarrow> heap \<Rightarrow> addr \<Rightarrow> int \<Rightarrow> string option" where
  "generator_prompt fr h a k = map_option (\<lambda>path.
     (let steps = tl path; notes = revision_notes fr (metadata (h ! a)) in
      generator_message (content (h ! hd path))
        (if steps \<noteq> [] then py_join newline (map (\<lambda>(i, b). str_int (int i) @ ''. '' @ content (h ! b)) (List.enumerate 1 steps))
         else ''(no thoughts yet; propose opening thoughts)'')
        (if notes \<noteq> [] then revision_block notes else []) k))
     (path_from_root h a)"

text \<open>\<open>xs[:k]\<close>.\<close>

definition slice_to :: "int \<Rightarrow> 'a list \<Rightarrow> 'a list" where
  "slice_to k xs = (if 0 \<le> k then take (nat k) xs else take (length xs - nat (- k)) xs)"

definition llm_generate :: "'w llm_policy \<Rightarrow> 'w \<Rightarrow> heap \<Rightarrow> addr \<Rightarrow> int \<Rightarrow> ((exn + string list) \<times> 'w) option" where
  "llm_generate p w h a k = map_option (\<lambda>usr.
     (case conversation p GENERATOR_SYSTEM_PROMPT usr of
        Inl e \<Rightarrow> (Inl e, w)
      | Inr rq \<Rightarrow> (case client p w rq of
            (Inl e, w1) \<Rightarrow> (Inl e, w1)
          | (Inr r, w1) \<Rightarrow> (Inr (slice_to k (split_candidates (resp_text r))), w1))))
     (generator_prompt (text_of p) h a k)"

subsection \<open>LlmCritic\<close>

text \<open>\<open>dict(record)\<close>; the execution record is the dictionary the evaluator stored.\<close>

fun py_dict :: "pyval \<Rightarrow> exn + dict" where
  "py_dict (VDict d) = Inr d"
| "py_dict v = Inl (Exn TypeError (py_repr (type_name v) @ '' object is not iterable''))"

definition critic_prompt :: "'w llm_policy \<Rightarrow> heap \<Rightarrow> addr \<Rightarrow> exn + string" where
  "critic_prompt p h a =
     (let missing = ''(no execution record; the thought was rejected unexecuted)'' in
      sum_bind (case dict_get (metadata (h ! a)) EXECUTION_KEY of
          None \<Rightarrow> Inr missing
        | Some VNone \<Rightarrow> Inr missing
        | Some record \<Rightarrow> sum_bind (py_dict record) (\<lambda>d.
            (let err = py_text (text_of p) (case dict_get d ''stderr'' of None \<Rightarrow> VStr [] | Some v \<Rightarrow> v) in
             json_dumps p (if 1500 < length err then dict_set ''stderr'' (VStr (''...'' @ drop (length err - 1500) err)) d else d))))
        (\<lambda>exe. Inr (critic_message (content (h ! a)) exe)))"

text \<open>The severity the model asked for, clamped into the unit interval.\<close>

definition read_severity :: "dict \<Rightarrow> exn + pyfloat" where
  "read_severity d =
     (case py_float (case dict_get d ''severity'' of None \<Rightarrow> VFloat (Fin 0.7) | Some v \<Rightarrow> v) of
        Inl e \<Rightarrow> (if exn_kind e \<in> {TypeError, ValueError} then Inr (Fin 0.7) else Inl e)
      | Inr x \<Rightarrow> Inr x)"

definition text_field :: "'w llm_policy \<Rightarrow> dict \<Rightarrow> string \<Rightarrow> string" where
  "text_field p d k = py_text (text_of p) (case dict_get d k of None \<Rightarrow> VStr [] | Some v \<Rightarrow> v)"

text \<open>The critique a decoded document stands for.\<close>

definition critique_of :: "'w llm_policy \<Rightarrow> dict \<Rightarrow> exn + critique option" where
  "critique_of p d =
     (let fc = (case failure_of_value (text_field p d ''failure_class'') of None \<Rightarrow> EXCEPTION | Some f \<Rightarrow> f);
          sm = py_strip (text_field p d ''summary''); gd = py_strip (text_field p d ''guidance'')
      in if gd = [] then Inr None
         else sum_bind (read_severity d) (\<lambda>sev.
           sum_bind (make_critique fc (if sm \<noteq> [] then sm else ''model critique without summary'') gd
               (py_min2 1 (py_max2 0 sev))) (\<lambda>k. Inr (Some k))))"

definition parse_critique :: "'w llm_policy \<Rightarrow> string \<Rightarrow> exn + critique option" where
  "parse_critique p reply =
     sum_bind (extract_json_object (json_loads p) reply) (\<lambda>doc. case doc of None \<Rightarrow> Inr None | Some d \<Rightarrow> critique_of p d)"

definition llm_critique :: "'w llm_policy \<Rightarrow> 'w critic_fun" where
  "llm_critique p w h a =
     (case sum_bind (critic_prompt p h a) (conversation p CRITIC_SYSTEM_PROMPT) of
        Inl e \<Rightarrow> (Inl e, w)
      | Inr rq \<Rightarrow> (case client p w rq of
            (Inl e, w1) \<Rightarrow> (if exn_kind e = LlmError then Inr None else Inl e, w1)
          | (Inr r, w1) \<Rightarrow> (parse_critique p (resp_text r), w1)))"

subsection \<open>The critic's contract\<close>

lemma critique_of_cases:
  obtains (silent) "critique_of p d = Inr None"
  | (raises) e where "critique_of p d = Inl e" "read_severity d = Inl e"
  | (speaks) k where "critique_of p d = Inr (Some k)" "valid_critique k" "guidance k \<noteq> []" "summary k \<noteq> []"
proof (cases "py_strip (text_field p d ''guidance'') = []")
  case True
  then show thesis using silent by (simp add: critique_of_def)
next
  case guided: False
  show thesis
  proof (cases "read_severity d")
    case (Inl e)
    then show thesis using raises guided by (simp add: critique_of_def Let_def)
  next
    case (Inr x)
    obtain a where a: "py_min2 1 (py_max2 0 x) = Fin a" "0 \<le> a" "a \<le> 1" using clamp_unit by blast
    then show thesis using speaks Inr guided
      by (auto simp: critique_of_def Let_def make_critique_def valid_critique_def)
  qed
qed

lemma parse_critique_valid: "parse_critique p s = Inr (Some k) \<Longrightarrow> valid_critique k"
proof -
  assume "parse_critique p s = Inr (Some k)"
  then obtain d where "critique_of p d = Inr (Some k)"
    by (auto simp: parse_critique_def sum_bind_Inr split: option.splits)
  then show ?thesis by (cases p d rule: critique_of_cases) auto
qed

interpretation llm_critic: critic_contract llm_critique
proof
  fix p :: "'a llm_policy" and w h a k
  show "fst (llm_critique p w h a) = Inr (Some k) \<Longrightarrow> valid_critique k"
    by (auto simp: llm_critique_def dest: parse_critique_valid split: sum.splits prod.splits if_splits)
qed

text \<open>The canonical deployment: the trace critic first, the model second.\<close>

definition canonical_critic :: "(pyval \<Rightarrow> string) \<times> 'w llm_policy \<Rightarrow> 'w critic_fun" where
  "canonical_critic cfg = chained_critique [execution_critique (fst cfg), llm_critique (snd cfg)]"

interpretation canonical: critic_contract canonical_critic
proof
  fix cfg :: "(pyval \<Rightarrow> string) \<times> 'a llm_policy" and w h a k
  assume "fst (canonical_critic cfg w h a) = Inr (Some k)"
  then show "valid_critique k" unfolding canonical_critic_def
    by (rule chained_valid [rotated]) (auto intro: trace_critic.critique_valid llm_critic.critique_valid)
qed

interpretation model_stack: shaped_policies code_evaluate canonical_critic usable_weights shape_reward
  by unfold_locales

subsection \<open>When the critic raises\<close>

lemma py_float_raises: "py_float v = Inl e \<Longrightarrow> exn_kind e \<in> {TypeError, ValueError} \<or>
    (\<exists>n. v = VInt n \<and> float_limit \<le> \<bar>n\<bar> \<and> e = Exn OverflowError ''int too large to convert to float'')"
  by (cases v) (auto split: if_splits option.splits)

lemma read_severity_raises:
  "read_severity d = Inl e \<Longrightarrow> \<exists>n. dict_get d ''severity'' = Some (VInt n) \<and> float_limit \<le> \<bar>n\<bar>
     \<and> e = Exn OverflowError ''int too large to convert to float''"
  using py_float_raises [of "case dict_get d ''severity'' of None \<Rightarrow> VFloat (Fin 0.7) | Some v \<Rightarrow> v" e]
  by (auto simp: read_severity_def split: sum.splits if_splits option.splits)

lemma extract_json_raises:
  "extract_json_object loads s = Inl e \<Longrightarrow> \<exists>t. loads t = Inl e \<and> exn_kind e \<noteq> JSONDecodeError"
proof (induction s)
  case (Cons c cs)
  show ?case
  proof (cases "c = CHR ''{'' \<and> object_at (c # cs) \<noteq> None")
    case True
    then obtain obj where o: "c = CHR ''{''" "object_at (c # cs) = Some obj" by auto
    show ?thesis
    proof (cases "loads obj")
      case (Inl x)
      then show ?thesis using Cons o by (auto split: if_splits)
    next
      case (Inr v)
      then show ?thesis using Cons o by (cases v) auto
    qed
  qed (use Cons in \<open>auto split: option.splits if_splits\<close>)
qed simp

text \<open>C24: The model-backed critic degrades instead of failing, with one exception. Over a client that raises only
  \<open>LlmError\<close> and a decoder that raises only \<open>JSONDecodeError\<close>, and once its request could be built, a
  critique call returns no critique or a valid one with guidance and summary, except that a reply whose
  severity is an integer beyond the range of a double raises \<open>OverflowError\<close>.\<close>

theorem llm_critic_outcomes:
  assumes "\<forall>w rq e. fst (client p w rq) = Inl e \<longrightarrow> exn_kind e = LlmError"
    "\<forall>t e. json_loads p t = Inl e \<longrightarrow> exn_kind e = JSONDecodeError"
    "sum_bind (critic_prompt p h a) (conversation p CRITIC_SYSTEM_PROMPT) = Inr rq"
  shows "case fst (llm_critique p w h a) of
       Inr None \<Rightarrow> True
     | Inr (Some k) \<Rightarrow> valid_critique k \<and> guidance k \<noteq> [] \<and> summary k \<noteq> []
     | Inl e \<Rightarrow> e = Exn OverflowError ''int too large to convert to float''
         \<and> (\<exists>r w1 d n. client p w rq = (Inr r, w1) \<and> extract_json_object (json_loads p) (resp_text r) = Inr (Some d)
              \<and> dict_get d ''severity'' = Some (VInt n) \<and> float_limit \<le> \<bar>n\<bar>)"
proof -
  obtain x w1 where c: "client p w rq = (x, w1)" by fastforce
  show ?thesis
  proof (cases x)
    case (Inl e)
    then have "exn_kind e = LlmError" using assms(1) c by (metis fst_conv)
    then show ?thesis using c Inl assms(3) by (simp add: llm_critique_def)
  next
    case (Inr r)
    have out: "fst (llm_critique p w h a) = parse_critique p (resp_text r)"
      using c Inr assms(3) by (simp add: llm_critique_def)
    obtain doc where doc: "extract_json_object (json_loads p) (resp_text r) = Inr doc"
      using extract_json_raises [of "json_loads p" "resp_text r"] assms(2)
      by (cases "extract_json_object (json_loads p) (resp_text r)") auto
    show ?thesis
    proof (cases doc)
      case None
      then show ?thesis using out doc by (simp add: parse_critique_def)
    next
      case (Some d)
      then have o: "fst (llm_critique p w h a) = critique_of p d" using out doc by (simp add: parse_critique_def)
      show ?thesis unfolding o
      proof (cases p d rule: critique_of_cases)
        case (raises e)
        then show "case critique_of p d of Inr None \<Rightarrow> True
          | Inr (Some k) \<Rightarrow> valid_critique k \<and> guidance k \<noteq> [] \<and> summary k \<noteq> []
          | Inl e \<Rightarrow> e = Exn OverflowError ''int too large to convert to float''
              \<and> (\<exists>r w1 d n. client p w rq = (Inr r, w1) \<and> extract_json_object (json_loads p) (resp_text r) = Inr (Some d)
                   \<and> dict_get d ''severity'' = Some (VInt n) \<and> float_limit \<le> \<bar>n\<bar>)"
          using read_severity_raises [OF raises(2)] c Inr doc Some by auto
      qed simp_all
    qed
  qed
qed

definition mute_policy :: "unit llm_policy" where
  "mute_policy = \<lparr>client = (\<lambda>w rq. (Inl (Exn LlmError ''down''), w)), policy_temperature = 0, policy_max_tokens = 5,
     text_of = (\<lambda>_. []), json_loads = (\<lambda>_. Inl (Exn JSONDecodeError [])), json_dumps = (\<lambda>_. Inr [])\<rparr>"

theorem llm_critic_outcomes_witness:
  "case fst (llm_critique mute_policy () [new_node ''t'' None 0 ''a''] 0) of
       Inr None \<Rightarrow> True | Inr (Some k) \<Rightarrow> valid_critique k | Inl e \<Rightarrow> exn_kind e = OverflowError"
proof -
  obtain rq where rq: "sum_bind (critic_prompt mute_policy [new_node ''t'' None 0 ''a''] 0) (conversation mute_policy CRITIC_SYSTEM_PROMPT) = Inr rq"
    by (simp add: critic_prompt_def conversation_def make_message_def make_completion_request_def mute_policy_def new_node_def float_consts)
  have c: "\<forall>w rq e. fst (client mute_policy w rq) = Inl e \<longrightarrow> exn_kind e = LlmError"
    "\<forall>t e. json_loads mute_policy t = Inl e \<longrightarrow> exn_kind e = JSONDecodeError" by (simp_all add: mute_policy_def)
  show ?thesis using llm_critic_outcomes [OF c rq, of "()"] by (auto split: sum.splits option.splits)
qed

text \<open>The exception is reachable: a severity too large for a float escapes.\<close>

lemma severity_overflow:
  "read_severity [(''severity'', VInt float_limit)] = Inl (Exn OverflowError ''int too large to convert to float'')"
  by (simp add: read_severity_def)

subsection \<open>The generator\<close>

lemma slice_to_props: "0 \<le> k \<Longrightarrow> int (length (slice_to k xs)) \<le> k \<and> set (slice_to k xs) \<subseteq> set xs"
  using set_take_subset [of "nat k" xs] by (simp add: slice_to_def)

lemma llm_generate_usable:
  assumes "wf_heap h" "a < length h" "0 \<le> k"
  shows "\<exists>r w1. llm_generate p w h a k = Some (r, w1)
     \<and> (\<forall>cs. r = Inr cs \<longrightarrow> int (length cs) \<le> k \<and> (\<forall>c\<in>set cs. c \<noteq> [] \<and> py_strip c = c))"
proof -
  obtain xs where "path_from_root h a = Some xs" by (rule path_total [OF assms(1,2)])
  then obtain usr where u: "generator_prompt (text_of p) h a k = Some usr" by (simp add: generator_prompt_def)
  show ?thesis using slice_to_props [OF assms(3)] split_candidates_usable
    by (auto simp: llm_generate_def u split: sum.splits prod.splits; blast)
qed

subsection \<open>Revision notes reach the model\<close>

definition note_like :: "string \<Rightarrow> bool" where
  "note_like l \<longleftrightarrow> l \<noteq> [] \<and> \<not> py_space (hd l) \<and> \<not> py_space (last l)"

lemma py_strip_id: "note_like s \<Longrightarrow> py_strip s = s"
proof -
  assume n: "note_like s"
  then have "dropWhile py_space s = s" by (cases s) (auto simp: note_like_def)
  moreover have "dropWhile py_space (rev s) = rev s"
  proof -
    have "rev s \<noteq> []" "\<not> py_space (hd (rev s))" using n by (simp_all add: note_like_def hd_rev)
    then show ?thesis by (cases "rev s") auto
  qed
  ultimately show ?thesis by (simp add: py_strip_def py_lstrip_def py_rstrip_def)
qed

lemma strip_last: "py_strip s = t \<Longrightarrow> t \<noteq> [] \<Longrightarrow> \<not> py_space (last t)"
  using hd_dropWhile_not [of py_space "rev (py_lstrip s)"]
  by (auto simp: py_strip_def py_rstrip_def last_rev)

lemma notes_loop_lines: "notes_loop fr h seen cs = Inr ls \<Longrightarrow> \<forall>l\<in>set ls. note_like l"
proof (induction cs arbitrary: seen ls)
  case (Cons c cs)
  show ?case
  proof (cases "dict_get (metadata (h ! c)) CRITIQUE_METADATA_KEY")
    case (Some k)
    have line: "note_like (''- ['' @ f @ ''] '' @ t)" if "py_strip_val g = Inr t" "t \<noteq> []" for f g t
      using that strip_last by (cases g) (auto simp: note_like_def py_space_def py_ord_def)
    show ?thesis
    proof (cases "notes_loop fr h seen cs = Inr ls")
      case True
      then show ?thesis by (rule Cons.IH)
    next
      case False
      then obtain g t f rest where "py_strip_val g = Inr t" "t \<noteq> []" "notes_loop fr h (t # seen) cs = Inr rest"
        "ls = (''- ['' @ py_text fr f @ ''] '' @ t) # rest"
        using Cons.prems Some by (auto simp: sum_bind_Inr split: if_splits)
      then show ?thesis using line Cons.IH by (metis set_ConsD)
    qed
  qed (use Cons in auto)
qed simp

lemma note_like_join: "ls \<noteq> [] \<Longrightarrow> \<forall>l\<in>set ls. note_like l \<Longrightarrow> note_like (py_join newline ls)"
  by (induction newline ls rule: py_join.induct) (auto simp: note_like_def)

text \<open>C25: Critiques condition the next wave: when the revision policy reopens a node, the prompt the generator
  builds for it on the updated tree contains the compiled notes verbatim.\<close>

theorem revision_notes_reach_model:
  assumes "wf_heap h" "a < length h" "revise (fr, pol) w h a = (Inr True, d, w')" "require_guidance pol"
  shows "\<exists>notes pre post. compile_revision_notes fr h a = Inr notes \<and> notes \<noteq> []
     \<and> generator_prompt fr (set_metadata h a d) a k = Some (pre @ notes @ post)"
proof -
  obtain nt where n: "compile_revision_notes fr h a = Inr nt" "nt \<noteq> []"
    "dict_get d REVISION_NOTES_KEY = Some (VStr nt)"
    using revise_outcome(2) [OF assms(3)] assms(4) by auto
  obtain ls where ls: "notes_loop fr h [] (children (h ! a)) = Inr ls" "nt = py_join newline ls"
    using n(1) by (auto simp: compile_revision_notes_def sum_bind_Inr)
  have "note_like nt" using note_like_join notes_loop_lines [OF ls(1)] ls(2) n(2) by (cases ls) auto
  then have rn: "revision_notes fr d = nt" by (simp add: revision_notes_def n(3) py_strip_id)
  let ?h = "set_metadata h a d"
  have wf: "wf_heap ?h" by (rule wf_heap_shape [OF keeps_shape [OF keeps_set_metadata] assms(1)])
  have a: "a < length ?h" "metadata (?h ! a) = d" using assms(2) by (simp_all add: set_metadata_def)
  obtain path where p: "path_from_root ?h a = Some path" by (rule path_total [OF wf a(1)])
  have "\<exists>pre post. generator_message t s (revision_block nt) k = pre @ nt @ post" for t s
    by (intro exI [of _ "''TASK:'' @ newline @ t @ newline @ newline @ ''REASONING PATH (root to current node):'' @ newline @ s
        @ newline @ newline @ ''REVISION NOTES (requirements violated by pruned candidates):'' @ newline"]
      exI [of _ "newline @ newline @ ''Propose '' @ str_int k @ '' candidate next thoughts. Start each with a line that reads exactly: ### CANDIDATE'' @ newline"])
      (simp add: generator_message_def revision_block_def)
  then show ?thesis using n(1,2) p a(2) rn by (simp add: generator_prompt_def Let_def)
qed

theorem revision_notes_reach_model_witness:
  "\<exists>notes pre post. compile_revision_notes (\<lambda>_. []) guided_heap 0 = Inr notes \<and> notes \<noteq> []
     \<and> generator_prompt (\<lambda>_. []) revised_heap 0 3 = Some (pre @ notes @ post)"
proof -
  have g: "py_strip '' g'' = ''g''" by code_simp
  obtain d where d: "revise ((\<lambda>_. []), \<lparr>max_attempts = 1, require_guidance = True\<rparr>) () guided_heap 0 = (Inr True, d, ())"
    by (simp add: revise_def guided_heap_def guided_def new_node_def attempts_of_def compile_revision_notes_def
        critique_to_dict_def is_live_def LIVE_STATUSES_def g REVISION_ATTEMPTS_KEY_def)
  have wf: "wf_heap guided_heap"
    by (simp add: wf_heap_def guided_heap_def new_node_def less_Suc_eq numeral_2_eq_2 all_conj_distrib)
  have "0 < length guided_heap" by (simp add: guided_heap_def)
  from revision_notes_reach_model [OF wf this d, of 3] show ?thesis by (simp add: revised_heap_def d)
qed

end
