(* ===== verification/Tree_Documents.thy ===== *)
theory Tree_Documents
  imports Llm_Policies
begin

section \<open>Serialization of nodes and trees (node.py, tree.py: to\_dict, from\_dict)\<close>

text \<open>
  The JSON form of a tree is a nested dictionary. \<open>to_dict\<close> walks the nodes in reverse preorder and
  looks the children's payloads up in a table; \<open>from_dict\<close> allocates the nodes again with an explicit
  stack of pending payloads. A document need not come from the code, so every read of it may raise.
  The fields of a node are typed here: where Python would store a value of another type
  (\<open>content\<close>, \<open>id\<close>, \<open>rationale\<close>) the model raises TypeError.
\<close>

subsection \<open>to\_dict\<close>

definition node_doc :: "bool \<Rightarrow> thought_node \<Rightarrow> pyval list \<Rightarrow> pyval" where
  "node_doc include_metadata n kids = VDict (
     [(''id'', VStr (node_id n)), (''content'', VStr (content n)), (''status'', VStr (status_value (status n))),
      (''depth'', VInt (depth n)), (''visits'', VInt (visits n)), (''value_sum'', VFloat (py_round (value_sum n) 6)),
      (''score'', VFloat (py_round (score n) 6)), (''rationale'', VStr (rationale n)), (''children'', VList kids)]
     @ (if include_metadata then [(''metadata'', VDict (metadata n))] else []))"

fun payloads_of :: "(addr \<times> pyval) list \<Rightarrow> addr list \<Rightarrow> exn + pyval list" where
  "payloads_of ps [] = Inr []"
| "payloads_of ps (c # cs) = (case map_of ps c of
       None \<Rightarrow> Inl (Exn KeyError (nat_digits c))
     | Some v \<Rightarrow> sum_bind (payloads_of ps cs) (\<lambda>vs. Inr (v # vs)))"

fun payload_loop :: "heap \<Rightarrow> bool \<Rightarrow> addr list \<Rightarrow> (addr \<times> pyval) list \<Rightarrow> exn + (addr \<times> pyval) list" where
  "payload_loop h m [] ps = Inr ps"
| "payload_loop h m (a # as) ps =
     sum_bind (payloads_of ps (children (h ! a))) (\<lambda>kids. payload_loop h m as ((a, node_doc m (h ! a) kids) # ps))"

definition node_to_dict :: "heap \<Rightarrow> addr \<Rightarrow> bool \<Rightarrow> (exn + pyval) option" where
  "node_to_dict h a m = map_option (\<lambda>ds. sum_bind (payload_loop h m (rev ds) []) (\<lambda>ps.
     sum_bind (payloads_of ps [a]) (\<lambda>vs. Inr (hd vs)))) (walk h a)"

definition tree_to_dict :: "thought_tree \<Rightarrow> bool \<Rightarrow> (exn + pyval) option" where
  "tree_to_dict t m = map_option (\<lambda>r. sum_bind r (\<lambda>v. Inr (VDict [(''size'', VInt (int (tree_len t))), (''root'', v)])))
     (node_to_dict (tree_heap t) (tree_root t) m)"

subsection \<open>from\_dict\<close>

text \<open>\<open>v[key]\<close> for a string key, and iteration.\<close>

fun py_index :: "pyval \<Rightarrow> string \<Rightarrow> exn + pyval" where
  "py_index (VDict d) k = (case dict_get d k of None \<Rightarrow> Inl (Exn KeyError (py_repr k)) | Some v \<Rightarrow> Inr v)"
| "py_index (VStr s) k = Inl (Exn TypeError ''string indices must be integers, not 'str' '')"
| "py_index (VList xs) k = Inl (Exn TypeError ''list indices must be integers or slices, not str'')"
| "py_index v k = Inl (Exn TypeError (py_repr (type_name v) @ '' object is not subscriptable''))"

fun py_iter :: "pyval \<Rightarrow> exn + pyval list" where
  "py_iter (VList xs) = Inr xs"
| "py_iter (VDict d) = Inr (map (\<lambda>e. VStr (fst e)) d)"
| "py_iter (VStr s) = Inr (map (\<lambda>c. VStr [c]) s)"
| "py_iter v = Inl (Exn TypeError (py_repr (type_name v) @ '' object is not iterable''))"

fun as_str :: "pyval \<Rightarrow> exn + string" where
  "as_str (VStr s) = Inr s"
| "as_str v = Inl (Exn TypeError (''expected str, not '' @ type_name v))"

definition read_status :: "pyval \<Rightarrow> exn + node_status" where
  "read_status v = (case v of VStr s \<Rightarrow> status_of_value s
     | _ \<Rightarrow> Inl (Exn ValueError (type_name v @ '' is not a valid NodeStatus'')))"

definition bare_from_payload :: "pyval \<Rightarrow> addr option \<Rightarrow> exn + thought_node" where
  "bare_from_payload p par =
     sum_bind (py_index p ''content'') (\<lambda>v1. sum_bind (as_str v1) (\<lambda>cnt.
     sum_bind (py_index p ''depth'') (\<lambda>v2. sum_bind (py_int v2) (\<lambda>dep.
     sum_bind (py_index p ''id'') (\<lambda>v3. sum_bind (as_str v3) (\<lambda>i.
     sum_bind (py_index p ''status'') (\<lambda>v4. sum_bind (read_status v4) (\<lambda>st.
     sum_bind (py_index p ''visits'') (\<lambda>v5. sum_bind (py_int v5) (\<lambda>vis.
     sum_bind (py_index p ''value_sum'') (\<lambda>v6. sum_bind (py_float v6) (\<lambda>vs.
     sum_bind (py_index p ''score'') (\<lambda>v7. sum_bind (py_float v7) (\<lambda>sc.
     sum_bind (py_get p ''rationale'' (VStr [])) (\<lambda>v8. sum_bind (as_str v8) (\<lambda>rat.
     sum_bind (py_get p ''metadata'' VNone) (\<lambda>v9. sum_bind (if py_truthy v9 then py_dict v9 else Inr []) (\<lambda>md.
       Inr \<lparr>content = cnt, parent = par, depth = dep, node_id = i, status = st, children = [], visits = vis,
            value_sum = vs, score = sc, rationale = rat, metadata = md\<rparr>))))))))))))))))))"

text \<open>The inner loop: the children of one node, which are also pushed.\<close>

fun attach_payloads :: "heap \<Rightarrow> addr \<Rightarrow> pyval list \<Rightarrow> (addr \<times> pyval) list \<Rightarrow> exn + heap \<times> (addr \<times> pyval) list" where
  "attach_payloads h a [] pending = Inr (h, pending)"
| "attach_payloads h a (v # vs) pending =
     sum_bind (bare_from_payload v (Some a)) (\<lambda>n.
       attach_payloads (h[a := (h ! a)\<lparr>children := children (h ! a) @ [length h]\<rparr>] @ [n]) a vs ((length h, v) # pending))"

text \<open>The number of dictionaries in a value bounds the rebuild loop: each pass consumes one.\<close>

fun dict_count :: "pyval \<Rightarrow> nat" where
  "dict_count (VList xs) = sum_list (map dict_count xs)"
| "dict_count (VDict d) = Suc (sum_list (map (\<lambda>e. dict_count (snd e)) d))"
| "dict_count v = 0"

lemma dict_count_get: "dict_get d k = Some v \<Longrightarrow> dict_count v \<le> sum_list (map (\<lambda>e. dict_count (snd e)) d)"
  by (induction d) (auto split: if_splits)

lemma attach_payloads_pending: "attach_payloads h a vs pending = Inr (h', pending') \<Longrightarrow> map snd pending' = rev vs @ map snd pending"
  by (induction vs arbitrary: h pending) (auto simp: sum_bind_Inr)

lemma py_iter_count: "py_iter v = Inr vs \<Longrightarrow> sum_list (map dict_count vs) \<le> dict_count v"
  by (cases v) (auto simp: o_def)

lemma children_count:
  assumes "py_get v ''children'' (VList []) = Inr cv" "py_iter cv = Inr vs"
  shows "sum_list (map dict_count vs) < dict_count v"
proof -
  obtain d where v: "v = VDict d" using assms(1) by (cases v) auto
  have "dict_count cv \<le> sum_list (map (\<lambda>e. dict_count (snd e)) d)"
    using assms(1) v dict_count_get [of d "''children''" cv] by (cases "dict_get d ''children''") auto
  then show ?thesis using py_iter_count [OF assms(2)] v by simp
qed

function rebuild :: "heap \<Rightarrow> (addr \<times> pyval) list \<Rightarrow> exn + heap" where
  "rebuild h [] = Inr h"
| "rebuild h ((a, v) # pending) = (case py_get v ''children'' (VList []) of
       Inl e \<Rightarrow> Inl e
     | Inr cv \<Rightarrow> (case py_iter cv of
           Inl e \<Rightarrow> Inl e
         | Inr vs \<Rightarrow> (case attach_payloads h a vs pending of
               Inl e \<Rightarrow> Inl e
             | Inr (h', pending') \<Rightarrow> rebuild h' pending')))"
  by pat_completeness auto
termination
proof (relation "measure (\<lambda>(h, pending). sum_list (map (\<lambda>e. dict_count (snd e)) pending))", goal_cases)
  case (2 h a v pending cv vs x h' pending')
  have "map (\<lambda>e. dict_count (snd e)) pending' = map dict_count (rev vs @ map snd pending)"
    using attach_payloads_pending [of h a vs pending h' pending'] 2(3,4) by (metis (no_types, lifting) map_map comp_apply map_cong)
  then have "sum_list (map (\<lambda>e. dict_count (snd e)) pending') = sum_list (map dict_count vs) + sum_list (map (\<lambda>e. dict_count (snd e)) pending)"
    by (simp add: rev_map [symmetric] sum_list_rev o_def)
  then show ?case using children_count [OF 2(1,2)] by simp
qed simp

definition node_from_dict :: "pyval \<Rightarrow> exn + heap" where
  "node_from_dict p = sum_bind (bare_from_payload p None) (\<lambda>n. rebuild [n] [(0, p)])"

text \<open>\<open>ThoughtTree.from_dict\<close> rebuilds the index from the restored nodes; \<open>None\<close> is a walk that does not end.\<close>

definition tree_from_dict :: "pyval \<Rightarrow> (exn + thought_tree) option" where
  "tree_from_dict p = (case sum_bind (py_index p ''root'') node_from_dict of
       Inl e \<Rightarrow> Some (Inl e)
     | Inr h \<Rightarrow> map_option (\<lambda>ds. Inr \<lparr>tree_heap = h, tree_root = 0,
           tree_index = fold (\<lambda>a ix. AList.update (node_id (h ! a)) a ix) ds []\<rparr>) (walk h 0))"

end
