(* ===== verification/Tree_Roundtrip.thy ===== *)
theory Tree_Roundtrip
  imports Tree_Documents
begin

section \<open>Round trip of tree documents\<close>

text \<open>
  The document of a represented tree is the nested form \<open>tree_doc\<close>. \<open>to_dict\<close> computes it on every
  well-formed heap, and the rebuild loop turns it back into a heap that represents a tree with the
  same document: the loop's stack is generalised to any list of pending documents.
\<close>

subsection \<open>to\_dict computes the document\<close>

fun tree_doc :: "heap \<Rightarrow> bool \<Rightarrow> rtree \<Rightarrow> pyval" where
  "tree_doc h m (RNode a ts) = node_doc m (h ! a) (map (tree_doc h m) ts)"

lemma rep_unique: "rep h t \<Longrightarrow> rep h u \<Longrightarrow> raddr t = raddr u \<Longrightarrow> t = u"
proof (induction t arbitrary: u)
  case (RNode a ts)
  obtain us where u: "u = RNode a us" using RNode.prems(3) by (cases u) simp
  have kids: "map raddr ts = map raddr us" "\<forall>t\<in>set ts. rep h t" "\<forall>t\<in>set us. rep h t" using RNode.prems u by auto
  have "ts = us"
  proof (rule nth_equalityI)
    show "length ts = length us" using kids(1) map_eq_imp_length_eq by blast
    fix i assume i: "i < length ts"
    then have "raddr (ts ! i) = raddr (us ! i)" using kids(1) by (metis nth_map map_eq_imp_length_eq)
    then show "ts ! i = us ! i" using RNode.IH [of "ts ! i" "us ! i"] kids(2,3) i \<open>length ts = length us\<close> by simp
  qed
  then show ?case using u by simp
qed

definition sound_payloads :: "heap \<Rightarrow> bool \<Rightarrow> (addr \<times> pyval) list \<Rightarrow> bool" where
  "sound_payloads h m ps \<longleftrightarrow> (\<forall>t. rep h t \<longrightarrow> map_of ps (raddr t) \<noteq> None \<longrightarrow> map_of ps (raddr t) = Some (tree_doc h m t))"

lemma payloads_of_sound:
  "sound_payloads h m ps \<Longrightarrow> \<forall>t\<in>set ts. rep h t \<and> map_of ps (raddr t) \<noteq> None \<Longrightarrow>
     payloads_of ps (map raddr ts) = Inr (map (tree_doc h m) ts)"
  by (induction ts) (auto simp: sound_payloads_def)

lemma sound_payloads_Cons:
  "sound_payloads h m ps \<Longrightarrow> rep h t \<Longrightarrow> sound_payloads h m ((raddr t, tree_doc h m t) # ps)"
proof -
  assume s: "sound_payloads h m ps" and t: "rep h t"
  have "tree_doc h m u = tree_doc h m t" if "rep h u" "raddr u = raddr t" for u using rep_unique [OF that(1) t that(2)] by simp
  then show ?thesis using s by (simp add: sound_payloads_def)
qed

definition loops_to :: "heap \<Rightarrow> bool \<Rightarrow> addr list \<Rightarrow> addr set \<Rightarrow> bool" where
  "loops_to h m as S \<longleftrightarrow> (\<forall>ps rest. sound_payloads h m ps \<longrightarrow> (\<exists>ps'. payload_loop h m (as @ rest) ps = payload_loop h m rest ps'
     \<and> sound_payloads h m ps' \<and> S \<union> dom (map_of ps) \<subseteq> dom (map_of ps')))"

lemma loops_to_list:
  "\<forall>t\<in>set ts. loops_to h m (rev (preorder t)) {raddr t} \<Longrightarrow> loops_to h m (rev (concat (map preorder ts))) (raddr ` set ts)"
proof (induction ts)
  case (Cons t ts)
  then have ih: "loops_to h m (rev (concat (map preorder ts))) (raddr ` set ts)" "loops_to h m (rev (preorder t)) {raddr t}" by auto
  show ?case unfolding loops_to_def
  proof (intro allI impI)
    fix ps rest assume s: "sound_payloads h m ps"
    obtain ps1 where 1: "payload_loop h m (rev (concat (map preorder ts)) @ rev (preorder t) @ rest) ps = payload_loop h m (rev (preorder t) @ rest) ps1"
      "sound_payloads h m ps1" "raddr ` set ts \<union> dom (map_of ps) \<subseteq> dom (map_of ps1)"
      using ih(1) s unfolding loops_to_def by blast
    obtain ps2 where 2: "payload_loop h m (rev (preorder t) @ rest) ps1 = payload_loop h m rest ps2"
      "sound_payloads h m ps2" "{raddr t} \<union> dom (map_of ps1) \<subseteq> dom (map_of ps2)"
      using ih(2) 1(2) unfolding loops_to_def by blast
    have "payload_loop h m (rev (concat (map preorder (t # ts))) @ rest) ps = payload_loop h m rest ps2" using 1(1) 2(1) by simp
    moreover have "raddr ` set (t # ts) \<union> dom (map_of ps) \<subseteq> dom (map_of ps2)"
    proof -
      have "raddr t \<in> dom (map_of ps2)" "dom (map_of ps1) \<subseteq> dom (map_of ps2)" using 2(3) by blast+
      then have "raddr ` set ts \<union> dom (map_of ps) \<subseteq> dom (map_of ps2)" using 1(3) by (rule_tac subset_trans)
      with \<open>raddr t \<in> dom (map_of ps2)\<close> show ?thesis by (simp del: domIff)
    qed
    ultimately show "\<exists>ps'. payload_loop h m (rev (concat (map preorder (t # ts))) @ rest) ps = payload_loop h m rest ps'
        \<and> sound_payloads h m ps' \<and> raddr ` set (t # ts) \<union> dom (map_of ps) \<subseteq> dom (map_of ps')"
      using 2(2) by blast
  qed
qed (auto simp: loops_to_def)

lemma payload_loop_tree: "rep h t \<Longrightarrow> loops_to h m (rev (preorder t)) {raddr t}"
proof (induction t)
  case (RNode a ts)
  have list: "loops_to h m (rev (concat (map preorder ts))) (raddr ` set ts)"
    by (rule loops_to_list) (use RNode in auto)
  show ?case unfolding loops_to_def
  proof (intro allI impI)
    fix ps rest assume s: "sound_payloads h m ps"
    obtain ps1 where 1: "payload_loop h m (rev (concat (map preorder ts)) @ a # rest) ps = payload_loop h m (a # rest) ps1"
      "sound_payloads h m ps1" "raddr ` set ts \<union> dom (map_of ps) \<subseteq> dom (map_of ps1)"
      using list s unfolding loops_to_def by blast
    have "payloads_of ps1 (children (h ! a)) = Inr (map (tree_doc h m) ts)"
      using payloads_of_sound [OF 1(2), of ts] RNode.prems 1(3) by (auto simp: dom_def)
    then have "payload_loop h m (a # rest) ps1 = payload_loop h m rest ((a, tree_doc h m (RNode a ts)) # ps1)" by simp
    moreover have "sound_payloads h m ((a, tree_doc h m (RNode a ts)) # ps1)"
      using sound_payloads_Cons [OF 1(2) RNode.prems] by simp
    ultimately show "\<exists>ps'. payload_loop h m (rev (preorder (RNode a ts)) @ rest) ps = payload_loop h m rest ps'
        \<and> sound_payloads h m ps' \<and> {raddr (RNode a ts)} \<union> dom (map_of ps) \<subseteq> dom (map_of ps')"
      using 1(1,3) by (intro exI [of _ "(a, tree_doc h m (RNode a ts)) # ps1"]) auto
  qed
qed

lemma node_to_dict_rep: "rep h t \<Longrightarrow> node_to_dict h (raddr t) m = Some (Inr (tree_doc h m t))"
proof -
  assume r: "rep h t"
  have "sound_payloads h m []" by (simp add: sound_payloads_def)
  then obtain ps where "payload_loop h m (rev (preorder t) @ []) [] = payload_loop h m [] ps"
    "sound_payloads h m ps" "raddr t \<in> dom (map_of ps)"
    using payload_loop_tree [OF r, of m] unfolding loops_to_def by blast
  then have "payload_loop h m (rev (preorder t)) [] = Inr ps" "map_of ps (raddr t) = Some (tree_doc h m t)"
    using r by (auto simp: sound_payloads_def)
  then show ?thesis by (simp add: node_to_dict_def walk_rep [OF r])
qed

subsection \<open>from\_dict rebuilds the document\<close>

definition restored :: "thought_node \<Rightarrow> addr option \<Rightarrow> thought_node" where
  "restored n par = n\<lparr>parent := par, children := [], value_sum := py_round (value_sum n) 6, score := py_round (score n) 6\<rparr>"

lemma bare_node_doc: "bare_from_payload (node_doc True n kids) par = Inr (restored n par)"
  by (cases "metadata n = []") (simp_all add: bare_from_payload_def node_doc_def restored_def read_status_def)

lemma node_doc_children: "py_get (node_doc True n kids) ''children'' d = Inr (VList kids)"
  by (simp add: node_doc_def)

lemma node_doc_keep [simp]:
  "node_doc m (restored n par) kids = node_doc m n kids" "node_doc m (n\<lparr>children := cs\<rparr>) kids = node_doc m n kids"
  by (simp_all add: node_doc_def restored_def)

lemma restored_fields [simp]: "children (restored n par) = []" "parent (restored n par) = par" "depth (restored n par) = depth n"
  by (simp_all add: restored_def)

lemma node_doc_eq:
  assumes "node_doc True n ks = node_doc True n' ks'"
  shows "node_id n = node_id n'" "depth n = depth n'" "content n = content n'" "status n = status n'" "ks = ks'"
proof -
  show "node_id n = node_id n'" "depth n = depth n'" "content n = content n'" "ks = ks'" using assms by (simp_all add: node_doc_def)
  have "status_value (status n) = status_value (status n')" using assms by (simp add: node_doc_def)
  then show "status n = status n'" by (metis status_of_value_roundtrip sum.inject(2))
qed

lemma attach_spec:
  "a < length h \<Longrightarrow> attach_payloads h a (map (tree_doc g True) ts) pending =
     Inr (h[a := (h ! a)\<lparr>children := children (h ! a) @ [length h..<length h + length ts]\<rparr>]
            @ map (\<lambda>t. restored (g ! raddr t) (Some a)) ts,
          rev (zip [length h..<length h + length ts] (map (tree_doc g True) ts)) @ pending)"
proof (induction ts arbitrary: h pending)
  case Nil
  then show ?case by simp
next
  case (Cons t ts)
  obtain b us where t: "t = RNode b us" by (cases t)
  let ?h = "h[a := (h ! a)\<lparr>children := children (h ! a) @ [length h]\<rparr>] @ [restored (g ! b) (Some a)]"
  have len: "length ?h = Suc (length h)" by simp
  have up: "[length h..<length h + length (t # ts)] = length h # [Suc (length h)..<Suc (length h) + length ts]"
    using upt_conv_Cons [of "length h" "length h + length (t # ts)"] by simp
  have ih: "attach_payloads ?h a (map (tree_doc g True) ts) ((length h, tree_doc g True t) # pending) =
     Inr (?h[a := (?h ! a)\<lparr>children := children (?h ! a) @ [length ?h..<length ?h + length ts]\<rparr>]
            @ map (\<lambda>t. restored (g ! raddr t) (Some a)) ts,
          rev (zip [length ?h..<length ?h + length ts] (map (tree_doc g True) ts)) @ (length h, tree_doc g True t) # pending)"
    by (rule Cons.IH) (use Cons.prems in simp)
  have heap: "?h[a := (?h ! a)\<lparr>children := children (?h ! a) @ [length ?h..<length ?h + length ts]\<rparr>]
      = h[a := (h ! a)\<lparr>children := children (h ! a) @ [length h..<length h + length (t # ts)]\<rparr>] @ [restored (g ! b) (Some a)]"
    unfolding up len using Cons.prems by (simp add: nth_append list_update_append)
  show ?case using ih unfolding heap up by (simp add: t bare_node_doc)
qed


lemma attach_one_wf:
  assumes "wf_heap h" "a < length h" "depth n = depth (h ! a) + 1"
  shows "wf_heap (h[a := (h ! a)\<lparr>children := children (h ! a) @ [length h]\<rparr>] @ [restored n (Some a)])"
proof -
  obtain h' ch where at: "attach_child h a (content n) (node_id n) = (h', ch)" by fastforce
  have "shape h' = shape (h[a := (h ! a)\<lparr>children := children (h ! a) @ [length h]\<rparr>] @ [restored n (Some a)])"
    using at assms(2,3) by (auto simp: attach_child_def Let_def shape_def new_node_def restored_def map_update)
  then show ?thesis using attach_child_wf [OF assms(1,2) at] wf_heap_shape by blast
qed

lemma attach_wf:
  "attach_payloads h a (map (tree_doc g True) ts) pending = Inr (h', pending') \<Longrightarrow> wf_heap h \<Longrightarrow> a < length h \<Longrightarrow>
     \<forall>t\<in>set ts. depth (g ! raddr t) = depth (h ! a) + 1 \<Longrightarrow> wf_heap h'"
proof (induction ts arbitrary: h pending)
  case (Cons t ts)
  obtain b us where t: "t = RNode b us" by (cases t)
  let ?h = "h[a := (h ! a)\<lparr>children := children (h ! a) @ [length h]\<rparr>] @ [restored (g ! b) (Some a)]"
  have at: "attach_payloads ?h a (map (tree_doc g True) ts) ((length h, tree_doc g True t) # pending) = Inr (h', pending')"
    using Cons.prems(1) by (simp add: t bare_node_doc)
  have "wf_heap ?h" using Cons.prems(2-4) t by (intro attach_one_wf) simp_all
  then show ?case using Cons.IH [OF at] Cons.prems(3,4) by (simp add: nth_append)
qed simp

text \<open>What the rebuild loop owes its pending documents: each item is an allocated node that already
  carries its document's fields and still lacks its children.\<close>

definition item_ok :: "heap \<Rightarrow> heap \<Rightarrow> addr \<times> rtree \<Rightarrow> bool" where
  "item_ok g h e \<longleftrightarrow> (case e of (a, t) \<Rightarrow> rep g t \<and> a < length h \<and> children (h ! a) = []
     \<and> node_doc True (h ! a) [] = node_doc True (g ! raddr t) [])"

definition item_done :: "heap \<Rightarrow> heap \<Rightarrow> addr \<times> rtree \<Rightarrow> bool" where
  "item_done g h e \<longleftrightarrow> (case e of (a, t) \<Rightarrow> \<exists>u. rep h u \<and> raddr u = a \<and> tree_doc h True u = tree_doc g True t)"

definition orphan_free :: "heap \<Rightarrow> bool" where
  "orphan_free h \<longleftrightarrow> (\<forall>b. 0 < b \<longrightarrow> b < length h \<longrightarrow> parent (h ! b) \<noteq> None)"

lemma node_doc_swap: "node_doc m n [] = node_doc m n' [] \<Longrightarrow> node_doc m n ks = node_doc m n' ks"
  by (auto simp: node_doc_def)

lemma done_list:
  "\<forall>e\<in>set (zip as ts). item_done g h e \<Longrightarrow> length as = length ts \<Longrightarrow>
     \<exists>us. map raddr us = as \<and> (\<forall>u\<in>set us. rep h u) \<and> map (tree_doc h True) us = map (tree_doc g True) ts"
proof (induction as ts rule: list_induct2')
  case (4 a as t ts)
  then obtain us where us: "map raddr us = as" "\<forall>u\<in>set us. rep h u" "map (tree_doc h True) us = map (tree_doc g True) ts" by auto
  obtain u where "rep h u" "raddr u = a" "tree_doc h True u = tree_doc g True t" using 4(2) by (auto simp: item_done_def)
  then show ?case using us by (intro exI [of _ "u # us"]) simp
qed simp_all

definition pend :: "heap \<Rightarrow> (addr \<times> rtree) list \<Rightarrow> (addr \<times> pyval) list" where
  "pend g = map (\<lambda>(a, t). (a, tree_doc g True t))"

lemma pend_zip: "length as = length ts \<Longrightarrow> pend g (zip as ts) = zip as (map (tree_doc g True) ts)"
  by (simp add: pend_def zip_map2 split_def)

lemma pend_rev: "pend g (rev xs @ ys) = rev (pend g xs) @ pend g ys"
  by (simp add: pend_def rev_map)

lemma attach_items:
  assumes g: "wf_heap g" and item: "item_ok g h (a, RNode b ts)" and rest: "\<forall>e\<in>set rest. item_ok g h e \<and> fst e \<noteq> a"
    and h: "wf_heap h" "orphan_free h" and dist: "distinct (map fst rest)"
  obtains h1 where "attach_payloads h a (map (tree_doc g True) ts) (pend g rest)
      = Inr (h1, pend g (rev (zip [length h..<length h + length ts] ts) @ rest))"
    "\<forall>e\<in>set (rev (zip [length h..<length h + length ts] ts) @ rest). item_ok g h1 e \<and> fst e \<noteq> a"
    "distinct (map fst (rev (zip [length h..<length h + length ts] ts) @ rest))"
    "wf_heap h1" "orphan_free h1" "length h1 = length h + length ts" "children (h1 ! a) = [length h..<length h + length ts]"
    "node_doc True (h1 ! a) [] = node_doc True (g ! b) []" "\<And>c. c < length h \<Longrightarrow> c \<noteq> a \<Longrightarrow> h1 ! c = h ! c"
proof -
  let ?new = "[length h..<length h + length ts]"
  have i: "rep g (RNode b ts)" "a < length h" "children (h ! a) = []" "node_doc True (h ! a) [] = node_doc True (g ! b) []"
    using item by (auto simp: item_ok_def)
  let ?h1 = "h[a := (h ! a)\<lparr>children := ?new\<rparr>] @ map (\<lambda>t. restored (g ! raddr t) (Some a)) ts"
  have at: "attach_payloads h a (map (tree_doc g True) ts) (pend g rest)
      = Inr (?h1, rev (zip ?new (map (tree_doc g True) ts)) @ pend g rest)"
    using attach_spec [OF i(2), of g ts "pend g rest"] i(3) by simp
  have pend_eq: "rev (zip ?new (map (tree_doc g True) ts)) @ pend g rest = pend g (rev (zip ?new ts) @ rest)"
    by (simp add: pend_rev pend_zip)
  have old: "?h1 ! c = h ! c" if "c < length h" "c \<noteq> a" for c using that by (simp add: nth_append)
  have fresh: "?h1 ! (length h + j) = restored (g ! raddr (ts ! j)) (Some a)" if "j < length ts" for j
    using that by (simp add: nth_append)
  have oks: "item_ok g ?h1 e \<and> fst e \<noteq> a" if e: "e \<in> set (rev (zip ?new ts) @ rest)" for e
  proof (cases "e \<in> set rest")
    case True
    then have "item_ok g h e" "fst e \<noteq> a" using rest by auto
    then show ?thesis using old by (cases e) (simp add: item_ok_def)
  next
    case False
    then have "e \<in> set (zip ?new ts)" using e by simp
    then obtain j where j: "j < length ts" "e = (length h + j, ts ! j)" by (auto simp: set_zip)
    then have "rep g (ts ! j)" using i(1) by simp
    then show ?thesis using j i(2) fresh [OF j(1)] by (simp add: item_ok_def)
  qed
  have "fst e < length h" if "e \<in> set rest" for e using rest that by (cases e) (auto simp: item_ok_def)
  then have dist': "distinct (map fst (rev (zip ?new ts) @ rest))"
    using dist by (fastforce simp: rev_map [symmetric])
  have dep: "\<forall>t\<in>set ts. depth (g ! raddr t) = depth (h ! a) + 1"
  proof
    fix t assume "t \<in> set ts"
    then have "raddr t \<in> set (children (g ! b))" using i(1) by auto
    moreover have "depth (h ! a) = depth (g ! b)" using node_doc_eq(2) [OF i(4)] .
    ultimately show "depth (g ! raddr t) = depth (h ! a) + 1" using wf_heapD(5) [OF g, of b] i(1) by simp
  qed
  have "orphan_free ?h1" using h(2) i(2)
    unfolding orphan_free_def by (auto simp: nth_append nth_list_update)
  then show thesis
    using that [of ?h1] at pend_eq oks dist' attach_wf [OF at h(1) i(2) dep] i(2,4) old by (simp add: nth_append)
qed

lemma rebuild_spec:
  assumes "wf_heap g" "wf_heap h" "orphan_free h" "distinct (map fst items)" "\<forall>e\<in>set items. item_ok g h e"
  shows "\<exists>h'. rebuild h (pend g items) = Inr h' \<and> wf_heap h' \<and> orphan_free h' \<and> length h \<le> length h'
    \<and> (\<forall>e\<in>set items. item_done g h' e) \<and> (\<forall>c<length h. c \<notin> fst ` set items \<longrightarrow> h' ! c = h ! c)"
  using assms(2-5)
proof (induction "sum_list (map (\<lambda>e. length (preorder (snd e))) items)" arbitrary: h items rule: less_induct)
  case less
  show ?case
  proof (cases items)
    case Nil
    then show ?thesis using less.prems by (simp add: pend_def)
  next
    case (Cons e rest)
    obtain a b ts where e: "e = (a, RNode b ts)" by (metis rtree.exhaust surj_pair)
    have item: "item_ok g h (a, RNode b ts)" and others: "\<forall>e\<in>set rest. item_ok g h e \<and> fst e \<noteq> a"
      and dist: "distinct (map fst rest)" using less.prems Cons e by force+
    let ?new = "[length h..<length h + length ts]" and ?next = "rev (zip [length h..<length h + length ts] ts) @ rest"
    obtain h1 where at: "attach_payloads h a (map (tree_doc g True) ts) (pend g rest) = Inr (h1, pend g ?next)"
      and ok1: "\<forall>e\<in>set ?next. item_ok g h1 e \<and> fst e \<noteq> a" and d1: "distinct (map fst ?next)"
      and w1: "wf_heap h1" "orphan_free h1" "length h1 = length h + length ts" "children (h1 ! a) = ?new"
        "node_doc True (h1 ! a) [] = node_doc True (g ! b) []" "\<And>c. c < length h \<Longrightarrow> c \<noteq> a \<Longrightarrow> h1 ! c = h ! c"
      using attach_items [OF assms(1) item others less.prems(1,2) dist] by metis
    have "map (\<lambda>e. length (preorder (snd e))) (zip ?new ts) = map (\<lambda>t. length (preorder t)) ts"
      by (rule nth_equalityI) simp_all
    then have size: "sum_list (map (\<lambda>e. length (preorder (snd e))) ?next) < sum_list (map (\<lambda>e. length (preorder (snd e))) items)"
      by (simp add: Cons e rev_map [symmetric] length_concat comp_def)
    have "\<forall>e\<in>set ?next. item_ok g h1 e" using ok1 by blast
    then obtain h' where h': "rebuild h1 (pend g ?next) = Inr h'" "wf_heap h'" "orphan_free h'" "length h1 \<le> length h'"
      "\<forall>e\<in>set ?next. item_done g h' e" "\<forall>c<length h1. c \<notin> fst ` set ?next \<longrightarrow> h' ! c = h1 ! c"
      using less.hyps [OF size w1(1,2) d1] by blast
    have al: "a < length h" using item by (simp add: item_ok_def)
    have a1: "a < length h1" using al w1(3) by linarith
    have "a \<notin> fst ` set ?next" using ok1 by blast
    then have ha: "h' ! a = h1 ! a" using h'(6) a1 by blast
    have "rebuild h (pend g items) = Inr h'" using at h'(1) by (simp add: Cons e pend_def node_doc_children)
    moreover have "item_done g h' (a, RNode b ts)"
    proof -
      have "\<forall>e\<in>set (zip ?new ts). item_done g h' e" using h'(5) by simp
      then obtain us where us: "map raddr us = ?new" "\<forall>u\<in>set us. rep h' u" "map (tree_doc h' True) us = map (tree_doc g True) ts"
        using done_list [of ?new ts g h'] by auto
      then have "tree_doc h' True (RNode a us) = tree_doc g True (RNode b ts)" using node_doc_swap [OF w1(5)] ha by simp
      moreover have "rep h' (RNode a us)" using us ha w1(3,4) al h'(4) by simp
      ultimately show ?thesis by (auto simp: item_done_def intro!: exI [of _ "RNode a us"])
    qed
    moreover have "h' ! c = h ! c" if c: "c < length h" "c \<notin> fst ` set items" for c
    proof -
      have "c \<notin> fst ` set ?next" using c unfolding Cons e by (auto simp: set_zip)
      then show ?thesis using h'(6) w1(3,6) c Cons e by simp
    qed
    ultimately show ?thesis using h'(2,3,4,5) w1(3) by (intro exI [of _ h']) (auto simp: Cons e)
  qed
qed

subsection \<open>Documents determine trees\<close>

text \<open>Whatever of a node the document holds is the same, in preorder.\<close>

lemma doc_fields:
  assumes field: "\<And>n n' :: thought_node. node_doc True n [] = node_doc True n' [] \<Longrightarrow> f n = f n'"
  shows "tree_doc h True u = tree_doc g True t \<Longrightarrow> map (\<lambda>a. f (h ! a)) (preorder u) = map (\<lambda>a. f (g ! a)) (preorder t)"
proof (induction u arbitrary: t)
  case (RNode a us)
  obtain b ts where t: "t = RNode b ts" by (cases t)
  have eq: "node_doc True (h ! a) (map (tree_doc h True) us) = node_doc True (g ! b) (map (tree_doc g True) ts)"
    using RNode.prems t by simp
  note kids = node_doc_eq(5) [OF eq]
  have "node_doc True (h ! a) [] = node_doc True (g ! b) []" using eq by (auto simp: node_doc_def)
  then have head: "f (h ! a) = f (g ! b)" by (rule field)
  have len: "length us = length ts" using map_eq_imp_length_eq [OF kids] .
  have each: "map (\<lambda>a. f (h ! a)) (preorder (us ! i)) = map (\<lambda>a. f (g ! a)) (preorder (ts ! i))" if i: "i < length us" for i
    using RNode.IH [of "us ! i" "ts ! i"] arg_cong [OF kids, of "\<lambda>xs. xs ! i"] i len by simp
  have "map (\<lambda>u. map (\<lambda>a. f (h ! a)) (preorder u)) us = map (\<lambda>t. map (\<lambda>a. f (g ! a)) (preorder t)) ts"
    using each len by (intro nth_equalityI) simp_all
  then show ?case using head by (simp add: t map_concat comp_def)
qed

definition same_fields :: "thought_node \<Rightarrow> thought_node \<Rightarrow> bool" where
  "same_fields n n' \<longleftrightarrow> node_doc True n [] = node_doc True n' []"

lemma same_fieldsD:
  assumes "same_fields n n'"
  shows "node_id n = node_id n'" "content n = content n'" "status n = status n'" "depth n = depth n'" "metadata n = metadata n'"
  using node_doc_eq [of n "[]" n' "[]"] assms by (simp_all add: same_fields_def) (simp add: node_doc_def)

lemma index_of_walk:
  "distinct (map fst ix @ map (\<lambda>a. node_id (h ! a)) ds) \<Longrightarrow>
     fold (\<lambda>a ix. AList.update (node_id (h ! a)) a ix) ds ix = ix @ map (\<lambda>a. (node_id (h ! a), a)) ds"
  by (induction ds arbitrary: ix) (simp_all add: alist_update_fresh)

lemma orphan_below:
  assumes "wf_heap h" "orphan_free h" "0 < length h" shows "a < length h \<Longrightarrow> below h 0 a"
proof (induction a rule: less_induct)
  case (less a)
  show ?case
  proof (cases "a = 0")
    case False
    then obtain p where p: "parent (h ! a) = Some p" using assms(2) less.prems unfolding orphan_free_def by blast
    then have "p < a" "a \<in> set (children (h ! p))" using wf_heapD(6,7) [OF assms(1) less.prems] by auto
    then show ?thesis using less.IH [of p] less.prems below.child by (metis dual_order.strict_trans)
  qed (simp add: below.self)
qed

lemma restored_tree:
  assumes wf: "wf_heap h" "orphan_free h" and u: "rep h u" "raddr u = 0" and root: "parent (h ! 0) = None"
    and ids: "distinct (map (\<lambda>a. node_id (h ! a)) (preorder u))"
  shows "wf_tree \<lparr>tree_heap = h, tree_root = 0, tree_index = map (\<lambda>a. (node_id (h ! a), a)) (preorder u)\<rparr>"
proof -
  have l: "0 < length h" using u by (cases u) auto
  have all: "a \<in> set (preorder u) \<longleftrightarrow> a < length h" for a
    using set_preorder [OF u(1)] u(2) orphan_below [OF wf l] below_ge [OF wf(1) l] by auto
  have "set (map (\<lambda>a. (node_id (h ! a), a)) (preorder u)) = {(node_id (h ! a), a) |a. a < length h}"
    using all by auto
  moreover have "parent (h ! a) = None \<longleftrightarrow> a = 0" if "a < length h" for a
    using wf(2) that root unfolding orphan_free_def by auto
  moreover have "distinct (map fst (map (\<lambda>a. (node_id (h ! a), a)) (preorder u)))" using ids by (simp add: comp_def)
  ultimately show ?thesis using wf(1) l by (simp add: wf_tree_def)
qed

lemma tree_restored:
  assumes "wf_tree t"
  shows "\<exists>doc t'. tree_to_dict t True = Some (Inr doc) \<and> tree_from_dict doc = Some (Inr t') \<and> wf_tree t'
    \<and> tree_len t' = tree_len t \<and> tree_to_dict t' True = Some (Inr doc)
    \<and> content (tree_heap t' ! tree_root t') = content (tree_heap t ! tree_root t)
    \<and> (\<forall>a<length (tree_heap t). \<exists>b<length (tree_heap t'). same_fields (tree_heap t' ! b) (tree_heap t ! a))
    \<and> (\<exists>ns ns'. nodes t = Some ns \<and> nodes t' = Some ns' \<and> map (\<lambda>a. node_doc True (tree_heap t' ! a) []) ns'
          = map (\<lambda>a. node_doc True (tree_heap t ! a) []) ns)"
proof -
  let ?g = "tree_heap t"
  note w = wf_treeD [OF assms]
  obtain r where r: "rep ?g r" "raddr r = tree_root t" using rep_exists [OF w(1,2)] by blast
  obtain b ts where rb: "r = RNode b ts" by (cases r)
  let ?n = "restored (?g ! b) None"
  have wf1: "wf_heap [?n]" "orphan_free [?n]" by (simp_all add: wf_heap_def orphan_free_def)
  have ok: "\<forall>e\<in>set [(0, r)]. item_ok ?g [?n] e" using r(1) rb by (simp add: item_ok_def)
  obtain h u where h: "rebuild [?n] (pend ?g [(0, r)]) = Inr h" "wf_heap h" "orphan_free h" "1 \<le> length h"
    "rep h u" "raddr u = 0" "tree_doc h True u = tree_doc ?g True r"
    using rebuild_spec [OF w(1) wf1 _ ok] by (auto simp: item_done_def)
  let ?t = "\<lparr>tree_heap = h, tree_root = 0, tree_index = map (\<lambda>a. (node_id (h ! a), a)) (preorder u)\<rparr>"
  have ids: "map (\<lambda>a. node_id (h ! a)) (preorder u) = map (\<lambda>a. node_id (?g ! a)) (preorder r)" by (rule doc_fields [OF _ h(7)]) (rule node_doc_eq(1))
  have inj: "inj_on (\<lambda>a. node_id (?g ! a)) (set (preorder r))"
    unfolding inj_on_def using wf_tree_ids [OF assms] set_preorder [OF r(1)] below_ge [OF w(1,2)] r(2) by metis
  have all: "a \<in> set (preorder r) \<longleftrightarrow> a < length ?g" for a
    using set_preorder [OF r(1)] r(2) wf_tree_below_root [OF assms] below_ge [OF w(1,2)] by metis
  have dist: "distinct (map (\<lambda>a. node_id (h ! a)) (preorder u))"
    unfolding ids distinct_map using inj distinct_preorder [OF w(1) r(1)] by blast
  have root: "parent (h ! 0) = None"
  proof (cases "parent (h ! 0)")
    case (Some p)
    have "0 < length h" using h(4) by linarith
    then show ?thesis using wf_heapD(6) [OF h(2) _ Some] by blast
  qed
  have "wf_tree ?t" by (rule restored_tree [OF h(2,3,5,6) root dist])
  moreover have len: "length (preorder u) = tree_len t"
  proof -
    have "set (preorder r) = {..<length ?g}" using all by auto
    then have "length (preorder r) = length ?g" using distinct_card [OF distinct_preorder [OF w(1) r(1)]] by simp
    then show ?thesis using map_eq_imp_length_eq [OF ids] wf_tree_len [OF assms] by simp
  qed
  moreover have doc: "tree_to_dict t True = Some (Inr (VDict [(''size'', VInt (int (tree_len t))), (''root'', tree_doc ?g True r)]))"
    using node_to_dict_rep [OF r(1), of True] r(2) by (simp add: tree_to_dict_def)
  moreover have "tree_to_dict ?t True = tree_to_dict t True"
    using node_to_dict_rep [OF h(5), of True] h(6,7) len unfolding doc by (simp add: tree_to_dict_def tree_len_def)
  moreover have "tree_from_dict (VDict [(''size'', VInt (int (tree_len t))), (''root'', tree_doc ?g True r)]) = Some (Inr ?t)"
  proof -
    have "node_from_dict (tree_doc ?g True r) = Inr h"
      using h(1) by (simp add: node_from_dict_def rb bare_node_doc pend_def)
    moreover have "walk h 0 = Some (preorder u)" using walk_rep [OF h(5)] h(6) by simp
    ultimately show ?thesis using index_of_walk [of "[]" h "preorder u"] dist by (simp add: tree_from_dict_def)
  qed
  moreover have "content (h ! 0) = content (?g ! tree_root t)"
  proof -
    obtain us where u: "u = RNode 0 us" using h(6) by (cases u) simp
    show ?thesis using h(7) r(2) node_doc_eq(3) [of "h ! 0" "map (tree_doc h True) us" "?g ! b"] u rb by simp
  qed
  moreover have docs: "map (\<lambda>a. node_doc True (h ! a) []) (preorder u) = map (\<lambda>a. node_doc True (?g ! a) []) (preorder r)"
    by (rule doc_fields [OF _ h(7)])
  moreover have "\<exists>c<length h. same_fields (h ! c) (?g ! a)" if a: "a < length ?g" for a
  proof -
    have "a \<in> set (preorder r)" using all a by simp
    then have "node_doc True (?g ! a) [] \<in> set (map (\<lambda>a. node_doc True (h ! a) []) (preorder u))" unfolding docs by simp
    then obtain c where c: "c \<in> set (preorder u)" "node_doc True (h ! c) [] = node_doc True (?g ! a) []" by auto
    have "0 < length h" using h(4) by linarith
    then have "c < length h" using c(1) set_preorder [OF h(5)] h(6) below_ge [OF h(2)] by metis
    then show ?thesis using c unfolding same_fields_def by blast
  qed
  moreover have "nodes t = Some (preorder r)" "nodes ?t = Some (preorder u)"
    using walk_rep [OF r(1)] walk_rep [OF h(5)] r(2) h(6) by (simp_all add: nodes_def)
  ultimately show ?thesis
    by (intro exI [of _ "VDict [(''size'', VInt (int (tree_len t))), (''root'', tree_doc ?g True r)]"] exI [of _ ?t])
      (simp add: tree_len_def)
qed

text \<open>C26: Serializing a tree and rebuilding it loses nothing that is serialized. For every well-formed
  tree \<open>to_dict\<close> produces a document, \<open>from_dict\<close> accepts that document, the tree it rebuilds
  is well formed again, has as many nodes, and serializes to the very same document; so every node's
  identifier, content, status, depth, visits, rounded values, rationale, metadata and the order of
  the children survive, although the nodes are allocated in another order.\<close>

theorem tree_round_trip:
  assumes "wf_tree t"
  shows "\<exists>doc t'. tree_to_dict t True = Some (Inr doc) \<and> tree_from_dict doc = Some (Inr t') \<and> wf_tree t'
    \<and> tree_len t' = tree_len t \<and> tree_to_dict t' True = Some (Inr doc)"
  using tree_restored [OF assms] by blast

theorem tree_round_trip_witness:
  "\<exists>doc t'. tree_to_dict (new_tree ''problem'' ''r'') True = Some (Inr doc) \<and> tree_from_dict doc = Some (Inr t') \<and> wf_tree t'
    \<and> tree_len t' = tree_len (new_tree ''problem'' ''r'') \<and> tree_to_dict t' True = Some (Inr doc)"
  by (rule tree_round_trip [OF wf_new_tree])
end
