(* ===== verification/Archive.thy ===== *)
theory Archive
  imports Tree_Roundtrip
begin

section \<open>Archives of completed runs (persistence/archive.py)\<close>

text \<open>
  A run result becomes a versioned document and is read back from one. The JSON library and the
  file system are arguments: \<open>dumps\<close> and \<open>loads\<close> are \<open>json.dumps\<close> and \<open>json.loads\<close>, \<open>write\<close>
  (which makes the parent directories) and \<open>read\<close> act on a file system of any type. \<open>now\<close> is the
  time stamp of the archive. \<open>fr\<close> prints floats and containers. \<open>error\<close> and \<open>note\<close> are typed fields
  here: where Python would store another value, the model raises TypeError.
\<close>

definition ARCHIVE_FORMAT :: string where
  "ARCHIVE_FORMAT = ''cognitivetree-run''"

definition ARCHIVE_VERSION :: int where
  "ARCHIVE_VERSION = 1"

record run_archive =
  archived_result :: search_result
  archived_metrics :: pyval
  saved_at :: pyval
  archive_version :: pyval

definition archive_task :: "run_archive \<Rightarrow> string" where
  "archive_task a = content (tree_heap (result_tree (archived_result a)) ! tree_root (result_tree (archived_result a)))"

subsection \<open>Writing\<close>

definition transition_doc :: "phase_transition \<Rightarrow> pyval" where
  "transition_doc tr = VDict [(''source'', VStr (phase_value (source tr))), (''target'', VStr (phase_value (target tr))),
     (''note'', VStr (trans_note tr)), (''timestamp'', VFloat (timestamp tr))]"

definition path_ids :: "search_result \<Rightarrow> string list" where
  "path_ids r = map (\<lambda>a. node_id (tree_heap (result_tree r) ! a)) (result_path r)"

definition archive_fields :: "search_result \<Rightarrow> pyval \<Rightarrow> string \<Rightarrow> pyval \<Rightarrow> dict" where
  "archive_fields r metrics now tree_payload =
     [(''format'', VStr ARCHIVE_FORMAT), (''version'', VInt ARCHIVE_VERSION), (''saved_at'', VStr now),
      (''task'', VStr (content (tree_heap (result_tree r) ! tree_root (result_tree r)))),
      (''outcome'', VStr (outcome_value (outcome r))), (''iterations'', VInt (iterations r)),
      (''node_count'', VInt (node_count r)), (''error'', VStr (result_error r)),
      (''best_path'', VList (map VStr (path_ids r))), (''tree'', tree_payload),
      (''phase_history'', VList (map transition_doc (phase_history r))), (''metrics'', metrics)]"

definition result_to_archive_document :: "search_result \<Rightarrow> pyval \<Rightarrow> string \<Rightarrow> (exn + pyval) option" where
  "result_to_archive_document r metrics now = map_option (\<lambda>d. sum_bind d (\<lambda>v. Inr (VDict (archive_fields r metrics now v))))
     (tree_to_dict (result_tree r) True)"

definition save_run :: "(pyval \<Rightarrow> exn + string) \<Rightarrow> (string \<Rightarrow> string \<Rightarrow> 'f \<Rightarrow> exn + 'f) \<Rightarrow> search_result \<Rightarrow> string \<Rightarrow> pyval
    \<Rightarrow> string \<Rightarrow> 'f \<Rightarrow> (exn + 'f) option" where
  "save_run dumps write r path metrics now fs =
     map_option (\<lambda>d. sum_bind d (\<lambda>doc. sum_bind (dumps doc) (\<lambda>text. write path text fs))) (result_to_archive_document r metrics now)"

subsection \<open>Reading\<close>

definition outcome_of_value :: "string \<Rightarrow> exn + search_outcome" where
  "outcome_of_value v = (case List.find (\<lambda>s. outcome_value s = v)
        [OUT_SUCCEEDED, OUT_EXHAUSTED, OUT_FAILED, OUT_TIMED_OUT, OUT_BUDGET_EXHAUSTED, OUT_CANCELLED] of
       Some s \<Rightarrow> Inr s
     | None \<Rightarrow> Inl (Exn ValueError (py_repr v @ '' is not a valid SearchOutcome'')))"

text \<open>An enumeration looked up by a value of any type.\<close>

definition read_enum :: "string \<Rightarrow> (string \<Rightarrow> exn + 'a) \<Rightarrow> pyval \<Rightarrow> exn + 'a" where
  "read_enum name of_value v = (case v of VStr s \<Rightarrow> of_value s
     | _ \<Rightarrow> Inl (Exn ValueError (type_name v @ '' is not a valid '' @ name)))"

fun read_each :: "('a \<Rightarrow> exn + 'b) \<Rightarrow> 'a list \<Rightarrow> exn + 'b list" where
  "read_each f [] = Inr []"
| "read_each f (x # xs) = sum_bind (f x) (\<lambda>y. sum_bind (read_each f xs) (\<lambda>ys. Inr (y # ys)))"

definition read_transition :: "pyval \<Rightarrow> exn + phase_transition" where
  "read_transition v =
     sum_bind (py_index v ''source'') (\<lambda>v1. sum_bind (read_enum ''SearchPhase'' phase_of_value v1) (\<lambda>src.
     sum_bind (py_index v ''target'') (\<lambda>v2. sum_bind (read_enum ''SearchPhase'' phase_of_value v2) (\<lambda>tgt.
     sum_bind (py_get v ''note'' (VStr [])) (\<lambda>v3. sum_bind (as_str v3) (\<lambda>nt.
     sum_bind (py_index v ''timestamp'') (\<lambda>v4. sum_bind (py_float v4) (\<lambda>stamp.
       Inr \<lparr>source = src, target = tgt, trans_note = nt, timestamp = stamp\<rparr>))))))))"

text \<open>\<open>tree.get(node_id)\<close> for a value of any type; lists and dictionaries are not hashable.\<close>

fun read_node :: "thought_tree \<Rightarrow> pyval \<Rightarrow> exn + addr" where
  "read_node t (VStr i) = tree_get t i"
| "read_node t (VList _) = Inl (Exn TypeError ''unhashable type: 'list' '')"
| "read_node t (VDict _) = Inl (Exn TypeError ''unhashable type: 'dict' '')"
| "read_node t v = Inl (Exn KeyError (''unknown node id '' @ type_name v))"

definition read_result :: "dict \<Rightarrow> thought_tree \<Rightarrow> exn + search_result" where
  "read_result d t =
     sum_bind (py_index (VDict d) ''outcome'') (\<lambda>v1. sum_bind (read_enum ''SearchOutcome'' outcome_of_value v1) (\<lambda>out.
     sum_bind (py_index (VDict d) ''phase_history'') (\<lambda>v2. sum_bind (py_iter v2) (\<lambda>es. sum_bind (read_each read_transition es) (\<lambda>hist.
     sum_bind (py_index (VDict d) ''best_path'') (\<lambda>v3. sum_bind (py_iter v3) (\<lambda>ids. sum_bind (read_each (read_node t) ids) (\<lambda>path.
     sum_bind (py_index (VDict d) ''iterations'') (\<lambda>v4. sum_bind (py_int v4) (\<lambda>its.
     sum_bind (py_index (VDict d) ''node_count'') (\<lambda>v5. sum_bind (py_int v5) (\<lambda>cnt.
     sum_bind (py_get (VDict d) ''error'' (VStr [])) (\<lambda>v6. sum_bind (as_str v6) (\<lambda>err.
       Inr \<lparr>outcome = out, result_path = path, iterations = its, node_count = cnt, phase_history = hist,
            result_tree = t, result_error = err\<rparr>))))))))))))))"

text \<open>The two \<open>except\<close> clauses: other exceptions pass.\<close>

definition archive_error :: "exn \<Rightarrow> exn" where
  "archive_error e =
     (if exn_kind e \<in> {KeyError, TypeError} then Exn ArchiveFormatError (''archive document is missing or malformed: '' @ exn_text e)
      else if exn_kind e \<in> {ValueError, JSONDecodeError, ArchiveFormatError}
        then Exn ArchiveFormatError (''archive document holds an invalid value: '' @ exn_text e)
      else e)"

fun rename_error :: "(exn \<Rightarrow> exn) \<Rightarrow> exn + 'a \<Rightarrow> exn + 'a" where
  "rename_error f (Inl e) = Inl (f e)"
| "rename_error f (Inr x) = Inr x"

definition repr_of :: "(pyval \<Rightarrow> string) \<Rightarrow> pyval \<Rightarrow> string" where
  "repr_of fr v = (case v of VStr s \<Rightarrow> py_repr s | _ \<Rightarrow> py_text fr v)"

definition dict_or :: "dict \<Rightarrow> string \<Rightarrow> pyval \<Rightarrow> pyval" where
  "dict_or d k dflt = (case dict_get d k of Some v \<Rightarrow> v | None \<Rightarrow> dflt)"

definition check_header :: "(pyval \<Rightarrow> string) \<Rightarrow> pyval \<Rightarrow> exn + dict" where
  "check_header fr doc = (case doc of
       VDict d \<Rightarrow>
         (if dict_or d ''format'' VNone \<noteq> VStr ARCHIVE_FORMAT then Inl (Exn ArchiveFormatError
            (''unrecognized archive format '' @ repr_of fr (dict_or d ''format'' VNone) @ ''; expected '' @ py_repr ARCHIVE_FORMAT))
          else if \<not> py_eq_int (dict_or d ''version'' VNone) ARCHIVE_VERSION then Inl (Exn ArchiveFormatError
            (''unsupported archive version '' @ repr_of fr (dict_or d ''version'' VNone) @ ''; this build reads version '' @ str_int ARCHIVE_VERSION))
          else Inr d)
     | _ \<Rightarrow> Inl (Exn ArchiveFormatError ''archive document must be a JSON object''))"

definition archive_body :: "dict \<Rightarrow> (exn + search_result) option" where
  "archive_body d = (case py_index (VDict d) ''tree'' of
       Inl e \<Rightarrow> Some (Inl e)
     | Inr v \<Rightarrow> map_option (\<lambda>r. sum_bind r (read_result d)) (tree_from_dict v))"

definition archive_from_document :: "(pyval \<Rightarrow> string) \<Rightarrow> pyval \<Rightarrow> (exn + run_archive) option" where
  "archive_from_document fr doc = (case check_header fr doc of
       Inl e \<Rightarrow> Some (Inl e)
     | Inr d \<Rightarrow> map_option (\<lambda>r. sum_bind (rename_error archive_error r) (\<lambda>res.
         Inr \<lparr>archived_result = res, archived_metrics = dict_or d ''metrics'' VNone,
              saved_at = dict_or d ''saved_at'' (VStr []), archive_version = dict_or d ''version'' VNone\<rparr>)) (archive_body d))"

definition load_run :: "(pyval \<Rightarrow> string) \<Rightarrow> (string \<Rightarrow> exn + pyval) \<Rightarrow> (string \<Rightarrow> 'f \<Rightarrow> exn + string) \<Rightarrow> string \<Rightarrow> 'f
    \<Rightarrow> (exn + run_archive) option" where
  "load_run fr loads read path fs = (case sum_bind (read path fs) (\<lambda>text. rename_error (\<lambda>e.
        if exn_kind e = JSONDecodeError then Exn ArchiveFormatError (path @ '' is not valid JSON: '' @ exn_text e) else e) (loads text)) of
       Inl e \<Rightarrow> Some (Inl e)
     | Inr doc \<Rightarrow> archive_from_document fr doc)"

end
