(* ===== verification/Archive_Theorems.thy ===== *)
theory Archive_Theorems
  imports Archive
begin

section \<open>Archived runs come back\<close>

text \<open>
  A result read back from its own archive reports the same run, and reading an arbitrary document
  ends with a result or with one of two exceptions. \<open>plain\<close> collects the reads that raise nothing
  else; the links of a rebuilt heap point forwards, so its walk ends whatever the document says.
\<close>

subsection \<open>Round trip\<close>

lemma outcome_of_value_roundtrip [simp]: "outcome_of_value (outcome_value s) = Inr s"
  by (cases s) (simp_all add: outcome_of_value_def)

lemma read_each_map: "(\<And>x. x \<in> set xs \<Longrightarrow> f (g x) = Inr (k x)) \<Longrightarrow> read_each f (map g xs) = Inr (map k xs)"
  by (induction xs) auto

lemma read_transition_doc: "read_transition (transition_doc tr) = Inr tr"
  by (cases tr) (simp add: read_transition_def transition_doc_def read_enum_def)

definition sound_result :: "search_result \<Rightarrow> bool" where
  "sound_result r \<longleftrightarrow> wf_tree (result_tree r) \<and> (\<forall>a\<in>set (result_path r). a < length (tree_heap (result_tree r)))"

text \<open>The address in another tree of the node with the same identifier.\<close>

definition moved :: "thought_tree \<Rightarrow> thought_tree \<Rightarrow> addr \<Rightarrow> addr" where
  "moved t t' a = the (map_of (tree_index t') (node_id (tree_heap t ! a)))"

lemma moved_eq: "wf_tree t' \<Longrightarrow> b < length (tree_heap t') \<Longrightarrow> node_id (tree_heap t' ! b) = node_id (tree_heap t ! a) \<Longrightarrow>
   moved t t' a = b \<and> tree_get t' (node_id (tree_heap t ! a)) = Inr b"
  using wf_tree_lookup [of t' "node_id (tree_heap t ! a)" b] by (simp add: moved_def tree_get_def)

lemma read_result_fields:
  assumes "\<And>a. a \<in> set (result_path r) \<Longrightarrow> tree_get t' (node_id (tree_heap (result_tree r) ! a)) = Inr (moved (result_tree r) t' a)"
  shows "read_result (archive_fields r m now v) t'
    = Inr (r\<lparr>result_path := map (moved (result_tree r) t') (result_path r), result_tree := t'\<rparr>)"
proof -
  have "read_each read_transition (map transition_doc (phase_history r)) = Inr (map id (phase_history r))"
    by (rule read_each_map) (simp add: read_transition_doc)
  moreover have "read_each (read_node t') (map (\<lambda>a. VStr (node_id (tree_heap (result_tree r) ! a))) (result_path r))
      = Inr (map (moved (result_tree r) t') (result_path r))"
    by (rule read_each_map) (simp add: assms)
  ultimately show ?thesis
    by (cases r) (simp add: read_result_def archive_fields_def read_enum_def path_ids_def comp_def)
qed

lemma check_header_fields: "check_header fr (VDict (archive_fields r m now v)) = Inr (archive_fields r m now v)"
  by (simp add: check_header_def archive_fields_def dict_or_def)

text \<open>Two results that tell the same run, each in its own tree.\<close>

definition same_run :: "search_result \<Rightarrow> search_result \<Rightarrow> bool" where
  "same_run r r' \<longleftrightarrow> outcome r' = outcome r \<and> iterations r' = iterations r \<and> node_count r' = node_count r
     \<and> phase_history r' = phase_history r \<and> result_error r' = result_error r
     \<and> list_all2 (\<lambda>b a. same_fields (tree_heap (result_tree r') ! b) (tree_heap (result_tree r) ! a)) (result_path r') (result_path r)
     \<and> content (tree_heap (result_tree r') ! tree_root (result_tree r')) = content (tree_heap (result_tree r) ! tree_root (result_tree r))
     \<and> (\<exists>ns ns'. nodes (result_tree r) = Some ns \<and> nodes (result_tree r') = Some ns'
          \<and> map (\<lambda>a. node_doc True (tree_heap (result_tree r') ! a) []) ns' = map (\<lambda>a. node_doc True (tree_heap (result_tree r) ! a) []) ns)"

lemma same_run_path: "same_run r r' \<Longrightarrow> path_ids r' = path_ids r"
proof -
  assume "same_run r r'"
  then have l: "list_all2 (\<lambda>b a. same_fields (tree_heap (result_tree r') ! b) (tree_heap (result_tree r) ! a)) (result_path r') (result_path r)"
    unfolding same_run_def by blast
  show ?thesis unfolding path_ids_def
    by (rule nth_equalityI) (use l in \<open>simp_all add: list_all2_conv_all_nth same_fieldsD(1)\<close>)
qed

lemma same_run_last:
  assumes "same_run r r'"
  shows "result_path r' = [] \<longleftrightarrow> result_path r = []"
    "result_path r \<noteq> [] \<Longrightarrow> same_fields (tree_heap (result_tree r') ! last (result_path r')) (tree_heap (result_tree r) ! last (result_path r))"
proof -
  have l: "list_all2 (\<lambda>b a. same_fields (tree_heap (result_tree r') ! b) (tree_heap (result_tree r) ! a)) (result_path r') (result_path r)"
    using assms unfolding same_run_def by blast
  then show empty: "result_path r' = [] \<longleftrightarrow> result_path r = []" by auto
  assume ne: "result_path r \<noteq> []"
  then have "last (result_path r') = result_path r' ! (length (result_path r') - 1)" "last (result_path r) = result_path r ! (length (result_path r) - 1)"
    using empty by (simp_all add: last_conv_nth)
  then show "same_fields (tree_heap (result_tree r') ! last (result_path r')) (tree_heap (result_tree r) ! last (result_path r))"
    using l ne by (simp add: list_all2_conv_all_nth)
qed

lemma same_run_solution: "same_run r r' \<Longrightarrow> solution r' = solution r"
  using same_run_last [of r r'] by (auto simp: solution_def same_run_def dest: same_fieldsD(2))

lemma archive_restored:
  assumes "sound_result r"
  shows "\<exists>doc a. result_to_archive_document r m now = Some (Inr doc) \<and> archive_from_document fr doc = Some (Inr a)
    \<and> same_run r (archived_result a) \<and> sound_result (archived_result a) \<and> saved_at a = VStr now \<and> archived_metrics a = m
    \<and> result_to_archive_document (archived_result a) m now = Some (Inr doc)"
proof -
  have wf: "wf_tree (result_tree r)" using assms by (simp add: sound_result_def)
  obtain v t' where t': "tree_to_dict (result_tree r) True = Some (Inr v)" "tree_from_dict v = Some (Inr t')" "wf_tree t'"
    "tree_to_dict t' True = Some (Inr v)"
    "content (tree_heap t' ! tree_root t') = content (tree_heap (result_tree r) ! tree_root (result_tree r))"
    "\<forall>a<length (tree_heap (result_tree r)). \<exists>b<length (tree_heap t'). same_fields (tree_heap t' ! b) (tree_heap (result_tree r) ! a)"
    "\<exists>ns ns'. nodes (result_tree r) = Some ns \<and> nodes t' = Some ns' \<and> map (\<lambda>a. node_doc True (tree_heap t' ! a) []) ns'
          = map (\<lambda>a. node_doc True (tree_heap (result_tree r) ! a) []) ns"
    using tree_restored [OF wf] by blast
  have node: "moved (result_tree r) t' a < length (tree_heap t') \<and> same_fields (tree_heap t' ! moved (result_tree r) t' a) (tree_heap (result_tree r) ! a)
      \<and> tree_get t' (node_id (tree_heap (result_tree r) ! a)) = Inr (moved (result_tree r) t' a)" if "a \<in> set (result_path r)" for a
  proof -
    have "a < length (tree_heap (result_tree r))" using assms that by (simp add: sound_result_def)
    then obtain b where "b < length (tree_heap t')" "same_fields (tree_heap t' ! b) (tree_heap (result_tree r) ! a)" using t'(6) by blast
    then show ?thesis using moved_eq [OF t'(3)] same_fieldsD(1) by metis
  qed
  let ?r = "r\<lparr>result_path := map (moved (result_tree r) t') (result_path r), result_tree := t'\<rparr>"
  let ?doc = "VDict (archive_fields r m now v)"
  let ?a = "\<lparr>archived_result = ?r, archived_metrics = m, saved_at = VStr now, archive_version = VInt ARCHIVE_VERSION\<rparr>"
  have "py_index ?doc ''tree'' = Inr v" by (simp add: archive_fields_def)
  then have "archive_body (archive_fields r m now v) = Some (Inr ?r)"
    using t'(2) read_result_fields [of r t' m now v] node by (simp add: archive_body_def)
  then have read: "archive_from_document fr ?doc = Some (Inr ?a)"
    by (simp add: archive_from_document_def check_header_fields) (simp add: archive_fields_def dict_or_def)
  have doc: "result_to_archive_document r m now = Some (Inr ?doc)" using t'(1) by (simp add: result_to_archive_document_def)
  have sound: "sound_result ?r" using t'(3) node by (simp add: sound_result_def)
  have same: "same_run r ?r" using t'(5,7) node by (simp add: same_run_def list_all2_map1 list.rel_refl_strong)
  have "result_to_archive_document ?r m now = Some (Inr ?doc)"
    using t'(4,5) same_run_path [OF same] by (simp add: result_to_archive_document_def archive_fields_def)
  then show ?thesis using read doc sound same by (intro exI [of _ ?doc] exI [of _ ?a]) simp
qed

text \<open>C27: An archived run comes back. The document made of a result whose tree is well formed is accepted by the
  reader, whose result has the same outcome, error, iteration and node counts, the same phase history (time
  stamps included), the same task, the same solution, the metrics and time stamp that were saved, and
  whose own archive document is the original one.\<close>

theorem archive_round_trip:
  assumes "sound_result r"
  shows "\<exists>doc a. result_to_archive_document r m now = Some (Inr doc) \<and> archive_from_document fr doc = Some (Inr a)
    \<and> sound_result (archived_result a) \<and> saved_at a = VStr now \<and> archived_metrics a = m
    \<and> archive_task a = content (tree_heap (result_tree r) ! tree_root (result_tree r))
    \<and> outcome (archived_result a) = outcome r \<and> result_error (archived_result a) = result_error r
    \<and> iterations (archived_result a) = iterations r \<and> node_count (archived_result a) = node_count r
    \<and> phase_history (archived_result a) = phase_history r \<and> solution (archived_result a) = solution r
    \<and> result_to_archive_document (archived_result a) m now = Some (Inr doc)"
proof -
  obtain doc a where a: "result_to_archive_document r m now = Some (Inr doc)" "archive_from_document fr doc = Some (Inr a)"
    "same_run r (archived_result a)" "sound_result (archived_result a)" "saved_at a = VStr now" "archived_metrics a = m"
    "result_to_archive_document (archived_result a) m now = Some (Inr doc)"
    using archive_restored [OF assms] by blast
  then show ?thesis using same_run_solution [OF a(3)]
    by (intro exI [of _ doc] exI [of _ a]) (simp add: same_run_def archive_task_def)
qed

text \<open>Every run's result is of that kind.\<close>

lemma best_path_sound: "wf_tree t \<Longrightarrow> best_path t = Some p \<Longrightarrow> a \<in> set p \<Longrightarrow> a < length (tree_heap t)"
proof -
  assume wf: "wf_tree t" and p: "best_path t = Some p" and a: "a \<in> set p"
  obtain r where r: "best_terminal t = Some r" "\<And>a. r = Some a \<Longrightarrow> a < length (tree_heap t)"
    using best_terminal_total [OF wf] by metis
  show ?thesis
  proof (cases r)
    case (Some b)
    obtain xs where "path_from_root (tree_heap t) b = Some xs" "\<And>c. c \<in> set xs \<longleftrightarrow> below (tree_heap t) c b \<and> c < length (tree_heap t)"
      using tree_path_total [OF wf r(2) [OF Some]] by metis
    then show ?thesis using r(1) Some p a by (simp add: best_path_def)
  next
    case None
    obtain xs where xs: "best_loop (tree_heap t) (tree_root t) [tree_root t] = Some ([tree_root t] @ xs)"
      "\<forall>x\<in>set xs. x < length (tree_heap t) \<and> is_live (tree_heap t ! x)"
      using best_loop_total [OF wf_treeD(1,2) [OF wf], of "[tree_root t]"] by blast
    then have "p = tree_root t # xs" using r(1) None p by (simp add: best_path_def)
    then show ?thesis using a xs(2) wf_treeD(2) [OF wf] by auto
  qed
qed

lemma run_sound:
  assumes "valid_config cfg" "inj (uid env)" "fst (run env cfg task w) = Ok res"
  shows "sound_result res"
proof -
  obtain s where s: "reports res s" "complete env cfg (result_error res) s" by (rule run_Ok [OF assms])
  have "wf_tree (tree s)" using partial_wf [OF complete_partial [OF s(2)]] .
  then show ?thesis using s(1) best_path_sound by (auto simp: sound_result_def reports_def)
qed

theorem archive_round_trip_witness:
  "\<exists>res doc a. fst (run (sample_env [''a''] 1 True) default_config ''t'' ()) = Ok res
    \<and> result_to_archive_document res VNone ''2024'' = Some (Inr doc) \<and> archive_from_document (\<lambda>_. []) doc = Some (Inr a)
    \<and> solution (archived_result a) = Some ''a''"
proof -
  obtain res where r: "fst (run (sample_env [''a''] 1 True) default_config ''t'' ()) = Ok res" "solution res = Some ''a''"
    using sample_success by blast
  show ?thesis
    using archive_round_trip [OF run_sound [OF valid_default_config sample_inj r(1)], of VNone "''2024''" "\<lambda>_. []"] r by metis
qed

subsection \<open>Malformed documents\<close>

definition plain :: "exn + 'a \<Rightarrow> bool" where
  "plain r \<longleftrightarrow> (\<forall>e. r = Inl e \<longrightarrow> exn_kind e \<in> {KeyError, TypeError, ValueError, OverflowError})"

lemma plain_Inr [simp]: "plain (Inr x)"
  by (simp add: plain_def)

lemma plain_bind: "plain m \<Longrightarrow> (\<And>x. m = Inr x \<Longrightarrow> plain (k x)) \<Longrightarrow> plain (sum_bind m k)"
  by (cases m) (simp_all add: plain_def)

lemma plain_reads [simp]:
  "plain (py_index v k)" "plain (py_iter v)" "plain (as_str v)" "plain (py_float v)" "plain (py_get (VDict d) k dflt)"
  by (cases v; simp add: plain_def split: option.split)+

lemma plain_int [simp]: "plain (py_int v)"
proof (cases v)
  case (VFloat x)
  then show ?thesis by (cases x) (simp_all add: plain_def)
qed (simp_all add: plain_def split: option.split)

lemma plain_dict [simp]: "plain (py_dict v)"
  by (cases v) (simp_all add: plain_def)

lemma plain_enum: "(\<And>s. plain (f s)) \<Longrightarrow> plain (read_enum name f v)"
  by (cases v) (simp_all add: read_enum_def plain_def)

lemma plain_values [simp]: "plain (phase_of_value s)" "plain (outcome_of_value s)" "plain (status_of_value s)"
  by (simp_all add: phase_of_value_def outcome_of_value_def status_of_value_def plain_def split: option.split)

lemma plain_status [simp]: "plain (read_status v)"
  by (cases v) (simp_all add: read_status_def, simp_all add: plain_def)

lemma plain_each: "(\<And>x. plain (f x)) \<Longrightarrow> plain (read_each f xs)"
  by (induction xs) (auto intro!: plain_bind)

lemma plain_node [simp]: "plain (read_node t v)"
  by (cases v) (simp_all add: plain_def tree_get_def split: option.split)

lemma index_dict: "py_index v k = Inr x \<Longrightarrow> \<exists>d. v = VDict d"
  by (cases v) auto

lemma plain_transition [simp]: "plain (read_transition v)"
proof (cases "\<exists>d. v = VDict d")
  case True
  then obtain d where "v = VDict d" by blast
  then show ?thesis unfolding read_transition_def
    by (intro plain_bind plain_enum) (simp_all del: py_index.simps py_get.simps)
next
  case False
  then show ?thesis by (cases v) (simp_all add: read_transition_def plain_def)
qed

lemma plain_result: "plain (read_result d t)"
  unfolding read_result_def
  by (intro plain_bind plain_enum plain_each) (simp_all del: py_index.simps py_get.simps)

lemma plain_bare: "plain (bare_from_payload v par)"
proof (cases "\<exists>d. v = VDict d")
  case True
  then obtain d where "v = VDict d" by blast
  then show ?thesis unfolding bare_from_payload_def
    by (intro plain_bind) (simp_all del: py_index.simps py_get.simps)
next
  case False
  then show ?thesis by (cases v) (simp_all add: bare_from_payload_def plain_def)
qed

lemma bare_dict: "bare_from_payload v par = Inr n \<Longrightarrow> \<exists>d. v = VDict d"
  unfolding bare_from_payload_def sum_bind_Inr using index_dict by blast

lemma bare_childless: "bare_from_payload v par = Inr n \<Longrightarrow> children n = []"
  unfolding bare_from_payload_def sum_bind_Inr by force

lemma attach_plain: "plain (attach_payloads h a vs pending)"
  by (induction vs arbitrary: h pending) (auto intro!: plain_bind plain_bare)

definition ready :: "heap \<Rightarrow> (addr \<times> pyval) list \<Rightarrow> bool" where
  "ready h pending \<longleftrightarrow> forward h \<and> (\<forall>e\<in>set pending. fst e < length h \<and> (\<exists>d. snd e = VDict d))"

lemma attach_one_forward:
  assumes "forward h" "a < length h" "children n = []"
  shows "forward (h[a := (h ! a)\<lparr>children := children (h ! a) @ [length h]\<rparr>] @ [n])"
proof -
  let ?h = "h[a := (h ! a)\<lparr>children := children (h ! a) @ [length h]\<rparr>] @ [n]"
  have kids: "children (?h ! b) = (if b = length h then [] else if b = a then children (h ! a) @ [length h] else children (h ! b))"
    if "b < length ?h" for b
    using that assms(2,3) by (simp add: nth_append nth_list_update)
  show ?thesis unfolding forward_def
  proof (intro allI impI ballI)
    fix b c assume b: "b < length ?h" and c: "c \<in> set (children (?h ! b))"
    have bl: "b < length h" using b c kids [OF b] by (cases "b = length h") auto
    then consider "c \<in> set (children (h ! b))" | "b = a" "c = length h"
      using c kids [OF b] by (auto split: if_splits)
    then show "b < c \<and> c < length ?h"
    proof cases
      case 1
      then have "b < c \<and> c < length h" using assms(1) bl unfolding forward_def by blast
      then show ?thesis by simp
    qed (use bl in simp)
  qed
qed

lemma attach_ready:
  "attach_payloads h a vs pending = Inr (h', pending') \<Longrightarrow> ready h pending \<Longrightarrow> a < length h \<Longrightarrow> ready h' pending' \<and> length h \<le> length h'"
proof (induction vs arbitrary: h pending)
  case (Cons v vs)
  obtain n where n: "bare_from_payload v (Some a) = Inr n"
    and rest: "attach_payloads (h[a := (h ! a)\<lparr>children := children (h ! a) @ [length h]\<rparr>] @ [n]) a vs ((length h, v) # pending) = Inr (h', pending')"
    using Cons.prems(1) by (auto simp: sum_bind_Inr)
  let ?h = "h[a := (h ! a)\<lparr>children := children (h ! a) @ [length h]\<rparr>] @ [n]"
  have "forward ?h" using Cons.prems(2,3) bare_childless [OF n] by (intro attach_one_forward) (simp_all add: ready_def)
  moreover have "fst e < length ?h \<and> (\<exists>d. snd e = VDict d)" if "e \<in> set ((length h, v) # pending)" for e
  proof (cases "e = (length h, v)")
    case True
    then show ?thesis using bare_dict [OF n] by simp
  next
    case False
    then have "e \<in> set pending" using that by simp
    then have "fst e < length h \<and> (\<exists>d. snd e = VDict d)" using Cons.prems(2) unfolding ready_def by blast
    then show ?thesis by auto
  qed
  ultimately have "ready ?h ((length h, v) # pending)" unfolding ready_def by blast
  then show ?case using Cons.IH [OF rest] Cons.prems(3) by simp
qed simp

lemma rebuild_ready:
  "ready h pending \<Longrightarrow> plain (rebuild h pending) \<and> (\<forall>h'. rebuild h pending = Inr h' \<longrightarrow> forward h' \<and> length h \<le> length h')"
proof (induction h pending rule: rebuild.induct)
  case (1 h)
  then show ?case by (simp add: ready_def)
next
  case (2 h a v pending)
  obtain d where v: "v = VDict d" and a: "a < length h" using 2(2) by (auto simp: ready_def)
  have rest: "ready h pending" using 2(2) by (simp add: ready_def)
  obtain cv where cv: "py_get v ''children'' (VList []) = Inr cv" using v by simp
  show ?case
  proof (cases "py_iter cv")
    case (Inl e)
    then show ?thesis using cv plain_reads(2) [of cv] by (simp add: plain_def)
  next
    case (Inr vs)
    show ?thesis
    proof (cases "attach_payloads h a vs pending")
      case (Inl e)
      then show ?thesis using cv Inr attach_plain [of h a vs pending] by (simp add: plain_def)
    next
      case at: (Inr p)
      obtain h1 pending1 where p: "p = (h1, pending1)" by (cases p)
      have h1: "ready h1 pending1" "length h \<le> length h1" using attach_ready at p rest a by blast+
      have "plain (rebuild h1 pending1) \<and> (\<forall>h'. rebuild h1 pending1 = Inr h' \<longrightarrow> forward h' \<and> length h1 \<le> length h')"
        using 2(1) [OF cv Inr at] p h1(1) by blast
      moreover have "rebuild h ((a, v) # pending) = rebuild h1 pending1" using cv Inr at p by simp
      ultimately show ?thesis using h1(2) order_trans by metis
    qed
  qed
qed

lemma tree_from_dict_plain: "\<exists>r. tree_from_dict v = Some r \<and> plain r"
proof -
  have "plain (node_from_dict p) \<and> (\<forall>h. node_from_dict p = Inr h \<longrightarrow> forward h \<and> 0 < length h)" for p
  proof (cases "bare_from_payload p None")
    case (Inl e)
    then show ?thesis using plain_bare [of p None] by (simp add: node_from_dict_def plain_def)
  next
    case (Inr n)
    have "ready [n] [(0, p)]" using bare_dict [OF Inr] bare_childless [OF Inr] by (simp add: ready_def forward_def)
    then have "plain (rebuild [n] [(0, p)]) \<and> (\<forall>h'. rebuild [n] [(0, p)] = Inr h' \<longrightarrow> forward h' \<and> length [n] \<le> length h')"
      by (rule rebuild_ready)
    moreover have "node_from_dict p = rebuild [n] [(0, p)]" using Inr by (simp add: node_from_dict_def)
    ultimately show ?thesis by (metis length_Cons less_le_trans zero_less_Suc)
  qed
  note nd = this
  show ?thesis
  proof (cases "sum_bind (py_index v ''root'') node_from_dict")
    case (Inl e)
    have "plain (sum_bind (py_index v ''root'') node_from_dict)" by (rule plain_bind) (use nd in \<open>simp_all del: py_index.simps\<close>)
    then show ?thesis using Inl by (simp add: tree_from_dict_def plain_def)
  next
    case (Inr h)
    then have "forward h" "0 < length h" using nd by (auto simp: sum_bind_Inr)
    then obtain t where "rep h t" "raddr t = 0" using rep_exists_forward by blast
    then show ?thesis using walk_rep [of h t] Inr by (simp add: tree_from_dict_def)
  qed
qed

text \<open>A document whose iteration count is infinite (Python's JSON reader accepts \<open>Infinity\<close> and \<open>1e999\<close>).\<close>

definition infinite_document :: pyval where
  "infinite_document = VDict [(''format'', VStr ARCHIVE_FORMAT), (''version'', VInt ARCHIVE_VERSION),
     (''tree'', VDict [(''root'', VDict [(''content'', VStr ''t''), (''depth'', VInt 0), (''id'', VStr ''r''), (''status'', VStr (status_value PENDING)),
        (''visits'', VInt 0), (''value_sum'', VInt 0), (''score'', VInt 0)])]),
     (''outcome'', VStr (outcome_value OUT_FAILED)), (''phase_history'', VList []), (''best_path'', VList []), (''iterations'', VFloat PInf)]"

lemma infinite_document_escapes:
  "archive_from_document fr infinite_document = Some (Inl (Exn OverflowError ''cannot convert float infinity to integer''))"
proof -
  obtain n where n: "bare_from_payload (VDict [(''content'', VStr ''t''), (''depth'', VInt 0), (''id'', VStr ''r''),
      (''status'', VStr (status_value PENDING)), (''visits'', VInt 0), (''value_sum'', VInt 0), (''score'', VInt 0)]) None = Inr n"
    "children n = []"
    by (simp add: bare_from_payload_def read_status_def float_limit_def del: status_value.simps)
  have "walk [n] 0 = Some [0]" using n(2) by (simp add: walk_def walk_loop.simps)
  then show ?thesis using n
    by (simp add: infinite_document_def archive_from_document_def check_header_def dict_or_def archive_body_def tree_from_dict_def
      node_from_dict_def read_result_def read_enum_def archive_error_def del: status_value.simps outcome_value.simps)
qed

lemma archive_outcomes:
  "\<exists>out. archive_from_document fr doc = Some out
     \<and> (\<forall>e. out = Inl e \<longrightarrow> exn_kind e = ArchiveFormatError \<or> exn_kind e = OverflowError)
     \<and> ((\<forall>d. doc \<noteq> VDict d) \<or> (\<exists>d. doc = VDict d \<and> (dict_or d ''format'' VNone \<noteq> VStr ARCHIVE_FORMAT
            \<or> \<not> py_eq_int (dict_or d ''version'' VNone) ARCHIVE_VERSION))
          \<longrightarrow> (\<exists>msg. out = Inl (Exn ArchiveFormatError msg)))"
proof (cases "check_header fr doc")
  case (Inl e)
  have "exn_kind e = ArchiveFormatError" using Inl by (cases doc) (auto simp: check_header_def split: if_splits)
  then show ?thesis using Inl by (cases e) (simp add: archive_from_document_def)
next
  case (Inr d)
  have good: "doc = VDict d \<and> dict_or d ''format'' VNone = VStr ARCHIVE_FORMAT \<and> py_eq_int (dict_or d ''version'' VNone) ARCHIVE_VERSION"
    using Inr by (cases doc) (auto simp: check_header_def split: if_splits)
  have "\<exists>r. archive_body d = Some r \<and> plain r"
  proof (cases "py_index (VDict d) ''tree''")
    case (Inl e)
    then show ?thesis using plain_reads(1) [of "VDict d" "''tree''"] by (simp add: archive_body_def plain_def del: py_index.simps)
  next
    case (Inr v)
    obtain r where "tree_from_dict v = Some r" "plain r" using tree_from_dict_plain by blast
    then show ?thesis using Inr plain_bind [of r "read_result d"] plain_result by (simp add: archive_body_def del: py_index.simps)
  qed
  then obtain r where r: "archive_body d = Some r" "plain r" by blast
  show ?thesis
  proof (cases r)
    case (Inl e)
    have "exn_kind (archive_error e) = ArchiveFormatError \<or> exn_kind (archive_error e) = OverflowError"
      using r(2) Inl by (auto simp: plain_def archive_error_def)
    then show ?thesis using r(1) Inl Inr good by (simp add: archive_from_document_def)
  next
    case res: (Inr x)
    then show ?thesis using r(1) Inr good by (simp add: archive_from_document_def)
  qed
qed

text \<open>C28: Reading an archive from an arbitrary document always ends. It yields a result or raises ArchiveFormatError
  or OverflowError; a document that is no object, or has another format or version, is always refused with
  ArchiveFormatError. (OverflowError is an infinite count or an integer time stamp beyond the double range, which
  neither \<open>except\<close> clause catches.)\<close>

theorem archive_errors:
  "\<exists>out. archive_from_document fr doc = Some out
     \<and> (\<forall>e. out = Inl e \<longrightarrow> exn_kind e = ArchiveFormatError \<or> exn_kind e = OverflowError)
     \<and> ((\<forall>d. doc \<noteq> VDict d) \<or> (\<exists>d. doc = VDict d \<and> (dict_or d ''format'' VNone \<noteq> VStr ARCHIVE_FORMAT
            \<or> \<not> py_eq_int (dict_or d ''version'' VNone) ARCHIVE_VERSION))
          \<longrightarrow> (\<exists>msg. out = Inl (Exn ArchiveFormatError msg)))
     \<and> archive_from_document fr infinite_document = Some (Inl (Exn OverflowError ''cannot convert float infinity to integer''))"
  using archive_outcomes [of fr doc] infinite_document_escapes [of fr] by (elim exE conjE) (intro exI conjI; assumption)


theorem archive_errors_witness:
  "\<exists>msg. archive_from_document (\<lambda>_. []) (VDict [(''format'', VStr ''zip'')]) = Some (Inl (Exn ArchiveFormatError msg))"
proof -
  have "dict_or [(''format'', VStr ''zip'')] ''format'' VNone \<noteq> VStr ARCHIVE_FORMAT" by (simp add: dict_or_def ARCHIVE_FORMAT_def)
  then show ?thesis using archive_errors [of "\<lambda>_. []" "VDict [(''format'', VStr ''zip'')]"] by blast
qed

end
