(* ===== verification/Metrics.thy ===== *)
theory Metrics
  imports Archive_Theorems
begin

section \<open>Run metrics (observability/metrics.py)\<close>

text \<open>
  \<open>RunMetrics.from_result\<close> projects a result onto counts and durations. Dictionaries are association
  lists in insertion order. A node's revision counter is read with \<open>int\<close> and may raise; the walk over
  the nodes is partial. The lemmas show that the figures add up to the run they describe.
\<close>

record run_metrics =
  metric_outcome :: string
  metric_iterations :: int
  metric_nodes :: int
  wall_time_seconds :: pyfloat
  solution_depth :: "int option"
  best_path_length :: int
  structural_backtracks :: int
  revision_backtracks :: int
  revisions_granted :: int
  status_counts :: "(string \<times> int) list"
  phase_counts :: "(string \<times> int) list"
  phase_seconds :: "(string \<times> pyfloat) list"
  metric_usage :: "token_usage option"

subsection \<open>The projection\<close>

text \<open>\<open>counts[key] = counts.get(key, zero) + amount\<close>.\<close>

definition add_at :: "string \<Rightarrow> ('n::{plus,zero}) \<Rightarrow> (string \<times> 'n) list \<Rightarrow> (string \<times> 'n) list" where
  "add_at k v c = AList.update k ((case map_of c k of None \<Rightarrow> 0 | Some u \<Rightarrow> u) + v) c"

definition count_phases :: "phase_transition list \<Rightarrow> (string \<times> int) list" where
  "count_phases hist = fold (\<lambda>tr c. add_at (phase_value (target tr)) 1 c) hist []"

text \<open>\<open>_phase_durations\<close>: each transition's target is charged the time until the next one.\<close>

fun durations_loop :: "phase_transition list \<Rightarrow> (string \<times> pyfloat) list \<Rightarrow> (string \<times> pyfloat) list" where
  "durations_loop [] d = d"
| "durations_loop (tr # trs) d =
     (let end_stamp = (case trs of [] \<Rightarrow> timestamp tr | next # _ \<Rightarrow> timestamp next)
      in durations_loop trs (add_at (phase_value (target tr)) (end_stamp - timestamp tr) d))"

definition phase_durations :: "search_result \<Rightarrow> (string \<times> pyfloat) list" where
  "phase_durations r = durations_loop (phase_history r) []"

definition wall_time :: "phase_transition list \<Rightarrow> pyfloat" where
  "wall_time hist = (if 2 \<le> length hist then timestamp (last hist) - timestamp (hd hist) else 0)"

definition backtrack_notes :: "phase_transition list \<Rightarrow> string list" where
  "backtrack_notes hist = map trans_note (filter (\<lambda>tr. target tr = BACKTRACKING) hist)"

definition revision_notes_count :: "string list \<Rightarrow> int" where
  "revision_notes_count nts = int (length (filter (\<lambda>n. py_contains ''revision'' (py_lower n)) nts))"

text \<open>The loop over the nodes: the status tally and the sum of the revision counters.\<close>

fun node_loop :: "thought_node list \<Rightarrow> (string \<times> int) list \<Rightarrow> int \<Rightarrow> exn + (string \<times> int) list \<times> int" where
  "node_loop [] counts granted = Inr (counts, granted)"
| "node_loop (n # ns) counts granted =
     sum_bind (attempts_of (metadata n)) (\<lambda>k. node_loop ns (add_at (status_value (status n)) 1 counts) (granted + k))"

definition no_statuses :: "(string \<times> int) list" where
  "no_statuses = map (\<lambda>s. (status_value s, 0)) all_statuses"

definition metrics_from_result :: "search_result \<Rightarrow> token_usage option \<Rightarrow> (exn + run_metrics) option" where
  "metrics_from_result r usage = map_option (\<lambda>ns.
     sum_bind (node_loop (map (\<lambda>a. tree_heap (result_tree r) ! a) ns) no_statuses 0) (\<lambda>(counts, granted).
       let hist = phase_history r; nts = backtrack_notes hist; revs = revision_notes_count nts;
           solved = (outcome r = OUT_SUCCEEDED \<and> result_path r \<noteq> [])
       in Inr \<lparr>metric_outcome = outcome_value (outcome r), metric_iterations = iterations r, metric_nodes = node_count r,
            wall_time_seconds = wall_time hist,
            solution_depth = (if solved then Some (depth (tree_heap (result_tree r) ! last (result_path r))) else None),
            best_path_length = int (length (result_path r)), structural_backtracks = int (length nts) - revs,
            revision_backtracks = revs, revisions_granted = granted, status_counts = counts, phase_counts = count_phases hist,
            phase_seconds = phase_durations r, metric_usage = usage\<rparr>)) (nodes (result_tree r))"

definition metrics_to_dict :: "run_metrics \<Rightarrow> pyval" where
  "metrics_to_dict m = VDict
     [(''outcome'', VStr (metric_outcome m)), (''iterations'', VInt (metric_iterations m)), (''nodes'', VInt (metric_nodes m)),
      (''wall_time_seconds'', VFloat (py_round (wall_time_seconds m) 6)),
      (''solution_depth'', case solution_depth m of None \<Rightarrow> VNone | Some d \<Rightarrow> VInt d),
      (''best_path_length'', VInt (best_path_length m)), (''structural_backtracks'', VInt (structural_backtracks m)),
      (''revision_backtracks'', VInt (revision_backtracks m)), (''revisions_granted'', VInt (revisions_granted m)),
      (''status_counts'', VDict (map (\<lambda>(k, v). (k, VInt v)) (status_counts m))),
      (''phase_counts'', VDict (map (\<lambda>(k, v). (k, VInt v)) (phase_counts m))),
      (''phase_seconds'', VDict (map (\<lambda>(k, v). (k, VFloat (py_round v 6))) (phase_seconds m))),
      (''token_usage'', case metric_usage m of None \<Rightarrow> VNone | Some u \<Rightarrow> VDict (usage_to_dict u))]"

subsection \<open>The figures add up\<close>

lemma sum_add_at:
  fixes g :: "'n::{plus,zero} \<Rightarrow> 'b::ab_group_add"
  assumes "distinct (map fst c)" "g 0 = 0" "\<And>u. map_of c k = Some u \<Longrightarrow> g (u + v) = g u + g v" "g (0 + v) = g v"
  shows "sum_list (map (\<lambda>e. g (snd e)) (add_at k v c)) = sum_list (map (\<lambda>e. g (snd e)) c) + g v"
proof -
  have "distinct (map fst c) \<Longrightarrow> sum_list (map (\<lambda>e. g (snd e)) (AList.update k w c))
      = sum_list (map (\<lambda>e. g (snd e)) c) - (case map_of c k of None \<Rightarrow> 0 | Some u \<Rightarrow> g u) + g w" for w
    by (induction c) (auto simp: algebra_simps map_of_eq_None_iff [symmetric] split: option.splits dest: map_of_SomeD)
  then show ?thesis using assms by (simp add: add_at_def split: option.split)
qed

lemma distinct_add_at: "distinct (map fst c) \<Longrightarrow> distinct (map fst (add_at k v c))"
  by (simp add: add_at_def distinct_update)

lemma sum_int_add_at:
  fixes c :: "(string \<times> int) list"
  shows "distinct (map fst c) \<Longrightarrow> sum_list (map snd (add_at k v c)) = sum_list (map snd c) + v"
  using sum_add_at [of c "\<lambda>x. x" k v] by simp

lemma count_phases_sum:
  "sum_list (map snd (count_phases hist)) = int (length hist)"
proof -
  have "distinct (map fst c) \<Longrightarrow> sum_list (map snd (fold (\<lambda>tr c. add_at (phase_value (target tr)) 1 c) hist c))
      = sum_list (map snd c) + int (length hist)" for c :: "(string \<times> int) list"
    by (induction hist arbitrary: c) (simp_all add: sum_int_add_at distinct_add_at)
  then show ?thesis by (simp add: count_phases_def)
qed

lemma node_loop_sum:
  "node_loop ns c g = Inr (c', g') \<Longrightarrow> distinct (map fst c) \<Longrightarrow> sum_list (map snd c') = sum_list (map snd c) + int (length ns)"
  by (induction ns arbitrary: c g) (auto simp: sum_bind_Inr sum_int_add_at distinct_add_at)

text \<open>Time stamps are finite, and the durations of the phases are a telescoping sum.\<close>

fun seconds :: "pyfloat \<Rightarrow> real" where
  "seconds (Fin x) = x"
| "seconds _ = 0"

definition stamped :: "phase_transition list \<Rightarrow> bool" where
  "stamped hist \<longleftrightarrow> (\<forall>tr\<in>set hist. is_finite (timestamp tr))"


lemma seconds_add: "is_finite x \<Longrightarrow> is_finite y \<Longrightarrow> is_finite (x + y) \<and> seconds (x + y) = seconds x + seconds y"
  by (cases x; cases y) simp_all

lemma seconds_diff: "is_finite x \<Longrightarrow> is_finite y \<Longrightarrow> is_finite (x - y) \<and> seconds (x - y) = seconds x - seconds y"
  by (cases x; cases y) simp_all

lemma seconds_zero [simp]: "is_finite 0" "seconds 0 = 0"
  by (simp_all add: float_consts)

definition timed :: "(string \<times> pyfloat) list \<Rightarrow> bool" where
  "timed d \<longleftrightarrow> distinct (map fst d) \<and> (\<forall>e\<in>set d. is_finite (snd e))"

lemma timed_add_at:
  assumes "timed d" "is_finite v"
  shows "timed (add_at k v d) \<and> sum_list (map (\<lambda>e. seconds (snd e)) (add_at k v d)) = sum_list (map (\<lambda>e. seconds (snd e)) d) + seconds v
    \<and> ((\<forall>e\<in>set d. 0 \<le> seconds (snd e)) \<longrightarrow> 0 \<le> seconds v \<longrightarrow> (\<forall>e\<in>set (add_at k v d). 0 \<le> seconds (snd e)))"
proof -
  let ?old = "case map_of d k of None \<Rightarrow> 0 | Some u \<Rightarrow> u"
  have old: "is_finite u" if "map_of d k = Some u" for u
    using map_of_SomeD [OF that] assms(1) unfolding timed_def by force
  have dist: "distinct (map fst d)" using assms(1) by (simp add: timed_def)
  have mem: "e \<in> set d \<or> e = (k, ?old + v)" if "e \<in> set (add_at k v d)" for e
  proof -
    have "set (AList.update k w d) \<subseteq> insert (k, w) (set d)" for w by (induction d) auto
    then show ?thesis using that unfolding add_at_def by blast
  qed
  have new: "is_finite (?old + v) \<and> seconds (?old + v) = seconds ?old + seconds v"
    using old seconds_add [OF _ assms(2)] by (cases "map_of d k") auto
  have "timed (add_at k v d)" using mem new distinct_add_at [OF dist] assms(1) unfolding timed_def by force
  moreover have "sum_list (map (\<lambda>e. seconds (snd e)) (add_at k v d)) = sum_list (map (\<lambda>e. seconds (snd e)) d) + seconds v"
    by (rule sum_add_at [OF dist]) (use old seconds_add assms(2) seconds_add [OF seconds_zero(1) assms(2)] in simp_all)
  moreover have "0 \<le> seconds (snd e)" if "\<forall>e\<in>set d. 0 \<le> seconds (snd e)" "0 \<le> seconds v" "e \<in> set (add_at k v d)" for e
  proof (cases "e \<in> set d")
    case False
    then have e: "e = (k, ?old + v)" using mem that(3) by blast
    have "0 \<le> seconds ?old" using that(1) map_of_SomeD [of d k] by (cases "map_of d k") force+
    then show ?thesis using e new that(2) by simp
  qed (use that in blast)
  ultimately show ?thesis by blast
qed

definition never_back :: "phase_transition list \<Rightarrow> bool" where
  "never_back hist \<longleftrightarrow> sorted (map (\<lambda>tr. seconds (timestamp tr)) hist)"

lemma durations_loop_sum:
  "stamped trs \<Longrightarrow> timed d \<Longrightarrow> timed (durations_loop trs d)
     \<and> sum_list (map (\<lambda>e. seconds (snd e)) (durations_loop trs d))
       = sum_list (map (\<lambda>e. seconds (snd e)) d) + (if trs = [] then 0 else seconds (timestamp (last trs)) - seconds (timestamp (hd trs)))
     \<and> (never_back trs \<longrightarrow> (\<forall>e\<in>set d. 0 \<le> seconds (snd e)) \<longrightarrow> (\<forall>e\<in>set (durations_loop trs d). 0 \<le> seconds (snd e)))"
proof (induction trs arbitrary: d)
  case (Cons tr trs)
  let ?stop = "case trs of [] \<Rightarrow> timestamp tr | next # _ \<Rightarrow> timestamp next"
  let ?d = "add_at (phase_value (target tr)) (?stop - timestamp tr) d"
  have fin: "is_finite ?stop" "is_finite (timestamp tr)" using Cons.prems(1) by (auto simp: stamped_def split: list.split)
  note diff = seconds_diff [OF fin]
  note step = timed_add_at [OF Cons.prems(2) conjunct1 [OF diff], of "phase_value (target tr)"]
  have rest: "stamped trs" using Cons.prems(1) by (simp add: stamped_def)
  note ih = Cons.IH [OF rest conjunct1 [OF step]]
  have eq: "durations_loop (tr # trs) d = durations_loop trs ?d" by simp
  have "seconds ?stop - seconds (timestamp tr) + (if trs = [] then 0 else seconds (timestamp (last trs)) - seconds (timestamp (hd trs)))
      = seconds (timestamp (last (tr # trs))) - seconds (timestamp tr)" by (cases trs) simp_all
  moreover have "never_back (tr # trs) \<Longrightarrow> never_back trs \<and> 0 \<le> seconds (?stop - timestamp tr)"
    using diff by (cases trs) (simp_all add: never_back_def)
  ultimately show ?case unfolding eq using ih step diff by simp
qed simp

lemma wall_time_seconds_eq:
  "stamped hist \<Longrightarrow> hist \<noteq> [] \<Longrightarrow> seconds (wall_time hist) = seconds (timestamp (last hist)) - seconds (timestamp (hd hist))"
proof -
  assume s: "stamped hist" and ne: "hist \<noteq> []"
  have "is_finite (timestamp (last hist))" "is_finite (timestamp (hd hist))" using s ne by (simp_all add: stamped_def)
  then have d: "seconds (timestamp (last hist) - timestamp (hd hist)) = seconds (timestamp (last hist)) - seconds (timestamp (hd hist))"
    using seconds_diff by blast
  show ?thesis
  proof (cases "2 \<le> length hist")
    case False
    then obtain tr where "hist = [tr]" using ne by (cases hist; cases "tl hist") auto
    then show ?thesis by (simp add: wall_time_def)
  qed (use d in \<open>simp add: wall_time_def\<close>)
qed

text \<open>C29: The metrics account for the whole run: the status tally counts every node of the tree, the phase counts every
  transition, the two kinds of backtracks every entry into backtracking, and the seconds charged to the phases add up
  to the wall time between the first and the last transition, none of them negative when the clock never goes back.\<close>

theorem metrics_add_up:
  assumes "wf_tree (result_tree r)" "stamped (phase_history r)" "metrics_from_result r u = Some (Inr m)"
  shows "sum_list (map snd (status_counts m)) = int (tree_len (result_tree r))
    \<and> sum_list (map snd (phase_counts m)) = int (length (phase_history r))
    \<and> structural_backtracks m + revision_backtracks m = int (length (filter (\<lambda>tr. target tr = BACKTRACKING) (phase_history r)))
    \<and> 0 \<le> structural_backtracks m \<and> 0 \<le> revision_backtracks m
    \<and> sum_list (map (\<lambda>e. seconds (snd e)) (phase_seconds m)) = seconds (wall_time_seconds m)
    \<and> (never_back (phase_history r) \<longrightarrow> (\<forall>e\<in>set (phase_seconds m). 0 \<le> seconds (snd e)))"
proof -
  obtain ns where ns: "nodes (result_tree r) = Some ns" "distinct ns" "set ns = {..<length (tree_heap (result_tree r))}"
    using nodes_total [OF assms(1)] by metis
  have len: "length ns = tree_len (result_tree r)"
    using distinct_card [OF ns(2)] ns(3) wf_tree_len [OF assms(1)] by simp
  obtain c g where loop: "node_loop (map (\<lambda>a. tree_heap (result_tree r) ! a) ns) no_statuses 0 = Inr (c, g)"
    and m: "status_counts m = c" "phase_counts m = count_phases (phase_history r)" "phase_seconds m = phase_durations r"
      "wall_time_seconds m = wall_time (phase_history r)" "revision_backtracks m = revision_notes_count (backtrack_notes (phase_history r))"
      "structural_backtracks m = int (length (backtrack_notes (phase_history r))) - revision_notes_count (backtrack_notes (phase_history r))"
    using assms(3) ns(1) by (auto simp: metrics_from_result_def sum_bind_Inr Let_def)
  have "distinct (map fst no_statuses)" "sum_list (map snd no_statuses) = 0" by (simp_all add: no_statuses_def all_statuses_def)
  then have "sum_list (map snd c) = int (tree_len (result_tree r))" using node_loop_sum [OF loop] len by simp
  moreover have "sum_list (map (\<lambda>e. seconds (snd e)) (phase_durations r)) = seconds (wall_time (phase_history r))
      \<and> (never_back (phase_history r) \<longrightarrow> (\<forall>e\<in>set (phase_durations r). 0 \<le> seconds (snd e)))"
  proof (cases "phase_history r = []")
    case False
    then show ?thesis using durations_loop_sum [OF assms(2), of "[]"] wall_time_seconds_eq [OF assms(2) False]
      by (simp add: phase_durations_def timed_def)
  qed (simp add: phase_durations_def wall_time_def)
  moreover have "revision_notes_count nts \<le> int (length nts)" "0 \<le> revision_notes_count nts" for nts
    by (simp_all add: revision_notes_count_def)
  moreover have "length (backtrack_notes (phase_history r)) = length (filter (\<lambda>tr. target tr = BACKTRACKING) (phase_history r))"
    by (simp add: backtrack_notes_def)
  ultimately show ?thesis
    unfolding m using count_phases_sum [of "phase_history r"] by (metis add_diff_cancel_left' diff_add_cancel diff_ge_0_iff_ge)
qed

definition short_result :: search_result where
  "short_result = \<lparr>outcome = OUT_EXHAUSTED, result_path = [0], iterations = 0, node_count = 1,
     phase_history = [\<lparr>source = IDLE, target = SELECTION, trans_note = ''search started'', timestamp = Fin 1\<rparr>,
       \<lparr>source = SELECTION, target = EXHAUSTED, trans_note = ''frontier empty'', timestamp = Fin 3\<rparr>],
     result_tree = new_tree ''t'' ''r'', result_error = []\<rparr>"

lemma short_result_ok: "sound_result short_result" "stamped (phase_history short_result)" "never_back (phase_history short_result)"
  using wf_new_tree [of "''t''" "''r''"]
  by (simp_all add: short_result_def sound_result_def stamped_def never_back_def) (simp add: new_tree_def)

lemma short_result_metrics: "\<exists>m. metrics_from_result short_result None = Some (Inr m)"
proof -
  have "nodes (new_tree ''t'' ''r'') = Some [0]"
    by (simp add: nodes_def new_tree_def new_node_def walk_def walk_loop.simps)
  then show ?thesis
    by (simp add: metrics_from_result_def short_result_def new_tree_def new_node_def attempts_of_def Let_def)
qed

theorem metrics_add_up_witness:
  "\<exists>m. metrics_from_result short_result None = Some (Inr m) \<and> sum_list (map snd (status_counts m)) = 1
     \<and> sum_list (map (\<lambda>e. seconds (snd e)) (phase_seconds m)) = seconds (wall_time_seconds m)
     \<and> (\<forall>e\<in>set (phase_seconds m). 0 \<le> seconds (snd e))"
proof -
  obtain m where m: "metrics_from_result short_result None = Some (Inr m)" using short_result_metrics by blast
  have "wf_tree (result_tree short_result)" using short_result_ok(1) by (simp add: sound_result_def)
  moreover have "tree_len (result_tree short_result) = 1" by (simp add: short_result_def new_tree_def tree_len_def)
  ultimately show ?thesis using metrics_add_up [OF _ short_result_ok(2) m] short_result_ok(3) m by auto
qed

subsection \<open>Metrics of an archived run\<close>

lemma node_loop_same:
  "list_all2 same_fields ns' ns \<Longrightarrow> node_loop ns' c g = node_loop ns c g"
  by (induction arbitrary: c g rule: list_all2_induct) (simp_all add: same_fieldsD)

text \<open>Metrics are a projection of the run that an archive preserves: computed from the result read back from an
  archive they are exactly the metrics of the original result.\<close>

theorem metrics_survive_archive:
  assumes "sound_result r" "result_to_archive_document r m now = Some (Inr doc)" "archive_from_document fr doc = Some (Inr a)"
  shows "metrics_from_result (archived_result a) u = metrics_from_result r u"
proof -
  have same: "same_run r (archived_result a)"
    using archive_restored [OF assms(1), of m now fr] assms(2,3) by auto
  let ?r = "archived_result a"
  obtain ns ns' where ns: "nodes (result_tree r) = Some ns" "nodes (result_tree ?r) = Some ns'"
      "map (\<lambda>a. node_doc True (tree_heap (result_tree ?r) ! a) []) ns' = map (\<lambda>a. node_doc True (tree_heap (result_tree r) ! a) []) ns"
    using same unfolding same_run_def by blast
  have "list_all2 (\<lambda>b a. same_fields (tree_heap (result_tree ?r) ! b) (tree_heap (result_tree r) ! a)) ns' ns"
    using arg_cong [OF ns(3), of length] ns(3) by (simp add: list_all2_conv_all_nth same_fields_def list_eq_iff_nth_eq)
  then have loop: "node_loop (map (\<lambda>a. tree_heap (result_tree ?r) ! a) ns') c g = node_loop (map (\<lambda>a. tree_heap (result_tree r) ! a) ns) c g" for c g
    by (intro node_loop_same) (simp add: list_all2_map1 list_all2_map2)
  have fields: "outcome ?r = outcome r" "iterations ?r = iterations r" "node_count ?r = node_count r" "phase_history ?r = phase_history r"
    "length (result_path ?r) = length (result_path r)"
    using same by (auto simp: same_run_def dest: list_all2_lengthD)
  have deep: "result_path r \<noteq> [] \<Longrightarrow> depth (tree_heap (result_tree ?r) ! last (result_path ?r)) = depth (tree_heap (result_tree r) ! last (result_path r))"
    using same_fieldsD(4) [OF same_run_last(2) [OF same]] .
  show ?thesis
    using fields deep same_run_last(1) [OF same]
    by (cases "result_path r = []") (simp_all add: metrics_from_result_def ns(1,2) loop phase_durations_def)
qed

theorem metrics_survive_archive_witness:
  "\<exists>doc a. result_to_archive_document short_result VNone ''now'' = Some (Inr doc) \<and> archive_from_document (\<lambda>_. []) doc = Some (Inr a)
     \<and> metrics_from_result (archived_result a) None = metrics_from_result short_result None"
proof -
  obtain doc a where "result_to_archive_document short_result VNone ''now'' = Some (Inr doc)" "archive_from_document (\<lambda>_. []) doc = Some (Inr a)"
    using archive_restored [OF short_result_ok(1)] by blast
  then show ?thesis using metrics_survive_archive [OF short_result_ok(1)] by blast
qed

end
