(* ===== verification/Replay.thy ===== *)
theory Replay
  imports Metrics
begin

section \<open>Envelopes and the replay of archived runs (ui/events.py, persistence/replay.py)\<close>

text \<open>
  A streamed run is a list of envelopes. \<open>envelope\<close> keeps what an envelope was made of and
  \<open>envelope_dict\<close> is the dictionary that is sent: a tree is a value here, so the snapshot can be
  serialized later with the same outcome. \<open>replay_stream\<close> is the generator \<open>ReplaySession.stream\<close>: its state is
  the outside world and the envelopes yielded so far. \<open>clock\<close> is \<open>time.time\<close>, \<open>sleep\<close> is \<open>time.sleep\<close>.
\<close>

subsection \<open>Envelopes\<close>

datatype envelope =
    Phase_Envelope search_event pyfloat
  | Snapshot_Envelope thought_tree pyfloat
  | Metrics_Envelope pyval pyfloat
  | Result_Envelope search_result pyfloat

definition phase_envelope :: "search_event \<Rightarrow> pyfloat \<Rightarrow> pyval" where
  "phase_envelope ev ts = VDict [(''type'', VStr ''phase''), (''iteration'', VInt (event_iteration ev)),
     (''phase'', VStr (phase_value (event_phase ev))),
     (''node_id'', case event_node ev of None \<Rightarrow> VNone | Some i \<Rightarrow> VStr i), (''detail'', VStr (event_detail ev)), (''ts'', VFloat ts)]"

definition snapshot_envelope :: "pyval \<Rightarrow> pyfloat \<Rightarrow> pyval" where
  "snapshot_envelope doc ts = VDict [(''type'', VStr ''snapshot''), (''tree'', doc), (''ts'', VFloat ts)]"

definition metrics_envelope :: "pyval \<Rightarrow> pyfloat \<Rightarrow> pyval" where
  "metrics_envelope m ts = VDict [(''type'', VStr ''metrics''), (''metrics'', m), (''ts'', VFloat ts)]"

definition result_envelope :: "search_result \<Rightarrow> pyfloat \<Rightarrow> pyval" where
  "result_envelope r ts = VDict [(''type'', VStr ''result''), (''outcome'', VStr (outcome_value (outcome r))),
     (''iterations'', VInt (iterations r)), (''node_count'', VInt (node_count r)),
     (''solution'', case solution r of None \<Rightarrow> VNone | Some s \<Rightarrow> VStr s), (''error'', VStr (result_error r)),
     (''best_path'', VList (map VStr (path_ids r))), (''ts'', VFloat ts)]"

fun envelope_dict :: "envelope \<Rightarrow> (exn + pyval) option" where
  "envelope_dict (Phase_Envelope ev ts) = Some (Inr (phase_envelope ev ts))"
| "envelope_dict (Snapshot_Envelope t ts) =
     map_option (\<lambda>r. sum_bind r (\<lambda>doc. Inr (snapshot_envelope doc ts))) (tree_to_dict t False)"
| "envelope_dict (Metrics_Envelope m ts) = Some (Inr (metrics_envelope m ts))"
| "envelope_dict (Result_Envelope r ts) = Some (Inr (result_envelope r ts))"

text \<open>\<open>format_sse\<close>; \<open>dumps\<close> is \<open>json.dumps\<close> without white space, \<open>fr\<close> prints a type that is no string.\<close>

definition format_sse :: "(pyval \<Rightarrow> string) \<Rightarrow> (pyval \<Rightarrow> exn + string) \<Rightarrow> pyval \<Rightarrow> exn + nat list" where
  "format_sse fr dumps env = sum_bind (dumps env) (\<lambda>payload. sum_bind (py_index env ''type'') (\<lambda>kind.
     Inr (utf8_encode (map py_ord (''event: '' @ py_text fr kind @ [CHR 0x0A] @ ''data: '' @ payload @ [CHR 0x0A, CHR 0x0A])))))"

definition SNAPSHOT_PHASES :: "search_phase set" where
  "SNAPSHOT_PHASES = {BACKPROPAGATION} \<union> TERMINAL_PHASES"

subsection \<open>ReplaySession\<close>

record 'w replay_world =
  outside :: 'w
  yielded :: "envelope list"

record 'w player =
  clock :: "'w \<Rightarrow> pyfloat \<times> 'w"
  sleep :: "pyfloat \<Rightarrow> 'w \<Rightarrow> (exn + unit) \<times> 'w"
  archive :: run_archive
  speed :: "pyfloat option"

definition make_player :: "('w \<Rightarrow> pyfloat \<times> 'w) \<Rightarrow> (pyfloat \<Rightarrow> 'w \<Rightarrow> (exn + unit) \<times> 'w) \<Rightarrow> run_archive \<Rightarrow> pyfloat option \<Rightarrow> exn + 'w player" where
  "make_player cl sl a sp =
     (if (case sp of None \<Rightarrow> False | Some x \<Rightarrow> x \<le> 0) then Inl (Exn ValueError ''speed must be positive when provided'')
      else Inr \<lparr>clock = cl, sleep = sl, archive = a, speed = sp\<rparr>)"

text \<open>\<open>yield\<close> of an envelope, whose time stamp is read first.\<close>

definition yield_envelope :: "'w player \<Rightarrow> (pyfloat \<Rightarrow> envelope) \<Rightarrow> ('w replay_world, unit) prog" where
  "yield_envelope p mk st = (let (ts, w) = clock p (outside st) in (Ok (), st\<lparr>outside := w, yielded := yielded st @ [mk ts]\<rparr>))"

definition wait :: "'w player \<Rightarrow> pyfloat \<Rightarrow> pyfloat \<Rightarrow> ('w replay_world, unit) prog" where
  "wait p previous current st = (case speed p of
       None \<Rightarrow> (Ok (), st)
     | Some sp \<Rightarrow> (let delay = fdiv (current - previous) sp in
         if 0 < delay then (let (r, w) = sleep p delay (outside st) in (lift_sum r, st\<lparr>outside := w\<rparr>)) else (Ok (), st)))"

definition iteration_for :: "phase_transition \<Rightarrow> int \<Rightarrow> int" where
  "iteration_for tr current = (if target tr = EXPANSION then current + 1 else current)"

definition replay_event :: "phase_transition \<Rightarrow> int \<Rightarrow> search_event" where
  "replay_event tr i = \<lparr>event_iteration = i, event_phase = target tr, event_node = None, event_detail = trans_note tr\<rparr>"

text \<open>A call that may raise or not return, inside the generator.\<close>

definition call :: "(exn + 'a) option \<Rightarrow> ('s, 'a) prog" where
  "call r st = (case r of None \<Rightarrow> (Diverge, st) | Some x \<Rightarrow> (lift_sum x, st))"

definition replay_one :: "'w player \<Rightarrow> pyval \<Rightarrow> phase_transition \<Rightarrow> int \<Rightarrow> ('w replay_world, unit) prog" where
  "replay_one p tree_payload tr i =
     bindM (yield_envelope p (Phase_Envelope (replay_event tr i))) (\<lambda>_.
       if target tr \<in> SNAPSHOT_PHASES
       then bindM (call (tree_from_dict tree_payload)) (\<lambda>t. yield_envelope p (Snapshot_Envelope t))
       else ret ())"

fun replay_loop :: "'w player \<Rightarrow> pyval \<Rightarrow> phase_transition option \<Rightarrow> phase_transition list \<Rightarrow> int \<Rightarrow> ('w replay_world, unit) prog" where
  "replay_loop p payload prev [] i = ret ()"
| "replay_loop p payload prev (tr # trs) i =
     bindM (case prev of None \<Rightarrow> ret () | Some b \<Rightarrow> wait p (timestamp b) (timestamp tr)) (\<lambda>_.
     bindM (replay_one p payload tr (iteration_for tr i)) (\<lambda>_.
     replay_loop p payload (Some tr) trs (iteration_for tr i)))"

definition replay_metrics :: "run_archive \<Rightarrow> (exn + pyval) option" where
  "replay_metrics a =
     (if py_truthy (archived_metrics a) then Some (Inr (archived_metrics a))
      else map_option (\<lambda>r. sum_bind r (\<lambda>m. Inr (metrics_to_dict m))) (metrics_from_result (archived_result a) None))"

definition replay_stream :: "'w player \<Rightarrow> ('w replay_world, unit) prog" where
  "replay_stream p = (let r = archived_result (archive p) in
     bindM (call (tree_to_dict (result_tree r) True)) (\<lambda>payload.
     bindM (replay_loop p payload None (phase_history r) 0) (\<lambda>_.
     bindM (call (replay_metrics (archive p))) (\<lambda>m.
     bindM (yield_envelope p (Metrics_Envelope m)) (\<lambda>_.
     yield_envelope p (Result_Envelope r))))))"

subsection \<open>What a stream carries\<close>

datatype mark = Phase_Mark search_phase string | Snapshot_Mark | Metrics_Mark | Result_Mark

fun mark_of :: "envelope \<Rightarrow> mark" where
  "mark_of (Phase_Envelope ev ts) = Phase_Mark (event_phase ev) (event_detail ev)"
| "mark_of (Snapshot_Envelope t ts) = Snapshot_Mark"
| "mark_of (Metrics_Envelope m ts) = Metrics_Mark"
| "mark_of (Result_Envelope r ts) = Result_Mark"

definition marks :: "phase_transition \<Rightarrow> mark list" where
  "marks tr = Phase_Mark (target tr) (trans_note tr) # (if target tr \<in> SNAPSHOT_PHASES then [Snapshot_Mark] else [])"

definition patient :: "'w player \<Rightarrow> bool" where
  "patient p \<longleftrightarrow> (\<forall>d w. \<exists>w'. sleep p d w = (Inr (), w'))"


text \<open>\<open>emits m es\<close>: the program returns and appends to the stream envelopes with the marks \<open>ms\<close>, whose snapshots
  all carry a tree with the given document.\<close>

definition emits :: "pyval \<Rightarrow> ('w replay_world, 'a) prog \<Rightarrow> mark list \<Rightarrow> bool" where
  "emits payload m ms \<longleftrightarrow> (\<forall>st. \<exists>x w es. m st = (Ok x, st\<lparr>outside := w, yielded := yielded st @ es\<rparr>) \<and> map mark_of es = ms
     \<and> (\<forall>t ts. Snapshot_Envelope t ts \<in> set es \<longrightarrow> tree_to_dict t True = Some (Inr payload)))"

lemma emits_ret: "emits payload (ret x) []"
  unfolding emits_def ret_def
proof
  fix st :: "'a replay_world"
  show "\<exists>y w es. (Ok x, st) = (Ok y, st\<lparr>outside := w, yielded := yielded st @ es\<rparr>) \<and> map mark_of es = []
     \<and> (\<forall>t ts. Snapshot_Envelope t ts \<in> set es \<longrightarrow> tree_to_dict t True = Some (Inr payload))"
    by (intro exI [of _ x] exI [of _ "outside st"] exI [of _ "[]"]) simp
qed

lemma emits_bind:
  fixes m :: "('w replay_world, 'a) prog"
  assumes m: "emits payload m ms" and k: "\<And>x. emits payload (k x) ns"
  shows "emits payload (bindM m k) (ms @ ns)"
  unfolding emits_def
proof
  fix st :: "'w replay_world"
  obtain x w es where 1: "m st = (Ok x, st\<lparr>outside := w, yielded := yielded st @ es\<rparr>)" "map mark_of es = ms"
    "\<forall>t ts. Snapshot_Envelope t ts \<in> set es \<longrightarrow> tree_to_dict t True = Some (Inr payload)"
    using m unfolding emits_def by blast
  obtain y w' es' where 2: "k x (st\<lparr>outside := w, yielded := yielded st @ es\<rparr>)
      = (Ok y, st\<lparr>outside := w, yielded := yielded st @ es\<rparr>\<lparr>outside := w', yielded := yielded (st\<lparr>outside := w, yielded := yielded st @ es\<rparr>) @ es'\<rparr>)"
    "map mark_of es' = ns" "\<forall>t ts. Snapshot_Envelope t ts \<in> set es' \<longrightarrow> tree_to_dict t True = Some (Inr payload)"
    using k [of x] unfolding emits_def by blast
  have "bindM m k st = (Ok y, st\<lparr>outside := w', yielded := yielded st @ (es @ es')\<rparr>)" using 1(1) 2(1) by (simp add: bindM_def)
  moreover have "map mark_of (es @ es') = ms @ ns" using 1(2) 2(2) by simp
  moreover have "\<forall>t ts. Snapshot_Envelope t ts \<in> set (es @ es') \<longrightarrow> tree_to_dict t True = Some (Inr payload)" using 1(3) 2(3) by auto
  ultimately show "\<exists>x w es. bindM m k st = (Ok x, st\<lparr>outside := w, yielded := yielded st @ es\<rparr>) \<and> map mark_of es = ms @ ns
     \<and> (\<forall>t ts. Snapshot_Envelope t ts \<in> set es \<longrightarrow> tree_to_dict t True = Some (Inr payload))" by blast
qed

lemma emits_yield:
  fixes p :: "'w player"
  assumes "\<And>ts. mark_of (mk ts) = k" "\<And>ts t ts'. mk ts = Snapshot_Envelope t ts' \<Longrightarrow> tree_to_dict t True = Some (Inr payload)"
  shows "emits payload (yield_envelope p mk) [k]"
  unfolding emits_def
proof
  fix st :: "'w replay_world"
  obtain ts w where "clock p (outside st) = (ts, w)" by fastforce
  then have "yield_envelope p mk st = (Ok (), st\<lparr>outside := w, yielded := yielded st @ [mk ts]\<rparr>)" by (simp add: yield_envelope_def)
  moreover have "\<forall>t ts'. Snapshot_Envelope t ts' \<in> set [mk ts] \<longrightarrow> tree_to_dict t True = Some (Inr payload)"
    using assms(2) [of ts] by (metis empty_iff empty_set set_ConsD)
  ultimately show "\<exists>x w es. yield_envelope p mk st = (Ok x, st\<lparr>outside := w, yielded := yielded st @ es\<rparr>) \<and> map mark_of es = [k]
     \<and> (\<forall>t ts. Snapshot_Envelope t ts \<in> set es \<longrightarrow> tree_to_dict t True = Some (Inr payload))"
    using assms(1) [of ts] by (intro exI [of _ "()"] exI [of _ w] exI [of _ "[mk ts]"]) simp
qed

lemma emits_call:
  assumes "r = Some (Inr x)"
  shows "call r = ret x"
  using assms by (simp add: call_def ret_def fun_eq_iff)

lemma emits_wait:
  fixes p :: "'w player"
  assumes pat: "patient p"
  shows "emits payload (wait p a b) []"
  unfolding emits_def
proof
  fix st :: "'w replay_world"
  have quiet: "\<exists>x w es. (Ok (), st) = (Ok x, st\<lparr>outside := w, yielded := yielded st @ es\<rparr>) \<and> map mark_of es = []
     \<and> (\<forall>t ts. Snapshot_Envelope t ts \<in> set es \<longrightarrow> tree_to_dict t True = Some (Inr payload))"
    by (intro exI [of _ "()"] exI [of _ "outside st"] exI [of _ "[]"]) simp
  show "\<exists>x w es. wait p a b st = (Ok x, st\<lparr>outside := w, yielded := yielded st @ es\<rparr>) \<and> map mark_of es = []
     \<and> (\<forall>t ts. Snapshot_Envelope t ts \<in> set es \<longrightarrow> tree_to_dict t True = Some (Inr payload))"
  proof (cases "\<exists>sp. speed p = Some sp \<and> 0 < fdiv (b - a) sp")
    case True
    then obtain sp w' where sp: "speed p = Some sp" "0 < fdiv (b - a) sp" "sleep p (fdiv (b - a) sp) (outside st) = (Inr (), w')"
      using pat unfolding patient_def by metis
    then have "wait p a b st = (Ok (), st\<lparr>outside := w'\<rparr>)" by (simp add: wait_def Let_def)
    then show ?thesis by (intro exI [of _ "()"] exI [of _ w'] exI [of _ "[]"]) simp
  next
    case False
    then have "wait p a b st = (Ok (), st)" by (auto simp: wait_def Let_def split: option.split)
    then show ?thesis using quiet by simp
  qed
qed

lemma emits_replay_one:
  assumes "tree_from_dict payload = Some (Inr t)" "tree_to_dict t True = Some (Inr payload)"
  shows "emits payload (replay_one p payload tr i) (marks tr)"
proof -
  have "emits payload (replay_one p payload tr i)
      ([Phase_Mark (target tr) (trans_note tr)] @ (if target tr \<in> SNAPSHOT_PHASES then [Snapshot_Mark] else []))"
    unfolding replay_one_def
  proof (rule emits_bind)
    show "emits payload (yield_envelope p (Phase_Envelope (replay_event tr i))) [Phase_Mark (target tr) (trans_note tr)]"
      by (rule emits_yield) (simp_all add: replay_event_def)
    have "emits payload (yield_envelope p (Snapshot_Envelope t)) [Snapshot_Mark]"
      by (rule emits_yield) (use assms(2) in simp_all)
    then show "emits payload (if target tr \<in> SNAPSHOT_PHASES
        then bindM (call (tree_from_dict payload)) (\<lambda>t. yield_envelope p (Snapshot_Envelope t)) else ret ())
        (if target tr \<in> SNAPSHOT_PHASES then [Snapshot_Mark] else [])"
      using emits_ret [of payload "()"] by (cases "target tr \<in> SNAPSHOT_PHASES") (simp_all add: emits_call [OF assms(1)])
  qed
  then show ?thesis by (simp add: marks_def)
qed

lemma emits_replay_loop:
  assumes "patient p" "tree_from_dict payload = Some (Inr t)" "tree_to_dict t True = Some (Inr payload)"
  shows "emits payload (replay_loop p payload prev trs i) (concat (map marks trs))"
proof (induction trs arbitrary: prev i)
  case (Cons tr trs)
  have "emits payload (case prev of None \<Rightarrow> ret () | Some b \<Rightarrow> wait p (timestamp b) (timestamp tr)) []"
    using emits_ret emits_wait [OF assms(1)] by (cases prev) simp_all
  from emits_bind [OF this emits_bind [OF emits_replay_one [OF assms(2,3)] Cons]] show ?case by simp
qed (simp add: emits_ret)

lemma replay_shape:
  assumes "sound_result r" "archived_result (archive p) = r" "patient p" "replay_metrics (archive p) = Some (Inr m)"
  shows "\<exists>w es ts ts'. replay_stream p \<lparr>outside = w0, yielded = []\<rparr>
        = (Ok (), \<lparr>outside = w, yielded = es @ [Metrics_Envelope m ts, Result_Envelope r ts']\<rparr>)
     \<and> map mark_of es = concat (map marks (phase_history r))
     \<and> (\<forall>t ts. Snapshot_Envelope t ts \<in> set es \<longrightarrow> tree_to_dict t True = tree_to_dict (result_tree r) True)"
proof -
  have wf: "wf_tree (result_tree r)" using assms(1) by (simp add: sound_result_def)
  obtain payload t where t: "tree_to_dict (result_tree r) True = Some (Inr payload)" "tree_from_dict payload = Some (Inr t)"
    "tree_to_dict t True = Some (Inr payload)"
    using tree_restored [OF wf] by blast
  have "emits payload (replay_loop p payload None (phase_history r) 0) (concat (map marks (phase_history r)))"
    by (rule emits_replay_loop [OF assms(3) t(2,3)])
  then obtain x w es where loop0: "replay_loop p payload None (phase_history r) 0 \<lparr>outside = w0, yielded = []\<rparr>
        = (Ok x, \<lparr>outside = w0, yielded = []\<rparr>\<lparr>outside := w, yielded := yielded \<lparr>outside = w0, yielded = []\<rparr> @ es\<rparr>)"
    "map mark_of es = concat (map marks (phase_history r))"
    "\<forall>t ts. Snapshot_Envelope t ts \<in> set es \<longrightarrow> tree_to_dict t True = Some (Inr payload)"
    unfolding emits_def by blast
  have loop: "replay_loop p payload None (phase_history r) 0 \<lparr>outside = w0, yielded = []\<rparr> = (Ok x, \<lparr>outside = w, yielded = es\<rparr>)"
    "map mark_of es = concat (map marks (phase_history r))"
    "\<forall>t ts. Snapshot_Envelope t ts \<in> set es \<longrightarrow> tree_to_dict t True = Some (Inr payload)"
    using loop0 by simp_all
  obtain ts1 w1 where c1: "clock p w = (ts1, w1)" by fastforce
  obtain ts2 w2 where c2: "clock p w1 = (ts2, w2)" by fastforce
  have "replay_stream p \<lparr>outside = w0, yielded = []\<rparr>
      = (Ok (), \<lparr>outside = w2, yielded = es @ [Metrics_Envelope m ts1, Result_Envelope r ts2]\<rparr>)"
    unfolding replay_stream_def Let_def assms(2) emits_call [OF t(1)] emits_call [OF assms(4)]
    using loop(1) c1 c2 by (simp add: bindM_def yield_envelope_def)
  then show ?thesis using loop(2,3) t(1)
    by (intro exI [of _ w2] exI [of _ es] exI [of _ ts1] exI [of _ ts2]) simp
qed

lemma replay_spec:
  assumes "sound_result r" "archived_result (archive p) = r" "patient p" "replay_metrics (archive p) = Some (Inr m)"
  shows "\<exists>w es. replay_stream p \<lparr>outside = w0, yielded = []\<rparr> = (Ok (), \<lparr>outside = w, yielded = es\<rparr>)
     \<and> map mark_of es = concat (map marks (phase_history r)) @ [Metrics_Mark, Result_Mark]
     \<and> (\<exists>ts. last es = Result_Envelope r ts) \<and> (\<exists>ts. Metrics_Envelope m ts \<in> set es)
     \<and> (\<forall>t ts. Snapshot_Envelope t ts \<in> set es \<longrightarrow> tree_to_dict t True = tree_to_dict (result_tree r) True)"
proof -
  obtain w es ts ts' where "replay_stream p \<lparr>outside = w0, yielded = []\<rparr>
        = (Ok (), \<lparr>outside = w, yielded = es @ [Metrics_Envelope m ts, Result_Envelope r ts']\<rparr>)"
     "map mark_of es = concat (map marks (phase_history r))"
     "\<forall>t ts. Snapshot_Envelope t ts \<in> set es \<longrightarrow> tree_to_dict t True = tree_to_dict (result_tree r) True"
    using replay_shape [OF assms] by blast
  then show ?thesis by (intro exI [of _ w] exI [of _ "es @ [Metrics_Envelope m ts, Result_Envelope r ts']"]) auto
qed

text \<open>C30: Replaying an archived run always finishes: for a sound result and a \<open>sleep\<close> that returns, the stream mirrors the
  phase history transition by transition, with a snapshot right after each backpropagation and terminal phase, and ends
  with the metrics and the result of that run; every snapshot serializes to the archived tree.\<close>

theorem replay_completes:
  assumes "sound_result r" "archived_result (archive p) = r" "patient p" "replay_metrics (archive p) = Some (Inr m)"
  shows "\<exists>w es. replay_stream p \<lparr>outside = w0, yielded = []\<rparr> = (Ok (), \<lparr>outside = w, yielded = es\<rparr>)
     \<and> map mark_of es = concat (map marks (phase_history r)) @ [Metrics_Mark, Result_Mark]
     \<and> (\<exists>ts. last es = Result_Envelope r ts) \<and> (\<exists>ts. Metrics_Envelope m ts \<in> set es)
     \<and> (\<forall>t ts. Snapshot_Envelope t ts \<in> set es \<longrightarrow> tree_to_dict t True = tree_to_dict (result_tree r) True)"
  by (rule replay_spec [OF assms])

definition still_player :: "unit player" where
  "still_player = \<lparr>clock = (\<lambda>w. (0, w)), sleep = (\<lambda>d w. (Inr (), w)),
     archive = \<lparr>archived_result = short_result, archived_metrics = VDict [(''outcome'', VStr ''exhausted'')], saved_at = VStr [], archive_version = VInt 1\<rparr>,
     speed = Some 1\<rparr>"

theorem replay_completes_witness:
  "\<exists>es. replay_stream still_player \<lparr>outside = (), yielded = []\<rparr> = (Ok (), \<lparr>outside = (), yielded = es\<rparr>)
     \<and> map mark_of es = [Phase_Mark SELECTION ''search started'', Phase_Mark EXHAUSTED ''frontier empty'', Snapshot_Mark, Metrics_Mark, Result_Mark]"
proof -
  have "patient still_player" "archived_result (archive still_player) = short_result"
    "replay_metrics (archive still_player) = Some (Inr (VDict [(''outcome'', VStr ''exhausted'')]))"
    by (simp_all add: patient_def still_player_def replay_metrics_def)
  from replay_completes [OF short_result_ok(1) this(2,1,3), of "()"] show ?thesis
    by (auto simp: short_result_def marks_def SNAPSHOT_PHASES_def TERMINAL_PHASES_def)
qed

end
