(* ===== verification/Search_Events.thy ===== *)
theory Search_Events
  imports Replay
begin

section \<open>The event stream of a run\<close>

text \<open>
  What a subscriber sees of a search. The locale states the interface of a subscriber: its sink
  appends the envelopes of the event to a log and does not raise, and no other collaborator of the
  controller touches the log. Then the log of a run mirrors the state machine's history: every
  transition is announced once, in order, with a snapshot after each backpropagation and terminal phase.
\<close>

definition event_marks :: "search_event \<Rightarrow> mark list" where
  "event_marks ev = Phase_Mark (event_phase ev) (event_detail ev) # (if event_phase ev \<in> SNAPSHOT_PHASES then [Snapshot_Mark] else [])"

locale subscriber =
  fixes env :: "'w environment" and log_of :: "'w \<Rightarrow> envelope list"
    and sink :: "'w \<Rightarrow> thought_tree \<Rightarrow> search_event \<Rightarrow> (exn + unit) \<times> 'w"
  assumes wired: "on_event env = Some sink"
    and sink_appends: "sink w t ev = (r, w') \<Longrightarrow> r = Inr () \<and> map mark_of (log_of w') = map mark_of (log_of w) @ event_marks ev"
    and keep_generate: "generate env w h a k = (x, w') \<Longrightarrow> log_of w' = log_of w"
    and keep_evaluate: "evaluate env w h a = (v, md, w') \<Longrightarrow> log_of w' = log_of w"
    and keep_critic: "critic env = Some cr \<Longrightarrow> cr w h a = (c, w') \<Longrightarrow> log_of w' = log_of w"
    and keep_revision: "revision_policy env = Some rv \<Longrightarrow> rv w h a = (b, md, w') \<Longrightarrow> log_of w' = log_of w"
    and keep_reward: "reward_model env = Some rw \<Longrightarrow> rw w h a sc co = (f, md, w') \<Longrightarrow> log_of w' = log_of w"
    and keep_stop: "stop_condition env = Some st \<Longrightarrow> st w = (so, w') \<Longrightarrow> log_of w' = log_of w"
    and keep_cancel: "cancel_event env = Some ce \<Longrightarrow> ce w = (cb, w') \<Longrightarrow> log_of w' = log_of w"
    and keep_clock: "monotonic env w = (stamp, w') \<Longrightarrow> log_of w' = log_of w"
    and keep_random: "random_unit env w = (u, w') \<Longrightarrow> log_of w' = log_of w"
    and keep_order: "pool_order env w n = (ns, w') \<Longrightarrow> log_of w' = log_of w"
begin

definition calm :: "('w run_state, 'a) prog \<Rightarrow> bool" where
  "calm m \<longleftrightarrow> (\<forall>s r s'. m s = (r, s') \<longrightarrow> log_of (world s') = log_of (world s))"

lemma calmD: "calm m \<Longrightarrow> m s = (r, s') \<Longrightarrow> log_of (world s') = log_of (world s)"
  by (simp add: calm_def)

lemma calm_ret: "calm (ret x)"
  by (auto simp: calm_def ret_def)

lemma calm_bind: "calm m \<Longrightarrow> (\<And>x. calm (k x)) \<Longrightarrow> calm (bindM m k)"
  unfolding calm_def by (auto simp: bindM_def split: prod.splits res.splits)

lemma calm_prune_node: "calm (prune_node a)"
  by (auto simp: calm_def prune_node_def split: option.splits)

lemma calm_consult_revision: "calm (consult_revision env a)"
  by (auto simp: calm_def consult_revision_def Let_def split: option.splits prod.splits dest: keep_revision)

lemma calm_draw_random: "calm (draw_random env)"
  by (auto simp: calm_def draw_random_def split: prod.splits dest: keep_random)

lemma calm_uct_key: "calm (uct_key env cfg c)"
proof -
  have q: "calm (bindM (draw_random env) (\<lambda>r. ret (u, r)))" for u :: pyfloat
    by (intro calm_bind calm_draw_random calm_ret)
  show ?thesis by (auto simp: calm_def uct_key_def split: sum.splits dest!: calmD [OF q])
qed

lemma calm_uct_keys: "calm (uct_keys env cfg cs)"
  by (induction cs) (auto intro!: calm_bind calm_uct_key calm_ret)

lemma calm_pick_child: "calm (pick_child env cfg cs)"
  unfolding pick_child_def
  by (intro calm_bind calm_uct_keys) (auto simp: calm_def ret_def split: list.splits)

lemma calm_select_loop: "select_loop env cfg cur st = Some y \<Longrightarrow> log_of (world (snd y)) = log_of (world st)"
proof -
  assume ret: "select_loop env cfg cur st = Some y"
  have "e = env \<longrightarrow> log_of (world (snd y)) = log_of (world st)" if "select_loop e cfg cur st = Some y" for e
  proof (rule select_loop.raw_induct [where P = "\<lambda>e cfg cur st y. e = env \<longrightarrow> log_of (world (snd y)) = log_of (world st)", OF _ that])
    fix f e cfg cur st y
    assume IH: "\<And>e cfg cur st y. f e cfg cur st = Some y \<Longrightarrow> e = env \<longrightarrow> log_of (world (snd y)) = log_of (world st)"
      and eq: "(case cur of
         None \<Rightarrow>
           (if \<not> is_live (nodes_of st ! tree_root (tree st)) then Some (Ok (None, []), st)
            else f e cfg (Some (tree_root (tree st))) st)
       | Some a \<Rightarrow>
           (if children (nodes_of st ! a) = [] then
              (if depth (nodes_of st ! a) < max_depth cfg then Some (Ok (Some a, []), st)
               else (case prune_node a st of
                   (Ok _, st1) \<Rightarrow> f e cfg None st1
                 | (Raise e, st1) \<Rightarrow> Some (Raise e, st1)
                 | (Diverge, st1) \<Rightarrow> None))
            else if filter (\<lambda>c. is_live (nodes_of st ! c)) (children (nodes_of st ! a)) = [] then
              (case consult_revision e a st of
                 (Raise e, st1) \<Rightarrow> Some (Raise e, st1)
               | (Diverge, st1) \<Rightarrow> None
               | (Ok granted, st1) \<Rightarrow>
                   (if granted then Some (Ok (Some a, [node_id (nodes_of st1 ! a)]), st1)
                    else (case prune_node a st1 of
                        (Ok _, st2) \<Rightarrow> f e cfg None st2
                      | (Raise e, st2) \<Rightarrow> Some (Raise e, st2)
                      | (Diverge, st2) \<Rightarrow> None)))
            else
              (case pick_child e cfg (filter (\<lambda>c. is_live (nodes_of st ! c)) (children (nodes_of st ! a))) st of
                 (Raise e, st1) \<Rightarrow> Some (Raise e, st1)
               | (Diverge, st1) \<Rightarrow> None
               | (Ok c, st1) \<Rightarrow> f e cfg (Some c) st1))) = Some y"
    show "e = env \<longrightarrow> log_of (world (snd y)) = log_of (world st)"
    proof
      assume "e = env"
      with eq show "log_of (world (snd y)) = log_of (world st)"
        by (auto split: option.splits if_splits prod.splits res.splits dest!: IH
            calmD [OF calm_prune_node] calmD [OF calm_consult_revision] calmD [OF calm_pick_child])
    qed
  qed
  with ret show ?thesis by blast
qed

lemma calm_select: "calm (select env cfg)"
  by (auto simp: calm_def select_def split: option.splits dest!: calm_select_loop)

lemma calm_create_child: "calm (create_child env a t)"
  by (auto simp: calm_def create_child_def split: sum.splits prod.splits)

lemma calm_expand_loop: "calm (expand_loop env a cs seen kids)"
  by (induction cs arbitrary: seen kids) (auto intro!: calm_bind calm_create_child calm_ret)

lemma calm_expand: "calm (expand env cfg a)"
  unfolding calm_def expand_def
  by (auto simp: Let_def split: prod.splits sum.splits dest!: calmD [OF calm_expand_loop] dest: keep_generate)

lemma calm_evaluate_one: "calm (evaluate_one env c)"
  by (auto simp: calm_def evaluate_one_def Let_def split: prod.splits dest: keep_evaluate)

lemma calm_evaluate_all: "calm (evaluate_all env cs)"
  by (induction cs) (auto intro!: calm_bind calm_evaluate_one calm_ret)

lemma calm_pool_complete: "calm (pool_complete env cs is fin)"
proof (induction "is" arbitrary: fin)
  case (Cons i "is")
  show ?case by (auto simp: calm_def split: prod.splits dest!: calmD [OF Cons] calmD [OF calm_evaluate_one])
qed (simp add: calm_ret)

lemma calm_pool_read: "calm (pool_read env cs i fin)"
proof (induction cs arbitrary: i)
  case (Cons c cs)
  have "calm (case map_of fin i of Some r \<Rightarrow> Pair r | None \<Rightarrow> evaluate_one env c)"
    by (cases "map_of fin i") (simp_all add: calm_def calmD [OF calm_evaluate_one])
  then show ?case by (simp only: pool_read.simps) (intro calm_bind calm_ret Cons)
qed (simp add: calm_ret)

lemma calm_collect_verdicts: "calm (collect_verdicts env cfg cs)"
  unfolding calm_def collect_verdicts_def
  by (auto simp: Let_def split: prod.splits if_splits dest!: calmD [OF calm_evaluate_all]
      calmD [OF calm_bind [OF calm_pool_complete calm_pool_read]] dest: keep_order)

lemma calm_consult_critic: "calm (consult_critic env s c)"
  by (auto simp: calm_def consult_critic_def split: option.splits prod.splits sum.splits if_splits dest: keep_critic)

lemma calm_shape_value: "calm (shape_value env c s cr)"
  by (auto simp: calm_def shape_value_def Let_def split: option.splits prod.splits dest: keep_reward)

lemma calm_store_verdict: "calm (store_verdict c v s)"
  by (auto simp: calm_def store_verdict_def)

lemma calm_verdict_loop: "calm (verdict_loop env cfg cvs sol valued)"
  unfolding apply_verdict_def
  by (induction cvs arbitrary: sol valued)
    (auto simp: apply_verdict_def intro!: calm_bind calm_ret calm_store_verdict calm_consult_critic calm_shape_value)

lemma calm_evaluate_children: "calm (evaluate_children env cfg cs)"
  unfolding evaluate_children_def by (intro calm_bind calm_collect_verdicts calm_verdict_loop)

lemma calm_backpropagate: "calm (backpropagate cvs)"
proof (induction cvs)
  case (Cons cv cvs)
  obtain c v where "cv = (c, v)" by fastforce
  then show ?case by (auto simp: calm_def split: option.splits dest!: calmD [OF Cons])
qed (simp add: calm_ret)

subsection \<open>The invariant\<close>

definition mirrored :: "mark list \<Rightarrow> 'w run_state \<Rightarrow> bool" where
  "mirrored base s \<longleftrightarrow> map mark_of (log_of (world s)) = base @ concat (map marks (history (machine s)))"

lemma mirrored_world: "preserves (mirrored base) m \<Longrightarrow> m (st\<lparr>world := w\<rparr>) = (r, s') \<Longrightarrow> log_of w = log_of (world st) \<Longrightarrow>
    mirrored base st \<Longrightarrow> mirrored base s'"
  by (drule preservesD) (auto simp: mirrored_def)

lemma quiet_calm: "quiet m \<Longrightarrow> calm m \<Longrightarrow> preserves (mirrored base) m"
  by (rule preservesI) (simp add: mirrored_def quietD calmD)

lemma advance_mirrored: "preserves (mirrored base) (advance env q i d)"
proof (rule preservesI)
  fix s r s' assume m: "mirrored base s" and run: "advance env q i d s = (r, s')"
  obtain stamp w where now: "monotonic env (world s) = (stamp, w)" by fastforce
  have w: "log_of w = log_of (world s)" by (rule keep_clock [OF now])
  show "mirrored base s'"
  proof (cases "transition (machine s) q d stamp")
    case (Inl e)
    then show ?thesis using run m now by (simp add: advance_def)
  next
    case (Inr p)
    obtain tr mach where p: "p = (tr, mach)" by (cases p)
    have hist: "history mach = history (machine s) @ [tr]" "target tr = q" "trans_note tr = d"
      using Inr p by (auto simp: transition_Inr)
    let ?ev = "\<lparr>event_iteration = iteration s, event_phase = q, event_node = i, event_detail = d\<rparr>"
    obtain r1 w1 where sk: "sink w (tree s) ?ev = (r1, w1)" by fastforce
    have "s' = s\<lparr>machine := mach, world := w1\<rparr>" using run now Inr p sk by (simp add: advance_def notify_def wired)
    moreover have "map mark_of (log_of w1) = map mark_of (log_of w) @ marks tr"
      using sink_appends [OF sk] hist by (simp add: event_marks_def marks_def)
    ultimately show ?thesis using m w hist(1) by (simp add: mirrored_def)
  qed
qed

lemmas mirrored_steps = advance_mirrored quiet_calm [OF quiet_prune_node calm_prune_node] quiet_calm [OF quiet_expand calm_expand]
  quiet_calm [OF quiet_select calm_select] quiet_calm [OF quiet_evaluate_children calm_evaluate_children]
  quiet_calm [OF quiet_backpropagate calm_backpropagate]

lemma announce_revision_mirrored: "preserves (mirrored base) (announce_revision env a)"
  unfolding announce_revision_def [abs_def] by (rule preserves_at, intro hoare_rules mirrored_steps)

lemma backtrack_mirrored: "preserves (mirrored base) (backtrack env a)"
  unfolding backtrack_def [abs_def] by (rule preserves_at, intro hoare_rules mirrored_steps)

lemma settle_batch_mirrored: "preserves (mirrored base) (settle_batch env cfg a kids)"
  unfolding settle_batch_def [abs_def]
  by (rule preserves_at, intro hoare_rules mirrored_steps) (rule preserves_at, intro hoare_rules mirrored_steps)

lemma expand_node_mirrored: "preserves (mirrored base) (expand_node env cfg a)"
  unfolding expand_node_def [abs_def]
  by (rule preserves_at, intro hoare_rules mirrored_steps backtrack_mirrored settle_batch_mirrored)

lemma stop_mirrored: "preserves (mirrored base) (bindM (advance env q i d) (\<lambda>_. ret True))"
  by (intro hoare_rules mirrored_steps)

lemma poll_cancel_mirrored: "preserves (mirrored base) (poll_cancel env)"
  by (rule preservesI) (auto simp: poll_cancel_def Let_def mirrored_def split: option.splits prod.splits if_splits
      dest: keep_cancel dest!: mirrored_world [unfolded mirrored_def, OF stop_mirrored [unfolded mirrored_def]])

lemma poll_deadline_mirrored: "preserves (mirrored base) (poll_deadline env cfg dl)"
  by (rule preservesI) (auto simp: poll_deadline_def Let_def mirrored_def split: option.splits prod.splits if_splits
      dest: keep_clock dest!: mirrored_world [unfolded mirrored_def, OF stop_mirrored [unfolded mirrored_def]])

lemma poll_stop_mirrored: "preserves (mirrored base) (poll_stop env)"
  by (rule preservesI) (auto simp: poll_stop_def Let_def mirrored_def split: option.splits prod.splits sum.splits if_splits
      dest: keep_stop dest!: mirrored_world [unfolded mirrored_def, OF stop_mirrored [unfolded mirrored_def]])

lemma count_iteration_mirrored: "preserves (mirrored base) count_iteration"
  by (rule preservesI) (auto simp: count_iteration_def mirrored_def)

lemma search_step_mirrored: "preserves (mirrored base) (search_step env cfg)"
  unfolding search_step_def
  by (intro hoare_rules mirrored_steps count_iteration_mirrored announce_revision_mirrored expand_node_mirrored)

lemma run_body_mirrored: "preserves (mirrored base) (run_body env cfg dl)"
  unfolding run_body_def
  by (intro hoare_rules poll_cancel_mirrored poll_deadline_mirrored poll_stop_mirrored search_step_mirrored)

lemma run_loop_mirrored: "preserves (mirrored base) (run_loop env cfg dl)"
  unfolding preserves_def
  by (rule run_loop_hoare)
    (auto intro: hoare_conseq [OF run_body_mirrored [unfolded preserves_def]] split: res.splits flow.splits)

lemma guarded_loop_mirrored: "preserves (mirrored base) (guarded_loop env cfg dl)"
  unfolding guarded_loop_def Let_def by (intro hoare_rules run_loop_mirrored advance_mirrored)

lemma spend_budget_mirrored: "preserves (mirrored base) (spend_budget env)"
  by (rule preservesI) (auto simp: spend_budget_def split: if_splits dest: preservesD [OF advance_mirrored])

lemma build_result_mirrored: "preserves (mirrored base) (build_result err)"
  by (rule preservesI) (auto simp: build_result_def split: option.splits)

lemma start_deadline_mirrored: "preserves (mirrored base) (start_deadline cfg env)"
  by (rule preservesI) (auto simp: start_deadline_def Let_def mirrored_def split: option.splits prod.splits dest: keep_clock)

text \<open>The log of a run is what it was before, then the history.\<close>

lemma run_mirrored:
  assumes "run env cfg task w = (r, s)"
  shows "map mark_of (log_of (world s)) = map mark_of (log_of w) @ concat (map marks (history (machine s)))"
proof -
  let ?base = "map mark_of (log_of w)"
  have init: "mirrored ?base (initial_state env task w)"
    by (simp add: mirrored_def initial_state_def new_machine_def)
  have "preserves (mirrored ?base) (bindM (start_deadline cfg env) (\<lambda>deadline.
     bindM (advance env SELECTION None ''search started'') (\<lambda>_.
     bindM (guarded_loop env cfg deadline) (\<lambda>err.
     bindM (spend_budget env) (\<lambda>_. build_result err)))))"
    by (intro hoare_rules start_deadline_mirrored advance_mirrored guarded_loop_mirrored spend_budget_mirrored build_result_mirrored)
  from preservesD [OF this init assms [unfolded run_def]] show ?thesis by (simp add: mirrored_def)
qed

lemma subscriber_silent: "silent env"
  unfolding silent_def using wired sink_appends by (metis option.inject surj_pair)

end

end
