(* ===== verification/Session.thy ===== *)
theory Session
  imports Search_Events
begin

section \<open>Reasoning sessions (cognitivetree/session.py)\<close>

text \<open>
  A session binds a task to a controller and streams its run. The policies of a controller act on
  the outside world \<open>'v\<close>; the envelope queue is a local variable of \<open>stream\<close>, so a running stream is a
  \<open>desk\<close>: the outside world and the queue. \<open>on_desk\<close> lets the policies work at the desk and wires the session's
  sink and cancel event. The worker thread's \<open>work\<close> is one program; the consumer only reads the queue,
  and whether it has closed the stream by the time of a poll is read from the world (\<open>consumer_closed\<close>).
  Each run builds its controller through the factory \<open>controller\<close>, which may read the world (a budget
  remembers where the token count stands), act on it (a backend is probed) and raise. What the outside provides (clock, file system, JSON writer, log) is the record \<open>services\<close>.
\<close>

subsection \<open>The desk\<close>

record 'v desk =
  host :: 'v
  queue :: "envelope list"

definition at_host :: "('v \<Rightarrow> 'a \<times> 'v) \<Rightarrow> 'v desk \<Rightarrow> 'a \<times> 'v desk" where
  "at_host f d = (let (x, h) = f (host d) in (x, d\<lparr>host := h\<rparr>))"

definition at_host2 :: "('v \<Rightarrow> 'a \<times> 'b \<times> 'v) \<Rightarrow> 'v desk \<Rightarrow> 'a \<times> 'b \<times> 'v desk" where
  "at_host2 f d = (let (x, y, h) = f (host d) in (x, y, d\<lparr>host := h\<rparr>))"

definition put :: "('v \<Rightarrow> pyfloat \<times> 'v) \<Rightarrow> (pyfloat \<Rightarrow> envelope) \<Rightarrow> 'v desk \<Rightarrow> 'v desk" where
  "put now mk d = (let (ts, h) = now (host d) in d\<lparr>host := h, queue := queue d @ [mk ts]\<rparr>)"

text \<open>The closure \<open>sink\<close> of \<open>stream\<close>; the controller's live tree is the argument \<open>t\<close>.\<close>

definition session_sink :: "('v \<Rightarrow> pyfloat \<times> 'v) \<Rightarrow> 'v desk \<Rightarrow> thought_tree \<Rightarrow> search_event \<Rightarrow> (exn + unit) \<times> 'v desk" where
  "session_sink now d t ev =
     (let d1 = put now (Phase_Envelope ev) d
      in (Inr (), if event_phase ev \<in> SNAPSHOT_PHASES then put now (Snapshot_Envelope t) d1 else d1))"

definition on_desk :: "('v \<Rightarrow> pyfloat \<times> 'v) \<Rightarrow> ('v \<Rightarrow> bool \<times> 'v) \<Rightarrow> 'v environment \<Rightarrow> 'v desk environment" where
  "on_desk now gone env = \<lparr>
     generate = (\<lambda>d h a k. at_host (\<lambda>w. generate env w h a k) d),
     evaluate = (\<lambda>d h a. at_host2 (\<lambda>w. evaluate env w h a) d),
     critic = map_option (\<lambda>f d h a. at_host (\<lambda>w. f w h a) d) (critic env),
     revision_policy = map_option (\<lambda>f d h a. at_host2 (\<lambda>w. f w h a) d) (revision_policy env),
     reward_model = map_option (\<lambda>f d h a s c. at_host2 (\<lambda>w. f w h a s c) d) (reward_model env),
     stop_condition = map_option at_host (stop_condition env),
     on_event = Some (session_sink now),
     cancel_event = Some (at_host gone),
     monotonic = at_host (monotonic env),
     random_unit = at_host (random_unit env),
     uid = uid env,
     pool_order = (\<lambda>d n. at_host (\<lambda>w. pool_order env w n) d)\<rparr>"

lemma at_host_queue: "at_host f d = (x, d') \<Longrightarrow> queue d' = queue d"
  by (auto simp: at_host_def Let_def split: prod.splits)

lemma at_host2_queue: "at_host2 f d = (x, y, d') \<Longrightarrow> queue d' = queue d"
  by (auto simp: at_host2_def Let_def split: prod.splits)

lemma put_queue: "\<exists>ts. queue (put now mk d) = queue d @ [mk ts]"
  by (auto simp: put_def Let_def split: prod.splits)

lemma session_sink_appends:
  assumes "session_sink now d t ev = (r, d')"
  shows "r = Inr () \<and> map mark_of (queue d') = map mark_of (queue d) @ event_marks ev"
proof -
  obtain t1 where 1: "queue (put now (Phase_Envelope ev) d) = queue d @ [Phase_Envelope ev t1]" using put_queue by blast
  obtain t2 where 2: "queue (put now (Snapshot_Envelope t) (put now (Phase_Envelope ev) d))
      = queue (put now (Phase_Envelope ev) d) @ [Snapshot_Envelope t t2]" using put_queue by blast
  have "d' = (if event_phase ev \<in> SNAPSHOT_PHASES then put now (Snapshot_Envelope t) (put now (Phase_Envelope ev) d)
      else put now (Phase_Envelope ev) d)" and "r = Inr ()" using assms by (auto simp: session_sink_def Let_def)
  then show ?thesis using 1 2 by (simp add: event_marks_def)
qed

text \<open>Every controller at a desk is a subscriber's controller: its policies cannot reach the queue.\<close>

interpretation desk: subscriber "on_desk now gone env" queue "session_sink now" for now :: "'v \<Rightarrow> pyfloat \<times> 'v" and gone env
proof unfold_locales
  show "on_event (on_desk now gone env) = Some (session_sink now)" by (simp add: on_desk_def)
qed (auto simp: on_desk_def session_sink_appends dest: at_host_queue at_host2_queue)

subsection \<open>The session\<close>

record 'v services =
  time_now :: "'v \<Rightarrow> pyfloat \<times> 'v"
  consumer_closed :: "'v \<Rightarrow> bool \<times> 'v"
  utc_stamp :: "'v \<Rightarrow> string \<times> 'v"
  utc_iso :: "'v \<Rightarrow> string \<times> 'v"
  fresh_hex :: "'v \<Rightarrow> string \<times> 'v"
  dumps :: "pyval \<Rightarrow> exn + string"
  write_file :: "string \<Rightarrow> string \<Rightarrow> 'v \<Rightarrow> exn + 'v"
  log_event :: "bool \<Rightarrow> dict \<Rightarrow> 'v \<Rightarrow> 'v"

record 'v session =
  session_task :: string
  controller :: "'v \<Rightarrow> (exn + 'v environment \<times> search_config) \<times> 'v"
  archive_dir :: "string option"
  session_usage :: "('v \<Rightarrow> token_usage) option"

definition make_session :: "'v session \<Rightarrow> exn + 'v session" where
  "make_session s = (if py_strip (session_task s) = [] then Inl (Exn ValueError ''task must be a non-empty statement'') else Inr s)"

definition read_usage :: "'v session \<Rightarrow> 'v \<Rightarrow> token_usage option" where
  "read_usage s w = map_option (\<lambda>u. u w) (session_usage s)"

definition session_metrics :: "'v session \<Rightarrow> search_result \<Rightarrow> token_usage option \<Rightarrow> 'v \<Rightarrow> (exn + run_metrics) option" where
  "session_metrics s r base w = metrics_from_result r
     (case (session_usage s, base) of (Some u, Some b) \<Rightarrow> Some (usage_minus (u w) b) | _ \<Rightarrow> None)"

text \<open>\<open>_archive\<close>: only an OSError of the write is forgiven.\<close>

definition archive_name :: "string \<Rightarrow> string \<Rightarrow> search_result \<Rightarrow> string" where
  "archive_name stamp hex r = stamp @ ''-'' @ outcome_value (outcome r) @ ''-'' @ hex @ ''.json''"

definition archive_run :: "'v services \<Rightarrow> 'v session \<Rightarrow> search_result \<Rightarrow> run_metrics \<Rightarrow> ('v, string option) prog" where
  "archive_run sv s r m w = (case archive_dir s of
       None \<Rightarrow> (Ok None, w)
     | Some dir \<Rightarrow>
         (let (stamp, w1) = utc_stamp sv w; (hex, w2) = fresh_hex sv w1; (iso, w3) = utc_iso sv w2;
              path = dir @ ''/'' @ archive_name stamp hex r
          in (case save_run (dumps sv) (write_file sv) r path (metrics_to_dict m) iso w3 of
                None \<Rightarrow> (Diverge, w3)
              | Some (Inl e) \<Rightarrow> (if os_error (exn_kind e)
                    then (Ok None, log_event sv True [(''message'', VStr (''run archive could not be written: '' @ exn_text e))] w3)
                    else (Raise e, w3))
              | Some (Inr w4) \<Rightarrow> (Ok (Some path), w4))))"

definition finished_record :: "search_result \<Rightarrow> run_metrics \<Rightarrow> string option \<Rightarrow> dict" where
  "finished_record r m path =
     [(''event'', VStr ''run_finished''), (''outcome'', VStr (outcome_value (outcome r))), (''iterations'', VInt (iterations r)),
      (''nodes'', VInt (node_count r)), (''wall_seconds'', VFloat (py_round (wall_time_seconds m) 3)),
      (''tokens'', case metric_usage m of None \<Rightarrow> VNone | Some u \<Rightarrow> VInt (total_tokens u)),
      (''llm_calls'', case metric_usage m of None \<Rightarrow> VNone | Some u \<Rightarrow> VInt (usage_calls u)),
      (''archive'', case path of None \<Rightarrow> VNone | Some p \<Rightarrow> VStr p),
      (''error'', if result_error r = [] then VNone else VStr (result_error r))]"

definition settle :: "'v services \<Rightarrow> 'v session \<Rightarrow> search_result \<Rightarrow> run_metrics \<Rightarrow> ('v, unit) prog" where
  "settle sv s r m = bindM (archive_run sv s r m) (\<lambda>path w.
     (Ok (), log_event sv (outcome r = OUT_FAILED) (finished_record r m path) w))"

text \<open>\<open>run\<close>: the synchronous way, without a sink. The result is returned after it has been settled.\<close>

definition session_run :: "'v services \<Rightarrow> 'v session \<Rightarrow> ('v, search_result) prog" where
  "session_run sv s w = (case controller s w of
       (Inl e, w1) \<Rightarrow> (Raise e, w1)
     | (Inr (env, cfg), w1) \<Rightarrow> (case run (env\<lparr>on_event := None, cancel_event := None\<rparr>) cfg (session_task s) w1 of
         (Raise e, st) \<Rightarrow> (Raise e, world st)
       | (Diverge, st) \<Rightarrow> (Diverge, world st)
       | (Ok r, st) \<Rightarrow> bindM (call (session_metrics s r (read_usage s w) (world st))) (\<lambda>m.
           bindM (settle sv s r m) (\<lambda>_. ret r)) (world st)))"

text \<open>\<open>work\<close>, up to the \<open>finally\<close> that closes the queue.\<close>

definition host_prog :: "('v, 'a) prog \<Rightarrow> ('v desk, 'a) prog" where
  "host_prog m d = (let (r, h) = m (host d) in (r, d\<lparr>host := h\<rparr>))"

definition put_prog :: "('v \<Rightarrow> pyfloat \<times> 'v) \<Rightarrow> (pyfloat \<Rightarrow> envelope) \<Rightarrow> ('v desk, unit) prog" where
  "put_prog now mk d = (Ok (), put now mk d)"

definition report :: "'v services \<Rightarrow> 'v session \<Rightarrow> token_usage option \<Rightarrow> search_result \<Rightarrow> ('v desk, unit) prog" where
  "report sv s base r d = (case session_metrics s r base (host d) of
       None \<Rightarrow> (Diverge, d)
     | Some (Inl e) \<Rightarrow> (Raise e, d)
     | Some (Inr m) \<Rightarrow> bindM (host_prog (settle sv s r m)) (\<lambda>_.
         bindM (put_prog (time_now sv) (Metrics_Envelope (metrics_to_dict m))) (\<lambda>_.
         put_prog (time_now sv) (Result_Envelope r))) d)"

definition work :: "'v services \<Rightarrow> 'v session \<Rightarrow> 'v environment \<times> search_config \<Rightarrow> ('v desk, unit) prog" where
  "work sv s c d =
     (case run (on_desk (time_now sv) (consumer_closed sv) (fst c)) (snd c) (session_task s) d of
        (Raise e, st) \<Rightarrow> (Raise e, world st)
      | (Diverge, st) \<Rightarrow> (Diverge, world st)
      | (Ok r, st) \<Rightarrow> report sv s (read_usage s (host d)) r (world st))"

text \<open>The queue ends with the sentinel \<open>None\<close> that \<open>finally\<close> puts; the consumer yields what comes before it.\<close>

fun drain :: "envelope option list \<Rightarrow> envelope list" where
  "drain [] = []"
| "drain (None # es) = []"
| "drain (Some e # es) = e # drain es"

definition stream :: "'v services \<Rightarrow> 'v session \<Rightarrow> 'v \<Rightarrow> exn + envelope list" where
  "stream sv s w = (case controller s w of
       (Inl e, w1) \<Rightarrow> Inl e
     | (Inr c, w1) \<Rightarrow> Inr (drain (map Some (queue (snd (work sv s c \<lparr>host = w1, queue = []\<rparr>))) @ [None])))"

lemma drain_closed: "drain (map Some es @ [None]) = es"
  by (induction es) simp_all

end
