(* ===== verification/Session_Stream.thy ===== *)
theory Session_Stream
  imports Session
begin

section \<open>What a session streams\<close>

text \<open>
  The stream of a session is complete and ordered for every controller, and the replay of the archive
  of a run shows a subscriber the same envelopes as the run itself did.
\<close>

lemma metrics_exist: "wf_tree (result_tree r) \<Longrightarrow> \<exists>x. metrics_from_result r u = Some x"
  by (erule nodes_total) (simp add: metrics_from_result_def)

lemma archive_run_returns:
  assumes "sound_result r" shows "fst (archive_run sv s r m w) \<noteq> Diverge"
proof -
  have "\<exists>x. save_run f g r path (metrics_to_dict m) iso fs = Some x" for f g path iso and fs :: 'a
    using archive_restored [OF assms, of "metrics_to_dict m" iso] by (auto simp: save_run_def)
  then show ?thesis
    by (auto simp: archive_run_def Let_def split: option.splits prod.splits sum.splits) (metis option.distinct(1))
qed

lemma settle_returns: "sound_result r \<Longrightarrow> fst (settle sv s r m w) \<noteq> Diverge"
  using archive_run_returns [of r sv s m w] by (auto simp: settle_def bindM_def split: prod.splits res.splits)

text \<open>
  Why reporting a run can raise although its metrics exist: archiving is configured, and the JSON writer or the write of
  the file raised something that is not an OSError.
\<close>

definition archive_fault :: "'v services \<Rightarrow> 'v session \<Rightarrow> bool" where
  "archive_fault sv s \<longleftrightarrow> archive_dir s \<noteq> None \<and>
     (\<exists>e. \<not> os_error (exn_kind e) \<and> ((\<exists>doc. dumps sv doc = Inl e) \<or> (\<exists>path txt h. write_file sv path txt h = Inl e)))"

lemma settle_raises:
  assumes "sound_result r" "settle sv s r m w = (Raise e, w')" shows "archive_fault sv s"
proof -
  obtain w1 where a: "archive_run sv s r m w = (Raise e, w1)"
    using assms(2) by (auto simp: settle_def bindM_def split: prod.splits res.splits)
  then obtain dir where dir: "archive_dir s = Some dir" by (cases "archive_dir s") (auto simp: archive_run_def)
  then obtain path iso w2 where save: "save_run (dumps sv) (write_file sv) r path (metrics_to_dict m) iso w2 = Some (Inl e)"
    and e: "\<not> os_error (exn_kind e)"
    using a by (auto simp: archive_run_def Let_def split: prod.splits option.splits sum.splits if_splits)
  obtain doc where "result_to_archive_document r (metrics_to_dict m) iso = Some (Inr doc)"
    using archive_restored [OF assms(1)] by blast
  then have "sum_bind (dumps sv doc) (\<lambda>text. write_file sv path text w2) = Inl e" using save by (simp add: save_run_def)
  then have "(\<exists>doc. dumps sv doc = Inl e) \<or> (\<exists>path txt h. write_file sv path txt h = Inl e)" unfolding sum_bind_Inl by blast
  then show ?thesis using e dir unfolding archive_fault_def by blast
qed

lemma report_spec:
  assumes "report sv s base r d = (x, d')" "sound_result r"
  shows "x \<noteq> Diverge \<and> (\<exists>es. queue d' = queue d @ es
     \<and> (if x = Ok () then \<exists>m ts ts'. session_metrics s r base (host d) = Some (Inr m)
            \<and> es = [Metrics_Envelope (metrics_to_dict m) ts, Result_Envelope r ts']
        else es = [] \<and> ((\<exists>e. session_metrics s r base (host d) = Some (Inl e)) \<or> archive_fault sv s)))"
proof -
  have "wf_tree (result_tree r)" using assms(2) by (simp add: sound_result_def)
  then obtain y where y: "session_metrics s r base (host d) = Some y"
    using metrics_exist unfolding session_metrics_def by blast
  show ?thesis
  proof (cases y)
    case (Inl e)
    then show ?thesis using assms(1) y by (auto simp: report_def)
  next
    case (Inr m)
    obtain z h where z: "settle sv s r m (host d) = (z, h)" by fastforce
    have nd: "z \<noteq> Diverge" using settle_returns [OF assms(2), of sv s m "host d"] z by simp
    have hp: "host_prog (settle sv s r m) d = (z, d\<lparr>host := h\<rparr>)" using z by (simp add: host_prog_def)
    show ?thesis
    proof (cases z)
      case (Ok u)
      let ?d1 = "put (time_now sv) (Metrics_Envelope (metrics_to_dict m)) (d\<lparr>host := h\<rparr>)"
      obtain ts where 1: "queue ?d1 = queue (d\<lparr>host := h\<rparr>) @ [Metrics_Envelope (metrics_to_dict m) ts]" using put_queue by blast
      obtain ts' where 2: "queue (put (time_now sv) (Result_Envelope r) ?d1) = queue ?d1 @ [Result_Envelope r ts']" using put_queue by blast
      have "x = Ok () \<and> d' = put (time_now sv) (Result_Envelope r) ?d1"
        using assms(1) y Inr hp Ok by (simp add: report_def bindM_def put_prog_def)
      then show ?thesis using 1 2 y Inr by auto
    next
      case (Raise e)
      have "archive_fault sv s" using settle_raises [OF assms(2), of sv s m "host d" e h] z Raise by simp
      then show ?thesis using assms(1) y Inr hp Raise by (auto simp: report_def bindM_def)
    qed (use nd in simp)
  qed
qed

text \<open>The controller's run inside \<open>work\<close>.\<close>

lemma desk_run:
  assumes "valid_config cfg" "inj (uid env)"
  obtains r st where "run (on_desk (time_now sv) (consumer_closed sv) env) cfg (session_task s)
      \<lparr>host = w, queue = []\<rparr> = (Ok r, st)" "sound_result r"
    "map mark_of (queue (world st)) = concat (map marks (phase_history r))"
proof -
  let ?env = "on_desk (time_now sv) (consumer_closed sv) env" and ?d = "\<lparr>host = w, queue = []\<rparr>"
  have inj: "inj (uid ?env)" using assms(2) by (simp add: on_desk_def)
  obtain x st where run: "run ?env cfg (session_task s) ?d = (x, st)" by fastforce
  obtain r where r: "x = Ok r" using run_triple(2) [OF assms(1) inj run desk.subscriber_silent] by blast
  have "reports r st" using run_triple(3) [OF assms(1) inj run r] by blast
  moreover have "map mark_of (queue (world st)) = concat (map marks (history (machine st)))"
    using desk.run_mirrored [OF run] by simp
  ultimately show thesis using that [of r st] run r run_sound [OF assms(1) inj, of "session_task s" ?d r] by (simp add: reports_def)
qed

lemma stream_shape:
  assumes "controller s w0 = (Inr (env, cfg), w)" "valid_config cfg" "inj (uid env)"
  obtains r es rest where "fst (run (on_desk (time_now sv) (consumer_closed sv) env) cfg (session_task s)
      \<lparr>host = w, queue = []\<rparr>) = Ok r" "sound_result r" "stream sv s w0 = Inr (es @ rest)"
    "map mark_of es = concat (map marks (phase_history r))" "fst (work sv s (env, cfg) \<lparr>host = w, queue = []\<rparr>) \<noteq> Diverge"
    "if fst (work sv s (env, cfg) \<lparr>host = w, queue = []\<rparr>) = Ok ()
     then \<exists>m ts ts' base h. session_metrics s r base h = Some (Inr m) \<and> rest = [Metrics_Envelope (metrics_to_dict m) ts, Result_Envelope r ts']
     else rest = [] \<and> ((\<exists>base h e. session_metrics s r base h = Some (Inl e)) \<or> archive_fault sv s)"
proof -
  let ?d = "\<lparr>host = w, queue = []\<rparr>"
  obtain r st where run: "run (on_desk (time_now sv) (consumer_closed sv) env) cfg (session_task s) ?d = (Ok r, st)"
    and sound: "sound_result r" and q: "map mark_of (queue (world st)) = concat (map marks (phase_history r))"
    using desk_run [OF assms(2,3)] by metis
  obtain x d' where rep: "report sv s (read_usage s w) r (world st) = (x, d')" by fastforce
  have wk: "work sv s (env, cfg) ?d = (x, d')" using run rep by (simp add: work_def)
  have stream: "stream sv s w0 = Inr (queue d')" using assms(1) by (simp add: stream_def drain_closed wk)
  obtain rest where "queue d' = queue (world st) @ rest" "x \<noteq> Diverge"
    "if x = Ok () then \<exists>m ts ts' base h. session_metrics s r base h = Some (Inr m)
          \<and> rest = [Metrics_Envelope (metrics_to_dict m) ts, Result_Envelope r ts']
     else rest = [] \<and> ((\<exists>base h e. session_metrics s r base h = Some (Inl e)) \<or> archive_fault sv s)"
    using report_spec [OF rep sound] by (cases "x = Ok ()") auto
  then show thesis using that [of r "queue (world st)" rest] run sound q wk stream by simp
qed

text \<open>A session's stream always ends and is complete: whatever the policies, the clock, the file system and the
  consumer do, the run finishes, the stream announces every state transition once and in order, with a snapshot right
  after each backpropagation and terminal phase, and unless reporting the run raised it closes with the metrics and the
  result; a worker that fails still closes the stream.\<close>

theorem session_stream_complete:
  assumes "controller s w0 = (Inr (env, cfg), w)" "valid_config cfg" "inj (uid env)"
  shows "\<exists>r es rest. fst (run (on_desk (time_now sv) (consumer_closed sv) env) cfg (session_task s)
        \<lparr>host = w, queue = []\<rparr>) = Ok r
     \<and> stream sv s w0 = Inr (es @ rest) \<and> map mark_of es = concat (map marks (phase_history r))
     \<and> fst (work sv s (env, cfg) \<lparr>host = w, queue = []\<rparr>) \<noteq> Diverge
     \<and> (if fst (work sv s (env, cfg) \<lparr>host = w, queue = []\<rparr>) = Ok () then \<exists>m ts ts'. rest = [Metrics_Envelope m ts, Result_Envelope r ts'] else rest = [])"
proof -
  obtain r es rest where r: "fst (run (on_desk (time_now sv) (consumer_closed sv) env) cfg (session_task s)
      \<lparr>host = w, queue = []\<rparr>) = Ok r" "stream sv s w0 = Inr (es @ rest)"
    "map mark_of es = concat (map marks (phase_history r))" "fst (work sv s (env, cfg) \<lparr>host = w, queue = []\<rparr>) \<noteq> Diverge"
    "if fst (work sv s (env, cfg) \<lparr>host = w, queue = []\<rparr>) = Ok ()
     then \<exists>m ts ts' base h. session_metrics s r base h = Some (Inr m) \<and> rest = [Metrics_Envelope (metrics_to_dict m) ts, Result_Envelope r ts']
     else rest = [] \<and> ((\<exists>base h e. session_metrics s r base h = Some (Inl e)) \<or> archive_fault sv s)"
    by (rule stream_shape [OF assms, of sv])
  have "if fst (work sv s (env, cfg) \<lparr>host = w, queue = []\<rparr>) = Ok () then \<exists>m ts ts'. rest = [Metrics_Envelope m ts, Result_Envelope r ts'] else rest = []"
    using r(5) by (auto split: if_splits)
  then show ?thesis using r(1-4) by blast
qed

subsection \<open>What a subscriber sees\<close>

text \<open>
  An envelope without its time stamp and without what a replay cannot know: for a phase the phase and its detail, for
  a snapshot only that it is one, for the metrics and the result all that is sent.
\<close>

datatype view = Phase_View search_phase string | Snapshot_View | Metrics_View pyval | Result_View pyval

fun view_of :: "envelope \<Rightarrow> view" where
  "view_of (Phase_Envelope ev ts) = Phase_View (event_phase ev) (event_detail ev)"
| "view_of (Snapshot_Envelope t ts) = Snapshot_View"
| "view_of (Metrics_Envelope m ts) = Metrics_View m"
| "view_of (Result_Envelope r ts) = Result_View (result_envelope r 0)"

definition views :: "phase_transition \<Rightarrow> view list" where
  "views tr = Phase_View (target tr) (trans_note tr) # (if target tr \<in> SNAPSHOT_PHASES then [Snapshot_View] else [])"

lemma view_of_mark: "mark_of e \<in> set (marks tr) \<Longrightarrow> view_of e = (case mark_of e of Phase_Mark p d \<Rightarrow> Phase_View p d | _ \<Rightarrow> Snapshot_View)"
  by (cases e) (auto simp: marks_def split: if_splits)

lemma marked_views:
  assumes "map mark_of es = concat (map marks trs)"
  shows "map view_of es = concat (map views trs)" "Metrics_Envelope m ts \<notin> set es" "Result_Envelope r ts' \<notin> set es"
proof -
  have m: "\<exists>tr. mark_of e \<in> set (marks tr)" if "e \<in> set es" for e
  proof -
    have "mark_of e \<in> set (concat (map marks trs))" unfolding assms [symmetric] using that by simp
    then show ?thesis by auto
  qed
  have v: "views tr = map (\<lambda>k. case k of Phase_Mark p d \<Rightarrow> Phase_View p d | _ \<Rightarrow> Snapshot_View) (marks tr)" for tr
    by (simp add: views_def marks_def)
  have "map view_of es = map (\<lambda>k. case k of Phase_Mark p d \<Rightarrow> Phase_View p d | _ \<Rightarrow> Snapshot_View) (map mark_of es)"
    using m view_of_mark by (auto simp: o_def)
  then show "map view_of es = concat (map views trs)" unfolding assms v by (simp add: map_concat o_def)
  have "mark_of e \<noteq> Metrics_Mark \<and> mark_of e \<noteq> Result_Mark" if "e \<in> set es" for e
    using m [OF that] by (auto simp: marks_def split: if_splits)
  then show "Metrics_Envelope m ts \<notin> set es" "Result_Envelope r ts' \<notin> set es" by fastforce+
qed

lemma same_run_envelope: "same_run r r' \<Longrightarrow> result_envelope r' ts = result_envelope r ts"
  using same_run_path [of r r'] same_run_solution [of r r'] by (simp add: result_envelope_def same_run_def)

text \<open>C32: A replay shows what the live run showed. When a session has streamed its metrics and its result, and the archive of
  that result with those metrics is read back and replayed, the replay finishes and yields, one by one and in the same order,
  the envelopes of the live stream: the same phases with the same details, a snapshot where there was one, the same
  metrics document, and the same result document (outcome, iteration and node counts, solution, error and best path). Time stamps are
  left out, and so are the node identifiers and iteration numbers of phase envelopes and the trees of the snapshots, where a replay
  differs: each of its snapshots is the final tree of the run, which is what the archive holds.\<close>

theorem replay_mirrors_live:
  assumes "controller s w0 = (Inr (env, cfg), w)" "valid_config cfg" "inj (uid env)"
    "stream sv s w0 = Inr live" "Metrics_Envelope md ts \<in> set live" "Result_Envelope r ts' \<in> set live"
    "result_to_archive_document r md now = Some (Inr doc)" "archive_from_document fr doc = Some (Inr (archive p))"
    "patient p"
  shows "\<exists>v1 es. replay_stream p \<lparr>outside = v0, yielded = []\<rparr> = (Ok (), \<lparr>outside = v1, yielded = es\<rparr>)
     \<and> map view_of es = map view_of live
     \<and> (\<forall>t ts. Snapshot_Envelope t ts \<in> set es \<longrightarrow> tree_to_dict t True = tree_to_dict (result_tree (archived_result (archive p))) True)
     \<and> result_to_archive_document (archived_result (archive p)) md now = Some (Inr doc)"
proof -
  obtain r0 es rest where shape: "sound_result r0" "stream sv s w0 = Inr (es @ rest)" "map mark_of es = concat (map marks (phase_history r0))"
    "if fst (work sv s (env, cfg) \<lparr>host = w, queue = []\<rparr>) = Ok ()
     then \<exists>m ts ts' base h. session_metrics s r0 base h = Some (Inr m) \<and> rest = [Metrics_Envelope (metrics_to_dict m) ts, Result_Envelope r0 ts']
     else rest = [] \<and> ((\<exists>base h e. session_metrics s r0 base h = Some (Inl e)) \<or> archive_fault sv s)"
    by (rule stream_shape [OF assms(1-3), of sv])
  note plain = marked_views [OF shape(3)]
  have live: "live = es @ rest" using shape(2) assms(4) by simp
  have "rest \<noteq> []" using assms(5) plain(2) by (auto simp: live)
  then obtain m ts1 ts2 where rest: "rest = [Metrics_Envelope (metrics_to_dict m) ts1, Result_Envelope r0 ts2]"
    using shape(4) by (auto split: if_splits)
  have mr: "md = metrics_to_dict m" "r = r0" using assms(5,6) plain(2,3) by (auto simp: live rest)
  have same: "same_run r (archived_result (archive p))" "sound_result (archived_result (archive p))"
    "archived_metrics (archive p) = md" "result_to_archive_document (archived_result (archive p)) md now = Some (Inr doc)"
    using archive_restored [OF shape(1), of md now fr] assms(7,8) mr(2) by auto
  have hist: "phase_history (archived_result (archive p)) = phase_history r" using same(1) by (simp add: same_run_def)
  have "replay_metrics (archive p) = Some (Inr md)"
    using same(3) mr(1) by (simp add: replay_metrics_def metrics_to_dict_def)
  from replay_shape [OF same(2) refl assms(9) this, of v0]
  obtain v1 es' ts3 ts4 where replay: "replay_stream p \<lparr>outside = v0, yielded = []\<rparr> = (Ok (), \<lparr>outside = v1,
      yielded = es' @ [Metrics_Envelope md ts3, Result_Envelope (archived_result (archive p)) ts4]\<rparr>)"
    "map mark_of es' = concat (map marks (phase_history (archived_result (archive p))))"
    "\<forall>t ts. Snapshot_Envelope t ts \<in> set es' \<longrightarrow> tree_to_dict t True = tree_to_dict (result_tree (archived_result (archive p))) True"
    by blast
  have "map view_of es' = map view_of es"
    using marked_views(1) [OF replay(2)] plain(1) hist mr(2) by simp
  then have "map view_of (es' @ [Metrics_Envelope md ts3, Result_Envelope (archived_result (archive p)) ts4]) = map view_of live"
    using same_run_envelope [OF same(1)] mr by (simp add: live rest)
  then show ?thesis using replay(1,3) same(4)
    by (intro exI [of _ v1] exI [of _ "es' @ [Metrics_Envelope md ts3, Result_Envelope (archived_result (archive p)) ts4]"]) auto
qed

definition plain_services :: "unit services" where
  "plain_services = \<lparr>time_now = Pair 0, consumer_closed = Pair False, utc_stamp = Pair [], utc_iso = Pair [], fresh_hex = Pair [],
     dumps = (\<lambda>_. Inr []), write_file = (\<lambda>p t w. Inr w), log_event = (\<lambda>b d w. w)\<rparr>"

definition plain_session :: "unit session" where
  "plain_session = \<lparr>session_task = ''t'', controller = Pair (Inr (sample_env [''a''] 1 True, default_config)), archive_dir = None, session_usage = None\<rparr>"

abbreviation plain_env :: "unit environment" where
  "plain_env \<equiv> sample_env [''a''] 1 True"

lemma plain_session_ok: "controller plain_session w = (Inr (plain_env, default_config), w)"
  "valid_config default_config" "inj (uid plain_env)"
  using valid_default_config sample_inj [of "[''a'']" 1 True] by (simp_all add: plain_session_def)

lemmas desk_eval = on_desk_def at_host_def at_host2_def session_sink_def put_def SNAPSHOT_PHASES_def

lemma plain_work: "fst (work plain_services plain_session (plain_env, default_config) \<lparr>host = (), queue = []\<rparr>) = Ok ()"
  by (simp add: work_def plain_session_def plain_services_def desk_eval run_eval report_def session_metrics_def metrics_from_result_def
     read_usage_def attempts_of_def host_prog_def settle_def archive_run_def put_prog_def)

theorem session_stream_complete_witness:
  "\<exists>r m ts ts' es. stream plain_services plain_session () = Inr (es @ [Metrics_Envelope m ts, Result_Envelope r ts'])
     \<and> map mark_of es = concat (map marks (phase_history r))"
  using session_stream_complete [OF plain_session_ok, of plain_services "()"] plain_work by auto

theorem replay_mirrors_live_witness:
  "\<exists>r md ts ts' doc a es live. stream plain_services plain_session () = Inr live
     \<and> Metrics_Envelope md ts \<in> set live \<and> Result_Envelope r ts' \<in> set live
     \<and> result_to_archive_document r md ''now'' = Some (Inr doc) \<and> archive_from_document (\<lambda>_. []) doc = Some (Inr a)
     \<and> replay_stream (still_player\<lparr>archive := a\<rparr>) \<lparr>outside = (), yielded = []\<rparr> = (Ok (), \<lparr>outside = (), yielded = es\<rparr>)
     \<and> map view_of es = map view_of live"
proof -
  obtain r es rest where r: "sound_result r" "stream plain_services plain_session () = Inr (es @ rest)"
    and "if fst (work plain_services plain_session (plain_env, default_config) \<lparr>host = (), queue = []\<rparr>) = Ok ()
     then \<exists>m ts ts' base h. session_metrics plain_session r base h = Some (Inr m) \<and> rest = [Metrics_Envelope (metrics_to_dict m) ts, Result_Envelope r ts']
     else rest = [] \<and> ((\<exists>base h e. session_metrics plain_session r base h = Some (Inl e)) \<or> archive_fault plain_services plain_session)"
    by (rule stream_shape [OF plain_session_ok])
  then obtain m ts ts' where rest: "rest = [Metrics_Envelope (metrics_to_dict m) ts, Result_Envelope r ts']" using plain_work by auto
  obtain doc a where doc: "result_to_archive_document r (metrics_to_dict m) ''now'' = Some (Inr doc)"
    "archive_from_document (\<lambda>_. []) doc = Some (Inr a)"
    using archive_restored [OF r(1)] by blast
  have a: "archive_from_document (\<lambda>_. []) doc = Some (Inr (archive (still_player\<lparr>archive := a\<rparr>)))" using doc(2) by simp
  have p: "patient (still_player\<lparr>archive := a\<rparr>)" by (simp add: patient_def still_player_def)
  have in_live: "Metrics_Envelope (metrics_to_dict m) ts \<in> set (es @ rest)" "Result_Envelope r ts' \<in> set (es @ rest)" by (simp_all add: rest)
  obtain es' where "replay_stream (still_player\<lparr>archive := a\<rparr>) \<lparr>outside = (), yielded = []\<rparr> = (Ok (), \<lparr>outside = (), yielded = es'\<rparr>)"
    "map view_of es' = map view_of (es @ rest)"
    using replay_mirrors_live [OF plain_session_ok r(2) in_live doc(1) a p, of "()"] by auto
  then show ?thesis using r(2) in_live doc by blast
qed

end
