(* ===== verification/Http_Client.thy ===== *)
theory Http_Client
  imports Tree_Documents
begin

section \<open>The OpenAI-compatible client (llm/openai\_compatible.py)\<close>

text \<open>
  One completion is a bounded sequence of HTTP posts. The transport, \<open>time.sleep\<close>, \<open>urlopen\<close>, the JSON
  library and the \<open>repr\<close> of bytes are arguments. \<open>complete_over\<close> is the loop of \<open>complete\<close>; the number of
  attempts left is its structural argument. For the theorem the world keeps what the loop did:
  \<open>observed\<close> records the outcome of each post and each delay.
\<close>

type_synonym 'w transport = "'w \<Rightarrow> string \<Rightarrow> dict \<Rightarrow> dict \<Rightarrow> pyfloat \<Rightarrow> (exn + int \<times> string) \<times> 'w"

record 'w http_client =
  endpoint :: string
  model_name :: string
  api_key :: "string option"
  http_timeout :: pyfloat
  max_retries :: int
  retry_backoff :: pyfloat
  transport :: "'w transport"
  pause :: "pyfloat \<Rightarrow> 'w \<Rightarrow> 'w"
  parse_json :: "string \<Rightarrow> exn + pyval"
  bytes_repr :: "string \<Rightarrow> string"
  value_text :: "pyval \<Rightarrow> string"

definition rstrip_slashes :: "string \<Rightarrow> string" where
  "rstrip_slashes s = rev (dropWhile (\<lambda>c. c = CHR ''/'') (rev s))"

text \<open>The constructor: \<open>endpoint\<close> arrives as the base URL.\<close>

definition make_http_client :: "'w http_client \<Rightarrow> exn + 'w http_client" where
  "make_http_client c =
     (if py_strip (endpoint c) = [] then Inl (Exn ValueError ''base_url must be a non-empty URL'')
      else if py_strip (model_name c) = [] then Inl (Exn ValueError ''model must be a non-empty identifier'')
      else if http_timeout c \<le> 0 then Inl (Exn ValueError ''timeout_seconds must be positive'')
      else if max_retries c < 0 then Inl (Exn ValueError ''max_retries must be non-negative'')
      else if retry_backoff c < 0 then Inl (Exn ValueError ''retry_backoff_seconds must be non-negative'')
      else Inr (c\<lparr>endpoint := rstrip_slashes (endpoint c) @ ''/chat/completions''\<rparr>))"

subsection \<open>The standard transport\<close>

datatype http_outcome = Http_Response int string | Http_Error int string | Unreachable exn

definition urllib_post :: "(dict \<Rightarrow> exn + string) \<Rightarrow> ('w \<Rightarrow> string \<Rightarrow> string \<Rightarrow> dict \<Rightarrow> pyfloat \<Rightarrow> http_outcome \<times> 'w) \<Rightarrow> 'w transport" where
  "urllib_post dumps urlopen w url payload headers timeout = (case dumps payload of
       Inl e \<Rightarrow> (Inl e, w)
     | Inr body \<Rightarrow> (case urlopen w url body (fold (\<lambda>(k, v) d. dict_set k v d) headers [(''Content-Type'', VStr ''application/json'')]) timeout of
           (Http_Response code text, w1) \<Rightarrow> (Inr (code, text), w1)
         | (Http_Error code text, w1) \<Rightarrow> (Inr (code, text), w1)
         | (Unreachable e, w1) \<Rightarrow> (Inl (if os_error (exn_kind e) \<or> exn_name (exn_kind e) = ''URLError''
              then Exn LlmError (''backend unreachable at '' @ url @ '': '' @ exn_text e) else e), w1)))"

text \<open>\<open>d.get(k)\<close>.\<close>

definition dict_or_none :: "dict \<Rightarrow> string \<Rightarrow> pyval" where
  "dict_or_none d k = (case dict_get d k of None \<Rightarrow> VNone | Some v \<Rightarrow> v)"

subsection \<open>complete\<close>

definition request_payload :: "'w http_client \<Rightarrow> completion_request \<Rightarrow> dict" where
  "request_payload c rq =
     [(''model'', VStr (model_name c)),
      (''messages'', VList (map (\<lambda>m. VDict [(''role'', VStr (msg_role m)), (''content'', VStr (msg_content m))]) (messages rq))),
      (''temperature'', VFloat (temperature rq)), (''max_tokens'', VInt (max_tokens rq))]"

definition request_headers :: "'w http_client \<Rightarrow> dict" where
  "request_headers c = (case api_key c of None \<Rightarrow> [] | Some k \<Rightarrow>
     if k = [] then [] else [(''Authorization'', VStr (''Bearer '' @ k))])"

text \<open>\<open>_back_off\<close>: the factor is an integer, whose conversion to a float may overflow.\<close>

definition backoff_delay :: "pyfloat \<Rightarrow> nat \<Rightarrow> exn + pyfloat" where
  "backoff_delay base attempt =
     sum_bind (py_float (VInt (2 ^ (attempt - 1)))) (\<lambda>f. Inr (py_min2 (base * f) (Fin 30)))"

definition back_off :: "'w http_client \<Rightarrow> nat \<Rightarrow> 'w \<Rightarrow> (exn + unit) \<times> 'w" where
  "back_off c attempt w = (if attempt = 0 then (Inr (), w)
     else (case backoff_delay (retry_backoff c) attempt of
         Inl e \<Rightarrow> (Inl e, w)
       | Inr d \<Rightarrow> (Inr (), if 0 < d then pause c d w else w)))"

text \<open>\<open>v[0]\<close>.\<close>

fun py_first :: "pyval \<Rightarrow> exn + pyval" where
  "py_first (VList []) = Inl (Exn IndexError ''list index out of range'')"
| "py_first (VList (x # xs)) = Inr x"
| "py_first (VStr []) = Inl (Exn IndexError ''string index out of range'')"
| "py_first (VStr (ch # s)) = Inr (VStr [ch])"
| "py_first (VDict d) = Inl (Exn KeyError ''0'')"
| "py_first v = Inl (Exn TypeError (py_repr (type_name v) @ '' object is not subscriptable''))"

fun token_count :: "pyval \<Rightarrow> int" where
  "token_count (VInt n) = (if 0 \<le> n then n else 0)"
| "token_count (VBool b) = (if b then 1 else 0)"
| "token_count _ = 0"

definition completion_content :: "'w http_client \<Rightarrow> string \<Rightarrow> exn + dict \<times> pyval" where
  "completion_content c body =
     (case sum_bind (parse_json c body) (\<lambda>doc. sum_bind (py_index doc ''choices'') (\<lambda>v1. sum_bind (py_first v1) (\<lambda>v2.
        sum_bind (py_index v2 ''message'') (\<lambda>v3. sum_bind (py_index v3 ''content'') (\<lambda>v4.
        Inr (case doc of VDict d \<Rightarrow> d | _ \<Rightarrow> [], v4)))))) of
       Inl e \<Rightarrow> Inl (if exn_kind e \<in> {JSONDecodeError, KeyError, IndexError, TypeError}
           then Exn LlmError (''malformed completion response: '' @ bytes_repr c (take 200 body)) else e)
     | Inr r \<Rightarrow> Inr r)"

definition parse_response :: "'w http_client \<Rightarrow> string \<Rightarrow> exn + completion_response" where
  "parse_response c body = sum_bind (completion_content c body) (\<lambda>(d, v). case v of
       VStr text \<Rightarrow> (let usage = (case dict_or_none d ''usage'' of VDict u \<Rightarrow> u | _ \<Rightarrow> []) in
         Inr \<lparr>resp_text = text, resp_model = py_text (value_text c) (case dict_get d ''model'' of None \<Rightarrow> VStr [] | Some m \<Rightarrow> m),
              prompt_tokens = token_count (dict_or_none usage ''prompt_tokens''),
              completion_tokens = token_count (dict_or_none usage ''completion_tokens'')\<rparr>)
     | _ \<Rightarrow> Inl (Exn LlmError ''completion content is not a string''))"

definition retryable :: "int \<Rightarrow> bool" where
  "retryable code \<longleftrightarrow> 500 \<le> code \<or> code = 429"

fun complete_over :: "'w http_client \<Rightarrow> completion_request \<Rightarrow> nat \<Rightarrow> nat \<Rightarrow> exn option \<Rightarrow> 'w \<Rightarrow> (exn + completion_response) \<times> 'w" where
  "complete_over c rq 0 attempt last_error w =
     (Inl (case last_error of Some e \<Rightarrow> e | None \<Rightarrow> Exn (OtherException ''AssertionError'') []), w)"
| "complete_over c rq (Suc k) attempt last_error w = (case back_off c attempt w of
       (Inl e, w1) \<Rightarrow> (Inl e, w1)
     | (Inr _, w1) \<Rightarrow> (case transport c w1 (endpoint c) (request_payload c rq) (request_headers c) (http_timeout c) of
           (Inl e, w2) \<Rightarrow> (if exn_kind e = LlmError then complete_over c rq k (Suc attempt) (Some e) w2 else (Inl e, w2))
         | (Inr (code, body), w2) \<Rightarrow>
             (if retryable code then complete_over c rq k (Suc attempt)
                (Some (Exn LlmError (''backend error HTTP '' @ str_int code @ '': '' @ bytes_repr c (take 200 body)))) w2
              else if code \<noteq> 200 then (Inl (Exn LlmError (''request rejected with HTTP '' @ str_int code @ '': '' @ bytes_repr c (take 200 body))), w2)
              else (parse_response c body, w2))))"

definition http_complete :: "'w http_client \<Rightarrow> 'w llm" where
  "http_complete c w rq = complete_over c rq (nat (max_retries c + 1)) 0 None w"

subsection \<open>What one completion does\<close>

text \<open>
  \<open>watched c\<close> is the same client in a world that also records what happens: the outcome of every post and
  every delay slept, in order.
\<close>

type_synonym post_outcome = "exn + int \<times> string"

definition watched :: "'w http_client \<Rightarrow> ('w \<times> post_outcome list \<times> pyfloat list) http_client" where
  "watched c = \<lparr>endpoint = endpoint c, model_name = model_name c, api_key = api_key c, http_timeout = http_timeout c,
     max_retries = max_retries c, retry_backoff = retry_backoff c,
     transport = (\<lambda>(w, posts, slept) url payload headers timeout. case transport c w url payload headers timeout of
        (r, w') \<Rightarrow> (r, (w', posts @ [r], slept))),
     pause = (\<lambda>d (w, posts, slept). (pause c d w, posts, slept @ [d])),
     parse_json = parse_json c, bytes_repr = bytes_repr c, value_text = value_text c\<rparr>"

text \<open>
  The specification of the loop, stated without the predicates of the code: what retrying can change (a
  failure of the transport, the status 429 and the statuses from 500 on), and what one outcome means.
\<close>

fun transient :: "post_outcome \<Rightarrow> bool" where
  "transient (Inl e) = (exn_kind e = LlmError)"
| "transient (Inr (code, body)) = (code = 429 \<or> 500 \<le> code)"

fun conclusion :: "'w http_client \<Rightarrow> post_outcome \<Rightarrow> exn + completion_response" where
  "conclusion c (Inl e) = Inl e"
| "conclusion c (Inr (code, body)) =
     (if code = 200 then parse_response c body
      else Inl (Exn LlmError ((if code = 429 \<or> 500 \<le> code then ''backend error HTTP '' else ''request rejected with HTTP '')
        @ str_int code @ '': '' @ bytes_repr c (take 200 body))))"

text \<open>The first choice of a reply, and a count its \<open>usage\<close> reports.\<close>

definition first_choice :: "dict \<Rightarrow> string \<Rightarrow> bool" where
  "first_choice d txt \<longleftrightarrow> (\<exists>choice others m. dict_get d ''choices'' = Some (VList (VDict choice # others)) \<and>
     dict_get choice ''message'' = Some (VDict m) \<and> dict_get m ''content'' = Some (VStr txt))"

definition usage_reports :: "dict \<Rightarrow> string \<Rightarrow> int \<Rightarrow> bool" where
  "usage_reports d k n \<longleftrightarrow> 0 \<le> n \<and> (\<exists>u. dict_get d ''usage'' = Some (VDict u) \<and> dict_get u k = Some (VInt n))"

lemma parse_response_reply:
  assumes "parse_json c body = Inr (VDict d)" "first_choice d txt"
  shows "\<exists>resp. parse_response c body = Inr resp \<and> resp_text resp = txt \<and>
      (\<forall>n. usage_reports d ''prompt_tokens'' n \<longrightarrow> prompt_tokens resp = n) \<and>
      (\<forall>n. usage_reports d ''completion_tokens'' n \<longrightarrow> completion_tokens resp = n) \<and>
      (dict_get d ''usage'' = None \<longrightarrow> prompt_tokens resp = 0 \<and> completion_tokens resp = 0)"
proof -
  have "completion_content c body = Inr (d, VStr txt)"
    using assms by (auto simp: completion_content_def first_choice_def)
  then show ?thesis
    by (auto simp: parse_response_def usage_reports_def dict_or_none_def Let_def)
qed

definition waits :: "pyfloat \<Rightarrow> nat \<Rightarrow> pyfloat list" where
  "waits base n = filter (\<lambda>d. 0 < d) (map (\<lambda>i. py_min2 (base * Fin (2 ^ i)) (Fin 30)) [0..<n])"

lemma watched_simps [simp]:
  "endpoint (watched c) = endpoint c" "model_name (watched c) = model_name c" "api_key (watched c) = api_key c"
  "http_timeout (watched c) = http_timeout c" "max_retries (watched c) = max_retries c"
  "retry_backoff (watched c) = retry_backoff c" "parse_json (watched c) = parse_json c"
  "bytes_repr (watched c) = bytes_repr c" "value_text (watched c) = value_text c"
  "transport (watched c) (w, posts, slept) url payload headers t =
     (let (r, w') = transport c w url payload headers t in (r, (w', posts @ [r], slept)))"
  "pause (watched c) d (w, posts, slept) = (pause c d w, posts, slept @ [d])"
  by (simp_all add: watched_def split: prod.split)

lemma watched_same [simp]:
  "request_payload (watched c) rq = request_payload c rq" "request_headers (watched c) = request_headers c"
  "parse_response (watched c) body = parse_response c body"
  unfolding request_payload_def request_headers_def parse_response_def completion_content_def watched_simps
  by (rule refl)+

lemma backoff_delay_in_range:
  "i < 1024 \<Longrightarrow> backoff_delay base (Suc i) = Inr (py_min2 (base * Fin (2 ^ i)) (Fin 30))"
proof -
  assume "i < 1024"
  then have "(2::int) ^ i \<le> 2 ^ 1023" by (intro power_increasing) auto
  also have "(2::int) ^ 1023 < float_limit" by (simp add: float_limit_def)
  finally show ?thesis by (simp add: backoff_delay_def py_float_of_int_def)
qed

lemma waits_bounded: "list_all (\<lambda>d. 0 < d \<and> d \<le> Fin 30) (waits base n)"
proof -
  have "0 < py_min2 x (Fin 30) \<Longrightarrow> py_min2 x (Fin 30) \<le> Fin 30" for x
    by (cases x) (auto simp: py_min2_def float_consts)
  then show ?thesis by (auto simp: waits_def list_all_iff)
qed

lemma back_off_watched:
  "attempt \<le> 1024 \<Longrightarrow> \<exists>w'. back_off (watched c) attempt (w, posts, slept) =
     (Inr (), (w', posts, slept @ drop (length (waits (retry_backoff c) (attempt - 1))) (waits (retry_backoff c) attempt)))"
proof (cases attempt)
  case 0
  then show ?thesis by (simp add: back_off_def waits_def)
next
  case (Suc i)
  moreover assume "attempt \<le> 1024"
  ultimately show ?thesis
    by (cases "0 < py_min2 (retry_backoff c * Fin (2 ^ i)) (Fin 30)")
      (simp_all add: back_off_def backoff_delay_in_range waits_def)
qed

lemma waits_prefix: "waits base (n - 1) @ drop (length (waits base (n - 1))) (waits base n) = waits base n"
  by (cases n) (simp_all add: waits_def)

text \<open>The loop, entered with some posts made, all of them transient, and the last error recorded.\<close>

lemma complete_over_trace:
  assumes "0 < k" "n + k \<le> 1025" "length posts = n" "list_all transient posts"
  shows "\<exists>r w' os. complete_over (watched c) rq k n err (w, posts, waits (retry_backoff c) (n - 1)) =
      (r, (w', os, waits (retry_backoff c) (length os - 1))) \<and>
      n < length os \<and> length os \<le> n + k \<and> list_all transient (butlast os) \<and> r = conclusion c (last os) \<and>
      (length os = n + k \<or> \<not> transient (last os))"
  using assms
proof (induction k arbitrary: n posts err w)
  case 0
  then show ?case by simp
next
  case (Suc k)
  from Suc.prems obtain w1 where b: "back_off (watched c) n (w, posts, waits (retry_backoff c) (n - 1)) =
      (Inr (), (w1, posts, waits (retry_backoff c) n))"
    using back_off_watched [of n c w posts "waits (retry_backoff c) (n - 1)"] waits_prefix [of "retry_backoff c" n] by auto
  obtain r w2 where t: "transport c w1 (endpoint c) (request_payload c rq) (request_headers c) (http_timeout c) = (r, w2)"
    by (rule prod.exhaust)
  let ?os = "posts @ [r]"
  show ?case
  proof (cases "transient r \<and> 0 < k")
    case True
    have "\<exists>e. complete_over (watched c) rq (Suc k) n err (w, posts, waits (retry_backoff c) (n - 1)) =
        complete_over (watched c) rq k (Suc n) (Some e) (w2, ?os, waits (retry_backoff c) n)"
      using True by (cases r) (auto simp: b [simplified] t retryable_def)
    moreover have "n + 1 + k \<le> 1025" "length ?os = n + 1" "list_all transient ?os" using Suc.prems True by simp_all
    ultimately show ?thesis using Suc.IH [of "n + 1" ?os _ w2] True by fastforce
  next
    case False
    have "complete_over (watched c) rq (Suc k) n err (w, posts, waits (retry_backoff c) (n - 1)) =
        (conclusion c r, (w2, ?os, waits (retry_backoff c) n))"
      using False by (cases r; cases k) (auto simp: b [simplified] t retryable_def)
    then show ?thesis using Suc.prems False
      by (intro exI [of _ "conclusion c r"] exI [of _ w2] exI [of _ ?os]) auto
  qed
qed

definition flaky_client :: "nat http_client" where
  "flaky_client = \<lparr>endpoint = ''http://x/v1/chat/completions'', model_name = ''m'', api_key = None, http_timeout = Fin 120,
     max_retries = 3, retry_backoff = Fin 20,
     transport = (\<lambda>w url payload headers timeout. (Inr (if w < 2 then (503, ''busy'') else (200, ''hi'')), Suc w)),
     pause = (\<lambda>d w. w),
     parse_json = (\<lambda>body. Inr (VDict [(''choices'', VList [VDict [(''message'', VDict [(''content'', VStr body)])]])])),
     bytes_repr = (\<lambda>body. body), value_text = (\<lambda>v. [])\<rparr>"

definition hello_request :: completion_request where
  "hello_request = \<lparr>messages = [\<lparr>msg_role = ''user'', msg_content = ''hello''\<rparr>], temperature = Fin 0, max_tokens = 16\<rparr>"

text \<open>C31: One completion over HTTP makes at least one and at most \<open>max_retries\<close> + 1 posts. Every post but the last ended in
  an LlmError of the transport, a status from 500 on or a 429; when fewer than \<open>max_retries\<close> + 1 were made the
  last one did not. The result is what the last post means: the exception of the transport, for a status other
  than 200 the LlmError that names it (as a backend error or, when it was not worth retrying, as a rejected
  request), and for a 200 whose body is a JSON object with a first choice the text of that choice, with the
  token counts its usage reports. Between the posts it sleeps exactly the doubling delays, each
  positive and at most 30 seconds. The bound of 1024 retries is where the doubling factor leaves the range of
  a float.\<close>

theorem http_retries_bounded:
  assumes "0 \<le> max_retries c" "max_retries c \<le> 1024"
  shows "\<exists>r w' posts. http_complete (watched c) (w, [], []) rq = (r, (w', posts, waits (retry_backoff c) (length posts - 1))) \<and>
      0 < length posts \<and> int (length posts) \<le> max_retries c + 1 \<and> list_all transient (butlast posts) \<and>
      (int (length posts) = max_retries c + 1 \<or> \<not> transient (last posts)) \<and> r = conclusion c (last posts) \<and>
      (\<forall>body d txt. last posts = Inr (200, body) \<and> parse_json c body = Inr (VDict d) \<and> first_choice d txt \<longrightarrow>
         (\<exists>resp. r = Inr resp \<and> resp_text resp = txt \<and>
            (\<forall>n. usage_reports d ''prompt_tokens'' n \<longrightarrow> prompt_tokens resp = n) \<and>
            (\<forall>n. usage_reports d ''completion_tokens'' n \<longrightarrow> completion_tokens resp = n) \<and>
            (dict_get d ''usage'' = None \<longrightarrow> prompt_tokens resp = 0 \<and> completion_tokens resp = 0))) \<and>
      list_all (\<lambda>d. 0 < d \<and> d \<le> Fin 30) (waits (retry_backoff c) (length posts - 1))"
proof -
  let ?k = "nat (max_retries c + 1)"
  have k: "0 < ?k" "0 + ?k \<le> 1025" "int ?k = max_retries c + 1" using assms by simp_all
  from complete_over_trace [OF k(1,2), of "[]" c rq None w] obtain r w' posts
    where go: "complete_over (watched c) rq ?k 0 None (w, [], []) = (r, (w', posts, waits (retry_backoff c) (length posts - 1)))"
      and posts: "0 < length posts" "length posts \<le> ?k" "list_all transient (butlast posts)" "r = conclusion c (last posts)"
      and stop: "length posts = ?k \<or> \<not> transient (last posts)"
    by (auto simp: waits_def)
  have "int (length posts) \<le> max_retries c + 1" using posts(2) k(3) by linarith
  moreover have "int (length posts) = max_retries c + 1 \<or> \<not> transient (last posts)" using stop k(3) by metis
  moreover have "\<exists>resp. r = Inr resp \<and> resp_text resp = t \<and>
            (\<forall>n. usage_reports d ''prompt_tokens'' n \<longrightarrow> prompt_tokens resp = n) \<and>
            (\<forall>n. usage_reports d ''completion_tokens'' n \<longrightarrow> completion_tokens resp = n) \<and>
            (dict_get d ''usage'' = None \<longrightarrow> prompt_tokens resp = 0 \<and> completion_tokens resp = 0)"
    if "last posts = Inr (200, body) \<and> parse_json c body = Inr (VDict d) \<and> first_choice d t" for body d t
    using parse_response_reply [of c body d t] that posts(4) by simp
  ultimately show ?thesis using go posts waits_bounded [of "retry_backoff c"]
    unfolding http_complete_def watched_simps by blast
qed

theorem http_retries_bounded_witness:
  "0 \<le> max_retries flaky_client \<and> max_retries flaky_client \<le> 1024 \<and>
   http_complete (watched flaky_client) (0, [], []) hello_request =
     (Inr \<lparr>resp_text = ''hi'', resp_model = [], prompt_tokens = 0, completion_tokens = 0\<rparr>,
      (3, [Inr (503, ''busy''), Inr (503, ''busy''), Inr (200, ''hi'')], [Fin 20, Fin 30])) \<and>
   (\<exists>r w' posts. http_complete (watched flaky_client) (0, [], []) hello_request =
       (r, (w', posts, waits (retry_backoff flaky_client) (length posts - 1))) \<and> 0 < length posts)"
proof (intro conjI)
  show ok: "0 \<le> max_retries flaky_client" "max_retries flaky_client \<le> 1024" by (simp_all add: flaky_client_def)
  show "\<exists>r w' posts. http_complete (watched flaky_client) (0, [], []) hello_request =
       (r, (w', posts, waits (retry_backoff flaky_client) (length posts - 1))) \<and> 0 < length posts"
    using http_retries_bounded [OF ok, of 0 hello_request] by blast
  show "http_complete (watched flaky_client) (0, [], []) hello_request =
     (Inr \<lparr>resp_text = ''hi'', resp_model = [], prompt_tokens = 0, completion_tokens = 0\<rparr>,
      (3, [Inr (503, ''busy''), Inr (503, ''busy''), Inr (200, ''hi'')], [Fin 20, Fin 30]))"
    by (simp add: flaky_client_def watched_def http_complete_def nat_add_distrib eval_nat_numeral back_off_def backoff_delay_def
        float_limit_def py_float_of_int_def py_min2_def retryable_def parse_response_def completion_content_def
        dict_or_none_def dict_get_def zero_pyfloat_def)
qed

end
