(* ===== verification/Session_Assembly.thy ===== *)
theory Session_Assembly
  imports Session_Stream Http_Client
begin

section \<open>Assembled sessions (cognitivetree/session.py, llm/demo.py)\<close>

text \<open>
  The factories that wire a session. Its policies share mutable objects: the completion store, the tally of the
  accounting client and the process-wide backend state. They are the record \<open>plant\<close> around the outside world, and
  each policy is lifted to work on its part. What the process gets from its surroundings is the record \<open>platform\<close>.
\<close>

subsection \<open>The plant\<close>

type_synonym completion_store = "(completion_request, completion_response) cache"

record 'w plant =
  store :: completion_store
  tally :: token_usage
  backends :: backend_state
  outer :: 'w

record 'w platform =
  machine_host :: "'w Sandbox_Execution.host"
  context_dir :: string
  show_value :: "pyval \<Rightarrow> string"
  read_json :: "string \<Rightarrow> exn + pyval"
  write_json :: "dict \<Rightarrow> exn + string"
  show_bytes :: "string \<Rightarrow> string"
  http_post :: "'w transport"
  sleep :: "pyfloat \<Rightarrow> 'w \<Rightarrow> 'w"
  steady_clock :: "'w \<Rightarrow> pyfloat \<times> 'w"
  dice :: "int option \<Rightarrow> 'w \<Rightarrow> pyfloat \<times> 'w"
  node_uid :: "nat \<Rightarrow> string"
  schedule :: "'w \<Rightarrow> nat \<Rightarrow> nat list \<times> 'w"

definition outside :: "('w \<Rightarrow> 'a \<times> 'w) \<Rightarrow> 'w plant \<Rightarrow> 'a \<times> 'w plant" where
  "outside f p = (case f (outer p) of (x, w) \<Rightarrow> (x, p\<lparr>outer := w\<rparr>))"

text \<open>The accounting client over a client of the outside, and the caching client over a client of the plant.\<close>

definition accounted :: "'w llm \<Rightarrow> 'w plant llm" where
  "accounted inner p rq = (case accounting_complete inner (tally p, outer p) rq of
     (r, u, w) \<Rightarrow> (r, p\<lparr>tally := u, outer := w\<rparr>))"

definition cached :: "'w plant llm \<Rightarrow> 'w plant llm" where
  "cached inner p rq = (case caching_complete inner False (store p, p) rq of (r, s, p1) \<Rightarrow> (r, p1\<lparr>store := s\<rparr>))"

definition backend_execute :: "'w platform \<Rightarrow> backend \<Rightarrow> 'w plant executor" where
  "backend_execute pf b p rq = outside (\<lambda>w. case b of
       DockerBackend c \<Rightarrow> docker_execute (machine_host pf) c w rq
     | SubprocessBackend l \<Rightarrow> subprocess_execute (machine_host pf) l w rq) p"

definition choose_backend :: "'w platform \<Rightarrow> 'w plant \<Rightarrow> (exn + backend) \<times> 'w plant" where
  "choose_backend pf p = (case select_executor (machine_host pf) (context_dir pf) (backends p, outer p) of
     (r, b, w) \<Rightarrow> (map_sum id fst r, p\<lparr>backends := b, outer := w\<rparr>))"

subsection \<open>Wiring a controller\<close>

text \<open>
  \<open>TreeSearchController(...)\<close> with the shipped evaluator, revision policy and reward shaper, the arguments every
  factory passes. The generator is a function that may not return on a cyclic parent chain, which the search never
  builds; there \<open>the\<close> leaves the value open.
\<close>

definition shipped_env ::
  "'w platform \<Rightarrow> search_config \<Rightarrow> ('w plant \<Rightarrow> heap \<Rightarrow> addr \<Rightarrow> int \<Rightarrow> (exn + string list) \<times> 'w plant) \<Rightarrow> 'w plant executor \<times> code_evaluator \<Rightarrow>
   'w plant critic_fun \<Rightarrow> bounded_revision \<Rightarrow> ('w plant \<Rightarrow> (exn + string option) \<times> 'w plant) option \<Rightarrow> 'w plant environment" where
  "shipped_env pf cfg gen ev cr pol stop = \<lparr>generate = gen, evaluate = code_evaluate ev, critic = Some cr,
     revision_policy = Some (revise (show_value pf, pol)), reward_model = Some (shape_reward default_weights),
     stop_condition = stop, on_event = None, cancel_event = None, monotonic = outside (steady_clock pf),
     random_unit = outside (dice pf (seed cfg)), uid = node_uid pf, pool_order = (\<lambda>p n. outside (\<lambda>w. schedule pf w n) p)\<rparr>"

definition generator_policy :: "'w platform \<Rightarrow> 'w plant llm \<Rightarrow> pyfloat \<Rightarrow> 'w plant llm_policy" where
  "generator_policy pf cl t = \<lparr>client = cl, policy_temperature = t, policy_max_tokens = 1024,
     text_of = show_value pf, json_loads = read_json pf, json_dumps = write_json pf\<rparr>"

definition llm_generator :: "'w platform \<Rightarrow> 'w plant llm \<Rightarrow> pyfloat \<Rightarrow> 'w plant \<Rightarrow> heap \<Rightarrow> addr \<Rightarrow> int \<Rightarrow> (exn + string list) \<times> 'w plant" where
  "llm_generator pf cl t p h a k = the (llm_generate (generator_policy pf cl t) p h a k)"

definition llm_critic_policy :: "'w platform \<Rightarrow> 'w plant llm \<Rightarrow> pyfloat \<Rightarrow> 'w plant llm_policy" where
  "llm_critic_policy pf cl t = \<lparr>client = cl, policy_temperature = t, policy_max_tokens = 512,
     text_of = show_value pf, json_loads = read_json pf, json_dumps = write_json pf\<rparr>"

definition pick_critic :: "'w platform \<Rightarrow> 'w plant llm \<Rightarrow> pyfloat \<Rightarrow> bool \<Rightarrow> 'w plant critic_fun" where
  "pick_critic pf cl t use_llm = (if use_llm then canonical_critic (show_value pf, llm_critic_policy pf cl t)
     else execution_critique (show_value pf))"

definition wire_controller ::
  "'w platform \<Rightarrow> search_config \<Rightarrow> ('w plant \<Rightarrow> heap \<Rightarrow> addr \<Rightarrow> int \<Rightarrow> (exn + string list) \<times> 'w plant) \<Rightarrow> 'w plant executor \<Rightarrow> string \<Rightarrow>
   'w plant critic_fun \<Rightarrow> int \<Rightarrow> ('w plant \<Rightarrow> (exn + string option) \<times> 'w plant) option \<Rightarrow> exn + 'w plant environment \<times> search_config" where
  "wire_controller pf cfg gen exec checks cr attempts stop =
     sum_bind (make_code_evaluator (default_code_evaluator\<lparr>harness := checks\<rparr>)) (\<lambda>ev.
     sum_bind (make_revision \<lparr>max_attempts = attempts, require_guidance = True\<rparr>) (\<lambda>pol.
       Inr (shipped_env pf cfg gen (exec, ev) cr pol stop, cfg)))"

subsection \<open>build\_llm\_session\<close>

record llm_spec =
  spec_task :: string
  base_url :: string
  spec_model :: string
  validation_harness :: string
  spec_key :: "string option"
  generator_temperature :: pyfloat
  critic_temperature :: pyfloat
  use_llm_critic :: bool
  spec_config :: search_config
  revision_attempts :: int
  spec_max_tokens :: "int option"
  max_llm_calls :: "int option"
  cache_completions :: bool

definition in_temperature_range :: "pyfloat \<Rightarrow> bool" where
  "in_temperature_range t \<longleftrightarrow> 0 \<le> t \<and> t \<le> Fin 2"

definition make_spec :: "llm_spec \<Rightarrow> exn + llm_spec" where
  "make_spec s =
     (if \<not> in_temperature_range (generator_temperature s) then Inl (Exn ValueError ''temperature must lie within [0.0, 2.0]'')
      else if \<not> in_temperature_range (critic_temperature s) then Inl (Exn ValueError ''critic_temperature must lie within [0.0, 2.0]'')
      else Inr s)"

text \<open>The client argument: none, a client of the outside, or an accounting client that is already in use.\<close>

datatype 'w given_client = No_Client | Plain_Client "'w llm" | Accounted_Client "'w llm"

definition endpoint_client :: "'w platform \<Rightarrow> string \<Rightarrow> string \<Rightarrow> string option \<Rightarrow> exn + 'w llm" where
  "endpoint_client pf url mdl key = sum_bind (make_http_client \<lparr>endpoint = url, model_name = mdl, api_key = key,
       http_timeout = Fin 120, max_retries = 1, retry_backoff = Fin (1 / 2), transport = http_post pf, pause = sleep pf,
       parse_json = read_json pf, bytes_repr = show_bytes pf, value_text = show_value pf\<rparr>) (\<lambda>c. Inr (http_complete c))"

definition inner_client :: "'w platform \<Rightarrow> llm_spec \<Rightarrow> 'w given_client \<Rightarrow> exn + 'w llm" where
  "inner_client pf s g = (case g of No_Client \<Rightarrow> endpoint_client pf (base_url s) (spec_model s) (spec_key s)
     | Plain_Client c \<Rightarrow> Inr c | Accounted_Client c \<Rightarrow> Inr c)"

definition fresh_store :: completion_store where
  "fresh_store = \<lparr>max_entries = 1024, entries = [], hits = 0, misses = 0\<rparr>"

definition run_budget :: "llm_spec \<Rightarrow> token_usage \<Rightarrow> exn + ('w plant \<Rightarrow> (exn + string option) \<times> 'w plant) option" where
  "run_budget s now = (if spec_max_tokens s = None \<and> max_llm_calls s = None then Inr None
     else sum_bind (make_budget (spec_max_tokens s) (max_llm_calls s) now) (\<lambda>b. Inr (Some (budget_stop tally b))))"

definition llm_controller :: "'w platform \<Rightarrow> llm_spec \<Rightarrow> 'w llm \<Rightarrow> backend \<Rightarrow> 'w plant \<Rightarrow> exn + 'w plant environment \<times> search_config" where
  "llm_controller pf s inner b p =
     (let cl = (if cache_completions s then cached (accounted inner) else accounted inner) in
      sum_bind (run_budget s (tally p)) (\<lambda>stop.
        wire_controller pf (spec_config s) (llm_generator pf cl (generator_temperature s)) (backend_execute pf b) (validation_harness s)
          (pick_critic pf cl (critic_temperature s) (use_llm_critic s)) (revision_attempts s) stop))"

text \<open>
  The session and the plant it starts in: the tally is the given accounting client's or a new one, the store is the
  shared one (\<open>shared\<close>) or a new one.
\<close>

definition build_llm_session ::
  "'w platform \<Rightarrow> llm_spec \<Rightarrow> 'w given_client \<Rightarrow> bool \<Rightarrow> string option \<Rightarrow> 'w plant \<Rightarrow> (exn + 'w plant session) \<times> 'w plant" where
  "build_llm_session pf s g shared dir p = (case inner_client pf s g of
       Inl e \<Rightarrow> (Inl e, p)
     | Inr inner \<Rightarrow>
         (let p1 = p\<lparr>tally := (case g of Accounted_Client c \<Rightarrow> tally p | _ \<Rightarrow> no_usage),
                    store := (if cache_completions s \<and> \<not> shared then fresh_store else store p)\<rparr>
          in (case choose_backend pf p1 of
                (Inl e, p2) \<Rightarrow> (Inl e, p2)
              | (Inr b, p2) \<Rightarrow> (make_session \<lparr>session_task = spec_task s, controller = (\<lambda>p. (llm_controller pf s inner b p, p)),
                    archive_dir = dir, session_usage = Some tally\<rparr>, p2))))"

end
