(* ===== verification/Scenarios.thy ===== *)
theory Scenarios
  imports Session_Assembly
begin

section \<open>The deterministic scenarios (feedback/demo.py, sandbox/demo.py, llm/demo.py, session.py)\<close>

text \<open>
  The clamp scenario: candidate texts, validation harness, the two deterministic generators, the scripted model and the
  factories that wire them (\<open>build_reference_session\<close>, \<open>build_offline_controller\<close>, \<open>build_offline_session\<close>). The
  \<open>main\<close> functions of the demos wire a controller and print its run; the one of \<open>feedback/demo.py\<close> is in Revision\_Demo.
\<close>

subsection \<open>Texts\<close>

definition clamp_thought :: "string list \<Rightarrow> string \<Rightarrow> string" where
  "clamp_thought plan body = py_join newline (plan @ [''```python'', ''def clamp(value, low, high):'', ''    return '' @ body, ''```''])"

definition BROKEN_WAVE :: "string list" where
  "BROKEN_WAVE =
     [clamp_thought [''Clamp by capping at the upper bound only.''] ''min(value, high)'',
      clamp_thought [''Clamp by always returning the lower bound.''] ''low'',
      clamp_thought [''Clamp by comparing against the wrong bound first.''] ''min(low, max(value, high))'']"

definition REVISED_CANDIDATE :: string where
  "REVISED_CANDIDATE = clamp_thought
     [''Revised after critique: raise the value to the lower bound, then cap at the upper bound.''] ''max(low, min(value, high))''"

definition CANDIDATE_IMPLEMENTATIONS :: "string list" where
  "CANDIDATE_IMPLEMENTATIONS =
     [clamp_thought [''Clamp by capping at the upper bound only.''] ''min(value, high)'',
      clamp_thought [''Clamp by nesting min and max with the bounds swapped.''] ''min(low, max(value, high))'',
      clamp_thought [''Clamp by raising the value to the lower bound, then capping at the upper bound.''] ''max(low, min(value, high))'',
      clamp_thought [''Clamp by always returning the lower bound.''] ''low'']"

definition VALIDATION_HARNESS :: string where
  "VALIDATION_HARNESS = py_join newline
     [[],
      ''assert clamp(5, 0, 10) == 5, \"in-range value must pass through\"'',
      ''assert clamp(-3, 0, 10) == 0, \"below-range value must rise to low\"'',
      ''assert clamp(42, 0, 10) == 10, \"above-range value must cap at high\"'',
      ''assert clamp(7, 7, 7) == 7, \"degenerate range must be stable\"'',
      ''print(\"validation harness: all checks passed\")'',
      []]"

definition CLAMP_TASK :: string where
  "CLAMP_TASK = ''Implement clamp(value, low, high) correctly.''"

subsection \<open>Deterministic generators\<close>

definition guidance_generate :: "(pyval \<Rightarrow> string) \<Rightarrow> 'w \<Rightarrow> heap \<Rightarrow> addr \<Rightarrow> int \<Rightarrow> (exn + string list) \<times> 'w" where
  "guidance_generate fr w h a k =
     (if \<not> is_root (h ! a) then (Inr [], w)
      else (let notes = py_text fr (case dict_get (metadata (h ! a)) REVISION_NOTES_KEY of None \<Rightarrow> VStr [] | Some v \<Rightarrow> v) in
        if notes = [] then (Inr (slice_to k BROKEN_WAVE), w) else (Inr [REVISED_CANDIDATE], w)))"

definition candidate_generate :: "string list \<Rightarrow> 'w \<Rightarrow> heap \<Rightarrow> addr \<Rightarrow> int \<Rightarrow> (exn + string list) \<times> 'w" where
  "candidate_generate cs w h a k = (if \<not> is_root (h ! a) then (Inr [], w) else (Inr (slice_to k cs), w))"

subsection \<open>build\_reference\_session\<close>

definition demo_config :: "int option \<Rightarrow> pyfloat option \<Rightarrow> int \<Rightarrow> search_config" where
  "demo_config sd wall workers = default_config\<lparr>max_iterations := 16, max_depth := 1, branching_factor := 3, seed := sd,
     max_wall_seconds := wall, evaluation_workers := workers\<rparr>"

definition reference_controller ::
  "'w platform \<Rightarrow> pyfloat option \<Rightarrow> int \<Rightarrow> backend \<Rightarrow> exn + 'w plant environment \<times> search_config" where
  "reference_controller pf wall workers b = sum_bind (check_config (demo_config (Some 7) wall workers)) (\<lambda>cfg.
     wire_controller pf cfg (guidance_generate (show_value pf)) (backend_execute pf b) VALIDATION_HARNESS
       (execution_critique (show_value pf)) 1 None)"

definition build_reference_session ::
  "'w platform \<Rightarrow> pyfloat option \<Rightarrow> int \<Rightarrow> string option \<Rightarrow> 'w plant \<Rightarrow> (exn + 'w plant session) \<times> 'w plant" where
  "build_reference_session pf wall workers dir p = (case choose_backend pf p of
       (Inl e, p1) \<Rightarrow> (Inl e, p1)
     | (Inr b, p1) \<Rightarrow> (make_session \<lparr>session_task = CLAMP_TASK, controller = (\<lambda>p. (reference_controller pf wall workers b, p)),
          archive_dir = dir, session_usage = None\<rparr>, p1))"

subsection \<open>The scripted model\<close>

definition CRITIC_VERDICT :: string where
  "CRITIC_VERDICT = ''{\"failure_class\": \"assertion\", \"summary\": \"bounds are not both respected\", ''
     @ ''\"guidance\": \"Return max(low, min(value, high)) so lower and upper bounds hold.\", ''
     @ ''\"severity\": 0.6}''"

definition as_candidate_block :: "string list \<Rightarrow> string" where
  "as_candidate_block cs = concat (map (\<lambda>c. ''### CANDIDATE'' @ newline @ c @ newline) cs)"

definition clamp_responder :: "'w responder" where
  "clamp_responder w rq =
     (let sys = msg_content (hd (messages rq)); usr = msg_content (last (messages rq)) in
      (Inr (Inl (if py_contains ''critique policy'' sys then CRITIC_VERDICT
                 else if py_contains ''REVISION NOTES'' usr then as_candidate_block [REVISED_CANDIDATE]
                 else as_candidate_block BROKEN_WAVE)), w))"

text \<open>The scripted client keeps its requests in a list that nothing reads.\<close>

definition scripted_llama :: "'w llm" where
  "scripted_llama w rq = (case scripted_complete clamp_responder ''scripted-llama'' ([], w) rq of (r, made, w1) \<Rightarrow> (r, w1))"

text \<open>
  \<open>build_offline_controller\<close> over an accounting client, the way the session uses it: an accounting client is reused by
  the budget, whose ceiling is \<open>max_tokens\<close> alone.
\<close>

definition offline_stop :: "int option \<Rightarrow> token_usage \<Rightarrow> exn + ('w plant \<Rightarrow> (exn + string option) \<times> 'w plant) option" where
  "offline_stop tokens now = (case tokens of None \<Rightarrow> Inr None | Some n \<Rightarrow>
     sum_bind (make_budget (Some n) None now) (\<lambda>bd. Inr (Some (budget_stop tally bd))))"

definition offline_controller ::
  "'w platform \<Rightarrow> 'w llm \<Rightarrow> bool \<Rightarrow> int \<Rightarrow> pyfloat option \<Rightarrow> int option \<Rightarrow> int \<Rightarrow> 'w plant \<Rightarrow>
   (exn + 'w plant environment \<times> search_config) \<times> 'w plant" where
  "offline_controller pf inner use_critic sd wall tokens workers p = (case offline_stop tokens (tally p) of
       Inl e \<Rightarrow> (Inl e, p)
     | Inr stop \<Rightarrow> (case choose_backend pf p of
           (Inl e, p1) \<Rightarrow> (Inl e, p1)
         | (Inr b, p1) \<Rightarrow> (sum_bind (check_config (demo_config (Some sd) wall workers)) (\<lambda>cfg.
             wire_controller pf cfg (llm_generator pf (accounted inner) (Fin (7 / 10))) (backend_execute pf b) VALIDATION_HARNESS
               (pick_critic pf (accounted inner) (Fin (1 / 5)) use_critic) 1 stop), p1)))"

text \<open>The session starts with a new accounting client; every run of it selects a backend and creates a budget.\<close>

definition build_offline_session ::
  "'w platform \<Rightarrow> pyfloat option \<Rightarrow> int option \<Rightarrow> int \<Rightarrow> string option \<Rightarrow> 'w plant \<Rightarrow> (exn + 'w plant session) \<times> 'w plant" where
  "build_offline_session pf wall tokens workers dir p =
     (make_session \<lparr>session_task = CLAMP_TASK, controller = offline_controller pf scripted_llama False 7 wall tokens workers,
        archive_dir = dir, session_usage = Some tally\<rparr>, p\<lparr>tally := no_usage\<rparr>)"

end
