(* ===== verification/Provenance.thy ===== *)
theory Provenance
  imports Execution_Evaluation
begin

section \<open>Where a solution comes from\<close>

text \<open>
  Every accepted node of a run was accepted by the evaluator: \<open>vouched E\<close> says of a heap that the content of every
  TERMINAL node satisfies \<open>E\<close>, and every part of the run keeps it when the evaluator only accepts contents that do.
  The argument needs nothing of the shape of the tree, so it is one pass over the programs of the search.
\<close>

named_theorems vouch_rules "programs that keep the accepted contents vouched"

definition vouched :: "(string \<Rightarrow> bool) \<Rightarrow> heap \<Rightarrow> bool" where
  "vouched E h \<longleftrightarrow> list_all (\<lambda>n. status n = TERMINAL \<longrightarrow> E (content n)) h"

abbreviation kept :: "(string \<Rightarrow> bool) \<Rightarrow> ('w run_state, 'a) prog \<Rightarrow> bool" where
  "kept E \<equiv> preserves (\<lambda>s. vouched E (nodes_of s))"

lemma list_all_update: "list_all P xs \<Longrightarrow> (a < length xs \<Longrightarrow> P x) \<Longrightarrow> list_all P (xs[a := x])"
  by (cases "a < length xs") (auto simp: list_all_length nth_list_update)

lemma vouched_update:
  assumes "vouched E h" "a < length h \<Longrightarrow> status x = TERMINAL \<Longrightarrow> E (content x)"
  shows "vouched E (h[a := x])"
  using assms unfolding vouched_def by (intro list_all_update) auto

lemma vouchedD: "vouched E h \<Longrightarrow> a < length h \<Longrightarrow> status (h ! a) = TERMINAL \<Longrightarrow> E (content (h ! a))"
  by (simp add: vouched_def list_all_length)

lemma vouched_setters:
  assumes "vouched E h"
  shows "vouched E (set_metadata h a d)" "vouched E (record_visit h a v)" "s \<noteq> TERMINAL \<Longrightarrow> vouched E (set_status h a s)"
  using vouchedD [OF assms] by (auto simp: set_metadata_def record_visit_def set_status_def Let_def intro!: vouched_update [OF assms])

lemma vouched_prune_loop: "vouched E h \<Longrightarrow> prune_loop h ds n = (h', m) \<Longrightarrow> vouched E h'"
proof (induction ds arbitrary: h n)
  case (Cons d ds)
  show ?case
  proof (cases "is_live (h ! d)")
    case True
    have "vouched E (set_status h d PRUNED)" by (rule vouched_setters(3) [OF Cons.prems(1)]) simp
    then show ?thesis using Cons.IH Cons.prems(2) True by simp
  qed (use Cons in simp)
qed simp

lemma vouched_record_path: "vouched E h \<Longrightarrow> vouched E (record_path h p v)"
  by (induction p arbitrary: h) (simp_all add: vouched_setters(2))

lemma vouched_attach:
  assumes "vouched E h" "attach_child h p c i = (h', ch)" shows "vouched E h'"
proof -
  have "vouched E (h[p := (h ! p)\<lparr>children := children (h ! p) @ [length h]\<rparr>])"
    using vouchedD [OF assms(1)] by (intro vouched_update [OF assms(1)]) simp
  then show ?thesis using assms(2) by (auto simp: attach_child_def Let_def vouched_def new_node_def)
qed

subsection \<open>Parts that accept nothing\<close>

lemma kept_prune_node [vouch_rules]: "kept E (prune_node a)"
  by (rule preservesI) (auto simp: prune_node_def prune_subtree_def Let_def split: option.splits prod.splits
      dest: vouched_prune_loop)

lemma kept_consult_revision [vouch_rules]: "kept E (consult_revision env a)"
  by (rule preservesI) (auto simp: consult_revision_def Let_def vouched_setters split: option.splits prod.splits)

lemma kept_draw_random [vouch_rules]: "kept E (draw_random env)"
  by (rule preservesI) (auto simp: draw_random_def split: prod.splits)

lemma kept_uct_key [vouch_rules]: "kept E (uct_key env cfg c)"
proof (rule preservesI)
  have k: "kept E (bindM (draw_random env) (\<lambda>r. ret (u, r)))" for u :: pyfloat
    by (intro hoare_rules vouch_rules)
  fix s r s' assume "vouched E (nodes_of s)" "uct_key env cfg c s = (r, s')"
  then show "vouched E (nodes_of s')" by (auto simp: uct_key_def split: sum.splits dest!: preservesD [OF k, rotated])
qed

lemma kept_uct_keys [vouch_rules]: "kept E (uct_keys env cfg cs)"
  by (induction cs) (auto intro!: hoare_rules vouch_rules)

lemma kept_pick_child [vouch_rules]: "kept E (pick_child env cfg cs)"
  unfolding pick_child_def
  by (intro hoare_rules vouch_rules) (auto simp: preserves_def hoare_def ret_def split: list.splits)

lemma kept_select_loop:
  assumes ret: "select_loop env cfg cur st = Some y" and v: "vouched E (nodes_of st)"
  shows "vouched E (nodes_of (snd y))"
proof (rule select_loop.raw_induct [where
      P = "\<lambda>env cfg cur st y. vouched E (nodes_of st) \<longrightarrow> vouched E (nodes_of (snd y))", OF _ ret, THEN mp, OF _ v])
  fix f env cfg cur st y
  assume IH: "\<And>(env :: 'a environment) cfg cur st y. f env cfg cur st = Some y \<Longrightarrow>
      vouched E (nodes_of st) \<longrightarrow> vouched E (nodes_of (snd y))"
    and eq: "(case cur of
       None \<Rightarrow>
         (if \<not> is_live (nodes_of st ! tree_root (tree st)) then Some (Ok (None, []), st)
          else f env cfg (Some (tree_root (tree st))) st)
     | Some a \<Rightarrow>
         (if children (nodes_of st ! a) = [] then
            (if depth (nodes_of st ! a) < max_depth cfg then Some (Ok (Some a, []), st)
             else (case prune_node a st of
                 (Ok _, st1) \<Rightarrow> f env cfg None st1
               | (Raise e, st1) \<Rightarrow> Some (Raise e, st1)
               | (Diverge, st1) \<Rightarrow> None))
          else if filter (\<lambda>c. is_live (nodes_of st ! c)) (children (nodes_of st ! a)) = [] then
            (case consult_revision env a st of
               (Raise e, st1) \<Rightarrow> Some (Raise e, st1)
             | (Diverge, st1) \<Rightarrow> None
             | (Ok granted, st1) \<Rightarrow>
                 (if granted then Some (Ok (Some a, [node_id (nodes_of st1 ! a)]), st1)
                  else (case prune_node a st1 of
                      (Ok _, st2) \<Rightarrow> f env cfg None st2
                    | (Raise e, st2) \<Rightarrow> Some (Raise e, st2)
                    | (Diverge, st2) \<Rightarrow> None)))
          else
            (case pick_child env cfg (filter (\<lambda>c. is_live (nodes_of st ! c)) (children (nodes_of st ! a))) st of
               (Raise e, st1) \<Rightarrow> Some (Raise e, st1)
             | (Diverge, st1) \<Rightarrow> None
             | (Ok c, st1) \<Rightarrow> f env cfg (Some c) st1))) = Some y"
  show "vouched E (nodes_of st) \<longrightarrow> vouched E (nodes_of (snd y))"
    using eq
    by (auto split: option.splits if_splits prod.splits res.splits dest!: IH
          preservesD [OF kept_prune_node, rotated] preservesD [OF kept_consult_revision, rotated] preservesD [OF kept_pick_child, rotated])
qed

lemma kept_select [vouch_rules]: "kept E (select env cfg)"
  by (rule preservesI) (auto simp: select_def split: option.splits dest: kept_select_loop)

lemma kept_create_child [vouch_rules]: "kept E (create_child env a t)"
  by (rule preservesI) (auto simp: create_child_def add_child_def Let_def split: sum.splits prod.splits if_splits dest: vouched_attach)

lemma kept_expand_loop [vouch_rules]: "kept E (expand_loop env a cs seen kids)"
  by (induction cs arbitrary: seen kids) (auto intro!: hoare_rules vouch_rules)

lemma kept_expand [vouch_rules]: "kept E (expand env cfg a)"
  by (rule preservesI) (auto simp: expand_def Let_def split: prod.splits sum.splits dest!: preservesD [OF kept_expand_loop, rotated])

lemma kept_backpropagate [vouch_rules]: "kept E (backpropagate cvs)"
proof (induction cvs)
  case (Cons cv cvs)
  obtain c v where cv: "cv = (c, v)" by fastforce
  show ?case
    by (rule preservesI) (auto simp: cv vouched_record_path split: option.splits dest!: preservesD [OF Cons, rotated])
qed (simp add: hoare_rules)

lemma kept_advance [vouch_rules]: "kept E (advance env p i d)"
  by (rule preservesI) (auto simp: advance_def notify_def Let_def split: prod.splits sum.splits option.splits)

subsection \<open>Evaluation\<close>

text \<open>
  During the evaluation of a batch the contents stand still: they are the list \<open>t\<close>. \<open>judged\<close> says of a verdict that it
  accepts only what satisfies \<open>E\<close>; \<open>sound_verdicts\<close> is the evaluator's promise.
\<close>

definition sound_verdicts :: "'w environment \<Rightarrow> search_config \<Rightarrow> (string \<Rightarrow> bool) \<Rightarrow> bool" where
  "sound_verdicts env cfg E \<longleftrightarrow> (\<forall>w h c v. fst (evaluate env w h c) = Inr v \<longrightarrow> classify cfg v = TERMINAL \<longrightarrow> E (content (h ! c)))"

definition judged :: "search_config \<Rightarrow> (string \<Rightarrow> bool) \<Rightarrow> string list \<Rightarrow> addr \<Rightarrow> evaluation \<Rightarrow> bool" where
  "judged cfg E t c v \<longleftrightarrow> (c < length t \<longrightarrow> classify cfg v = TERMINAL \<longrightarrow> E (t ! c))"

definition told :: "string list \<Rightarrow> 'w run_state \<Rightarrow> bool" where
  "told t s \<longleftrightarrow> map content (nodes_of s) = t"

lemma graded_told: "graded cfg K V s s' \<Longrightarrow> told t s \<Longrightarrow> told t s'"
proof -
  assume g: "graded cfg K V s s'" and t: "told t s"
  have sh: "shape (nodes_of s) = shape (nodes_of s')" "length (nodes_of s') = length (nodes_of s)"
    using g scoredD(1,2) unfolding graded_def by blast+
  have "map content (nodes_of s') = map content (nodes_of s)"
    by (rule nth_equalityI) (use sh shape_nth(1) [OF sh(1)] in simp_all)
  then show "told t s'" using t by (simp add: told_def)
qed

lemma kept_evaluate_one [vouch_rules]: "kept E (evaluate_one env c)"
  by (rule preservesI) (auto simp: evaluate_one_def Let_def vouched_setters split: prod.splits)

lemma kept_evaluate_all [vouch_rules]: "kept E (evaluate_all env cs)"
  by (induction cs) (auto intro!: hoare_rules vouch_rules)

lemma kept_pool_complete [vouch_rules]: "kept E (pool_complete env cs is fin)"
proof (induction "is" arbitrary: fin)
  case (Cons i "is")
  show ?case
    by (rule preservesI) (auto split: prod.splits if_splits dest!: preservesD [OF Cons, rotated] preservesD [OF kept_evaluate_one, rotated])
qed (simp add: hoare_rules)

lemma kept_pool_read [vouch_rules]: "kept E (pool_read env cs i fin)"
proof (induction cs arbitrary: i)
  case (Cons c cs)
  have "kept E (Pair r)" for r :: "evaluation res" by (simp add: preserves_def hoare_def)
  then have "kept E (case map_of fin i of Some r \<Rightarrow> Pair r | None \<Rightarrow> evaluate_one env c)"
    by (cases "map_of fin i") (simp_all add: kept_evaluate_one)
  then show ?case by (simp only: pool_read.simps) (intro preserves_bind preserves_ret Cons)
qed (simp add: hoare_rules)

lemma kept_collect_verdicts [vouch_rules]: "kept E (collect_verdicts env cfg cs)"
proof (rule preservesI)
  have k: "kept E (bindM (pool_complete env cs order []) (\<lambda>fin. pool_read env cs 0 fin))" for order
    by (intro hoare_rules vouch_rules)
  fix s r s' assume "vouched E (nodes_of s)" "collect_verdicts env cfg cs s = (r, s')"
  then show "vouched E (nodes_of s')"
    by (auto simp: collect_verdicts_def Let_def split: prod.splits if_splits dest: preservesD [OF kept_evaluate_all, rotated]
        dest!: preservesD [OF k, rotated])
qed

lemma evaluate_one_judged:
  "sound_verdicts env cfg E \<Longrightarrow> told t s \<Longrightarrow> evaluate_one env c s = (Ok v, s') \<Longrightarrow> judged cfg E t c v"
proof -
  assume snd: "sound_verdicts env cfg E" and t: "told t s" and run: "evaluate_one env c s = (Ok v, s')"
  have "fst (evaluate env (world s) (nodes_of s) c) = Inr v"
    using run by (cases "fst (evaluate env (world s) (nodes_of s) c)") (auto simp: evaluate_one_def Let_def split: prod.splits)
  then have "classify cfg v = TERMINAL \<longrightarrow> E (content (nodes_of s ! c))" using snd unfolding sound_verdicts_def by blast
  then show "judged cfg E t c v" using t by (auto simp: judged_def told_def)
qed

lemma evaluate_one_told: "evaluate_one env c s = (r, s') \<Longrightarrow> told t s \<Longrightarrow> told t s'"
  by (rule graded_told [OF evaluate_one_spec(2)])

lemma evaluate_all_judged:
  "sound_verdicts env cfg E \<Longrightarrow> told t s \<Longrightarrow> evaluate_all env cs s = (Ok vs, s') \<Longrightarrow> list_all2 (judged cfg E t) cs vs"
proof (induction cs arbitrary: s vs)
  case (Cons c cs)
  then show ?case
    by (auto simp: bindM_def ret_def dest: evaluate_one_judged evaluate_one_told split: prod.splits res.splits)
qed (simp add: ret_def)

definition pooled :: "search_config \<Rightarrow> (string \<Rightarrow> bool) \<Rightarrow> string list \<Rightarrow> addr list \<Rightarrow> (nat \<times> evaluation res) list \<Rightarrow> bool" where
  "pooled cfg E t cs fin \<longleftrightarrow> (\<forall>(i, r)\<in>set fin. \<forall>v. r = Ok v \<longrightarrow> judged cfg E t (cs ! i) v)"

lemma pool_complete_judged:
  "sound_verdicts env cfg E \<Longrightarrow> told t s \<Longrightarrow> pooled cfg E t cs fin \<Longrightarrow> pool_complete env cs is fin s = (Ok fin', s') \<Longrightarrow>
   told t s' \<and> pooled cfg E t cs fin'"
proof (induction "is" arbitrary: s fin)
  case (Cons i "is")
  show ?case
  proof (cases "i < length cs \<and> map_of fin i = None")
    case True
    obtain r1 s1 where one: "evaluate_one env (cs ! i) s = (r1, s1)" by fastforce
    have "pooled cfg E t cs (fin @ [(i, r1)])"
      using evaluate_one_judged [OF Cons.prems(1,2)] one Cons.prems(3) by (auto simp: pooled_def)
    moreover have "pool_complete env cs is (fin @ [(i, r1)]) s1 = (Ok fin', s')" using Cons.prems(4) True one by simp
    ultimately show ?thesis by (intro Cons.IH [OF Cons.prems(1) evaluate_one_told [OF one Cons.prems(2)]])
  next
    case False
    then have "pool_complete env cs is fin s = (Ok fin', s')" using Cons.prems(4) by auto
    then show ?thesis by (rule Cons.IH [OF Cons.prems(1-3)])
  qed
qed (simp add: ret_def)

lemma pool_read_judged:
  "sound_verdicts env cfg E \<Longrightarrow> told t s \<Longrightarrow> pooled cfg E t (pre @ cs) fin \<Longrightarrow> pool_read env cs (length pre) fin s = (Ok vs, s') \<Longrightarrow>
   list_all2 (judged cfg E t) cs vs"
proof (induction cs arbitrary: pre s vs)
  case (Cons c cs)
  obtain v s1 where one: "(case map_of fin (length pre) of Some r \<Rightarrow> Pair r | None \<Rightarrow> evaluate_one env c) s = (Ok v, s1)"
    and rest: "bindM (pool_read env cs (length (pre @ [c])) fin) (\<lambda>vs. ret (v # vs)) s1 = (Ok vs, s')"
    using Cons.prems(4) by (auto simp: bindM_def [of "case map_of fin (length pre) of Some r \<Rightarrow> Pair r | None \<Rightarrow> evaluate_one env c"]
        split: prod.splits res.splits)
  have 1: "judged cfg E t c v \<and> told t s1"
  proof (cases "map_of fin (length pre)")
    case None
    then have e: "evaluate_one env c s = (Ok v, s1)" using one by simp
    show ?thesis using evaluate_one_judged [OF Cons.prems(1,2) e] evaluate_one_told [OF e Cons.prems(2)] by blast
  next
    case (Some r)
    then have "(length pre, Ok v) \<in> set fin" "s1 = s" using one map_of_SomeD [OF Some] by auto
    then show ?thesis using Cons.prems(2,3) by (auto simp: pooled_def)
  qed
  obtain vs' where vs': "pool_read env cs (length (pre @ [c])) fin s1 = (Ok vs', s')" "vs = v # vs'"
    using rest by (auto simp: bindM_def ret_def split: prod.splits res.splits)
  have "list_all2 (judged cfg E t) cs vs'"
    by (rule Cons.IH [OF Cons.prems(1) _ _ vs'(1)]) (use 1 Cons.prems(3) in simp_all)
  then show ?case using 1 vs'(2) by simp
qed (simp add: ret_def)

lemma collect_verdicts_judged:
  assumes "sound_verdicts env cfg E" "told t s" "collect_verdicts env cfg cs s = (Ok vs, s')"
  shows "list_all2 (judged cfg E t) cs vs"
proof (cases "min (evaluation_workers cfg) (int (length cs)) \<le> 1")
  case True
  then show ?thesis using assms evaluate_all_judged by (simp add: collect_verdicts_def)
next
  case False
  obtain order w where o: "pool_order env (world s) (length cs) = (order, w)" by fastforce
  obtain fin s1 where p: "pool_complete env cs order [] (s\<lparr>world := w\<rparr>) = (Ok fin, s1)" "pool_read env cs 0 fin s1 = (Ok vs, s')"
    using assms(3) False o by (auto simp: collect_verdicts_def bindM_def split: prod.splits res.splits)
  have "told t (s\<lparr>world := w\<rparr>)" using assms(2) by (simp add: told_def)
  then have "told t s1 \<and> pooled cfg E t cs fin" by (rule pool_complete_judged [OF assms(1) _ _ p(1)]) (simp add: pooled_def)
  then show ?thesis using pool_read_judged [OF assms(1), of t s1 "[]" cs fin vs s'] p(2) by simp
qed

lemma kept_consult_critic [vouch_rules]: "kept E (consult_critic env s c)"
  by (rule preservesI) (auto simp: consult_critic_def vouched_setters split: option.splits prod.splits sum.splits if_splits)

lemma kept_shape_value [vouch_rules]: "kept E (shape_value env c s cr)"
  by (rule preservesI) (auto simp: shape_value_def Let_def vouched_setters split: option.splits prod.splits)

lemma shape_value_told: "shape_value env c v cr s = (r, s') \<Longrightarrow> told t s \<Longrightarrow> told t s'"
  by (rule graded_told [OF shape_value_spec(2)])

text \<open>Storing a verdict that accepts only what satisfies \<open>E\<close>.\<close>

lemma apply_verdict_vouched:
  assumes "told t s" "vouched E (nodes_of s)" "judged cfg E t c v" "apply_verdict env cfg c v s = (r, s')"
  shows "told t s'" "vouched E (nodes_of s')"
proof -
  define s1 where "s1 = set_heap (apply_evaluation (nodes_of s) c (ev_score v) (classify cfg v) (ev_rationale v)) s"
  have "graded cfg {c} {v} s s1"
    using scored_apply [of c "{c}" v "{v}"] by (simp add: graded_def s1_def)
  then have t1: "told t s1" using assms(1) graded_told by blast
  have "c < length (nodes_of s) \<Longrightarrow> classify cfg v = TERMINAL \<Longrightarrow> E (content (nodes_of s ! c))"
    using assms(1,3) by (auto simp: told_def judged_def)
  then have v1: "vouched E (nodes_of s1)"
    by (simp add: s1_def apply_evaluation_def) (rule vouched_update [OF assms(2)]; simp)
  have rest: "bindM (consult_critic env (classify cfg v) c) (\<lambda>cr. shape_value env c (ev_score v) cr) s1 = (r, s')"
    using assms(4) by (simp add: apply_verdict_def bindM_def [of "store_verdict c v (classify cfg v)"] store_verdict_def s1_def)
  have k: "kept E (bindM (consult_critic env (classify cfg v) c) (\<lambda>cr. shape_value env c (ev_score v) cr))"
    by (intro hoare_rules vouch_rules)
  show "vouched E (nodes_of s')" by (rule preservesD [OF k v1 rest])
  obtain r2 s2 where c2: "consult_critic env (classify cfg v) c s1 = (r2, s2)" by fastforce
  have t2: "told t s2" by (rule graded_told [OF consult_critic_spec(2) [OF c2] t1])
  show "told t s'"
    using rest c2 t2 by (cases r2) (auto simp: bindM_def dest: shape_value_told)
qed

lemma verdict_loop_vouched:
  "told t s \<Longrightarrow> vouched E (nodes_of s) \<Longrightarrow> \<forall>(c, v)\<in>set cvs. judged cfg E t c v \<Longrightarrow>
   verdict_loop env cfg cvs sol valued s = (r, s') \<Longrightarrow> vouched E (nodes_of s')"
proof (induction cvs arbitrary: s sol valued)
  case (Cons cv cvs)
  obtain c v where cv: "cv = (c, v)" by fastforce
  obtain r1 s1 where a: "apply_verdict env cfg c v s = (r1, s1)" by fastforce
  have j: "judged cfg E t c v" using Cons.prems(3) cv by simp
  note s1 = apply_verdict_vouched [OF Cons.prems(1,2) j a]
  show ?case
  proof (cases r1)
    case (Ok x)
    then have rest: "verdict_loop env cfg cvs (if classify cfg v = TERMINAL \<and> sol = None then Some c else sol) (valued @ [(c, x)]) s1 = (r, s')"
      using Cons.prems(4) a cv by (simp add: bindM_def)
    show ?thesis by (rule Cons.IH [OF s1 _ rest]) (use Cons.prems(3) in simp)
  qed (use Cons.prems(4) a cv s1(2) in \<open>auto simp: bindM_def\<close>)
qed (simp add: ret_def)

lemma kept_evaluate_children:
  assumes "sound_verdicts env cfg E"
  shows "kept E (evaluate_children env cfg cs)"
proof (rule preservesI)
  fix s r s' assume v: "vouched E (nodes_of s)" and run: "evaluate_children env cfg cs s = (r, s')"
  define t where "t = map content (nodes_of s)"
  have t: "told t s" by (simp add: told_def t_def)
  obtain r1 s1 where c: "collect_verdicts env cfg cs s = (r1, s1)" by fastforce
  have v1: "vouched E (nodes_of s1)" by (rule preservesD [OF kept_collect_verdicts v c])
  show "vouched E (nodes_of s')"
  proof (cases r1)
    case (Ok vs)
    have "list_all2 (judged cfg E t) cs vs" using collect_verdicts_judged [OF assms t] c Ok by blast
    then have "\<forall>(c, v)\<in>set (zip cs vs). judged cfg E t c v" by (simp add: list_all2_iff)
    moreover have "told t s1" by (rule graded_told [OF collect_verdicts_spec(2) [OF c] t])
    moreover have "verdict_loop env cfg (zip cs vs) None [] s1 = (r, s')" using run c Ok by (simp add: evaluate_children_def bindM_def)
    ultimately show ?thesis using verdict_loop_vouched v1 by blast
  qed (use run c v1 in \<open>auto simp: evaluate_children_def bindM_def\<close>)
qed

subsection \<open>The run\<close>

lemma kept_announce_revision [vouch_rules]: "kept E (announce_revision env a)"
  unfolding announce_revision_def [abs_def] by (rule preserves_at, intro hoare_rules vouch_rules)

lemma kept_backtrack [vouch_rules]: "kept E (backtrack env a)"
  unfolding backtrack_def [abs_def] by (rule preserves_at, intro hoare_rules vouch_rules)

lemma kept_count_iteration [vouch_rules]: "kept E count_iteration"
  by (rule preservesI) (simp add: count_iteration_def)

text \<open>The polls read the world, so their transition starts from a state with the same tree.\<close>

lemma kept_stop: "kept E (bindM (advance env p i d) (\<lambda>_. ret x))"
  by (intro hoare_rules vouch_rules)

lemma kept_poll_cancel [vouch_rules]: "kept E (poll_cancel env)"
  by (rule preservesI) (auto simp: poll_cancel_def Let_def split: option.splits prod.splits if_splits dest!: preservesD [OF kept_stop, rotated])

lemma kept_poll_deadline [vouch_rules]: "kept E (poll_deadline env cfg d)"
  by (rule preservesI) (auto simp: poll_deadline_def Let_def split: option.splits prod.splits if_splits dest!: preservesD [OF kept_stop, rotated])

lemma kept_poll_stop [vouch_rules]: "kept E (poll_stop env)"
  by (rule preservesI) (auto simp: poll_stop_def Let_def split: option.splits prod.splits sum.splits if_splits dest!: preservesD [OF kept_stop, rotated])

lemma kept_settle_batch:
  assumes "sound_verdicts env cfg E" shows "kept E (settle_batch env cfg a kids)"
  unfolding settle_batch_def [abs_def]
  by (rule preserves_at, intro hoare_rules vouch_rules kept_evaluate_children [OF assms])
    (rule preserves_at, intro hoare_rules vouch_rules)

lemma kept_expand_node:
  assumes "sound_verdicts env cfg E" shows "kept E (expand_node env cfg a)"
  unfolding expand_node_def [abs_def] by (rule preserves_at, intro hoare_rules vouch_rules kept_settle_batch [OF assms])

lemma kept_run_body:
  assumes "sound_verdicts env cfg E" shows "kept E (run_body env cfg deadline)"
  unfolding run_body_def search_step_def by (intro hoare_rules vouch_rules kept_expand_node [OF assms])

lemma kept_run_loop:
  assumes "sound_verdicts env cfg E" shows "kept E (run_loop env cfg deadline)"
proof -
  have "hoare (\<lambda>s. vouched E (nodes_of s)) (run_loop env cfg deadline) (\<lambda>_ s. vouched E (nodes_of s))"
  proof (rule run_loop_hoare)
    show "hoare (\<lambda>s. vouched E (nodes_of s) \<and> iteration s < max_iterations cfg) (run_body env cfg deadline)
      (\<lambda>r s. case r of Ok Next \<Rightarrow> vouched E (nodes_of s) | Ok Break \<Rightarrow> vouched E (nodes_of s)
         | Raise e \<Rightarrow> vouched E (nodes_of s) | Diverge \<Rightarrow> vouched E (nodes_of s))"
      by (rule hoare_conseq [OF kept_run_body [OF assms, unfolded preserves_def]]) (auto split: res.splits flow.splits)
  qed
  then show ?thesis by (simp add: preserves_def)
qed

lemma kept_guarded_loop:
  assumes "sound_verdicts env cfg E" shows "kept E (guarded_loop env cfg deadline)"
  unfolding guarded_loop_def Let_def by (intro hoare_rules vouch_rules kept_run_loop [OF assms])

lemma kept_spend_budget [vouch_rules]: "kept E (spend_budget env)"
  unfolding spend_budget_def [abs_def] by (rule preservesI) (auto split: if_splits dest: preservesD [OF kept_advance, rotated])

lemma kept_start_deadline [vouch_rules]: "kept E (start_deadline cfg env)"
  by (rule preservesI) (auto simp: start_deadline_def Let_def split: option.splits prod.splits)

lemma kept_build_result [vouch_rules]: "kept E (build_result err)"
  by (rule preservesI) (auto simp: build_result_def split: option.splits)

lemma build_result_tree: "build_result err s = (Ok res, s') \<Longrightarrow> s' = s \<and> result_tree res = tree s"
  by (auto simp: build_result_def split: option.splits)

text \<open>Every accepted node of the tree a run returns was accepted by the evaluator.\<close>

lemma run_vouched:
  assumes "sound_verdicts env cfg E" "run env cfg task w = (Ok res, s)"
  shows "vouched E (tree_heap (result_tree res))"
proof -
  let ?m = "\<lambda>err. bindM (spend_budget env) (\<lambda>_. build_result err)"
  let ?p = "bindM (start_deadline cfg env) (\<lambda>deadline. bindM (advance env SELECTION None ''search started'') (\<lambda>_.
     bindM (guarded_loop env cfg deadline) ?m))"
  have "kept E ?p" by (intro hoare_rules vouch_rules kept_guarded_loop [OF assms(1)])
  moreover have "vouched E (nodes_of (initial_state env task w))"
    by (simp add: initial_state_def new_tree_def vouched_def new_node_def)
  moreover have p: "?p (initial_state env task w) = (Ok res, s)" using assms(2) by (simp add: run_def)
  ultimately have "vouched E (nodes_of s)" by (rule preservesD)
  moreover have "result_tree res = tree s"
    using p by (auto simp: bindM_def split: prod.splits res.splits dest: build_result_tree)
  ultimately show ?thesis by simp
qed

subsection \<open>The solution of a run\<close>

text \<open>The evaluator itself was asked about the content that is reported, and accepted it.\<close>

lemma solution_accepted:
  assumes "valid_config cfg" "inj (uid env)" "fst (run env cfg task w) = Ok res" "solution res = Some t"
  shows "\<exists>w' h a v. fst (evaluate env w' h a) = Inr v \<and> content (h ! a) = t \<and> classify cfg v = TERMINAL"
proof -
  let ?E = "\<lambda>t. \<exists>w' h a v. fst (evaluate env w' h a) = Inr v \<and> content (h ! a) = t \<and> classify cfg v = TERMINAL"
  obtain s where run: "run env cfg task w = (Ok res, s)" using assms(3) by (metis prod.collapse)
  have "sound_verdicts env cfg ?E" unfolding sound_verdicts_def by blast
  from run_vouched [OF this run] have vo: "vouched ?E (tree_heap (result_tree res))" .
  have "outcome res = OUT_SUCCEEDED" using assms(4) by (simp add: solution_def split: if_splits)
  from run_success_facts [OF assms(1-3) this] obtain a where a: "int a < node_count res"
    "status (tree_heap (result_tree res) ! a) = TERMINAL" "solution res = Some (content (tree_heap (result_tree res) ! a))" by blast
  obtain s' where "reports res s'" "complete env cfg (result_error res) s'" by (rule run_Ok [OF assms(1-3)])
  then have "a < length (tree_heap (result_tree res))" using a(1) by (simp add: reports_def)
  from vouchedD [OF vo this a(2)] show ?thesis using a(3) assms(4) by simp
qed

text \<open>The execution evaluator accepts only what ran to a clean end.\<close>

lemma code_evaluate_accepts:
  assumes "fst (code_evaluate (exec, c) w h a) = Inr v" "classify cfg v = TERMINAL"
  shows "\<exists>payload rq r. extract_python_payload (content (h ! a)) = Some payload
     \<and> make_request (program_of c payload) [] None = Inr rq \<and> fst (exec w rq) = Inr r \<and> res_status r = COMPLETED \<and> exit_code r = Some 0"
proof -
  have v: "ev_is_terminal v" using assms(2) by (auto simp: classify_def split: if_splits)
  obtain payload where p: "extract_python_payload (content (h ! a)) = Some payload"
    using assms(1) v by (cases "extract_python_payload (content (h ! a))") (auto simp: code_evaluate_def make_evaluation_def split: if_splits)
  obtain rq where rq: "make_request (program_of c payload) [] None = Inr rq"
    using assms(1) p by (auto simp: code_evaluate_def split: sum.splits)
  obtain r w1 where r: "exec w rq = (Inr r, w1)" "grade c r = Inr v"
    using assms(1) p rq by (auto simp: code_evaluate_def split: sum.splits prod.splits)
  have "result_ok r" using r(2) v by (auto simp: grade_def make_evaluation_def split: if_splits)
  then show ?thesis using p rq r(1) by (auto simp: result_ok_def)
qed

lemma code_solution_ran:
  assumes "valid_config cfg" "inj (uid env)" "evaluate env = code_evaluate (exec, c)"
    "fst (run env cfg task w) = Ok res" "solution res = Some t"
  shows "\<exists>payload rq w' r. extract_python_payload t = Some payload
     \<and> make_request (program_of c payload) [] None = Inr rq
     \<and> fst (exec w' rq) = Inr r \<and> res_status r = COMPLETED \<and> exit_code r = Some 0"
proof -
  obtain w' h a v where v: "fst (code_evaluate (exec, c) w' h a) = Inr v" "content (h ! a) = t" "classify cfg v = TERMINAL"
    using solution_accepted [OF assms(1,2,4,5)] unfolding assms(3) by blast
  show ?thesis using code_evaluate_accepts [OF v(1,3)] unfolding v(2) by blast
qed

text \<open>C3: A solution is never only claimed. When a search that evaluates by execution reports a solution, that
  very text carries a Python payload, and the payload with the validation harness appended was handed to the
  executor, which ran it to completion with exit code 0 - whatever the generator proposed, in whatever order the
  worker pool finished, and whatever the critic, the reward model and the revision policy did.\<close>

theorem solution_passes_harness:
  assumes "valid_config cfg" "inj (uid env)" "evaluate env = code_evaluate (exec, c)"
    "fst (run env cfg task w) = Ok res" "solution res = Some t"
  shows "\<exists>payload rq w' r. extract_python_payload t = Some payload
     \<and> make_request (program_of c payload) [] None = Inr rq
     \<and> fst (exec w' rq) = Inr r \<and> res_status r = COMPLETED \<and> exit_code r = Some 0"
  by (rule code_solution_ran [OF assms])

definition fenced_pass :: string where
  "fenced_pass = ''```python'' @ newline @ ''pass'' @ newline @ ''```''"

definition fenced_env :: "unit environment" where
  "fenced_env = (sample_env [fenced_pass] 1 True)\<lparr>evaluate := code_evaluate (pure_executor (\<lambda>_. Inr clean_result), default_code_evaluator)\<rparr>"

lemma fenced_facts: "py_strip ''pass'' \<noteq> []" "py_strip fenced_pass = fenced_pass" "extract_python_payload fenced_pass = Some ''pass''" "fenced_pass \<noteq> []"
  by code_simp+

lemma fenced_verdict:
  "content (h ! a) = fenced_pass \<Longrightarrow> code_evaluate (pure_executor (\<lambda>_. Inr clean_result), default_code_evaluator) w h a
     = (Inr \<lparr>ev_score = 1, ev_is_terminal = True, ev_rationale = ''payload and validation harness executed cleanly''\<rparr>,
        dict_set EXECUTION_KEY (VDict (result_to_dict clean_result)) (metadata (h ! a)), w)"
  by (simp add: code_evaluate_def fenced_facts pure_executor_def grade_def clean_result_def result_ok_def make_evaluation_def
      default_code_evaluator_def program_of_def make_request_def float_consts)

lemma fenced_success: "\<exists>r. fst (run fenced_env default_config ''t'' ()) = Ok r \<and> solution r = Some fenced_pass"
  by (simp add: run_eval solution_def fenced_env_def fenced_facts fenced_verdict del: py_strip_def)

theorem solution_passes_harness_witness:
  "\<exists>res payload. fst (run fenced_env default_config ''t'' ()) = Ok res \<and> solution res = Some fenced_pass
     \<and> extract_python_payload fenced_pass = Some payload"
proof -
  obtain res where res: "fst (run fenced_env default_config ''t'' ()) = Ok res" "solution res = Some fenced_pass"
    using fenced_success by blast
  have "inj (uid fenced_env)" using sample_inj by (simp add: fenced_env_def)
  moreover have "evaluate fenced_env = code_evaluate (pure_executor (\<lambda>_. Inr clean_result), default_code_evaluator)"
    by (simp add: fenced_env_def)
  ultimately show ?thesis using solution_passes_harness [OF valid_default_config _ _ res] res by blast
qed

end
