(* ===== verification/Metadata_Kept.thy ===== *)
theory Metadata_Kept
  imports Provenance Revision
begin

section \<open>What the policies write into a node's metadata\<close>

text \<open>
  The metadata of a node is written by the policies only: the evaluator, the revision policy and the reward model return
  it, and the controller adds the critique. The locale \<open>metadata_contract\<close> states that each of them keeps a predicate
  \<open>M\<close> of the metadata; its lemmas carry \<open>M\<close> through every program of the search, so that it holds of every node of the
  tree a run returns. It is interpreted on the shipped policies with the predicate \<open>countable_attempts\<close>: the revision counter can be read
  as a number.
\<close>

named_theorems note_rules "programs that keep a predicate of the metadata"

definition annotated :: "(dict \<Rightarrow> bool) \<Rightarrow> heap \<Rightarrow> bool" where
  "annotated M h \<longleftrightarrow> list_all (\<lambda>n. M (metadata n)) h"

abbreviation annotates :: "(dict \<Rightarrow> bool) \<Rightarrow> ('w run_state, 'a) prog \<Rightarrow> bool" where
  "annotates M \<equiv> preserves (\<lambda>s. annotated M (nodes_of s))"

lemma annotatedD: "annotated M h \<Longrightarrow> a < length h \<Longrightarrow> M (metadata (h ! a))"
  by (simp add: annotated_def list_all_length)

lemma annotated_update:
  assumes "annotated M h" "a < length h \<Longrightarrow> M (metadata x)" shows "annotated M (h[a := x])"
  using assms unfolding annotated_def by (intro list_all_update)

lemma annotated_set:
  "annotated M h \<Longrightarrow> (M (metadata (h ! a)) \<Longrightarrow> M d) \<Longrightarrow> annotated M (set_metadata h a d)"
  using annotatedD [of M h a] by (auto simp: set_metadata_def intro!: annotated_update)

lemma annotated_setters:
  assumes "annotated M h"
  shows "annotated M (record_visit h a v)" "annotated M (set_status h a s)" "annotated M (apply_evaluation h a x s t)"
  using annotatedD [OF assms]
  by (auto simp: record_visit_def set_status_def apply_evaluation_def Let_def intro!: annotated_update [OF assms])

lemma annotated_prune_loop: "annotated M h \<Longrightarrow> prune_loop h ds n = (h', m) \<Longrightarrow> annotated M h'"
proof (induction ds arbitrary: h n)
  case (Cons d ds)
  then show ?case using annotated_setters(2) [OF Cons.prems(1), of d PRUNED] by (cases "is_live (h ! d)") auto
qed simp

lemma annotated_record_path: "annotated M h \<Longrightarrow> annotated M (record_path h p v)"
  by (induction p arbitrary: h) (simp_all add: annotated_setters(1))

lemma annotated_attach:
  assumes "annotated M h" "M []" "attach_child h p c i = (h', ch)" shows "annotated M h'"
proof -
  have "annotated M (h[p := (h ! p)\<lparr>children := children (h ! p) @ [length h]\<rparr>])"
    using annotatedD [OF assms(1)] by (intro annotated_update [OF assms(1)]) simp
  then show ?thesis using assms(2,3) by (auto simp: attach_child_def Let_def annotated_def new_node_def)
qed

subsection \<open>Programs that write no metadata\<close>

lemma annotates_prune_node [note_rules]: "annotates M (prune_node a)"
  by (rule preservesI) (auto simp: prune_node_def prune_subtree_def Let_def split: option.splits prod.splits
      dest: annotated_prune_loop)

lemma annotates_draw_random [note_rules]: "annotates M (draw_random env)"
  by (rule preservesI) (auto simp: draw_random_def split: prod.splits)

lemma annotates_uct_key [note_rules]: "annotates M (uct_key env cfg c)"
proof (rule preservesI)
  have k: "annotates M (bindM (draw_random env) (\<lambda>r. ret (u, r)))" for u :: pyfloat
    by (intro hoare_rules note_rules)
  fix s r s' assume "annotated M (nodes_of s)" "uct_key env cfg c s = (r, s')"
  then show "annotated M (nodes_of s')" by (auto simp: uct_key_def split: sum.splits dest!: preservesD [OF k, rotated])
qed

lemma annotates_uct_keys [note_rules]: "annotates M (uct_keys env cfg cs)"
  by (induction cs) (auto intro!: hoare_rules note_rules)

lemma annotates_pick_child [note_rules]: "annotates M (pick_child env cfg cs)"
  unfolding pick_child_def
  by (intro hoare_rules note_rules) (auto simp: preserves_def hoare_def ret_def split: list.splits)

lemma annotates_backpropagate [note_rules]: "annotates M (backpropagate cvs)"
proof (induction cvs)
  case (Cons cv cvs)
  obtain c v where cv: "cv = (c, v)" by fastforce
  show ?case
    by (rule preservesI) (auto simp: cv annotated_record_path split: option.splits dest!: preservesD [OF Cons, rotated])
qed (simp add: hoare_rules)

lemma annotates_advance [note_rules]: "annotates M (advance env p i d)"
  by (rule preservesI) (auto simp: advance_def notify_def Let_def split: prod.splits sum.splits option.splits)

lemma annotates_store_verdict [note_rules]: "annotates M (store_verdict c v s)"
  by (rule preservesI) (auto simp: store_verdict_def annotated_setters(3))

lemma annotates_announce_revision [note_rules]: "annotates M (announce_revision env a)"
  unfolding announce_revision_def [abs_def] by (rule preserves_at, intro hoare_rules note_rules)

lemma annotates_backtrack [note_rules]: "annotates M (backtrack env a)"
  unfolding backtrack_def [abs_def] by (rule preserves_at, intro hoare_rules note_rules)

lemma annotates_count_iteration [note_rules]: "annotates M count_iteration"
  by (rule preservesI) (simp add: count_iteration_def)

lemma annotates_stop: "annotates M (bindM (advance env p i d) (\<lambda>_. ret x))"
  by (intro hoare_rules note_rules)

lemma annotates_poll_cancel [note_rules]: "annotates M (poll_cancel env)"
  by (rule preservesI) (auto simp: poll_cancel_def Let_def split: option.splits prod.splits if_splits dest!: preservesD [OF annotates_stop, rotated])

lemma annotates_poll_deadline [note_rules]: "annotates M (poll_deadline env cfg d)"
  by (rule preservesI) (auto simp: poll_deadline_def Let_def split: option.splits prod.splits if_splits dest!: preservesD [OF annotates_stop, rotated])

lemma annotates_poll_stop [note_rules]: "annotates M (poll_stop env)"
  by (rule preservesI) (auto simp: poll_stop_def Let_def split: option.splits prod.splits sum.splits if_splits dest!: preservesD [OF annotates_stop, rotated])

lemma annotates_spend_budget [note_rules]: "annotates M (spend_budget env)"
  unfolding spend_budget_def [abs_def] by (rule preservesI) (auto split: if_splits dest: preservesD [OF annotates_advance, rotated])

lemma annotates_start_deadline [note_rules]: "annotates M (start_deadline cfg env)"
  by (rule preservesI) (auto simp: start_deadline_def Let_def split: option.splits prod.splits)

lemma annotates_build_result [note_rules]: "annotates M (build_result err)"
  by (rule preservesI) (auto simp: build_result_def split: option.splits)

subsection \<open>The contract of the policies\<close>

locale metadata_contract =
  fixes env :: "'w environment" and M :: "dict \<Rightarrow> bool"
  assumes M_new: "M []"
    and M_evaluate: "M (metadata (h ! a)) \<Longrightarrow> M (fst (snd (evaluate env w h a)))"
    and M_revise: "revision_policy env = Some f \<Longrightarrow> M (metadata (h ! a)) \<Longrightarrow> M (fst (snd (f w h a)))"
    and M_reward: "reward_model env = Some g \<Longrightarrow> M (metadata (h ! a)) \<Longrightarrow> M (fst (snd (g w h a x cr)))"
    and M_critique: "M d \<Longrightarrow> M (dict_set CRITIQUE_METADATA_KEY v d)"
begin

lemma consult_revision_keeps [note_rules]: "annotates M (consult_revision env a)"
proof (rule preservesI)
  fix s :: "'w run_state" and r s' assume s: "annotated M (nodes_of s)" and go: "consult_revision env a s = (r, s')"
  show "annotated M (nodes_of s')"
  proof (cases "revision_policy env")
    case (Some f)
    obtain x md w where f: "f (world s) (nodes_of s) a = (x, md, w)" by (metis prod_cases3)
    show ?thesis using go Some f M_revise [OF Some, of "nodes_of s" a "world s"]
      by (auto simp: consult_revision_def intro!: annotated_set [OF s])
  qed (use s go in \<open>simp add: consult_revision_def\<close>)
qed

lemma evaluate_one_keeps [note_rules]: "annotates M (evaluate_one env c)"
proof (rule preservesI)
  fix s :: "'w run_state" and r s' assume s: "annotated M (nodes_of s)" and go: "evaluate_one env c s = (r, s')"
  obtain x md w where e: "evaluate env (world s) (nodes_of s) c = (x, md, w)" by (metis prod_cases3)
  show "annotated M (nodes_of s')" using go e M_evaluate [of "nodes_of s" c "world s"]
    by (auto simp: evaluate_one_def intro!: annotated_set [OF s])
qed

lemma consult_critic_keeps [note_rules]: "annotates M (consult_critic env st c)"
  by (rule preservesI) (auto simp: consult_critic_def intro!: annotated_set M_critique split: option.splits prod.splits sum.splits if_splits)

lemma shape_value_keeps [note_rules]: "annotates M (shape_value env c x cr)"
proof (rule preservesI)
  fix s :: "'w run_state" and r s' assume s: "annotated M (nodes_of s)" and go: "shape_value env c x cr s = (r, s')"
  show "annotated M (nodes_of s')"
  proof (cases "reward_model env")
    case (Some g)
    obtain y md w where g: "g (world s) (nodes_of s) c x cr = (y, md, w)" by (metis prod_cases3)
    show ?thesis using go Some g M_reward [OF Some, of "nodes_of s" c "world s" x cr]
      by (auto simp: shape_value_def intro!: annotated_set [OF s])
  qed (use s go in \<open>simp add: shape_value_def\<close>)
qed

lemma create_child_keeps [note_rules]: "annotates M (create_child env a t)"
  by (rule preservesI) (auto simp: create_child_def add_child_def Let_def split: sum.splits prod.splits if_splits
      dest: annotated_attach [where M = M, rotated, OF M_new, rotated])

lemma expand_loop_keeps [note_rules]: "annotates M (expand_loop env a cs seen kids)"
  by (induction cs arbitrary: seen kids) (auto intro!: hoare_rules note_rules)

lemma expand_keeps [note_rules]: "annotates M (expand env cfg a)"
  by (rule preservesI) (auto simp: expand_def Let_def split: prod.splits sum.splits dest!: preservesD [OF expand_loop_keeps, rotated])

lemma select_loop_keeps:
  assumes ret: "select_loop env cfg cur st = Some y" and v: "annotated M (nodes_of st)"
  shows "annotated M (nodes_of (snd y))"
proof (rule select_loop.raw_induct [where
      P = "\<lambda>e cfg cur st y. e = env \<longrightarrow> annotated M (nodes_of st) \<longrightarrow> annotated M (nodes_of (snd y))", OF _ ret, THEN mp, THEN mp, OF _ refl v])
  fix f env' cfg cur st y
  assume IH: "\<And>env' cfg cur st y. f env' cfg cur st = Some y \<Longrightarrow>
      env' = env \<longrightarrow> annotated M (nodes_of st) \<longrightarrow> annotated M (nodes_of (snd y))"
    and eq: "(case cur of
       None \<Rightarrow>
         (if \<not> is_live (nodes_of st ! tree_root (tree st)) then Some (Ok (None, []), st)
          else f env' cfg (Some (tree_root (tree st))) st)
     | Some a \<Rightarrow>
         (if children (nodes_of st ! a) = [] then
            (if depth (nodes_of st ! a) < max_depth cfg then Some (Ok (Some a, []), st)
             else (case prune_node a st of
                 (Ok _, st1) \<Rightarrow> f env' cfg None st1
               | (Raise e, st1) \<Rightarrow> Some (Raise e, st1)
               | (Diverge, st1) \<Rightarrow> None))
          else if filter (\<lambda>c. is_live (nodes_of st ! c)) (children (nodes_of st ! a)) = [] then
            (case consult_revision env' a st of
               (Raise e, st1) \<Rightarrow> Some (Raise e, st1)
             | (Diverge, st1) \<Rightarrow> None
             | (Ok granted, st1) \<Rightarrow>
                 (if granted then Some (Ok (Some a, [node_id (nodes_of st1 ! a)]), st1)
                  else (case prune_node a st1 of
                      (Ok _, st2) \<Rightarrow> f env' cfg None st2
                    | (Raise e, st2) \<Rightarrow> Some (Raise e, st2)
                    | (Diverge, st2) \<Rightarrow> None)))
          else
            (case pick_child env' cfg (filter (\<lambda>c. is_live (nodes_of st ! c)) (children (nodes_of st ! a))) st of
               (Raise e, st1) \<Rightarrow> Some (Raise e, st1)
             | (Diverge, st1) \<Rightarrow> None
             | (Ok c, st1) \<Rightarrow> f env' cfg (Some c) st1))) = Some y"
  show "env' = env \<longrightarrow> annotated M (nodes_of st) \<longrightarrow> annotated M (nodes_of (snd y))"
    using eq
    by (auto split: option.splits if_splits prod.splits res.splits dest!: IH
          preservesD [OF annotates_prune_node, rotated] preservesD [OF consult_revision_keeps, rotated] preservesD [OF annotates_pick_child, rotated])
qed

lemma select_keeps [note_rules]: "annotates M (select env cfg)"
  by (rule preservesI) (auto simp: select_def split: option.splits dest: select_loop_keeps)

lemma evaluate_all_keeps [note_rules]: "annotates M (evaluate_all env cs)"
  by (induction cs) (auto intro!: hoare_rules note_rules)

lemma pool_complete_keeps [note_rules]: "annotates M (pool_complete env cs is fin)"
proof (induction "is" arbitrary: fin)
  case (Cons i "is")
  show ?case
    by (rule preservesI) (auto split: prod.splits if_splits dest!: preservesD [OF Cons, rotated] preservesD [OF evaluate_one_keeps, rotated])
qed (simp add: hoare_rules)

lemma pool_read_keeps [note_rules]: "annotates M (pool_read env cs i fin)"
proof (induction cs arbitrary: i)
  case (Cons c cs)
  have "annotates M (Pair r)" for r :: "evaluation res" by (simp add: preserves_def hoare_def)
  then have "annotates M (case map_of fin i of Some r \<Rightarrow> Pair r | None \<Rightarrow> evaluate_one env c)"
    by (cases "map_of fin i") (simp_all add: evaluate_one_keeps)
  then show ?case by (simp only: pool_read.simps) (intro preserves_bind preserves_ret Cons)
qed (simp add: hoare_rules)

lemma collect_verdicts_keeps [note_rules]: "annotates M (collect_verdicts env cfg cs)"
proof (rule preservesI)
  have k: "annotates M (bindM (pool_complete env cs order []) (\<lambda>fin. pool_read env cs 0 fin))" for order
    by (intro hoare_rules note_rules)
  fix s r s' assume "annotated M (nodes_of s)" "collect_verdicts env cfg cs s = (r, s')"
  then show "annotated M (nodes_of s')"
    by (auto simp: collect_verdicts_def Let_def split: prod.splits if_splits dest: preservesD [OF evaluate_all_keeps, rotated]
        dest!: preservesD [OF k, rotated])
qed

lemma verdict_loop_keeps [note_rules]: "annotates M (verdict_loop env cfg cvs sol valued)"
proof (induction cvs arbitrary: sol valued)
  case (Cons cv cvs)
  obtain c v where cv: "cv = (c, v)" by fastforce
  show ?case unfolding cv verdict_loop.simps apply_verdict_def by (intro hoare_rules note_rules Cons)
qed (simp add: hoare_rules)

lemma evaluate_children_keeps [note_rules]: "annotates M (evaluate_children env cfg cs)"
  unfolding evaluate_children_def by (intro hoare_rules note_rules)

lemma settle_batch_keeps [note_rules]: "annotates M (settle_batch env cfg a kids)"
  unfolding settle_batch_def [abs_def]
  by (rule preserves_at, intro hoare_rules note_rules) (rule preserves_at, intro hoare_rules note_rules)

lemma expand_node_keeps [note_rules]: "annotates M (expand_node env cfg a)"
  unfolding expand_node_def [abs_def] by (rule preserves_at, intro hoare_rules note_rules)

lemma run_body_keeps [note_rules]: "annotates M (run_body env cfg deadline)"
  unfolding run_body_def search_step_def by (intro hoare_rules note_rules)

lemma run_loop_keeps [note_rules]: "annotates M (run_loop env cfg deadline)"
proof -
  have "hoare (\<lambda>s. annotated M (nodes_of s)) (run_loop env cfg deadline) (\<lambda>_ s. annotated M (nodes_of s))"
  proof (rule run_loop_hoare)
    show "hoare (\<lambda>s. annotated M (nodes_of s) \<and> iteration s < max_iterations cfg) (run_body env cfg deadline)
      (\<lambda>r s. case r of Ok Next \<Rightarrow> annotated M (nodes_of s) | Ok Break \<Rightarrow> annotated M (nodes_of s)
         | Raise e \<Rightarrow> annotated M (nodes_of s) | Diverge \<Rightarrow> annotated M (nodes_of s))"
      by (rule hoare_conseq [OF run_body_keeps [unfolded preserves_def]]) (auto split: res.splits flow.splits)
  qed
  then show ?thesis by (simp add: preserves_def)
qed

lemma guarded_loop_keeps [note_rules]: "annotates M (guarded_loop env cfg deadline)"
  unfolding guarded_loop_def Let_def by (intro hoare_rules note_rules)

text \<open>Every node of the tree that a run returns.\<close>

lemma run_annotated:
  assumes "run env cfg task w = (Ok res, s)"
  shows "annotated M (tree_heap (result_tree res))"
proof -
  let ?m = "\<lambda>err. bindM (spend_budget env) (\<lambda>_. build_result err)"
  let ?p = "bindM (start_deadline cfg env) (\<lambda>deadline. bindM (advance env SELECTION None ''search started'') (\<lambda>_.
     bindM (guarded_loop env cfg deadline) ?m))"
  have "annotates M ?p" by (intro hoare_rules note_rules)
  moreover have "annotated M (nodes_of (initial_state env task w))"
    using M_new by (simp add: initial_state_def new_tree_def annotated_def new_node_def)
  moreover have p: "?p (initial_state env task w) = (Ok res, s)" using assms by (simp add: run_def)
  ultimately have "annotated M (nodes_of s)" by (rule preservesD)
  moreover have "result_tree res = tree s"
    using p by (auto simp: bindM_def split: prod.splits res.splits dest: build_result_tree)
  ultimately show ?thesis by simp
qed

end

subsection \<open>The shipped policies keep the revision counter readable\<close>

definition countable_attempts :: "dict \<Rightarrow> bool" where
  "countable_attempts d \<longleftrightarrow> (\<exists>n. attempts_of d = Inr n)"

lemma countable_set: "k \<noteq> REVISION_ATTEMPTS_KEY \<Longrightarrow> countable_attempts d \<Longrightarrow> countable_attempts (dict_set k v d)"
  by (simp add: countable_attempts_def attempts_of_def)

lemma countable_simps:
  "countable_attempts []"
  "countable_attempts d \<Longrightarrow> countable_attempts (dict_set EXECUTION_KEY v d)"
  "countable_attempts d \<Longrightarrow> countable_attempts (dict_set REWARD_METADATA_KEY v d)"
  "countable_attempts d \<Longrightarrow> countable_attempts (dict_set CRITIQUE_METADATA_KEY v d)"
  "countable_attempts (dict_set REVISION_ATTEMPTS_KEY (VInt n) d)"
  using countable_set [of _ d v]
  by (simp_all add: EXECUTION_KEY_def REWARD_METADATA_KEY_def CRITIQUE_METADATA_KEY_def REVISION_ATTEMPTS_KEY_def)
    (simp_all add: countable_attempts_def attempts_of_def REVISION_ATTEMPTS_KEY_def)

lemma code_evaluate_countable:
  "countable_attempts (metadata (h ! a)) \<Longrightarrow> countable_attempts (fst (snd (code_evaluate ev w h a)))"
  by (auto simp: code_evaluate_def countable_simps split: prod.splits option.splits sum.splits)

lemma revise_countable:
  "countable_attempts (metadata (h ! a)) \<Longrightarrow> countable_attempts (fst (snd (revise p w h a)))"
  by (auto simp: revise_def Let_def countable_simps split: sum.splits)

lemma shape_reward_countable:
  "countable_attempts (metadata (h ! a)) \<Longrightarrow> countable_attempts (fst (snd (shape_reward wt w h a x cr)))"
  by (auto simp: shape_reward_def Let_def countable_simps split: sum.splits)

end
