(* ===== verification/Session_Guarantees.thy ===== *)
theory Session_Guarantees
  imports Scenarios Metadata_Kept
begin

section \<open>What assembled sessions guarantee\<close>

text \<open>
  Every factory of a session wires a controller the search theorems apply to: a valid configuration, fair policies, the
  platform's node identifiers, and policies that keep a node's revision counter readable.
\<close>

definition shipped :: "'w platform \<Rightarrow> 'w plant environment \<Rightarrow> bool" where
  "shipped pf env \<longleftrightarrow> (\<exists>cfg gen ev cr pol stop. env = shipped_env pf cfg gen ev cr pol stop)"

definition sound_controller :: "'w platform \<Rightarrow> 'w plant environment \<times> search_config \<Rightarrow> bool" where
  "sound_controller pf c \<longleftrightarrow> valid_config (snd c) \<and> fair (fst c) \<and> uid (fst c) = node_uid pf \<and> shipped pf (fst c)"

text \<open>The shipped policies fulfil the contract on metadata at the desk of a stream.\<close>

lemma at_host2_note: "fst (snd (at_host2 f d)) = fst (snd (f (host d)))"
  by (simp add: at_host2_def Let_def split: prod.splits)

interpretation desk_metadata: metadata_contract "on_desk now gone (shipped_env pf cfg gen ev cr pol stop)" countable_attempts
  for now gone and pf :: "'w platform" and cfg gen ev cr pol stop
  by unfold_locales (auto simp: shipped_env_def on_desk_def at_host2_note countable_simps
      intro: code_evaluate_countable revise_countable shape_reward_countable)

lemma desk_countable:
  assumes "shipped pf env" "fst (run (on_desk now gone env) cfg task d) = Ok res"
  shows "annotated countable_attempts (tree_heap (result_tree res))"
proof -
  obtain st where "run (on_desk now gone env) cfg task d = (Ok res, st)" using assms(2) by (metis prod.collapse)
  then show ?thesis using assms(1) desk_metadata.run_annotated unfolding shipped_def by blast
qed

text \<open>The metrics of such a run exist.\<close>

lemma node_loop_countable: "\<forall>n\<in>set ns. countable_attempts (metadata n) \<Longrightarrow> \<exists>x. node_loop ns c g = Inr x"
proof (induction ns arbitrary: c g)
  case (Cons n ns)
  obtain k where "attempts_of (metadata n) = Inr k" using Cons.prems by (auto simp: countable_attempts_def)
  then show ?case using Cons.IH Cons.prems by simp
qed simp

lemma countable_metrics:
  assumes "wf_tree (result_tree r)" "annotated countable_attempts (tree_heap (result_tree r))"
  shows "\<exists>m. metrics_from_result r u = Some (Inr m)"
proof -
  obtain ns where ns: "nodes (result_tree r) = Some ns" "set ns = {..<length (tree_heap (result_tree r))}"
    using nodes_total [OF assms(1)] by metis
  have "\<forall>n\<in>set (map (\<lambda>a. tree_heap (result_tree r) ! a) ns). countable_attempts (metadata n)"
    using ns(2) annotatedD [OF assms(2)] by auto
  from node_loop_countable [OF this, of no_statuses 0]
  obtain x where "node_loop (map (\<lambda>a. tree_heap (result_tree r) ! a) ns) no_statuses 0 = Inr x" by blast
  then show ?thesis using ns(1) by (cases x) (simp add: metrics_from_result_def Let_def)
qed

lemma default_evaluator_accepted: "\<exists>ev. make_code_evaluator (default_code_evaluator\<lparr>harness := checks\<rparr>) = Inr ev"
  by (simp add: make_code_evaluator_def default_code_evaluator_def float_consts)

lemma shipped_fair:
  "fair (shipped_env pf cfg gen ev (execution_critique fr) pol stop)"
  "fair (shipped_env pf cfg gen ev (canonical_critic k) pol stop)"
proof -
  show "fair (shipped_env pf cfg gen ev (execution_critique fr) pol stop)"
    by (rule feedback_stack.shaped_fair [OF _ _ _ default_weights_usable, of _ ev fr]) (simp_all add: shipped_env_def)
  show "fair (shipped_env pf cfg gen ev (canonical_critic k) pol stop)"
    by (rule model_stack.shaped_fair [OF _ _ _ default_weights_usable, of _ ev k]) (simp_all add: shipped_env_def)
qed

lemma wired_fair: "wire_controller pf cfg gen exec checks (pick_critic pf cl t b) n stop = Inr c \<Longrightarrow>
    fair (fst c) \<and> snd c = cfg \<and> uid (fst c) = node_uid pf \<and> stop_condition (fst c) = stop \<and> shipped pf (fst c)"
proof -
  assume "wire_controller pf cfg gen exec checks (pick_critic pf cl t b) n stop = Inr c"
  then obtain ev pol where c: "c = (shipped_env pf cfg gen (exec, ev) (pick_critic pf cl t b) pol stop, cfg)"
    by (auto simp: wire_controller_def sum_bind_Inr)
  have "fair (fst c)" using shipped_fair by (cases b) (simp_all add: c pick_critic_def)
  moreover have "shipped pf (fst c)" unfolding shipped_def c fst_conv by (intro exI) (rule refl)
  ultimately show ?thesis by (simp add: c shipped_env_def)
qed

lemma wired_accepted:
  assumes "1 \<le> n" shows "\<exists>c. wire_controller pf cfg gen exec checks cr n stop = Inr c"
proof -
  obtain ev where "make_code_evaluator (default_code_evaluator\<lparr>harness := checks\<rparr>) = Inr ev" using default_evaluator_accepted by blast
  then show ?thesis using assms by (simp add: wire_controller_def make_revision_def)
qed

subsection \<open>Sessions over a model\<close>

definition positive_ceiling :: "int option \<Rightarrow> bool" where
  "positive_ceiling n \<longleftrightarrow> (case n of None \<Rightarrow> True | Some k \<Rightarrow> 1 \<le> k)"

lemma run_budget_accepted:
  assumes "positive_ceiling (spec_max_tokens s)" "positive_ceiling (max_llm_calls s)"
  obtains stop where "run_budget s now = Inr stop"
    "case stop of None \<Rightarrow> spec_max_tokens s = None \<and> max_llm_calls s = None
     | Some f \<Rightarrow> f = budget_stop tally \<lparr>max_total_tokens = spec_max_tokens s, max_calls = max_llm_calls s, baseline = now\<rparr>"
  using assms that by (auto simp: run_budget_def make_budget_def positive_ceiling_def split: option.splits if_splits)

lemma llm_session_parts:
  assumes "build_llm_session pf s g shared dir p = (Inr ses, p1)"
  obtains inner b where "inner_client pf s g = Inr inner" "controller ses = (\<lambda>q. (llm_controller pf s inner b q, q))" "session_task ses = spec_task s"
    "archive_dir ses = dir" "py_strip (spec_task s) \<noteq> []" "session_usage ses = Some tally"
  using assms by (auto simp: build_llm_session_def make_session_def Let_def split: sum.splits prod.splits if_splits)

lemma llm_controller_sound:
  assumes "valid_config (spec_config s)" "llm_controller pf s inner b q = Inr c"
  shows "sound_controller pf c \<and> snd c = spec_config s"
proof -
  from assms(2) obtain cl gen exec stop where
    "wire_controller pf (spec_config s) gen exec (validation_harness s) (pick_critic pf cl (critic_temperature s) (use_llm_critic s))
       (revision_attempts s) stop = Inr c"
    unfolding llm_controller_def Let_def sum_bind_Inr by blast
  from wired_fair [OF this] show ?thesis using assms(1) by (simp add: sound_controller_def)
qed

lemma llm_controller_accepted:
  fixes pf :: "'w platform"
  assumes "1 \<le> revision_attempts s" "positive_ceiling (spec_max_tokens s)" "positive_ceiling (max_llm_calls s)"
  shows "\<exists>c. llm_controller pf s inner b q = Inr c"
proof -
  obtain stop :: "('w plant \<Rightarrow> (exn + string option) \<times> 'w plant) option" where "run_budget s (tally q) = Inr stop"
    by (rule run_budget_accepted [OF assms(2,3)])
  moreover have "\<exists>c. wire_controller pf (spec_config s) gen exec (validation_harness s) cr (revision_attempts s) stop = Inr c"
    for gen exec cr by (rule wired_accepted [OF assms(1)])
  ultimately show ?thesis
    by (simp add: llm_controller_def Let_def del: split_paired_Ex)
qed

lemma conversation_accepted:
  assumes "in_temperature_range (policy_temperature k)" "0 < policy_max_tokens k"
  shows "\<exists>rq. conversation k sys usr = Inr rq"
  using assms by (simp add: conversation_def make_message_def make_completion_request_def in_temperature_range_def)

text \<open>
  What counting a completion means: the model was asked, its answer is passed on, and the tally grew by that one call and by
  the tokens of the answer; a failure counts nothing.
\<close>

definition counted_call :: "'w llm \<Rightarrow> 'w plant \<Rightarrow> completion_request \<Rightarrow> exn + completion_response \<Rightarrow> 'w plant \<Rightarrow> bool" where
  "counted_call inner q rq x q' \<longleftrightarrow> inner (outer q) rq = (x, outer q')
     \<and> usage_calls (tally q') = usage_calls (tally q) + (case x of Inl e \<Rightarrow> 0 | Inr r \<Rightarrow> 1)
     \<and> usage_prompt (tally q') = usage_prompt (tally q) + (case x of Inl e \<Rightarrow> 0 | Inr r \<Rightarrow> prompt_tokens r)
     \<and> usage_completion (tally q') = usage_completion (tally q) + (case x of Inl e \<Rightarrow> 0 | Inr r \<Rightarrow> completion_tokens r)"

text \<open>A ceiling is crossed when as many tokens or calls were spent between two tallies as it allows.\<close>

definition crossed :: "llm_spec \<Rightarrow> token_usage \<Rightarrow> token_usage \<Rightarrow> bool" where
  "crossed s u v \<longleftrightarrow>
     (\<exists>m. spec_max_tokens s = Some m \<and> m \<le> (usage_prompt v - usage_prompt u) + (usage_completion v - usage_completion u))
   \<or> (\<exists>m. max_llm_calls s = Some m \<and> m \<le> usage_calls v - usage_calls u)"

text \<open>A request that the store answers: nothing is asked, nothing is counted.\<close>

definition remembered :: "'w plant \<Rightarrow> completion_request \<Rightarrow> exn + completion_response \<Rightarrow> 'w plant \<Rightarrow> bool" where
  "remembered q rq x q' \<longleftrightarrow> feq (temperature rq) 0 \<and> outer q' = outer q \<and> tally q' = tally q \<and>
     (\<exists>r. map_of (entries (store q)) rq = Some r \<and> x = Inr (r\<lparr>prompt_tokens := 0, completion_tokens := 0\<rparr>))"

lemma accounted_counts: "accounted inner q rq = (x, q') \<Longrightarrow> counted_call inner q rq x q' \<and> store q' = store q"
  by (auto simp: accounted_def accounting_complete_def counted_call_def split: prod.splits sum.splits)

lemma cache_get_hit: "cache_get rq c = (Some r, c') \<Longrightarrow> map_of (entries c) rq = Some r"
  by (auto simp: cache_get_def split: option.splits)

lemma cached_counts:
  assumes "cached (accounted inner) q rq = (x, q')"
  shows "counted_call inner q rq x q' \<or> remembered q rq x q'"
proof (cases "feq (temperature rq) 0 \<and> (\<exists>r. fst (cache_get rq (store q)) = Some r)")
  case True
  then obtain r c where "cache_get rq (store q) = (Some r, c)" by (metis prod.collapse)
  then show ?thesis using assms True cache_get_hit [of rq "store q" r c]
    by (auto simp: cached_def caching_complete_def caching_with_def remembered_def)
next
  case False
  obtain y p where a: "accounted inner q rq = (y, p)" by fastforce
  have "x = y" "tally q' = tally p" "outer q' = outer p"
    using assms False a by (auto simp: cached_def caching_complete_def caching_with_def split: prod.splits option.splits sum.splits if_splits)
  then show ?thesis using accounted_counts [OF a] by (simp add: counted_call_def)
qed

text \<open>C33: A session over a model is well formed: from a specification that passes its checks, with a valid search
  configuration, a positive revision budget and positive ceilings, the factory of a built session never raises. Each
  run gets a controller with that configuration and with fair policies. Its generator and, when the model is to criticise, its critic share
  one client \<open>cl\<close> over the session's model \<open>inner\<close>, each at its configured temperature, and the completion contract accepts every prompt of both.
  The client counts every completion: a request is passed to the model and its call and tokens are added to the
  tally, or, only with the cache configured and at temperature zero, it is answered from the store and
  nothing is counted. The ceiling reads that tally and counts from this run's start: it stops the search exactly when the tokens or calls
  spent since the controller was built have reached it, and always with a reason.\<close>

theorem llm_session_well_formed:
  fixes pf :: "'w platform"
  assumes "make_spec s = Inr s'" "valid_config (spec_config s)" "1 \<le> revision_attempts s"
    "positive_ceiling (spec_max_tokens s)" "positive_ceiling (max_llm_calls s)"
    "build_llm_session pf s g shared dir p = (Inr ses, p1)"
  shows "\<exists>env inner cl. controller ses q = (Inr (env, spec_config s), q) \<and> sound_controller pf (env, spec_config s)
     \<and> (case stop_condition env of None \<Rightarrow> spec_max_tokens s = None \<and> max_llm_calls s = None
        | Some stop \<Rightarrow> \<forall>q'. \<exists>reason. stop q' = (Inr reason, q') \<and> reason \<noteq> Some [] \<and> (reason \<noteq> None \<longleftrightarrow> crossed s (tally q) (tally q')))
     \<and> inner_client pf s g = Inr inner
     \<and> (\<forall>q1 rq x q2. cl q1 rq = (x, q2) \<longrightarrow> counted_call inner q1 rq x q2 \<or> cache_completions s \<and> remembered q1 rq x q2)
     \<and> generate env = llm_generator pf cl (generator_temperature s)
     \<and> critic env = Some (if use_llm_critic s then canonical_critic (show_value pf, llm_critic_policy pf cl (critic_temperature s))
          else execution_critique (show_value pf))
     \<and> (\<forall>sys usr. (\<exists>rq. conversation (generator_policy pf cl (generator_temperature s)) sys usr = Inr rq)
          \<and> (\<exists>rq. conversation (llm_critic_policy pf cl (critic_temperature s)) sys usr = Inr rq))"
proof -
  obtain inner b where ses: "inner_client pf s g = Inr inner" "controller ses = (\<lambda>q. (llm_controller pf s inner b q, q))"
    by (rule llm_session_parts [OF assms(6)])
  obtain stop :: "('w plant \<Rightarrow> (exn + string option) \<times> 'w plant) option" where st: "run_budget s (tally q) = Inr stop"
    "case stop of None \<Rightarrow> spec_max_tokens s = None \<and> max_llm_calls s = None
     | Some f \<Rightarrow> f = budget_stop tally \<lparr>max_total_tokens = spec_max_tokens s, max_calls = max_llm_calls s, baseline = tally q\<rparr>"
    by (rule run_budget_accepted [OF assms(4,5)])
  define cl where "cl = (if cache_completions s then cached (accounted inner) else accounted inner)"
  let ?wire = "wire_controller pf (spec_config s) (llm_generator pf cl (generator_temperature s)) (backend_execute pf b)
      (validation_harness s) (pick_critic pf cl (critic_temperature s) (use_llm_critic s)) (revision_attempts s) stop"
  obtain c where w: "?wire = Inr c" using wired_accepted [OF assms(3)] by blast
  then have c: "llm_controller pf s inner b q = Inr c" using st(1) by (simp add: llm_controller_def cl_def Let_def)
  have sound: "sound_controller pf c" "snd c = spec_config s" using llm_controller_sound [OF assms(2) c] by simp_all
  obtain env where env: "c = (env, spec_config s)" using sound(2) by (cases c) simp
  have gen: "generate env = llm_generator pf cl (generator_temperature s)"
    and cr: "critic env = Some (if use_llm_critic s then canonical_critic (show_value pf, llm_critic_policy pf cl (critic_temperature s))
          else execution_critique (show_value pf))"
    using w env by (auto simp: wire_controller_def sum_bind_Inr shipped_env_def pick_critic_def)
  have stop: "stop_condition env = stop" using wired_fair [OF w] env by simp
  have "in_temperature_range (generator_temperature s)" "in_temperature_range (critic_temperature s)"
    using assms(1) by (simp_all add: make_spec_def split: if_splits)
  then have conv: "\<exists>rq. conversation (generator_policy pf cl (generator_temperature s)) sys usr = Inr rq"
      "\<exists>rq. conversation (llm_critic_policy pf cl (critic_temperature s)) sys usr = Inr rq" for sys usr
    by (simp_all add: conversation_accepted generator_policy_def llm_critic_policy_def)
  have cond: "case stop of None \<Rightarrow> spec_max_tokens s = None \<and> max_llm_calls s = None
        | Some f \<Rightarrow> \<forall>q'. \<exists>reason. f q' = (Inr reason, q') \<and> reason \<noteq> Some [] \<and> (reason \<noteq> None \<longleftrightarrow> crossed s (tally q) (tally q'))"
  proof (cases stop)
    case (Some f)
    let ?b = "\<lparr>max_total_tokens = spec_max_tokens s, max_calls = max_llm_calls s, baseline = tally q\<rparr>"
    have "check_budget ?b u \<noteq> None \<longleftrightarrow> crossed s (tally q) u" for u
      unfolding crossed_def check_budget_decides by (auto simp: reached_def total_tokens_def split: option.splits)
    then show ?thesis using st(2) check_budget_decides(2) Some by (simp add: budget_stop_def)
  qed (use st(2) in simp)
  have count: "counted_call inner q1 rq x q2 \<or> cache_completions s \<and> remembered q1 rq x q2" if "cl q1 rq = (x, q2)" for q1 rq x q2
    using that accounted_counts [of inner q1 rq x q2] cached_counts [of inner q1 rq x q2] by (auto simp: cl_def split: if_splits)
  have "controller ses q = (Inr (env, spec_config s), q)" using ses(2) c env by simp
  then show ?thesis using ses(1) env sound(1) stop cond gen cr conv count
    by (intro exI [of _ env] exI [of _ inner] exI [of _ cl]) simp
qed

subsection \<open>The deterministic sessions\<close>

lemma demo_config_accepted: "1 \<le> workers \<Longrightarrow> (case wall of None \<Rightarrow> True | Some x \<Rightarrow> \<not> x \<le> 0) \<Longrightarrow>
    check_config (demo_config sd wall workers) = Inr (demo_config sd wall workers)"
  by (auto simp: check_config_def demo_config_def default_config_def MAX_SUPPORTED_DEPTH_def float_consts split: option.splits)

lemma check_config_valid: "check_config c = Inr c' \<Longrightarrow> c' = c \<and> valid_config c'"
  by (simp add: valid_config_def check_config_Inr)

lemma reference_controller_sound:
  assumes "reference_controller pf wall workers b = Inr c" shows "sound_controller pf c"
proof -
  from assms obtain cfg where cfg: "check_config (demo_config (Some 7) wall workers) = Inr cfg"
    "wire_controller pf cfg (guidance_generate (show_value pf)) (backend_execute pf b) VALIDATION_HARNESS (execution_critique (show_value pf)) 1 None = Inr c"
    by (auto simp: reference_controller_def sum_bind_Inr)
  have "wire_controller pf cfg (guidance_generate (show_value pf)) (backend_execute pf b) VALIDATION_HARNESS (pick_critic pf cl t False) 1 None = Inr c"
    for cl t using cfg(2) by (simp add: pick_critic_def)
  from wired_fair [OF this] show ?thesis using check_config_valid [OF cfg(1)] unfolding sound_controller_def by blast
qed

lemma reference_controller_accepted:
  assumes "valid_config (demo_config (Some 7) wall workers)" shows "\<exists>c. reference_controller pf wall workers b = Inr c"
  using assms wired_accepted [of 1 pf "demo_config (Some 7) wall workers"] by (simp add: reference_controller_def valid_config_def)

lemma offline_controller_sound:
  assumes "offline_controller pf inner uc sd wall tokens workers p = (Inr c, p1)"
  shows "sound_controller pf c"
proof -
  from assms obtain cfg gen exec cr stop where "check_config (demo_config (Some sd) wall workers) = Inr cfg"
    "wire_controller pf cfg gen exec VALIDATION_HARNESS (pick_critic pf (accounted inner) (Fin (1 / 5)) uc) 1 stop = Inr c"
    by (auto simp: offline_controller_def sum_bind_Inr split: sum.splits prod.splits)
  then show ?thesis using wired_fair check_config_valid unfolding sound_controller_def by blast
qed

subsection \<open>A sample plant\<close>

definition sample_platform :: "unit platform" where
  "sample_platform = \<lparr>machine_host = sample_host (Some 0), context_dir = ''.'', show_value = (\<lambda>v. []), read_json = (\<lambda>t. Inr (VDict [])),
     write_json = (\<lambda>d. Inr []), show_bytes = (\<lambda>b. b), http_post = (\<lambda>w url payload headers t. (Inr (200, ''{}''), w)),
     sleep = (\<lambda>d w. w), steady_clock = Pair 0, dice = (\<lambda>s. Pair 0), node_uid = uid plain_env, schedule = (\<lambda>w n. ([0..<n], w))\<rparr>"

definition sample_plant :: "unit plant" where
  "sample_plant = \<lparr>store = fresh_store, tally = no_usage, backends = initial_backend\<lparr>probe_expiry := 1\<rparr>, outer = ()\<rparr>"

definition sample_spec :: llm_spec where
  "sample_spec = \<lparr>spec_task = ''t'', base_url = ''http://h/v1'', spec_model = ''m'', validation_harness = [], spec_key = None,
     generator_temperature = Fin (7 / 10), critic_temperature = Fin (1 / 5), use_llm_critic = True, spec_config = default_config,
     revision_attempts = 1, spec_max_tokens = Some 100, max_llm_calls = None, cache_completions = True\<rparr>"

lemma sample_chosen: "choose_backend sample_platform (sample_plant\<lparr>tally := u, store := st\<rparr>)
    = (Inr (SubprocessBackend default_limits), sample_plant\<lparr>tally := u, store := st\<rparr>)"
  by (simp add: choose_backend_def sample_platform_def sample_plant_def select_executor_def docker_available_def sample_host_def
      initial_backend_def fallback_def float_consts)

lemma sample_built:
  "\<exists>ses. build_llm_session sample_platform sample_spec No_Client False None sample_plant = (Inr ses, sample_plant\<lparr>tally := no_usage, store := fresh_store\<rparr>)"
proof -
  have "\<exists>c. inner_client sample_platform sample_spec No_Client = Inr c"
    by (simp add: inner_client_def endpoint_client_def make_http_client_def sample_spec_def py_strip_def py_lstrip_def
        py_rstrip_def py_space_def py_ord_def float_consts)
  then show ?thesis using sample_chosen
    by (auto simp: build_llm_session_def Let_def make_session_def sample_spec_def py_strip_def py_lstrip_def
        py_rstrip_def py_space_def py_ord_def)
qed

theorem llm_session_well_formed_witness:
  "\<exists>ses env q cl. build_llm_session sample_platform sample_spec No_Client False None sample_plant = (Inr ses, q)
     \<and> controller ses q = (Inr (env, default_config), q) \<and> sound_controller sample_platform (env, default_config)
     \<and> critic env = Some (canonical_critic (show_value sample_platform, llm_critic_policy sample_platform cl (Fin (1 / 5))))
     \<and> (\<exists>rq. conversation (llm_critic_policy sample_platform cl (Fin (1 / 5))) ''s'' ''u'' = Inr rq)"
proof -
  let ?q = "sample_plant\<lparr>tally := no_usage, store := fresh_store\<rparr>"
  obtain ses where b: "build_llm_session sample_platform sample_spec No_Client False None sample_plant = (Inr ses, ?q)" using sample_built by blast
  have ok: "make_spec sample_spec = Inr sample_spec" "valid_config (spec_config sample_spec)" "1 \<le> revision_attempts sample_spec"
    "positive_ceiling (spec_max_tokens sample_spec)" "positive_ceiling (max_llm_calls sample_spec)"
    using valid_default_config by (simp_all add: sample_spec_def make_spec_def in_temperature_range_def positive_ceiling_def float_consts)
  have spec: "spec_config sample_spec = default_config" "use_llm_critic sample_spec" "critic_temperature sample_spec = Fin (1 / 5)"
    by (simp_all add: sample_spec_def)
  obtain env cl where "controller ses ?q = (Inr (env, default_config), ?q)" "sound_controller sample_platform (env, default_config)"
    "critic env = Some (canonical_critic (show_value sample_platform, llm_critic_policy sample_platform cl (Fin (1 / 5))))"
    "\<exists>rq. conversation (llm_critic_policy sample_platform cl (Fin (1 / 5))) ''s'' ''u'' = Inr rq"
    using llm_session_well_formed [OF ok b, of ?q] spec unfolding spec by auto
  then show ?thesis using b by blast
qed

end
