(* ===== verification/Command_Line.thy ===== *)
theory Command_Line
  imports Session_Guarantees
begin

section \<open>The command line of the server (cognitivetree/ui/serve.py)\<close>

text \<open>
  \<open>session_factory_from_args\<close> turns parsed arguments into a session factory. The closure it returns is the value \<open>plan\<close>;
  \<open>open_plan\<close> is a call of it. \<open>argparse\<close> itself, which delivers \<open>cli_args\<close> with the declared types and choices, is
  not modelled; reading files and the environment are arguments. The warnings it logs are part of the result.
\<close>

datatype backend_choice = Reference_Backend | Demo_Backend | Llm_Backend | Replay_Backend

record cli_args =
  arg_backend :: backend_choice
  arg_base_url :: "string option"
  arg_model :: "string option"
  arg_task :: "string option"
  arg_api_key :: "string option"
  arg_harness_file :: "string option"
  arg_temperature :: pyfloat
  arg_critic_temperature :: pyfloat
  arg_cache_completions :: bool
  arg_llm_critic :: bool
  arg_max_seconds :: "pyfloat option"
  arg_eval_workers :: int
  arg_max_tokens :: "int option"
  arg_max_llm_calls :: "int option"
  arg_archive :: "string option"
  arg_archive_dir :: "string option"
  arg_replay_speed :: "pyfloat option"
  arg_max_runs :: int

text \<open>The defaults the parser declares.\<close>

definition default_args :: "cli_args" where
  "default_args = \<lparr>arg_backend = Reference_Backend, arg_base_url = None, arg_model = None, arg_task = None, arg_api_key = None,
     arg_harness_file = None, arg_temperature = Fin (7 / 10), arg_critic_temperature = Fin (1 / 5), arg_cache_completions = False,
     arg_llm_critic = False, arg_max_seconds = None, arg_eval_workers = 1, arg_max_tokens = None, arg_max_llm_calls = None,
     arg_archive = None, arg_archive_dir = None, arg_replay_speed = None, arg_max_runs = 4\<rparr>"

record startup_io =
  load_archive :: "string \<Rightarrow> exn + run_archive"
  read_text :: "string \<Rightarrow> exn + string"
  environ :: "string \<Rightarrow> string option"

datatype plan =
    Replay_Plan run_archive "pyfloat option"
  | Reference_Plan "pyfloat option" int "string option"
  | Demo_Plan "pyfloat option" "int option" int "string option"
  | Llm_Plan llm_spec bool "string option"

definition system_exit :: "string \<Rightarrow> exn" where
  "system_exit msg = Exn (OtherException ''SystemExit'') msg"

definition below :: "int option \<Rightarrow> int \<Rightarrow> bool" where
  "below v n \<longleftrightarrow> (case v of None \<Rightarrow> False | Some k \<Rightarrow> k < n)"

definition not_positive :: "pyfloat option \<Rightarrow> bool" where
  "not_positive v \<longleftrightarrow> (case v of None \<Rightarrow> False | Some x \<Rightarrow> x \<le> 0)"

text \<open>The checks common to every backend, in order.\<close>

definition check_args :: "cli_args \<Rightarrow> exn + unit" where
  "check_args a =
     (if not_positive (arg_max_seconds a) then Inl (system_exit ''--max-seconds must be positive'')
      else if not_positive (arg_replay_speed a) then Inl (system_exit ''--replay-speed must be positive'')
      else if below (arg_max_tokens a) 1 then Inl (system_exit ''--max-tokens must be a positive integer'')
      else if below (arg_max_llm_calls a) 1 then Inl (system_exit ''--max-llm-calls must be a positive integer'')
      else if arg_eval_workers a < 1 then Inl (system_exit ''--eval-workers must be a positive integer'')
      else if \<not> in_temperature_range (arg_temperature a) then Inl (system_exit ''--temperature must lie within [0.0, 2.0]'')
      else if \<not> in_temperature_range (arg_critic_temperature a) then Inl (system_exit ''--critic-temperature must lie within [0.0, 2.0]'')
      else if arg_max_runs a < 1 then Inl (system_exit ''--max-concurrent-runs must be a positive integer'')
      else if arg_backend a = Reference_Backend \<and> (arg_max_tokens a \<noteq> None \<or> arg_max_llm_calls a \<noteq> None)
        then Inl (system_exit ''--max-tokens/--max-llm-calls need an LLM backend (use --backend llm or llm-demo)'')
      else if arg_backend a = Replay_Backend \<and> arg_archive_dir a \<noteq> None
        then Inl (system_exit ''--archive-dir records live runs; the replay backend has none'')
      else Inr ())"

text \<open>Python's truth of an optional string, and \<open>a or b or None\<close>.\<close>

fun given :: "string option \<Rightarrow> bool" where
  "given None = False"
| "given (Some s) = (s \<noteq> [])"

definition either :: "string option \<Rightarrow> string option \<Rightarrow> string option" where
  "either x y = (if given x then x else if given y then y else None)"

definition has_deterministic_role :: "cli_args \<Rightarrow> bool" where
  "has_deterministic_role a \<longleftrightarrow> feq (arg_temperature a) 0 \<or> (arg_llm_critic a \<and> feq (arg_critic_temperature a) 0)"

definition replay_plan :: "startup_io \<Rightarrow> cli_args \<Rightarrow> exn + plan" where
  "replay_plan io a = (case arg_archive a of
       None \<Rightarrow> Inl (system_exit ''backend 'replay' requires --archive'')
     | Some path \<Rightarrow> (case load_archive io path of
           Inl e \<Rightarrow> Inl (if os_error (exn_kind e) \<or> exn_kind e = ArchiveFormatError
               then system_exit (''cannot read archive '' @ path @ '': '' @ exn_text e) else e)
         | Inr arch \<Rightarrow> Inr (Replay_Plan arch (arg_replay_speed a))))"

definition missing_flags :: "cli_args \<Rightarrow> string list" where
  "missing_flags a = map fst (filter (\<lambda>(name, v). \<not> given v)
     [(''--base-url'', arg_base_url a), (''--model'', arg_model a), (''--task'', arg_task a)])"

definition llm_plan :: "startup_io \<Rightarrow> cli_args \<Rightarrow> (exn + plan) \<times> string list" where
  "llm_plan io a =
     (if missing_flags a \<noteq> [] then (Inl (system_exit (''backend 'llm' requires '' @ py_join '', '' (missing_flags a))), [])
      else (case (case arg_harness_file a of None \<Rightarrow> Inr [] | Some f \<Rightarrow> read_text io f) of
          Inl e \<Rightarrow> (Inl e, [])
        | Inr checks \<Rightarrow>
            (let key_warning = (if given (arg_api_key a) then [''--api-key exposes the key in shell history and process listings; set COGNITIVETREE_API_KEY instead''] else []) in
             case sum_bind (check_config (default_config\<lparr>seed := None, max_wall_seconds := arg_max_seconds a, evaluation_workers := arg_eval_workers a\<rparr>))
                (\<lambda>cfg. make_spec \<lparr>spec_task = the (arg_task a), base_url = the (arg_base_url a), spec_model = the (arg_model a),
                   validation_harness = checks, spec_key = either (arg_api_key a) (environ io ''COGNITIVETREE_API_KEY''),
                   generator_temperature = arg_temperature a, critic_temperature = arg_critic_temperature a,
                   use_llm_critic = arg_llm_critic a, spec_config = cfg, revision_attempts = 1, spec_max_tokens = arg_max_tokens a,
                   max_llm_calls = arg_max_llm_calls a, cache_completions = arg_cache_completions a\<rparr>) of
               Inl e \<Rightarrow> (Inl e, key_warning)
             | Inr spec \<Rightarrow> (Inr (Llm_Plan spec (arg_cache_completions a) (arg_archive_dir a)),
                 key_warning @ (if arg_cache_completions a \<and> \<not> has_deterministic_role a
                   then [''--cache-completions has no effect: only temperature-0 requests are cached; set --temperature 0 (or --critic-temperature 0 with --llm-critic)''] else [])))))"

definition session_factory_from_args :: "startup_io \<Rightarrow> cli_args \<Rightarrow> (exn + plan) \<times> string list" where
  "session_factory_from_args io a = (case check_args a of
       Inl e \<Rightarrow> (Inl e, [])
     | Inr _ \<Rightarrow> (case arg_backend a of
           Replay_Backend \<Rightarrow> (replay_plan io a, [])
         | Reference_Backend \<Rightarrow> (Inr (Reference_Plan (arg_max_seconds a) (arg_eval_workers a) (arg_archive_dir a)), [])
         | Demo_Backend \<Rightarrow> (Inr (Demo_Plan (arg_max_seconds a) (arg_max_tokens a) (arg_eval_workers a) (arg_archive_dir a)), [])
         | Llm_Backend \<Rightarrow> llm_plan io a))"

text \<open>Calling the factory: a replay, or a live session.\<close>

definition open_plan :: "'w platform \<Rightarrow> plan \<Rightarrow> 'w plant \<Rightarrow> (exn + run_archive \<times> pyfloat option + 'w plant session) \<times> 'w plant" where
  "open_plan pf pl p = (case pl of
       Replay_Plan a sp \<Rightarrow> (map_sum id (\<lambda>_. Inl (a, sp)) (make_player (steady_clock pf) (\<lambda>d w. (Inr (), sleep pf d w)) a sp), p)
     | Reference_Plan wall workers dir \<Rightarrow> (case build_reference_session pf wall workers dir p of (r, q) \<Rightarrow> (map_sum id Inr r, q))
     | Demo_Plan wall tokens workers dir \<Rightarrow> (case build_offline_session pf wall tokens workers dir p of (r, q) \<Rightarrow> (map_sum id Inr r, q))
     | Llm_Plan spec shared dir \<Rightarrow> (case build_llm_session pf spec No_Client shared dir p of (r, q) \<Rightarrow> (map_sum id Inr r, q)))"

text \<open>\<open>is_loopback_host\<close>; \<open>parse_ip\<close> is \<open>ipaddress.ip_address\<close> and the \<open>is_loopback\<close> of what it returns.\<close>

definition is_loopback_host :: "(string \<Rightarrow> bool option) \<Rightarrow> string \<Rightarrow> bool" where
  "is_loopback_host parse_ip h = (if py_lower h = ''localhost'' then True
     else (case parse_ip h of None \<Rightarrow> False | Some b \<Rightarrow> b))"

subsection \<open>Accepted arguments\<close>

definition plan_ok :: "plan \<Rightarrow> bool" where
  "plan_ok pl \<longleftrightarrow> (case pl of
       Replay_Plan a sp \<Rightarrow> \<not> not_positive sp
     | Reference_Plan wall workers dir \<Rightarrow> valid_config (demo_config (Some 7) wall workers)
     | Demo_Plan wall tokens workers dir \<Rightarrow> valid_config (demo_config (Some 7) wall workers) \<and> positive_ceiling tokens
     | Llm_Plan s shared dir \<Rightarrow> make_spec s = Inr s \<and> valid_config (spec_config s) \<and> 1 \<le> revision_attempts s
         \<and> positive_ceiling (spec_max_tokens s) \<and> positive_ceiling (max_llm_calls s)
         \<and> spec_task s \<noteq> [] \<and> base_url s \<noteq> [] \<and> spec_model s \<noteq> [])"

lemma check_args_accepted:
  "check_args a = Inr u \<longleftrightarrow> \<not> not_positive (arg_max_seconds a) \<and> \<not> not_positive (arg_replay_speed a)
     \<and> positive_ceiling (arg_max_tokens a) \<and> positive_ceiling (arg_max_llm_calls a) \<and> 1 \<le> arg_eval_workers a
     \<and> in_temperature_range (arg_temperature a) \<and> in_temperature_range (arg_critic_temperature a) \<and> 1 \<le> arg_max_runs a
     \<and> \<not> (arg_backend a = Reference_Backend \<and> (arg_max_tokens a \<noteq> None \<or> arg_max_llm_calls a \<noteq> None))
     \<and> \<not> (arg_backend a = Replay_Backend \<and> arg_archive_dir a \<noteq> None)"
proof -
  have b: "below v 1 \<longleftrightarrow> \<not> positive_ceiling v" for v by (auto simp: below_def positive_ceiling_def split: option.splits)
  show ?thesis by (simp add: check_args_def b not_less)
qed

lemma demo_config_valid: "1 \<le> workers \<Longrightarrow> \<not> not_positive wall \<Longrightarrow> valid_config (demo_config sd wall workers)"
  using demo_config_accepted [of workers wall sd] by (simp add: valid_config_def not_positive_def split: option.splits)

lemma given_iff: "given v \<longleftrightarrow> v \<noteq> None \<and> the v \<noteq> []"
  by (cases v) simp_all

lemma missing_none: "missing_flags a = [] \<longleftrightarrow> given (arg_base_url a) \<and> given (arg_model a) \<and> given (arg_task a)"
  by (simp add: missing_flags_def)

lemma make_spec_same: "make_spec s = Inr s' \<Longrightarrow> s' = s"
  by (simp add: make_spec_def split: if_splits)

lemma llm_plan_ok:
  assumes "check_args a = Inr u" "llm_plan io a = (Inr pl, ws)" shows "plan_ok pl"
proof -
  from assms(2) obtain cfg checks s where m: "missing_flags a = []"
    and c: "check_config (default_config\<lparr>seed := None, max_wall_seconds := arg_max_seconds a, evaluation_workers := arg_eval_workers a\<rparr>) = Inr cfg"
    and s: "make_spec \<lparr>spec_task = the (arg_task a), base_url = the (arg_base_url a), spec_model = the (arg_model a),
         validation_harness = checks, spec_key = either (arg_api_key a) (environ io ''COGNITIVETREE_API_KEY''),
         generator_temperature = arg_temperature a, critic_temperature = arg_critic_temperature a,
         use_llm_critic = arg_llm_critic a, spec_config = cfg, revision_attempts = 1, spec_max_tokens = arg_max_tokens a,
         max_llm_calls = arg_max_llm_calls a, cache_completions = arg_cache_completions a\<rparr> = Inr s"
    and pl: "pl = Llm_Plan s (arg_cache_completions a) (arg_archive_dir a)"
    by (auto simp: llm_plan_def Let_def sum_bind_Inr split: if_splits sum.splits option.splits)
  have "valid_config cfg" using check_config_valid [OF c] by (rule conjunct2)
  then show ?thesis using make_spec_same [OF s] s m assms(1)
    by (auto simp: plan_ok_def pl check_args_accepted missing_none given_iff)
qed

lemma plan_accepted:
  assumes "session_factory_from_args io a = (Inr pl, ws)"
  shows "plan_ok pl \<and> 1 \<le> arg_max_runs a"
proof -
  obtain u where c: "check_args a = Inr u" using assms by (simp add: session_factory_from_args_def split: sum.splits)
  then have a: "1 \<le> arg_max_runs a" "1 \<le> arg_eval_workers a" "\<not> not_positive (arg_max_seconds a)"
    "\<not> not_positive (arg_replay_speed a)" "positive_ceiling (arg_max_tokens a)" by (simp_all add: check_args_accepted)
  have "plan_ok pl"
  proof (cases "arg_backend a")
    case Llm_Backend
    then show ?thesis using assms c llm_plan_ok [OF c] by (simp add: session_factory_from_args_def)
  next
    case Replay_Backend
    then show ?thesis using assms c a
      by (auto simp: session_factory_from_args_def replay_plan_def plan_ok_def split: option.splits sum.splits)
  qed (use assms c a in \<open>auto simp: session_factory_from_args_def plan_ok_def demo_config_valid\<close>)
  then show ?thesis using a(1) by simp
qed

text \<open>Arguments the command line accepts are good for every connection: whatever plan \<open>session_factory_from_args\<close>
  returns has a valid search configuration, temperatures the completion contract accepts, positive ceilings, a
  positive replay speed and texts that are not empty, and the server accepts its concurrency cap.\<close>

theorem accepted_arguments_typed:
  assumes "session_factory_from_args io a = (Inr pl, ws)"
  shows "plan_ok pl \<and> 1 \<le> arg_max_runs a"
  by (rule plan_accepted [OF assms])

end
