(* ===== verification/Served_Sessions.thy ===== *)
theory Served_Sessions
  imports Command_Line
begin

section \<open>From the command line to the stream\<close>

text \<open>
  The whole stack composed: accepted arguments, the session a connection opens, the controller its factory wires and the
  stream of its run.
\<close>

lemma desk_fair: "fair env \<Longrightarrow> fair (on_desk now gone env)"
proof -
  have 1: "fst (at_host2 f d) = fst (f (host d))" for f :: "'a \<Rightarrow> 'b \<times> 'c \<times> 'a" and d
    by (simp add: at_host2_def Let_def split: prod.splits)
  have 2: "fst (at_host f d) = fst (f (host d))" for f :: "'a \<Rightarrow> 'b \<times> 'a" and d
    by (simp add: at_host_def Let_def split: prod.splits)
  assume f: "fair env"
  show ?thesis
    unfolding fair_def
  proof (intro conjI allI impI)
    show "valid_evaluation v" if "fst (evaluate (on_desk now gone env) w h a) = Inr v" for w h a v
      using that fairD(1) [OF f, of "host w" h a v] by (simp add: on_desk_def 1)
    show "valid_critique k" if "critic (on_desk now gone env) = Some g" "fst (g w h a) = Inr (Some k)" for g w h a k
      using that fairD(2) [OF f, of _ "host w" h a k] by (auto simp: on_desk_def 2)
    show "unit_value r" if "reward_model (on_desk now gone env) = Some g" "0 \<le> depth (h ! a)" "unit_value s"
      "\<forall>k. cr = Some k \<longrightarrow> valid_critique k" "fst (g w h a s cr) = Inr r" for g w h a s cr r
      using that fairD(3) [OF f, of _ h a s cr "host w" r] by (auto simp: on_desk_def 1)
  qed
qed

text \<open>The controllers of an opened plan.\<close>

lemma opened_controller_sound:
  assumes "plan_ok pl" "open_plan pf pl p = (Inr (Inr ses), p1)" "controller ses q = (Inr c, q1)"
  shows "sound_controller pf c"
proof (cases pl)
  case (Replay_Plan a sp)
  then show ?thesis using assms(2) by (auto simp: open_plan_def map_sum_def split: sum.splits)
next
  case (Reference_Plan wall workers dir)
  then obtain b where "ses = \<lparr>session_task = CLAMP_TASK, controller = (\<lambda>p. (reference_controller pf wall workers b, p)),
      archive_dir = dir, session_usage = None\<rparr>"
    using assms(2) by (auto simp: open_plan_def build_reference_session_def make_session_def split: sum.splits prod.splits if_splits)
  then have "reference_controller pf wall workers b = Inr c" using assms(3) by simp
  then show ?thesis by (rule reference_controller_sound)
next
  case (Demo_Plan wall tokens workers dir)
  then have "controller ses = offline_controller pf scripted_llama False 7 wall tokens workers"
    using assms(2) by (auto simp: open_plan_def build_offline_session_def make_session_def split: sum.splits prod.splits if_splits)
  then show ?thesis using assms(3) offline_controller_sound by metis
next
  case (Llm_Plan s shared dir)
  then have b: "build_llm_session pf s No_Client shared dir p = (Inr ses, p1)"
    using assms(2) by (auto simp: open_plan_def map_sum_def split: sum.splits prod.splits)
  obtain inner bk where ctl: "controller ses = (\<lambda>q. (llm_controller pf s inner bk q, q))" by (rule llm_session_parts [OF b])
  have "valid_config (spec_config s)" using assms(1) by (simp add: Llm_Plan plan_ok_def)
  moreover have "llm_controller pf s inner bk q = Inr c" using assms(3) unfolding ctl by (rule Pair_inject)
  ultimately show ?thesis using llm_controller_sound by blast
qed

text \<open>A factory of an accepted plan can only fail where the backend is probed.\<close>

lemma opened_controller_fails:
  assumes "plan_ok pl" "open_plan pf pl p = (Inr (Inr ses), p1)" "controller ses q = (Inl e, q1)"
  shows "fst (choose_backend pf q) = Inl e"
proof (cases pl)
  case (Replay_Plan a sp)
  then show ?thesis using assms(2) by (auto simp: open_plan_def map_sum_def split: sum.splits)
next
  case (Reference_Plan wall workers dir)
  then obtain b where s: "ses = \<lparr>session_task = CLAMP_TASK, controller = (\<lambda>p. (reference_controller pf wall workers b, p)),
      archive_dir = dir, session_usage = None\<rparr>"
    using assms(2) by (auto simp: open_plan_def build_reference_session_def make_session_def split: sum.splits prod.splits if_splits)
  have "valid_config (demo_config (Some 7) wall workers)" using assms(1) by (simp add: Reference_Plan plan_ok_def)
  from reference_controller_accepted [OF this, of pf b] show ?thesis using assms(3) s by auto
next
  case (Demo_Plan wall tokens workers dir)
  have ctl: "controller ses = offline_controller pf scripted_llama False 7 wall tokens workers"
    using assms(2) Demo_Plan by (auto simp: open_plan_def build_offline_session_def make_session_def split: sum.splits prod.splits if_splits)
  have ok: "check_config (demo_config (Some 7) wall workers) = Inr (demo_config (Some 7) wall workers)" "positive_ceiling tokens"
    using assms(1) by (simp_all add: Demo_Plan plan_ok_def valid_config_def)
  have "\<exists>stop. offline_stop tokens (tally q) = Inr (stop :: ('a plant \<Rightarrow> (exn + string option) \<times> 'a plant) option)"
    using ok(2) by (simp add: offline_stop_def positive_ceiling_def make_budget_def split: option.splits)
  moreover have "wire_controller pf (demo_config (Some 7) wall workers) gen exec checks cr 1 stop \<noteq> Inl e" for gen exec checks cr stop
    using wired_accepted [of 1 pf "demo_config (Some 7) wall workers" gen exec checks cr stop] by auto
  ultimately show ?thesis using assms(3) ok(1) unfolding ctl offline_controller_def
    by (auto split: sum.splits prod.splits)
next
  case (Llm_Plan s shared dir)
  then have b: "build_llm_session pf s No_Client shared dir p = (Inr ses, p1)"
    using assms(2) by (auto simp: open_plan_def map_sum_def split: sum.splits prod.splits)
  obtain inner bk where ctl: "controller ses = (\<lambda>q. (llm_controller pf s inner bk q, q))" by (rule llm_session_parts [OF b])
  have "1 \<le> revision_attempts s" "positive_ceiling (spec_max_tokens s)" "positive_ceiling (max_llm_calls s)"
    using assms(1) by (simp_all add: Llm_Plan plan_ok_def)
  from llm_controller_accepted [OF this, of pf inner bk q] show ?thesis using assms(3) unfolding ctl by auto
qed

text \<open>What can go wrong when an accepted plan is opened for a connection.\<close>

lemma endpoint_client_raises:
  "endpoint_client pf url mdl key = Inl e \<Longrightarrow> exn_kind e = ValueError \<and> (py_strip url = [] \<or> py_strip mdl = [])"
  by (auto simp: endpoint_client_def make_http_client_def sum_bind_Inl float_consts split: if_splits)

lemma make_session_raises: "make_session s = Inl e \<Longrightarrow> exn_kind e = ValueError \<and> py_strip (session_task s) = []"
  by (auto simp: make_session_def split: if_splits)

lemma clamp_task_text: "py_strip CLAMP_TASK \<noteq> []"
  by (simp add: CLAMP_TASK_def py_strip_def py_lstrip_def py_rstrip_def py_space_def py_ord_def)

text \<open>C34: Opening an accepted plan for a connection can fail in two ways only: the probe of the execution backend
  raises, or a text of the live backend consists of white space, which the start-up checks let through (they test
  for emptiness) and the session's constructors reject with a ValueError on every connection.\<close>

theorem open_plan_errors:
  assumes "session_factory_from_args io a = (Inr pl, ws)" "fst (open_plan pf pl p) = Inl e"
  shows "(\<exists>q. fst (choose_backend pf q) = Inl e)
     \<or> (exn_kind e = ValueError \<and> (\<exists>s shared dir. pl = Llm_Plan s shared dir \<and>
          (py_strip (base_url s) = [] \<or> py_strip (spec_model s) = [] \<or> py_strip (spec_task s) = [])))"
proof -
  obtain u where "check_args a = Inr u" using assms(1) by (simp add: session_factory_from_args_def split: sum.splits)
  then have sp: "\<not> not_positive (arg_replay_speed a)" by (simp add: check_args_accepted)
  show ?thesis
  proof (cases pl)
    case (Replay_Plan arch speed)
    have "speed = arg_replay_speed a"
      using assms(1) Replay_Plan
      by (auto simp: session_factory_from_args_def replay_plan_def llm_plan_def Let_def split: sum.splits option.splits if_splits backend_choice.splits)
    then have False using assms(2) sp Replay_Plan
      by (auto simp: open_plan_def make_player_def not_positive_def split: if_splits option.splits)
    then show ?thesis ..
  next
    case (Reference_Plan wall workers dir)
    then have "fst (choose_backend pf p) = Inl e" using assms(2) clamp_task_text
      by (auto simp: open_plan_def build_reference_session_def make_session_def split: prod.splits sum.splits if_splits)
    then show ?thesis by (intro disjI1 exI)
  next
    case (Demo_Plan wall tokens workers dir)
    then show ?thesis using assms(2) clamp_task_text by (simp add: open_plan_def build_offline_session_def make_session_def)
  next
    case (Llm_Plan s shared dir)
    obtain q where b: "build_llm_session pf s No_Client shared dir p = (Inl e, q)"
      using assms(2) by (auto simp: Llm_Plan open_plan_def map_sum_def split: prod.splits sum.splits)
    show ?thesis
    proof (cases "inner_client pf s No_Client")
      case (Inl e')
      then show ?thesis using b endpoint_client_raises [of pf "base_url s" "spec_model s" "spec_key s" e']
        by (auto simp: build_llm_session_def inner_client_def Llm_Plan)
    next
      case (Inr inner)
      define p1 where "p1 = p\<lparr>tally := no_usage, store := (if cache_completions s \<and> \<not> shared then fresh_store else store p)\<rparr>"
      obtain r p2 where ch: "choose_backend pf p1 = (r, p2)" by fastforce
      show ?thesis
      proof (cases r)
        case (Inl e')
        then have "e = e'" using b Inr ch by (simp add: build_llm_session_def p1_def Let_def)
        then show ?thesis using ch Inl by (intro disjI1 exI [of _ p1]) simp
      next
        case (Inr bk)
        then have "make_session \<lparr>session_task = spec_task s, controller = (\<lambda>p. (llm_controller pf s inner bk p, p)),
            archive_dir = dir, session_usage = Some tally\<rparr> = Inl e"
          using b \<open>inner_client pf s No_Client = Inr inner\<close> ch by (simp add: build_llm_session_def p1_def Let_def)
        from make_session_raises [OF this] show ?thesis by (simp add: Llm_Plan)
      qed
    qed
  qed
qed

text \<open>C35: From the command line to the subscriber of a search: when the arguments are accepted and a connection opens a session that
  searches (a replay plan opens a player instead, whose stream is the subject of the replay properties), its
  runs are complete and bounded whatever the model, the executed code, the host and the consumer do. Either the
  factory raises, and then the backend probe did; or the run returns a result \<open>r\<close> and the stream announces
  every transition in order and closes with the metrics of \<open>r\<close> and with \<open>r\<close>. Those two are missing only when
  an archive directory is configured and writing the archive raised something other than an OSError: with
  the shipped policies the metrics can always be computed. Every mean value of the
  final tree lies in the unit interval.\<close>

theorem served_run_complete:
  assumes "session_factory_from_args io a = (Inr pl, ws)" "open_plan pf pl p = (Inr (Inr ses), p1)" "inj (node_uid pf)"
  shows "case controller ses q of
       (Inl e, q1) \<Rightarrow> stream sv ses q = Inl e \<and> fst (choose_backend pf q) = Inl e
     | (Inr c, q1) \<Rightarrow> \<exists>r es rest. fst (run (on_desk (time_now sv) (consumer_closed sv) (fst c)) (snd c) (session_task ses)
            \<lparr>host = q1, queue = []\<rparr>) = Ok r
          \<and> stream sv ses q = Inr (es @ rest) \<and> map mark_of es = concat (map marks (phase_history r))
          \<and> ((\<exists>m u ts ts'. metrics_from_result r u = Some (Inr m) \<and> rest = [Metrics_Envelope (metrics_to_dict m) ts, Result_Envelope r ts'])
             \<or> rest = [] \<and> archive_dir ses \<noteq> None \<and> (\<exists>e. \<not> os_error (exn_kind e) \<and>
                  ((\<exists>doc. dumps sv doc = Inl e) \<or> (\<exists>path txt h. write_file sv path txt h = Inl e))))
          \<and> (\<forall>n < nat (node_count r). unit_value (mean_value (tree_heap (result_tree r) ! n)))"
proof -
  have ok: "plan_ok pl" using plan_accepted [OF assms(1)] by simp
  obtain x q1 where ctl: "controller ses q = (x, q1)" by fastforce
  show ?thesis
  proof (cases x)
    case (Inl e)
    have "fst (choose_backend pf q) = Inl e" by (rule opened_controller_fails [OF ok assms(2)]) (use ctl Inl in simp)
    then show ?thesis using ctl Inl by (simp add: stream_def)
  next
    case (Inr c)
    obtain env cfg where c: "c = (env, cfg)" by (rule prod.exhaust)
    have ctl': "controller ses q = (Inr (env, cfg), q1)" using ctl Inr c by simp
    have "sound_controller pf (env, cfg)" by (rule opened_controller_sound [OF ok assms(2) ctl'])
    then have snd: "valid_config cfg" "inj (uid env)" "fair env" "shipped pf env" using assms(3) by (simp_all add: sound_controller_def)
    obtain r es rest where r: "fst (run (on_desk (time_now sv) (consumer_closed sv) env) cfg (session_task ses) \<lparr>host = q1, queue = []\<rparr>) = Ok r"
      "stream sv ses q = Inr (es @ rest)" "map mark_of es = concat (map marks (phase_history r))"
      and sound: "sound_result r"
      and ends: "if fst (work sv ses (env, cfg) \<lparr>host = q1, queue = []\<rparr>) = Ok ()
         then \<exists>m ts ts' base h. session_metrics ses r base h = Some (Inr m) \<and> rest = [Metrics_Envelope (metrics_to_dict m) ts, Result_Envelope r ts']
         else rest = [] \<and> ((\<exists>base h e. session_metrics ses r base h = Some (Inl e)) \<or> archive_fault sv ses)"
      by (rule stream_shape [OF ctl' snd(1,2), of sv])
    have "wf_tree (result_tree r)" using sound by (simp add: sound_result_def)
    from countable_metrics [OF this desk_countable [OF snd(4) r(1)]]
    have metrics: "session_metrics ses r base h \<noteq> Some (Inl e)" for base h e
      unfolding session_metrics_def by (metis Inl_Inr_False option.inject)
    have "inj (uid (on_desk (time_now sv) (consumer_closed sv) env))" using snd(2) by (simp add: on_desk_def)
    from mean_values_unit [OF snd(1) this desk_fair [OF snd(3)] r(1)]
    have vals: "\<forall>n < nat (node_count r). unit_value (mean_value (tree_heap (result_tree r) ! n))" by (simp add: zless_nat_eq_int_zless)
    have "(\<exists>m u ts ts'. metrics_from_result r u = Some (Inr m) \<and> rest = [Metrics_Envelope (metrics_to_dict m) ts, Result_Envelope r ts'])
        \<or> rest = [] \<and> archive_dir ses \<noteq> None \<and> (\<exists>e. \<not> os_error (exn_kind e) \<and>
             ((\<exists>doc. dumps sv doc = Inl e) \<or> (\<exists>path txt h. write_file sv path txt h = Inl e)))"
      using ends metrics unfolding archive_fault_def session_metrics_def by (auto split: if_splits)
    then show ?thesis using r(1-3) vals unfolding ctl Inr c prod.case sum.case fst_conv snd_conv by blast
  qed
qed

subsection \<open>Sample invocations\<close>

definition sample_io :: startup_io where
  "sample_io = \<lparr>load_archive = (\<lambda>path. Inl (Exn ArchiveFormatError [])), read_text = (\<lambda>path. Inr []), environ = (\<lambda>v. None)\<rparr>"

definition blank_task_args :: cli_args where
  "blank_task_args = default_args\<lparr>arg_backend := Llm_Backend, arg_base_url := Some ''http://h/v1'', arg_model := Some ''m'', arg_task := Some '' ''\<rparr>"

lemma sample_opens: "choose_backend sample_platform sample_plant = (Inr (SubprocessBackend default_limits), sample_plant)"
    "sample_plant\<lparr>tally := no_usage\<rparr> = sample_plant"
  using sample_chosen [of fresh_store no_usage] by (simp_all add: sample_plant_def)

lemmas strip_eval = py_strip_def py_lstrip_def py_rstrip_def py_space_def py_ord_def

lemma default_args_accepted: "check_args default_args = Inr ()" "check_args blank_task_args = Inr ()"
  by (simp_all add: check_args_accepted default_args_def blank_task_args_def not_positive_def positive_ceiling_def
      in_temperature_range_def float_consts)

lemma blank_task_plan: "\<exists>s. session_factory_from_args sample_io blank_task_args = (Inr (Llm_Plan s False None), [])
    \<and> spec_task s = '' '' \<and> base_url s = ''http://h/v1'' \<and> spec_model s = ''m'' \<and> cache_completions s = False"
  unfolding session_factory_from_args_def default_args_accepted(2) sum.case
  by (simp add: llm_plan_def missing_flags_def blank_task_args_def default_args_def
      check_config_def default_config_def MAX_SUPPORTED_DEPTH_def make_spec_def in_temperature_range_def float_consts)

theorem accepted_arguments_typed_witness:
  "session_factory_from_args sample_io default_args = (Inr (Reference_Plan None 1 None), []) \<and> plan_ok (Reference_Plan None 1 None)"
proof -
  have "session_factory_from_args sample_io default_args = (Inr (Reference_Plan None 1 None), [])"
    by (simp add: session_factory_from_args_def default_args_accepted) (simp add: default_args_def)
  with accepted_arguments_typed [OF this] show ?thesis by simp
qed

theorem open_plan_errors_witness:
  "\<exists>pl e. session_factory_from_args sample_io blank_task_args = (Inr pl, []) \<and> fst (open_plan sample_platform pl sample_plant) = Inl e
     \<and> ((\<exists>q. fst (choose_backend sample_platform q) = Inl e) \<or> exn_kind e = ValueError)"
proof -
  obtain s where s: "session_factory_from_args sample_io blank_task_args = (Inr (Llm_Plan s False None), [])"
    "spec_task s = '' ''" "base_url s = ''http://h/v1''" "spec_model s = ''m''" "cache_completions s = False"
    using blank_task_plan by blast
  have "\<exists>c. inner_client sample_platform s No_Client = Inr c"
    by (simp add: inner_client_def endpoint_client_def make_http_client_def s strip_eval float_consts)
  then have "\<exists>e. fst (open_plan sample_platform (Llm_Plan s False None) sample_plant) = Inl e"
    by (auto simp: open_plan_def build_llm_session_def make_session_def sample_opens s strip_eval)
  then obtain e where e: "fst (open_plan sample_platform (Llm_Plan s False None) sample_plant) = Inl e" by (rule exE)
  from open_plan_errors [OF s(1) e] show ?thesis using s(1) e by blast
qed

definition sample_services :: "unit plant services" where
  "sample_services = \<lparr>time_now = Pair 0, consumer_closed = Pair False, utc_stamp = Pair [], utc_iso = Pair [], fresh_hex = Pair [],
     dumps = (\<lambda>_. Inr []), write_file = (\<lambda>p t w. Inr w), log_event = (\<lambda>b d w. w)\<rparr>"

definition sample_reference :: "unit plant session" where
  "sample_reference = \<lparr>session_task = CLAMP_TASK,
     controller = (\<lambda>p. (reference_controller sample_platform None 1 (SubprocessBackend default_limits), p)),
     archive_dir = None, session_usage = None\<rparr>"

theorem served_run_complete_witness:
  "open_plan sample_platform (Reference_Plan None 1 None) sample_plant = (Inr (Inr sample_reference), sample_plant)
   \<and> (\<exists>(r :: search_result) es m ts ts'. stream sample_services sample_reference sample_plant
        = Inr (es @ [Metrics_Envelope (metrics_to_dict m) ts, Result_Envelope r ts'])
      \<and> map mark_of es = concat (map marks (phase_history r)))"
proof (intro conjI)
  have a: "session_factory_from_args sample_io default_args = (Inr (Reference_Plan None 1 None), [])"
    by (simp add: session_factory_from_args_def default_args_accepted) (simp add: default_args_def)
  show o: "open_plan sample_platform (Reference_Plan None 1 None) sample_plant = (Inr (Inr sample_reference), sample_plant)"
    using clamp_task_text
    by (simp add: open_plan_def build_reference_session_def make_session_def sample_opens sample_reference_def)
  have inj: "inj (node_uid sample_platform)" using plain_session_ok(3) by (simp add: sample_platform_def)
  obtain c where c: "reference_controller sample_platform None 1 (SubprocessBackend default_limits) = Inr c"
    using reference_controller_accepted [OF demo_config_valid, of 1 None sample_platform "SubprocessBackend default_limits"]
    by (auto simp: not_positive_def)
  have ctl: "controller sample_reference sample_plant = (Inr c, sample_plant)" using c by (simp add: sample_reference_def)
  have dir: "archive_dir sample_reference = None" by (simp add: sample_reference_def)
  from served_run_complete [OF a o inj, of sample_services sample_plant]
  show "\<exists>(r :: search_result) es m ts ts'. stream sample_services sample_reference sample_plant
        = Inr (es @ [Metrics_Envelope (metrics_to_dict m) ts, Result_Envelope r ts'])
      \<and> map mark_of es = concat (map marks (phase_history r))"
    unfolding ctl prod.case sum.case dir by blast
qed

end
