(* ===== verification/Stream_Server.thy ===== *)
theory Stream_Server
  imports Replay
begin

section \<open>The streaming server (cognitivetree/ui/server.py)\<close>

text \<open>
  Every connection is handled by a thread of its own; what the threads share is the semaphore \<open>run_slots\<close>. The state of
  the server is that semaphore and the list of the connections in the order of their arrival, each with the point its
  handler has reached and what it has written. One event of one handler is a step, so the interleavings of the threads
  are the sequences of events. What the outside decides is part of the event: whether the session factory raises and
  what the session yields, and whether a write reaches the client.
\<close>

subsection \<open>BoundedSemaphore\<close>

text \<open>\<open>threading.BoundedSemaphore\<close>: its value and the bound above which \<open>release\<close> raises.\<close>

record semaphore =
  permits :: int
  bound :: int

definition try_acquire :: "semaphore \<Rightarrow> bool \<times> semaphore" where
  "try_acquire s = (if permits s = 0 then (False, s) else (True, s\<lparr>permits := permits s - 1\<rparr>))"

definition release :: "semaphore \<Rightarrow> exn + semaphore" where
  "release s = (if bound s \<le> permits s then Inl (Exn ValueError ''Semaphore released too many times'')
     else Inr (s\<lparr>permits := permits s + 1\<rparr>))"

subsection \<open>Connections\<close>

datatype wire_item = Head int "(string \<times> string) list" | Body "nat list"

datatype ending = Answered | Refused | Finished | Disconnected | Failed exn

text \<open>
  Where a handler stands: before routing; holding a slot, with the session not yet built; holding a slot with
  envelopes to write; over.
\<close>

datatype handler = Routing string | Building | Sending "pyval list" | Over ending

record connection =
  handler :: handler
  wire :: "wire_item list"

record page =
  page_body :: "nat list"
  page_csp :: string
  error_body :: "nat list"

record server =
  run_slots :: "semaphore option"
  connections :: "connection list"

definition make_server :: "int option \<Rightarrow> exn + server" where
  "make_server cap = (case cap of
       None \<Rightarrow> Inr \<lparr>run_slots = None, connections = []\<rparr>
     | Some n \<Rightarrow> (if n < 1 then Inl (Exn ValueError ''max_concurrent_runs must be a positive integer'')
         else Inr \<lparr>run_slots = Some \<lparr>permits = n, bound = n\<rparr>, connections = []\<rparr>))"

text \<open>
  \<open>end_headers\<close> closes every header block with the \<open>nosniff\<close> header. The \<open>Server\<close> and \<open>Date\<close> headers that the standard
  library's \<open>send_response\<close> puts in front are left out.
\<close>

definition head_of :: "int \<Rightarrow> (string \<times> string) list \<Rightarrow> wire_item" where
  "head_of code hs = Head code (hs @ [(''X-Content-Type-Options'', ''nosniff'')])"

definition page_response :: "page \<Rightarrow> wire_item list" where
  "page_response pg = [head_of 200 [(''Content-Type'', ''text/html; charset=utf-8''),
     (''Content-Length'', str_int (int (length (page_body pg)))), (''Content-Security-Policy'', page_csp pg),
     (''Referrer-Policy'', ''no-referrer'')], Body (page_body pg)]"

definition not_found_response :: "page \<Rightarrow> wire_item list" where
  "not_found_response pg = [head_of 404 [(''Connection'', ''close''), (''Content-Type'', ''text/html;charset=utf-8''),
     (''Content-Length'', str_int (int (length (error_body pg))))], Body (error_body pg)]"

definition busy_body :: "nat list" where
  "busy_body = map py_ord (''concurrent run limit reached; retry shortly'' @ newline)"

definition busy_response :: "wire_item list" where
  "busy_response = [head_of 503 [(''Content-Type'', ''text/plain; charset=utf-8''),
     (''Content-Length'', str_int (int (length busy_body))), (''Retry-After'', str_int 5)], Body busy_body]"

definition stream_head :: wire_item where
  "stream_head = head_of 200 [(''Content-Type'', ''text/event-stream; charset=utf-8''), (''Cache-Control'', ''no-cache''),
     (''Connection'', ''close'')]"

subsection \<open>Events\<close>

text \<open>
  \<open>Route\<close>: \<open>do_GET\<close> up to the first decision. \<open>Open\<close>: the session factory raised or delivered a session, here the
  envelopes its stream will yield. \<open>Send\<close>: the next envelope is framed and written, or its write fails. \<open>Finish\<close>: the
  stream is exhausted.
\<close>

datatype event = Accept string | Route nat | Open nat "exn + pyval list" | Send nat "exn option" | Finish nat

definition slots_acquire :: "server \<Rightarrow> bool \<times> server" where
  "slots_acquire s = (case run_slots s of None \<Rightarrow> (True, s)
     | Some sem \<Rightarrow> (case try_acquire sem of (ok, sem1) \<Rightarrow> (ok, s\<lparr>run_slots := Some sem1\<rparr>)))"

definition set_conn :: "nat \<Rightarrow> connection \<Rightarrow> server \<Rightarrow> server" where
  "set_conn i c s = s\<lparr>connections := (connections s)[i := c]\<rparr>"

text \<open>The \<open>finally\<close> of \<open>_serve_stream\<close>; a \<open>release\<close> that raises replaces the ending.\<close>

definition leave :: "nat \<Rightarrow> ending \<Rightarrow> server \<Rightarrow> server" where
  "leave i e s = (let c = connections s ! i in case run_slots s of
       None \<Rightarrow> set_conn i (c\<lparr>handler := Over e\<rparr>) s
     | Some sem \<Rightarrow> (case release sem of
           Inl x \<Rightarrow> set_conn i (c\<lparr>handler := Over (Failed x)\<rparr>) s
         | Inr sem1 \<Rightarrow> set_conn i (c\<lparr>handler := Over e\<rparr>) (s\<lparr>run_slots := Some sem1\<rparr>)))"

definition disconnects :: "exn \<Rightarrow> bool" where
  "disconnects e \<longleftrightarrow> exn_name (exn_kind e) \<in> {''BrokenPipeError'', ''ConnectionResetError'', ''ConnectionAbortedError''}"

definition stream_failure :: "exn \<Rightarrow> ending" where
  "stream_failure e = (if disconnects e then Disconnected else Failed e)"

definition route :: "page \<Rightarrow> nat \<Rightarrow> string \<Rightarrow> server \<Rightarrow> server" where
  "route pg i path s =
     (if path = ''/'' \<or> path = ''/index.html'' then set_conn i \<lparr>handler = Over Answered, wire = page_response pg\<rparr> s
      else if path = ''/stream'' then (case slots_acquire s of
          (False, s1) \<Rightarrow> set_conn i \<lparr>handler = Over Refused, wire = busy_response\<rparr> s1
        | (True, s1) \<Rightarrow> set_conn i \<lparr>handler = Building, wire = []\<rparr> s1)
      else set_conn i \<lparr>handler = Over Answered, wire = not_found_response pg\<rparr> s)"

definition send :: "(pyval \<Rightarrow> exn + nat list) \<Rightarrow> nat \<Rightarrow> pyval \<Rightarrow> pyval list \<Rightarrow> exn option \<Rightarrow> server \<Rightarrow> server" where
  "send frame i e es failure s = (case frame e of
       Inl x \<Rightarrow> leave i (stream_failure x) s
     | Inr bytes \<Rightarrow> (case failure of
           Some x \<Rightarrow> leave i (stream_failure x) s
         | None \<Rightarrow> set_conn i \<lparr>handler = Sending es, wire = wire (connections s ! i) @ [Body bytes]\<rparr> s))"

text \<open>One event; \<open>None\<close> when the handler does not stand where the event happens.\<close>

fun handle :: "page \<Rightarrow> (pyval \<Rightarrow> exn + nat list) \<Rightarrow> event \<Rightarrow> server \<Rightarrow> server option" where
  "handle pg frame (Accept path) s = Some (s\<lparr>connections := connections s @ [\<lparr>handler = Routing path, wire = []\<rparr>]\<rparr>)"
| "handle pg frame (Route i) s = (if i < length (connections s) then
     (case handler (connections s ! i) of Routing path \<Rightarrow> Some (route pg i path s) | _ \<Rightarrow> None) else None)"
| "handle pg frame (Open i r) s = (if i < length (connections s) \<and> handler (connections s ! i) = Building then
     (case r of Inl e \<Rightarrow> Some (leave i (Failed e) s)
      | Inr es \<Rightarrow> Some (set_conn i \<lparr>handler = Sending es, wire = [stream_head]\<rparr> s)) else None)"
| "handle pg frame (Send i failure) s = (if i < length (connections s) then
     (case handler (connections s ! i) of Sending (e # es) \<Rightarrow> Some (send frame i e es failure s) | _ \<Rightarrow> None) else None)"
| "handle pg frame (Finish i) s = (if i < length (connections s) \<and> handler (connections s ! i) = Sending []
     then Some (leave i Finished s) else None)"

inductive reachable :: "page \<Rightarrow> (pyval \<Rightarrow> exn + nat list) \<Rightarrow> int option \<Rightarrow> server \<Rightarrow> bool"
  for pg frame cap where
  start: "make_server cap = Inr s \<Longrightarrow> reachable pg frame cap s"
| step: "reachable pg frame cap s \<Longrightarrow> handle pg frame ev s = Some s' \<Longrightarrow> reachable pg frame cap s'"

subsection \<open>The slots\<close>

fun holding :: "connection \<Rightarrow> bool" where
  "holding c = (case handler c of Building \<Rightarrow> True | Sending es \<Rightarrow> True | _ \<Rightarrow> False)"

definition active :: "server \<Rightarrow> nat" where
  "active s = length (filter holding (connections s))"

definition slots_ok :: "int option \<Rightarrow> server \<Rightarrow> bool" where
  "slots_ok cap s \<longleftrightarrow> (case cap of None \<Rightarrow> run_slots s = None
     | Some n \<Rightarrow> (\<exists>sem. run_slots s = Some sem \<and> bound sem = n \<and> 0 \<le> permits sem \<and> permits sem + int (active s) = n))"

lemma filter_update:
  "i < length xs \<Longrightarrow> length (filter P (xs[i := x])) + (if P (xs ! i) then 1 else 0) = length (filter P xs) + (if P x then 1 else 0)"
proof (induction xs arbitrary: i)
  case (Cons y ys)
  then show ?case by (cases i) auto
qed simp

lemma holding_counts: "i < length (connections s) \<Longrightarrow> holding (connections s ! i) \<Longrightarrow> 0 < active s"
  unfolding active_def by (auto simp: filter_empty_conv)

lemma active_set_conn:
  "i < length (connections s) \<Longrightarrow> active (set_conn i c s) + (if holding (connections s ! i) then 1 else 0)
     = active s + (if holding c then 1 else 0)"
  unfolding active_def set_conn_def using filter_update [of i "connections s" holding c] by simp

lemma set_conn_slots [simp]: "run_slots (set_conn i c s) = run_slots s"
  and set_conn_length [simp]: "length (connections (set_conn i c s)) = length (connections s)"
  and set_conn_nth [simp]: "i < length (connections s) \<Longrightarrow> connections (set_conn i c s) ! i = c"
  by (simp_all add: set_conn_def)

text \<open>A handler that holds a slot leaves: the release succeeds and the ending is the one it had.\<close>

lemma leave_holding:
  assumes "slots_ok cap s" "i < length (connections s)" "holding (connections s ! i)"
  shows "slots_ok cap (leave i e s) \<and> connections (leave i e s) = (connections s)[i := (connections s ! i)\<lparr>handler := Over e\<rparr>]"
proof (cases cap)
  case None
  then show ?thesis using assms(1) by (simp add: slots_ok_def leave_def Let_def set_conn_def)
next
  case (Some n)
  then obtain sem where sem: "run_slots s = Some sem" "bound sem = n" "0 \<le> permits sem" "permits sem + int (active s) = n"
    using assms(1) by (auto simp: slots_ok_def)
  let ?c = "(connections s ! i)\<lparr>handler := Over e\<rparr>" and ?sem = "sem\<lparr>permits := permits sem + 1\<rparr>"
  have "permits sem < bound sem" using sem holding_counts [OF assms(2,3)] by simp
  then have l: "leave i e s = set_conn i ?c (s\<lparr>run_slots := Some ?sem\<rparr>)"
    by (simp add: leave_def Let_def sem(1) release_def)
  have "active (set_conn i ?c (s\<lparr>run_slots := Some ?sem\<rparr>)) + 1 = active s"
    using active_set_conn [of i "s\<lparr>run_slots := Some ?sem\<rparr>" ?c] assms(2,3) by (simp add: active_def)
  then have "int (active (set_conn i ?c (s\<lparr>run_slots := Some ?sem\<rparr>))) + 1 = int (active s)" by linarith
  then show ?thesis using sem unfolding l by (simp add: slots_ok_def Some set_conn_def)
qed

lemma slots_ok_same:
  "slots_ok cap s \<Longrightarrow> run_slots s' = run_slots s \<Longrightarrow> active s' = active s \<Longrightarrow> slots_ok cap s'"
  by (simp add: slots_ok_def split: option.splits)

text \<open>Routing a stream request takes a slot exactly when one is free.\<close>

lemma route_stream:
  assumes "slots_ok cap s" "i < length (connections s)" "\<not> holding (connections s ! i)"
  shows "slots_ok cap (route pg i ''/stream'' s)
     \<and> handler (connections (route pg i ''/stream'' s) ! i) = (if cap = Some (int (active s)) then Over Refused else Building)"
proof (cases cap)
  case None
  then show ?thesis using assms by (simp add: slots_ok_def route_def slots_acquire_def)
next
  case (Some n)
  then obtain sem where sem: "run_slots s = Some sem" "bound sem = n" "0 \<le> permits sem" "permits sem + int (active s) = n"
    using assms(1) by (auto simp: slots_ok_def)
  show ?thesis
  proof (cases "permits sem = 0")
    case True
    let ?s1 = "s\<lparr>run_slots := Some sem\<rparr>" and ?c = "\<lparr>handler = Over Refused, wire = busy_response\<rparr>"
    have "route pg i ''/stream'' s = set_conn i ?c ?s1"
      by (simp add: route_def slots_acquire_def sem(1) try_acquire_def True)
    moreover have "active (set_conn i ?c ?s1) = active s"
      using active_set_conn [of i ?s1 ?c] assms(2,3) by (simp add: active_def)
    ultimately show ?thesis using sem True assms(2) by (simp add: slots_ok_def Some)
  next
    case False
    let ?s1 = "s\<lparr>run_slots := Some (sem\<lparr>permits := permits sem - 1\<rparr>)\<rparr>" and ?c = "\<lparr>handler = Building, wire = []\<rparr>"
    have "route pg i ''/stream'' s = set_conn i ?c ?s1"
      by (simp add: route_def slots_acquire_def sem(1) try_acquire_def False)
    moreover have "active (set_conn i ?c ?s1) = active s + 1"
      using active_set_conn [of i ?s1 ?c] assms(2,3) by (simp add: active_def)
    ultimately show ?thesis using sem False assms(2) by (simp add: slots_ok_def Some)
  qed
qed

text \<open>What a connection has on the wire: nothing yet, or one head closed by the \<open>nosniff\<close> header and then the body.\<close>

definition wire_ok :: "connection \<Rightarrow> bool" where
  "wire_ok c \<longleftrightarrow> (wire c = [] \<and> (case handler c of Sending es \<Rightarrow> False | _ \<Rightarrow> True)) \<or> (\<exists>code hs bodies. wire c = head_of code hs # map Body bodies)"

definition server_ok :: "int option \<Rightarrow> server \<Rightarrow> bool" where
  "server_ok cap s \<longleftrightarrow> slots_ok cap s \<and> list_all wire_ok (connections s)"

lemma wire_ok_response [simp]: "wire_ok \<lparr>handler = x, wire = [head_of code hs, Body b]\<rparr>" "wire_ok \<lparr>handler = Building, wire = []\<rparr>"
    "wire_ok \<lparr>handler = Routing path, wire = []\<rparr>" "wire_ok c \<Longrightarrow> wire_ok (c\<lparr>handler := Over e\<rparr>)"
proof -
  have "[head_of code hs, Body b] = head_of code hs # map Body [b]" by simp
  then show "wire_ok \<lparr>handler = x, wire = [head_of code hs, Body b]\<rparr>" unfolding wire_ok_def connection.simps by (intro disjI2 exI)
qed (auto simp: wire_ok_def)

lemma wire_ok_more:
  assumes "wire_ok c" "handler c = Sending es" shows "wire_ok \<lparr>handler = x, wire = wire c @ [Body b]\<rparr>"
proof -
  obtain code hs bodies where "wire c = head_of code hs # map Body bodies" using assms by (auto simp: wire_ok_def)
  then have "wire c @ [Body b] = head_of code hs # map Body (bodies @ [b])" by simp
  then show ?thesis unfolding wire_ok_def connection.simps by (intro disjI2 exI)
qed

lemma all_update: "list_all P xs \<Longrightarrow> P x \<Longrightarrow> list_all P (xs[i := x])"
  by (metis list_all_iff set_update_subset_insert subsetD insertE)

lemma leave_ok: "server_ok cap s \<Longrightarrow> i < length (connections s) \<Longrightarrow> holding (connections s ! i) \<Longrightarrow> server_ok cap (leave i e s)"
  unfolding server_ok_def using leave_holding [of cap s i e] all_update [of wire_ok "connections s"]
  by (simp add: list_all_length)

lemma set_conn_ok:
  assumes "server_ok cap s" "i < length (connections s)" "holding c = holding (connections s ! i)" "wire_ok c"
  shows "server_ok cap (set_conn i c s)"
proof -
  have "active (set_conn i c s) = active s" using active_set_conn [OF assms(2), of c] assms(3) by simp
  moreover have "list_all wire_ok (connections (set_conn i c s))"
    using assms(1,4) all_update [of wire_ok "connections s"] by (simp add: server_ok_def set_conn_def)
  ultimately show ?thesis using assms(1) slots_ok_same [of cap s "set_conn i c s"] by (simp add: server_ok_def)
qed

lemma route_wires: "list_all wire_ok (connections s) \<Longrightarrow> list_all wire_ok (connections (route pg i path s))"
  by (auto simp: route_def set_conn_def slots_acquire_def page_response_def not_found_response_def busy_response_def
      intro!: all_update split: option.splits prod.splits bool.splits)

lemma handle_ok:
  assumes "server_ok cap s" "handle pg frame ev s = Some s'"
  shows "server_ok cap s'"
proof (cases ev)
  case (Accept path)
  then have s': "s' = s\<lparr>connections := connections s @ [\<lparr>handler = Routing path, wire = []\<rparr>]\<rparr>" using assms(2) by simp
  then have "active s' = active s" by (simp add: active_def)
  then show ?thesis using assms(1) slots_ok_same [of cap s s'] by (simp add: server_ok_def s')
next
  case (Route i)
  then obtain path where i: "i < length (connections s)" "handler (connections s ! i) = Routing path" "s' = route pg i path s"
    using assms(2) by (auto split: if_splits handler.splits)
  have nh: "\<not> holding (connections s ! i)" using i(2) by simp
  show ?thesis
  proof (cases "path = ''/stream''")
    case True
    then show ?thesis using route_stream [OF _ i(1) nh, of cap pg] route_wires [of s pg i path] assms(1) i(3) by (simp add: server_ok_def)
  next
    case False
    then have "s' = set_conn i \<lparr>handler = Over Answered, wire = page_response pg\<rparr> s
        \<or> s' = set_conn i \<lparr>handler = Over Answered, wire = not_found_response pg\<rparr> s"
      using i(3) by (simp add: route_def)
    then show ?thesis using set_conn_ok [OF assms(1) i(1)] nh by (auto simp: page_response_def not_found_response_def)
  qed
next
  case (Open i r)
  then have i: "i < length (connections s)" "handler (connections s ! i) = Building" using assms(2) by (auto split: if_splits)
  have "[stream_head] = head_of 200 [(''Content-Type'', ''text/event-stream; charset=utf-8''), (''Cache-Control'', ''no-cache''),
     (''Connection'', ''close'')] # map Body []" by (simp add: stream_head_def)
  then have "wire_ok \<lparr>handler = Sending es, wire = [stream_head]\<rparr>" for es unfolding wire_ok_def connection.simps by (intro disjI2 exI)
  then show ?thesis using assms i Open leave_ok [of cap s i] set_conn_ok [OF assms(1) i(1)] by (auto split: sum.splits)
next
  case (Send i failure)
  then obtain e es where i: "i < length (connections s)" "handler (connections s ! i) = Sending (e # es)" "s' = send frame i e es failure s"
    using assms(2) by (auto split: if_splits handler.splits list.splits)
  have h: "holding (connections s ! i)" using i(2) by simp
  show ?thesis
  proof (cases "\<exists>bytes. frame e = Inr bytes \<and> failure = None")
    case True
    then obtain bytes where "s' = set_conn i \<lparr>handler = Sending es, wire = wire (connections s ! i) @ [Body bytes]\<rparr> s"
      using i(3) by (auto simp: send_def)
    moreover have "wire_ok \<lparr>handler = Sending es, wire = wire (connections s ! i) @ [Body bytes]\<rparr>"
      using assms(1) i(1,2) by (intro wire_ok_more) (auto simp: server_ok_def list_all_length)
    ultimately show ?thesis using set_conn_ok [OF assms(1) i(1)] h by simp
  next
    case False
    then obtain x where "s' = leave i x s" using i(3) by (cases "frame e"; cases failure) (auto simp: send_def)
    then show ?thesis using leave_ok [OF assms(1) i(1) h] by simp
  qed
next
  case (Finish i)
  then show ?thesis using assms leave_ok [of cap s i] by (auto split: if_splits)
qed

lemma reachable_ok: "reachable pg frame cap s \<Longrightarrow> server_ok cap s"
proof (induction rule: reachable.induct)
  case (start s)
  then show ?case by (auto simp: make_server_def server_ok_def slots_ok_def active_def split: option.splits if_splits)
qed (rule handle_ok)

text \<open>C36: The concurrency cap holds in every interleaving of the handlers: a server built with cap n never has more than n
  connections holding a slot, and the semaphore's value is exactly what they leave, so no slot is lost or released
  twice. A stream request is refused exactly when all slots are taken, and every response on the wire is one head
  that ends with the nosniff header, followed by its body.\<close>

theorem server_slots_safe:
  assumes "reachable pg frame (Some n) s"
  shows "int (active s) \<le> n \<and> run_slots s = Some \<lparr>permits = n - int (active s), bound = n\<rparr> \<and> list_all wire_ok (connections s)
     \<and> (\<forall>i < length (connections s). \<forall>s'. handler (connections s ! i) = Routing ''/stream'' \<longrightarrow> handle pg frame (Route i) s = Some s' \<longrightarrow>
          handler (connections s' ! i) = (if int (active s) = n then Over Refused else Building))"
proof -
  have ok: "slots_ok (Some n) s" "list_all wire_ok (connections s)" using reachable_ok [OF assms] by (simp_all add: server_ok_def)
  then obtain sem where sem: "run_slots s = Some sem" "bound sem = n" "0 \<le> permits sem" "permits sem + int (active s) = n"
    by (auto simp: slots_ok_def)
  have "sem = \<lparr>permits = n - int (active s), bound = n\<rparr>" using sem(2,4) by (cases sem) auto
  then have slots: "run_slots s = Some \<lparr>permits = n - int (active s), bound = n\<rparr>" using sem(1) by simp
  have le: "int (active s) \<le> n" using sem(3,4) by linarith
  have "handler (connections s' ! i) = (if int (active s) = n then Over Refused else Building)"
    if "i < length (connections s)" "handler (connections s ! i) = Routing ''/stream''" "handle pg frame (Route i) s = Some s'" for i s'
  proof -
    have "s' = route pg i ''/stream'' s" "\<not> holding (connections s ! i)" using that by simp_all
    with route_stream [OF ok(1) that(1), of pg] show ?thesis by auto
  qed
  with slots le ok(2) show ?thesis by (intro conjI allI impI)
qed

subsection \<open>Draining\<close>

fun run_events :: "page \<Rightarrow> (pyval \<Rightarrow> exn + nat list) \<Rightarrow> event list \<Rightarrow> server \<Rightarrow> server option" where
  "run_events pg frame [] s = Some s"
| "run_events pg frame (ev # evs) s = Option.bind (handle pg frame ev s) (run_events pg frame evs)"

fun to_go :: "connection \<Rightarrow> nat" where
  "to_go c = (case handler c of Routing path \<Rightarrow> 2 | Building \<Rightarrow> 1 | Sending es \<Rightarrow> 1 | Over e \<Rightarrow> 0)"

lemma sum_update: "i < length xs \<Longrightarrow> sum_list (map f (xs[i := x])) + f (xs ! i) = sum_list (map f xs) + (f x :: nat)"
proof (induction xs arbitrary: i)
  case (Cons y ys)
  then show ?case by (cases i) auto
qed simp

lemma route_shape: "\<exists>c. connections (route pg i path s) = (connections s)[i := c] \<and> to_go c \<le> 1"
  by (auto simp: route_def set_conn_def slots_acquire_def try_acquire_def split: option.splits)

text \<open>Some exception of a socket.\<close>

abbreviation refused_write :: exn where
  "refused_write \<equiv> Exn OSError []"

lemma drain_step:
  assumes "server_ok cap s" "i < length (connections s)" "0 < to_go (connections s ! i)"
  shows "\<exists>ev s' c. handle pg frame ev s = Some s' \<and> connections s' = (connections s)[i := c] \<and> to_go c < to_go (connections s ! i)"
proof -
  have leave: "\<exists>c. connections (leave i e s) = (connections s)[i := c] \<and> to_go c = 0" if "holding (connections s ! i)" for e
    using leave_holding [of cap s i e] assms(1,2) that by (auto simp: server_ok_def)
  show ?thesis
  proof (cases "handler (connections s ! i)")
    case (Routing path)
    obtain c where "connections (route pg i path s) = (connections s)[i := c]" "to_go c \<le> 1" using route_shape by blast
    then show ?thesis using Routing assms(2) by (intro exI [of _ "Route i"] exI [of _ "route pg i path s"] exI [of _ c]) simp
  next
    case Building
    then obtain c where "connections (leave i (Failed refused_write) s) = (connections s)[i := c]" "to_go c = 0"
      using leave [of "Failed refused_write"] by auto
    then show ?thesis using Building assms(2)
      by (intro exI [of _ "Open i (Inl refused_write)"] exI [of _ "leave i (Failed refused_write) s"] exI [of _ c]) simp
  next
    case (Sending es)
    show ?thesis
    proof (cases es)
      case Nil
      obtain c where "connections (leave i Finished s) = (connections s)[i := c]" "to_go c = 0" using leave Sending by fastforce
      then show ?thesis using Sending Nil assms(2)
        by (intro exI [of _ "Finish i"] exI [of _ "leave i Finished s"] exI [of _ c]) simp
    next
      case (Cons e es')
      obtain x where x: "send frame i e es' (Some refused_write) s = leave i x s" by (cases "frame e") (auto simp: send_def)
      obtain c where "connections (leave i x s) = (connections s)[i := c]" "to_go c = 0" using leave Sending by fastforce
      then show ?thesis using Sending Cons assms(2) x
        by (intro exI [of _ "Send i (Some refused_write)"] exI [of _ "leave i x s"] exI [of _ c]) simp
    qed
  qed (use assms(3) in simp)
qed

lemma drains:
  "server_ok cap s \<Longrightarrow> \<exists>evs s'. run_events pg frame evs s = Some s' \<and> server_ok cap s' \<and> length (connections s') = length (connections s)
     \<and> (\<forall>c\<in>set (connections s'). to_go c = 0)"
proof (induction "sum_list (map to_go (connections s))" arbitrary: s rule: less_induct)
  case less
  show ?case
  proof (cases "\<forall>c\<in>set (connections s). to_go c = 0")
    case True
    then show ?thesis using less.prems by (intro exI [of _ "[]"] exI [of _ s]) simp
  next
    case False
    then obtain i where i: "i < length (connections s)" "0 < to_go (connections s ! i)" by (auto simp: in_set_conv_nth)
    obtain ev s1 c where s1: "handle pg frame ev s = Some s1" "connections s1 = (connections s)[i := c]" "to_go c < to_go (connections s ! i)"
      using drain_step [OF less.prems i] by blast
    have "sum_list (map to_go (connections s1)) < sum_list (map to_go (connections s))"
      using sum_update [OF i(1), of to_go c] s1(2,3) by simp
    from less.hyps [OF this handle_ok [OF less.prems s1(1)]] obtain evs s2 where
      "run_events pg frame evs s1 = Some s2" "server_ok cap s2" "length (connections s2) = length (connections s1)"
      "\<forall>c\<in>set (connections s2). to_go c = 0" by blast
    then show ?thesis using s1(1,2) by (intro exI [of _ "ev # evs"] exI [of _ s2]) simp
  qed
qed

text \<open>C37: The server never wedges: from every state it can reach, events of the handlers alone bring every connection to
  its end, and then all slots are free again. Whatever failed on the way (session factories, framing, writes to
  clients that left), nothing stays taken.\<close>

theorem server_drains:
  assumes "reachable pg frame (Some n) s"
  shows "\<exists>evs s'. run_events pg frame evs s = Some s' \<and> length (connections s') = length (connections s)
     \<and> (\<forall>c\<in>set (connections s'). \<exists>e. handler c = Over e) \<and> run_slots s' = Some \<lparr>permits = n, bound = n\<rparr>"
proof -
  obtain evs s' where s': "run_events pg frame evs s = Some s'" "server_ok (Some n) s'" "length (connections s') = length (connections s)"
    "\<forall>c\<in>set (connections s'). to_go c = 0"
    using drains [OF reachable_ok [OF assms]] by blast
  have over: "\<exists>e. handler c = Over e" if "c \<in> set (connections s')" for c
    using s'(4) that by (cases "handler c") auto
  then have "filter holding (connections s') = []" by (fastforce simp: filter_empty_conv)
  then have "active s' = 0" by (simp add: active_def)
  then have "run_slots s' = Some \<lparr>permits = n, bound = n\<rparr>" using s'(2) by (auto simp: server_ok_def slots_ok_def)
  then show ?thesis using s' over by blast
qed

subsection \<open>Two clients, one slot\<close>

lemma run_events_reachable:
  "run_events pg frame evs s = Some s' \<Longrightarrow> reachable pg frame cap s \<Longrightarrow> reachable pg frame cap s'"
  by (induction evs arbitrary: s) (auto simp: bind_eq_Some_conv intro: reachable.step)

definition blank_page :: page where
  "blank_page = \<lparr>page_body = [], page_csp = [], error_body = []\<rparr>"

definition two_clients :: server where
  "two_clients = \<lparr>run_slots = Some \<lparr>permits = 0, bound = 1\<rparr>,
     connections = [\<lparr>handler = Building, wire = []\<rparr>, \<lparr>handler = Routing ''/stream'', wire = []\<rparr>]\<rparr>"

lemma two_clients_reachable: "reachable blank_page (\<lambda>e. Inr []) (Some 1) two_clients"
proof (rule run_events_reachable)
  show "reachable blank_page (\<lambda>e. Inr []) (Some 1) \<lparr>run_slots = Some \<lparr>permits = 1, bound = 1\<rparr>, connections = []\<rparr>"
    by (rule reachable.start) (simp add: make_server_def)
  show "run_events blank_page (\<lambda>e. Inr []) [Accept ''/stream'', Accept ''/stream'', Route 0]
      \<lparr>run_slots = Some \<lparr>permits = 1, bound = 1\<rparr>, connections = []\<rparr> = Some two_clients"
    by (simp add: two_clients_def route_def slots_acquire_def try_acquire_def set_conn_def)
qed

theorem server_slots_safe_witness:
  "reachable blank_page (\<lambda>e. Inr []) (Some 1) two_clients \<and> active two_clients = 1
   \<and> handler (connections (the (handle blank_page (\<lambda>e. Inr []) (Route 1) two_clients)) ! 1) = Over Refused"
proof (intro conjI two_clients_reachable)
  show a: "active two_clients = 1" by (simp add: active_def two_clients_def)
  have h: "1 < length (connections two_clients)" "handler (connections two_clients ! 1) = Routing ''/stream''"
    "handle blank_page (\<lambda>e. Inr []) (Route 1) two_clients = Some (the (handle blank_page (\<lambda>e. Inr []) (Route 1) two_clients))"
    by (simp_all add: two_clients_def)
  from server_slots_safe [OF two_clients_reachable] h
  have "handler (connections (the (handle blank_page (\<lambda>e. Inr []) (Route 1) two_clients)) ! 1)
      = (if int (active two_clients) = 1 then Over Refused else Building)" by blast
  then show "handler (connections (the (handle blank_page (\<lambda>e. Inr []) (Route 1) two_clients)) ! 1) = Over Refused" using a by simp
qed

theorem server_drains_witness:
  "\<exists>evs s'. run_events blank_page (\<lambda>e. Inr []) evs two_clients = Some s' \<and> length (connections s') = 2
     \<and> run_slots s' = Some \<lparr>permits = 1, bound = 1\<rparr>"
proof -
  have "length (connections two_clients) = 2" by (simp add: two_clients_def)
  then show ?thesis using server_drains [OF two_clients_reachable] by metis
qed

end
