(* ===== verification/Py_Format.thy ===== *)
theory Py_Format
  imports Py_String
begin

section \<open>Format specifications\<close>

text \<open>
  The format specifications of the reports: \<open>:<N\<close> and \<open>:>N\<close> pad with spaces, \<open>:.0f\<close> is the nearest integer,
  \<open>:.0%\<close> the nearest percentage, \<open>:+\<close> shows the sign of numbers that are not negative.
\<close>

definition left_in :: "nat \<Rightarrow> string \<Rightarrow> string" where
  "left_in n s = s @ replicate (n - length s) (CHR '' '')"

definition right_in :: "nat \<Rightarrow> string \<Rightarrow> string" where
  "right_in n s = replicate (n - length s) (CHR '' '') @ s"

fun format_whole :: "pyfloat \<Rightarrow> string" where
  "format_whole (Fin x) = (if x < 0 then ''-'' else []) @ nat_digits (nat (round_half_even \<bar>x\<bar>))"
| "format_whole PInf = ''inf''"
| "format_whole NInf = ''-inf''"
| "format_whole NaN = ''nan''"

definition format_percent :: "pyfloat \<Rightarrow> string" where
  "format_percent x = format_whole (x * Fin 100) @ ''%''"

definition with_sign :: "pyfloat \<Rightarrow> string \<Rightarrow> string" where
  "with_sign x s = (if x < 0 then s else CHR ''+'' # s)"

lemma padded_length [simp]: "length (left_in n s) = max n (length s)" "length (right_in n s) = max n (length s)"
  by (simp_all add: left_in_def right_in_def)

end
