(* ===== verification/Puzzle.thy ===== *)
theory Puzzle
  imports Llm_Policies Provenance Py_Format
begin

section \<open>The hidden-sequence domain (cognitivetree/demo.py, benchmark/suite.py)\<close>

text \<open>
  The deterministic reference domain: a generator that extends a sequence by every word of a vocabulary, the graded
  evaluator of the demo and the evaluator of the benchmark, which scores complete sequences only. Both evaluators
  satisfy the evaluator contract, are independent of the order of evaluation and accept exactly the target.
\<close>

definition puzzle_generate :: "string list \<Rightarrow> 'w \<Rightarrow> heap \<Rightarrow> addr \<Rightarrow> int \<Rightarrow> (exn + string list) \<times> 'w" where
  "puzzle_generate vocabulary w h a k =
     (let before = (if \<not> is_root (h ! a) then content (h ! a) else [])
      in (Inr (slice_to k (map (\<lambda>token. py_strip (before @ '' '' @ token)) vocabulary)), w))"

text \<open>The verdict of the demo's evaluator on a text.\<close>

definition puzzle_verdict :: "string list \<Rightarrow> string \<Rightarrow> exn + evaluation" where
  "puzzle_verdict sought t =
     (let tokens = py_split t in
      if length sought < length tokens \<or> tokens \<noteq> take (length tokens) sought
        then make_evaluation 0 False ''diverged from target sequence''
      else if tokens = sought then make_evaluation 1 True ''exact reconstruction''
      else (let coverage = fdiv (py_float_of_int (int (length tokens))) (py_float_of_int (int (length sought)))
            in make_evaluation (Fin 0.2 + Fin 0.7 * coverage) False
                 (''consistent prefix covering '' @ format_percent coverage @ '' of target'')))"

definition puzzle_evaluate :: "string list \<Rightarrow> 'w \<Rightarrow> heap \<Rightarrow> addr \<Rightarrow> (exn + evaluation) \<times> dict \<times> 'w" where
  "puzzle_evaluate sought w h a = (puzzle_verdict sought (content (h ! a)), metadata (h ! a), w)"

text \<open>\<open>TerminalOnlyEvaluator\<close>.\<close>

definition terminal_verdict :: "string list \<Rightarrow> string \<Rightarrow> exn + evaluation" where
  "terminal_verdict sought t =
     (let tokens = py_split t in
      if length tokens < length sought then make_evaluation (Fin 0.5) False ''incomplete sequence''
      else if tokens = sought then make_evaluation 1 True ''exact match''
      else make_evaluation 0 True ''wrong sequence'')"

definition terminal_evaluate :: "string list \<Rightarrow> 'w \<Rightarrow> heap \<Rightarrow> addr \<Rightarrow> (exn + evaluation) \<times> dict \<times> 'w" where
  "terminal_evaluate sought w h a = (terminal_verdict sought (content (h ! a)), metadata (h ! a), w)"

subsection \<open>Evaluators that read the text only\<close>

text \<open>
  Both evaluators are a function of the candidate's text that raises nothing. The locale gives what the controller and
  the worker pool need of such an evaluator.
\<close>

locale text_evaluator =
  fixes verdict :: "'c \<Rightarrow> string \<Rightarrow> exn + evaluation"
    and ev :: "'c \<Rightarrow> 'w \<Rightarrow> heap \<Rightarrow> addr \<Rightarrow> (exn + evaluation) \<times> dict \<times> 'w"
    and goal :: "'c \<Rightarrow> string list"
  assumes reads_text: "ev c w h a = (verdict c (content (h ! a)), metadata (h ! a), w)"
    and scores: "\<exists>v. verdict c t = Inr v \<and> valid_evaluation v"
    and terminal_hit: "verdict c t = Inr v \<Longrightarrow> ev_is_terminal v \<Longrightarrow> 0 < ev_score v \<Longrightarrow> py_split t = goal c"
    and hit_terminal: "verdict c t = Inr v \<Longrightarrow> py_split t = goal c \<Longrightarrow> ev_is_terminal v \<and> ev_score v = 1"
begin

lemma valid: "fst (ev c w h a) = Inr v \<Longrightarrow> valid_evaluation v"
  using scores [of c "content (h ! a)"] by (auto simp: reads_text)

lemma accepts_goal:
  assumes "valid_config cfg" "fst (ev c w h a) = Inr v"
  shows "classify cfg v = TERMINAL \<longleftrightarrow> py_split (content (h ! a)) = goal c"
proof -
  have v: "verdict c (content (h ! a)) = Inr v" using assms(2) by (simp add: reads_text)
  obtain p x where t: "prune_threshold cfg = Fin p" "accept_threshold cfg = Fin x" "0 \<le> p" "p < x" "x \<le> 1"
    using valid_config_thresholds [OF assms(1)] by blast
  show ?thesis
  proof
    assume acc: "classify cfg v = TERMINAL"
    then have "ev_is_terminal v" "Fin x \<le> ev_score v" using t(2) by (auto simp: classify_def split: if_splits)
    moreover from this(2) have "0 < ev_score v" using t(3,4) by (cases "ev_score v") (auto simp: float_consts)
    ultimately show "py_split (content (h ! a)) = goal c" using terminal_hit [OF v] by blast
  next
    assume "py_split (content (h ! a)) = goal c"
    then have "ev_is_terminal v" "ev_score v = 1" using hit_terminal [OF v] by blast+
    then show "classify cfg v = TERMINAL" using t(2,5) by (simp add: classify_def float_consts)
  qed
qed

lemma solution_is_goal:
  assumes "valid_config cfg" "inj (uid env)" "evaluate env = ev c" "fst (run env cfg task w) = Ok res" "solution res = Some t"
  shows "py_split t = goal c"
proof -
  obtain w' h a v where v: "fst (ev c w' h a) = Inr v" "content (h ! a) = t" "classify cfg v = TERMINAL"
    using solution_accepted [OF assms(1,2,4,5)] unfolding assms(3) by blast
  show ?thesis using accepts_goal [OF assms(1) v(1)] v(2,3) by simp
qed

end

sublocale text_evaluator \<subseteq> pool: independent_evaluator ev "\<lambda>c sh a. verdict c (fst (sh ! a))" "\<lambda>c sh a d. d"
  by unfold_locales (simp add: reads_text shape_def)

lemma puzzle_coverage:
  assumes "length tokens \<le> length sought" "tokens \<noteq> sought" "tokens = take (length tokens) sought"
  shows "\<exists>v. make_evaluation (Fin 0.2 + Fin 0.7 * fdiv (py_float_of_int (int (length tokens))) (py_float_of_int (int (length sought)))) False r
     = Inr v \<and> valid_evaluation v \<and> \<not> ev_is_terminal v"
proof -
  have "length tokens < length sought" using assms by (cases "length tokens = length sought") auto
  then have "0 \<le> real (length tokens) / real (length sought)" "real (length tokens) / real (length sought) \<le> 1"
    by (simp_all add: divide_le_eq)
  then show ?thesis by (simp add: make_evaluation_def valid_evaluation_def py_float_of_int_def float_consts)
qed

lemma puzzle_verdict_cases:
  obtains "py_split t = sought" "puzzle_verdict sought t = Inr \<lparr>ev_score = 1, ev_is_terminal = True, ev_rationale = ''exact reconstruction''\<rparr>"
  | v where "py_split t \<noteq> sought" "puzzle_verdict sought t = Inr v" "valid_evaluation v" "\<not> ev_is_terminal v"
proof (cases "py_split t = sought")
  case True
  then show thesis using that(1) by (simp add: puzzle_verdict_def make_evaluation_def float_consts)
next
  case False
  show thesis
  proof (cases "length sought < length (py_split t) \<or> py_split t \<noteq> take (length (py_split t)) sought")
    case True
    then show thesis using that(2) False
      by (auto simp: puzzle_verdict_def make_evaluation_def valid_evaluation_def float_consts)
  next
    case prefix_ok: False
    then show thesis
      using that(2) False puzzle_coverage [of "py_split t" sought "''consistent prefix covering '' @ format_percent
        (fdiv (py_float_of_int (int (length (py_split t)))) (py_float_of_int (int (length sought)))) @ '' of target''"]
      by (auto simp: puzzle_verdict_def Let_def)
  qed
qed

interpretation graded_puzzle: text_evaluator puzzle_verdict puzzle_evaluate "\<lambda>sought. sought"
proof
  fix c :: "string list" and w :: 'w and h a t v
  show "puzzle_evaluate c w h a = (puzzle_verdict c (content (h ! a)), metadata (h ! a), w)" by (simp add: puzzle_evaluate_def)
  show "\<exists>v. puzzle_verdict c t = Inr v \<and> valid_evaluation v"
    by (rule puzzle_verdict_cases [of t c]) (auto simp: valid_evaluation_def float_consts)
  show "puzzle_verdict c t = Inr v \<Longrightarrow> ev_is_terminal v \<Longrightarrow> 0 < ev_score v \<Longrightarrow> py_split t = c"
    by (rule puzzle_verdict_cases [of t c]) auto
  show "puzzle_verdict c t = Inr v \<Longrightarrow> py_split t = c \<Longrightarrow> ev_is_terminal v \<and> ev_score v = 1"
    by (rule puzzle_verdict_cases [of t c]) auto
qed

interpretation terminal_puzzle: text_evaluator terminal_verdict terminal_evaluate "\<lambda>sought. sought"
proof
  fix c :: "string list" and w :: 'w and h a t v
  show "terminal_evaluate c w h a = (terminal_verdict c (content (h ! a)), metadata (h ! a), w)" by (simp add: terminal_evaluate_def)
  show "\<exists>v. terminal_verdict c t = Inr v \<and> valid_evaluation v"
    by (simp add: terminal_verdict_def Let_def make_evaluation_def valid_evaluation_def float_consts)
  show "terminal_verdict c t = Inr v \<Longrightarrow> ev_is_terminal v \<Longrightarrow> 0 < ev_score v \<Longrightarrow> py_split t = c"
    by (auto simp: terminal_verdict_def Let_def make_evaluation_def float_consts split: if_splits)
  show "terminal_verdict c t = Inr v \<Longrightarrow> py_split t = c \<Longrightarrow> ev_is_terminal v \<and> ev_score v = 1"
    by (auto simp: terminal_verdict_def Let_def make_evaluation_def float_consts split: if_splits)
qed

interpretation graded_contract: evaluator_contract puzzle_evaluate
  by unfold_locales (rule graded_puzzle.valid)

interpretation terminal_contract: evaluator_contract terminal_evaluate
  by unfold_locales (rule terminal_puzzle.valid)

end
