(* ===== verification/Benchmark.thy ===== *)
theory Benchmark
  imports Puzzle Session_Guarantees "HOL-Library.List_Lexorder" "HOL-Library.Char_ord"
begin

section \<open>The benchmark suite and its runner (benchmark/suite.py, benchmark/runner.py)\<close>

text \<open>
  A benchmark task builds a fresh controller per run; the runner executes every task and repeat under a shifted seed,
  times it, and aggregates the outcomes. Tasks act on the plant of the assembled sessions, so a task may run the model
  stack; the clock that times a run, the file system and the JSON writer are the record \<open>bench_io\<close>.
\<close>

subsection \<open>Tasks\<close>

record 'v task_setup =
  setup_controller :: "'v environment \<times> search_config"
  setup_usage :: "('v \<Rightarrow> token_usage) option"

text \<open>The fields of the configuration, as keys of \<open>config_overrides\<close>.\<close>

datatype override =
    Set_iterations int
  | Set_depth int
  | Set_branching int
  | Set_exploration pyfloat
  | Set_accept pyfloat
  | Set_prune pyfloat
  | Set_seed "int option"
  | Set_wall "pyfloat option"
  | Set_workers int

fun apply_override :: "override \<Rightarrow> search_config \<Rightarrow> search_config" where
  "apply_override (Set_iterations n) c = c\<lparr>max_iterations := n\<rparr>"
| "apply_override (Set_depth n) c = c\<lparr>max_depth := n\<rparr>"
| "apply_override (Set_branching n) c = c\<lparr>branching_factor := n\<rparr>"
| "apply_override (Set_exploration x) c = c\<lparr>exploration_weight := x\<rparr>"
| "apply_override (Set_accept x) c = c\<lparr>accept_threshold := x\<rparr>"
| "apply_override (Set_prune x) c = c\<lparr>prune_threshold := x\<rparr>"
| "apply_override (Set_seed s) c = c\<lparr>seed := s\<rparr>"
| "apply_override (Set_wall x) c = c\<lparr>max_wall_seconds := x\<rparr>"
| "apply_override (Set_workers n) c = c\<lparr>evaluation_workers := n\<rparr>"

record 'v bench_task =
  task_name :: string
  task_statement :: string
  task_build :: "search_config \<Rightarrow> 'v \<Rightarrow> (exn + 'v task_setup) \<times> 'v"
  config_overrides :: "override list"
  expected_solution :: "string option"

text \<open>\<open>replace(config, ...)\<close> runs the checks of the constructor again.\<close>

definition resolve_config :: "'v bench_task \<Rightarrow> search_config \<Rightarrow> exn + search_config" where
  "resolve_config t base = check_config (fold apply_override (config_overrides t) base)"

definition is_solved_by :: "'v bench_task \<Rightarrow> bool \<Rightarrow> string option \<Rightarrow> bool" where
  "is_solved_by t succeeded sol =
     (if \<not> succeeded then False else if expected_solution t = None then True else sol = expected_solution t)"

definition VOCABULARY :: "string list" where
  "VOCABULARY = [''north'', ''south'', ''east'', ''west'']"

definition TASK_STATEMENT :: string where
  "TASK_STATEMENT = ''Recover the hidden movement sequence.''"

text \<open>\<open>TreeSearchController(config, generator, evaluator)\<close>: the optional collaborators are not wired.\<close>

definition bare_env ::
  "'w platform \<Rightarrow> search_config \<Rightarrow> ('w plant \<Rightarrow> heap \<Rightarrow> addr \<Rightarrow> int \<Rightarrow> (exn + string list) \<times> 'w plant) \<Rightarrow>
   ('w plant \<Rightarrow> heap \<Rightarrow> addr \<Rightarrow> (exn + evaluation) \<times> dict \<times> 'w plant) \<Rightarrow> 'w plant environment" where
  "bare_env pf cfg gen ev = \<lparr>generate = gen, evaluate = ev, critic = None, revision_policy = None, reward_model = None,
     stop_condition = None, on_event = None, cancel_event = None, monotonic = outside (steady_clock pf),
     random_unit = outside (dice pf (seed cfg)), uid = node_uid pf, pool_order = (\<lambda>p n. outside (\<lambda>w. schedule pf w n) p)\<rparr>"

definition sequence_build :: "'w platform \<Rightarrow> string list \<Rightarrow> search_config \<Rightarrow> 'w plant \<Rightarrow> (exn + 'w plant task_setup) \<times> 'w plant" where
  "sequence_build pf words cfg p = (Inr \<lparr>setup_controller =
      (bare_env pf cfg (puzzle_generate VOCABULARY) (terminal_evaluate words), cfg), setup_usage = None\<rparr>, p)"

text \<open>\<open>t[0]\<close> raises on an empty word.\<close>

definition sequence_task :: "'w platform \<Rightarrow> string list \<Rightarrow> exn + 'w plant bench_task" where
  "sequence_task pf words =
     (if [] \<in> set words then Inl (Exn IndexError ''string index out of range'')
      else Inr \<lparr>task_name = ''sequence-'' @ str_int (int (length words)) @ ''-'' @ py_join ''-'' (map (\<lambda>t. [hd t]) words),
        task_statement = TASK_STATEMENT, task_build = sequence_build pf words,
        config_overrides = [Set_depth (int (length words)), Set_branching (int (length VOCABULARY))],
        expected_solution = Some (py_join '' '' words)\<rparr>)"

definition DEFAULT_TARGETS :: "string list list" where
  "DEFAULT_TARGETS =
     [[''north'', ''east''],
      [''south'', ''west''],
      [''west'', ''north'', ''east''],
      [''east'', ''south'', ''south''],
      [''west'', ''north'', ''east'', ''south''],
      [''east'', ''east'', ''west'', ''north'']]"

fun sequence_suite :: "'w platform \<Rightarrow> string list list \<Rightarrow> exn + 'w plant bench_task list" where
  "sequence_suite pf [] = Inr []"
| "sequence_suite pf (g # gs) = sum_bind (sequence_task pf g) (\<lambda>t. sum_bind (sequence_suite pf gs) (\<lambda>ts. Inr (t # ts)))"

definition default_suite :: "'w platform \<Rightarrow> exn + 'w plant bench_task list" where
  "default_suite pf = sequence_suite pf DEFAULT_TARGETS"

subsection \<open>Results and reports\<close>

record task_result =
  tr_task :: string
  tr_seed :: "int option"
  tr_outcome :: string
  tr_solved :: bool
  tr_iterations :: int
  tr_nodes :: int
  tr_seconds :: pyfloat
  tr_tokens :: "int option"

definition int_or_none :: "int option \<Rightarrow> pyval" where
  "int_or_none x = (case x of None \<Rightarrow> VNone | Some n \<Rightarrow> VInt n)"

definition task_result_to_dict :: "task_result \<Rightarrow> pyval" where
  "task_result_to_dict r = VDict
     [(''task'', VStr (tr_task r)), (''seed'', int_or_none (tr_seed r)), (''outcome'', VStr (tr_outcome r)),
      (''solved'', VBool (tr_solved r)), (''iterations'', VInt (tr_iterations r)), (''nodes'', VInt (tr_nodes r)),
      (''wall_seconds'', VFloat (py_round (tr_seconds r) 6)), (''tokens'', int_or_none (tr_tokens r))]"

record bench_report =
  rep_label :: string
  rep_results :: "task_result list"

definition rep_runs :: "bench_report \<Rightarrow> int" where
  "rep_runs r = int (length (rep_results r))"

definition rep_solved :: "bench_report \<Rightarrow> int" where
  "rep_solved r = int (length (filter tr_solved (rep_results r)))"

definition solve_rate :: "bench_report \<Rightarrow> pyfloat" where
  "solve_rate r = (if rep_results r \<noteq> [] then fdiv (py_float_of_int (rep_solved r)) (py_float_of_int (rep_runs r)) else 0)"

definition mean_of :: "int list \<Rightarrow> pyfloat" where
  "mean_of xs = (if xs \<noteq> [] then fdiv (py_float_of_int (sum_list xs)) (py_float_of_int (int (length xs))) else 0)"

definition mean_iterations :: "bench_report \<Rightarrow> pyfloat" where
  "mean_iterations r = mean_of (map tr_iterations (rep_results r))"

definition mean_nodes :: "bench_report \<Rightarrow> pyfloat" where
  "mean_nodes r = mean_of (map tr_nodes (rep_results r))"

definition total_wall_seconds :: "bench_report \<Rightarrow> pyfloat" where
  "total_wall_seconds r = foldl (+) 0 (map tr_seconds (rep_results r))"

definition rep_tokens :: "bench_report \<Rightarrow> int option" where
  "rep_tokens r = (let counted = List.map_filter tr_tokens (rep_results r) in if counted \<noteq> [] then Some (sum_list counted) else None)"

definition outcome_counts :: "bench_report \<Rightarrow> (string \<times> int) list" where
  "outcome_counts r = foldl (\<lambda>d x. add_at (tr_outcome x) 1 d) [] (rep_results r)"

definition solved_mean_iterations :: "bench_report \<Rightarrow> pyfloat" where
  "solved_mean_iterations r = mean_of (map tr_iterations (filter tr_solved (rep_results r)))"

definition report_to_dict :: "bench_report \<Rightarrow> pyval" where
  "report_to_dict r = VDict
     [(''label'', VStr (rep_label r)), (''runs'', VInt (rep_runs r)), (''solved'', VInt (rep_solved r)),
      (''solve_rate'', VFloat (py_round (solve_rate r) 6)), (''mean_iterations'', VFloat (py_round (mean_iterations r) 4)),
      (''mean_nodes'', VFloat (py_round (mean_nodes r) 4)),
      (''total_wall_seconds'', VFloat (py_round (total_wall_seconds r) 6)), (''total_tokens'', int_or_none (rep_tokens r)),
      (''outcome_counts'', VDict (map (\<lambda>(k, n). (k, VInt n)) (outcome_counts r))),
      (''results'', VList (map task_result_to_dict (rep_results r)))]"

subsection \<open>Rendering\<close>

definition result_line :: "task_result \<Rightarrow> string" where
  "result_line r = (if tr_solved r then ''+'' else ''-'') @ '' '' @ left_in 28 (tr_task r) @ '' ''
     @ right_in 5 (case tr_seed r of None \<Rightarrow> ''-'' | Some n \<Rightarrow> str_int n) @ '' '' @ left_in 17 (tr_outcome r) @ '' ''
     @ right_in 6 (str_int (tr_iterations r)) @ '' '' @ right_in 6 (str_int (tr_nodes r))"

definition format_report :: "bench_report \<Rightarrow> string" where
  "format_report r = py_join newline
     ([''benchmark: '' @ rep_label r, [],
       ''  '' @ left_in 28 ''task'' @ '' '' @ right_in 5 ''seed'' @ '' '' @ left_in 17 ''outcome'' @ '' ''
         @ right_in 6 ''iters'' @ '' '' @ right_in 6 ''nodes'']
      @ map result_line (rep_results r)
      @ [[],
         ''  solve rate       : '' @ str_int (rep_solved r) @ ''/'' @ str_int (rep_runs r) @ '' = '' @ format_percent (solve_rate r),
         ''  mean iterations  : '' @ format_fixed 1 (mean_iterations r) @ '' (solved only: ''
           @ format_fixed 1 (solved_mean_iterations r) @ '')'',
         ''  mean nodes       : '' @ format_fixed 1 (mean_nodes r),
         ''  wall time        : '' @ format_whole (total_wall_seconds r * Fin 1000) @ '' ms'']
      @ (case rep_tokens r of None \<Rightarrow> [] | Some n \<Rightarrow> [''  tokens           : '' @ str_int n])
      @ [''  outcomes         : '' @ py_join '', '' (map (\<lambda>(k, n). k @ ''='' @ str_int n) (sort_key fst (outcome_counts r)))])"

text \<open>\<open>_delta\<close>; the format specification is a rendering of the number.\<close>

definition delta :: "pyfloat \<Rightarrow> (pyfloat \<Rightarrow> string) \<Rightarrow> bool \<Rightarrow> string" where
  "delta value spec higher_is_better =
     (if (if value < 0 then - value else value) < Fin (1 / 10 ^ 9) then ''same''
      else with_sign value (spec value) @ '' ''
        @ (if (if higher_is_better then 0 < value else value < 0) then ''better'' else ''worse''))"

definition compare_rows :: "bench_report \<Rightarrow> bench_report \<Rightarrow> (string \<times> string \<times> string \<times> string) list" where
  "compare_rows a b =
     [(''solve rate'', format_percent (solve_rate a), format_percent (solve_rate b),
         delta (solve_rate b - solve_rate a) format_percent True),
      (''mean iterations'', format_fixed 1 (mean_iterations a), format_fixed 1 (mean_iterations b),
         delta (mean_iterations b - mean_iterations a) (format_fixed 1) False),
      (''mean nodes'', format_fixed 1 (mean_nodes a), format_fixed 1 (mean_nodes b),
         delta (mean_nodes b - mean_nodes a) (format_fixed 1) False),
      (''wall time (ms)'', format_whole (total_wall_seconds a * Fin 1000), format_whole (total_wall_seconds b * Fin 1000),
         delta ((total_wall_seconds b - total_wall_seconds a) * Fin 1000) format_whole False)]
     @ (case (rep_tokens a, rep_tokens b) of
          (Some m, Some n) \<Rightarrow> [(''tokens'', str_int m, str_int n, delta (py_float_of_int (n - m)) format_whole False)]
        | _ \<Rightarrow> [])"

definition compare_reports :: "bench_report \<Rightarrow> bench_report \<Rightarrow> string" where
  "compare_reports a b =
     (let width = max (max (length (rep_label a)) (length (rep_label b))) 10 in
      py_join newline
        ([left_in 18 ''metric'' @ '' '' @ right_in width (rep_label a) @ '' '' @ right_in width (rep_label b) @ ''   delta'',
          replicate (20 + 2 * width + 12) (CHR ''-'')]
         @ map (\<lambda>(n, l, r, d). left_in 18 n @ '' '' @ right_in width l @ '' '' @ right_in width r @ ''   '' @ d) (compare_rows a b)))"

subsection \<open>run\_benchmark\<close>

record 'v bench_io =
  perf_counter :: "'v \<Rightarrow> pyfloat \<times> 'v"
  iso_now :: "'v \<Rightarrow> string \<times> 'v"
  bench_dumps :: "pyval \<Rightarrow> exn + string"
  bench_write :: "string \<Rightarrow> string \<Rightarrow> 'v \<Rightarrow> exn + 'v"

definition seeded :: "search_config \<Rightarrow> int \<Rightarrow> exn + search_config" where
  "seeded c k = (case seed c of None \<Rightarrow> Inr c | Some s \<Rightarrow> check_config (c\<lparr>seed := Some (s + k)\<rparr>))"

definition lift_call :: "('v \<Rightarrow> (exn + 'a) \<times> 'v) \<Rightarrow> ('v, 'a) prog" where
  "lift_call f w = (case f w of (r, w1) \<Rightarrow> (lift_sum r, w1))"

definition tick :: "'v bench_io \<Rightarrow> ('v, pyfloat) prog" where
  "tick io w = (case perf_counter io w of (x, w1) \<Rightarrow> (Ok x, w1))"

definition controller_run :: "'v environment \<times> search_config \<Rightarrow> string \<Rightarrow> ('v, search_result) prog" where
  "controller_run c task w = (case run (fst c) (snd c) task w of (r, st) \<Rightarrow> (r, world st))"

definition read_tokens :: "'v task_setup \<Rightarrow> ('v, int option) prog" where
  "read_tokens s w = (Ok (map_option (\<lambda>u. total_tokens (u w)) (setup_usage s)), w)"

definition record_result :: "'v bench_task \<Rightarrow> search_config \<Rightarrow> search_result \<Rightarrow> pyfloat \<Rightarrow> int option \<Rightarrow> task_result" where
  "record_result t cfg r elapsed tokens = \<lparr>tr_task = task_name t, tr_seed = seed cfg, tr_outcome = outcome_value (outcome r),
     tr_solved = is_solved_by t (outcome r = OUT_SUCCEEDED) (solution r), tr_iterations = iterations r, tr_nodes = node_count r,
     tr_seconds = elapsed, tr_tokens = tokens\<rparr>"

definition run_file :: "string \<Rightarrow> string \<Rightarrow> string \<Rightarrow> int option \<Rightarrow> string" where
  "run_file dir label name sd =
     dir @ ''/'' @ label @ ''-'' @ name @ ''-seed'' @ (case sd of None \<Rightarrow> ''None'' | Some n \<Rightarrow> str_int n) @ ''.json''"

definition save_result :: "'v bench_io \<Rightarrow> string option \<Rightarrow> string \<Rightarrow> string \<Rightarrow> int option \<Rightarrow> search_result \<Rightarrow> ('v, unit) prog" where
  "save_result io dir label name sd r = (case dir of
       None \<Rightarrow> ret ()
     | Some d \<Rightarrow> bindM (call (metrics_from_result r None)) (\<lambda>m w.
         (case iso_now io w of (at_time, w1) \<Rightarrow>
           (case save_run (bench_dumps io) (bench_write io) r (run_file d label name sd) (metrics_to_dict m) at_time w1 of
              None \<Rightarrow> (Diverge, w1)
            | Some (Inl e) \<Rightarrow> (Raise e, w1)
            | Some (Inr w2) \<Rightarrow> (Ok (), w2)))))"

text \<open>One run of a task under its effective configuration: build, time, run, read the tokens, record, archive.\<close>

definition one_run :: "'v bench_io \<Rightarrow> string option \<Rightarrow> string \<Rightarrow> 'v bench_task \<Rightarrow> search_config \<Rightarrow> ('v, task_result) prog" where
  "one_run io dir label t cfg =
     bindM (lift_call (task_build t cfg)) (\<lambda>setup.
     bindM (tick io) (\<lambda>started.
     bindM (controller_run (setup_controller setup) (task_statement t)) (\<lambda>r.
     bindM (tick io) (\<lambda>stopped.
     bindM (read_tokens setup) (\<lambda>tokens.
     bindM (save_result io dir label (task_name t) (seed cfg) r) (\<lambda>_.
     ret (record_result t cfg r (stopped - started) tokens)))))))"

fun repeat_runs :: "'v bench_io \<Rightarrow> string option \<Rightarrow> string \<Rightarrow> 'v bench_task \<Rightarrow> search_config \<Rightarrow> nat list \<Rightarrow> ('v, task_result list) prog" where
  "repeat_runs io dir label t base [] = ret []"
| "repeat_runs io dir label t base (k # ks) =
     bindM (\<lambda>w. (lift_sum (seeded base (int k)), w)) (\<lambda>cfg.
     bindM (one_run io dir label t cfg) (\<lambda>x.
     bindM (repeat_runs io dir label t base ks) (\<lambda>xs. ret (x # xs))))"

fun task_runs :: "'v bench_io \<Rightarrow> string option \<Rightarrow> string \<Rightarrow> search_config \<Rightarrow> int \<Rightarrow> 'v bench_task list \<Rightarrow> ('v, task_result list) prog" where
  "task_runs io dir label cfg n [] = ret []"
| "task_runs io dir label cfg n (t # ts) =
     bindM (\<lambda>w. (lift_sum (resolve_config t cfg), w)) (\<lambda>base.
     bindM (repeat_runs io dir label t base [0..<nat n]) (\<lambda>xs.
     bindM (task_runs io dir label cfg n ts) (\<lambda>ys. ret (xs @ ys))))"

definition run_benchmark ::
  "'w platform \<Rightarrow> 'w plant bench_io \<Rightarrow> search_config \<Rightarrow> 'w plant bench_task list option \<Rightarrow> string \<Rightarrow> int \<Rightarrow> string option \<Rightarrow>
   ('w plant, bench_report) prog" where
  "run_benchmark pf io cfg tasks label repeats dir w =
     (if repeats < 1 then (Raise (Exn ValueError ''repeats must be a positive integer''), w)
      else bindM (\<lambda>w. (lift_sum (case tasks of None \<Rightarrow> default_suite pf | Some ts \<Rightarrow> Inr ts), w)) (\<lambda>ts.
        bindM (task_runs io dir label cfg repeats ts) (\<lambda>rs. ret \<lparr>rep_label = label, rep_results = rs\<rparr>)) w)"

subsection \<open>scaling\_curve\<close>

fun curve :: "'w platform \<Rightarrow> 'w plant bench_io \<Rightarrow> search_config \<Rightarrow> 'w plant bench_task list option \<Rightarrow> int \<Rightarrow> int list \<Rightarrow>
   ('w plant, bench_report list) prog" where
  "curve pf io base tasks repeats [] = ret []"
| "curve pf io base tasks repeats (b # bs) =
     bindM (\<lambda>w. (lift_sum (check_config (base\<lparr>max_iterations := b\<rparr>)), w)) (\<lambda>cfg.
     bindM (run_benchmark pf io cfg tasks (''budget='' @ str_int b) repeats None) (\<lambda>r.
     bindM (curve pf io base tasks repeats bs) (\<lambda>rs. ret (r # rs))))"

definition scaling_curve :: "'w platform \<Rightarrow> 'w plant bench_io \<Rightarrow> int list \<Rightarrow> search_config option \<Rightarrow> 'w plant bench_task list option \<Rightarrow> int \<Rightarrow>
   ('w plant, bench_report list) prog" where
  "scaling_curve pf io budgets cfg tasks repeats =
     curve pf io (case cfg of None \<Rightarrow> default_config | Some c \<Rightarrow> c) tasks repeats budgets"

end
