(* ===== verification/Benchmark_Theorems.thy ===== *)
theory Benchmark_Theorems
  imports Benchmark
begin

section \<open>What a benchmark report says\<close>

text \<open>
  Every line of a report stands for one run of one task under one seed; the aggregates add up; the bundled suite always
  produces a report; and a search of the hidden-sequence domain that reports a solution has found the sequence.
\<close>

subsection \<open>One result per task and repeat\<close>

text \<open>What a result says: there was a run of the task, under the seed moved by the repeat, with these figures.\<close>

definition recorded :: "'v bench_task \<Rightarrow> search_config \<Rightarrow> nat \<Rightarrow> task_result \<Rightarrow> bool" where
  "recorded t cfg k x \<longleftrightarrow> (\<exists>base su p q r. resolve_config t cfg = Inr base
     \<and> fst (task_build t (base\<lparr>seed := map_option (\<lambda>s. s + int k) (seed base)\<rparr>) p) = Inr su
     \<and> fst (run (fst (setup_controller su)) (snd (setup_controller su)) (task_statement t) q) = Ok r
     \<and> tr_task x = task_name t \<and> tr_seed x = map_option (\<lambda>s. s + int k) (seed base)
     \<and> tr_outcome x = outcome_value (outcome r) \<and> tr_iterations x = iterations r \<and> tr_nodes x = node_count r
     \<and> (tr_solved x \<longleftrightarrow> outcome r = OUT_SUCCEEDED \<and> (expected_solution t = None \<or> solution r = expected_solution t)))"

lemma seeded_Inr: "seeded c k = Inr c' \<Longrightarrow> c' = c\<lparr>seed := map_option (\<lambda>s. s + k) (seed c)\<rparr>"
  by (auto simp: seeded_def check_config_Inr split: option.splits)

lemma bindM_OkE:
  assumes "bindM m k w = (Ok x, w')"
  obtains y w1 where "m w = (Ok y, w1)" "k y w1 = (Ok x, w')"
  using assms by (auto simp: bindM_def split: prod.splits res.splits)

lemma one_run_Ok:
  assumes "one_run io dir label t cfg w = (Ok x, w')"
  obtains su p q r e n where "fst (task_build t cfg p) = Inr su"
    "fst (run (fst (setup_controller su)) (snd (setup_controller su)) (task_statement t) q) = Ok r"
    "x = record_result t cfg r e n"
proof -
  from assms obtain su w1 t0 w2 r w3 t1 w4 n w5 w6 where
    b: "lift_call (task_build t cfg) w = (Ok su, w1)"
    and c: "controller_run (setup_controller su) (task_statement t) w2 = (Ok r, w3)"
    and x: "ret (record_result t cfg r (t1 - t0) n) w6 = (Ok x, w')"
    unfolding one_run_def by (elim bindM_OkE)
  have "fst (task_build t cfg w) = Inr su"
    using b by (cases "fst (task_build t cfg w)") (auto simp: lift_call_def split: prod.splits)
  moreover have "fst (run (fst (setup_controller su)) (snd (setup_controller su)) (task_statement t) w2) = Ok r"
    using c by (auto simp: controller_run_def split: prod.splits)
  moreover have "x = record_result t cfg r (t1 - t0) n" using x by (simp add: ret_def)
  ultimately show thesis by (rule that)
qed

lemma one_run_recorded:
  assumes "resolve_config t cfg = Inr base" "seeded base (int k) = Inr c" "one_run io dir label t c w = (Ok x, w')"
  shows "recorded t cfg k x"
proof -
  obtain su p q r e n where r: "fst (task_build t c p) = Inr su"
    "fst (run (fst (setup_controller su)) (snd (setup_controller su)) (task_statement t) q) = Ok r"
    "x = record_result t c r e n" by (rule one_run_Ok [OF assms(3)])
  note c = seeded_Inr [OF assms(2)]
  show ?thesis unfolding recorded_def
    by (rule exI [of _ base], rule exI [of _ su], rule exI [of _ p], rule exI [of _ q], rule exI [of _ r])
      (use assms(1) r c in \<open>auto simp: record_result_def is_solved_by_def\<close>)
qed

lemma repeat_runs_recorded:
  assumes "resolve_config t cfg = Inr base"
  shows "repeat_runs io dir label t base ks w = (Ok xs, w') \<Longrightarrow> list_all2 (recorded t cfg) ks xs"
proof (induction ks arbitrary: w w' xs)
  case (Cons k ks)
  from Cons.prems obtain c w1 x w2 ys w3 where "(lift_sum (seeded base (int k)), w) = (Ok c, w1)"
    and x: "one_run io dir label t c w1 = (Ok x, w2)" and ys: "repeat_runs io dir label t base ks w2 = (Ok ys, w3)"
    and xs: "ret (x # ys) w3 = (Ok xs, w')" by (auto elim!: bindM_OkE)
  then have c: "seeded base (int k) = Inr c" by (cases "seeded base (int k)") auto
  show ?case using one_run_recorded [OF assms c x] Cons.IH [OF ys] xs by (auto simp: ret_def)
qed (simp add: ret_def)

lemma task_runs_recorded:
  "task_runs io dir label cfg n ts w = (Ok xs, w') \<Longrightarrow> list_all2 (\<lambda>(t, k). recorded t cfg k) (List.product ts [0..<nat n]) xs"
proof (induction ts arbitrary: w w' xs)
  case (Cons t ts)
  from Cons.prems obtain base w1 ys w2 zs w3 where "(lift_sum (resolve_config t cfg), w) = (Ok base, w1)"
    and ys: "repeat_runs io dir label t base [0..<nat n] w1 = (Ok ys, w2)" and zs: "task_runs io dir label cfg n ts w2 = (Ok zs, w3)"
    and xs: "ret (ys @ zs) w3 = (Ok xs, w')" by (auto elim!: bindM_OkE)
  then have base: "resolve_config t cfg = Inr base" by (cases "resolve_config t cfg") auto
  have "list_all2 (\<lambda>(t, k). recorded t cfg k) (map (Pair t) [0..<nat n]) ys"
    using repeat_runs_recorded [OF base ys] by (simp add: list_all2_map1)
  then have "list_all2 (\<lambda>(t, k). recorded t cfg k) (map (Pair t) [0..<nat n] @ List.product ts [0..<nat n]) (ys @ zs)"
    by (rule list_all2_appendI) (rule Cons.IH [OF zs])
  then show ?case using xs by (simp add: ret_def)
qed (simp add: ret_def)

lemma run_benchmark_recorded:
  assumes "run_benchmark pf io cfg (Some ts) label n dir w = (Ok rp, w')"
  shows "0 < n \<and> rep_label rp = label \<and> list_all2 (\<lambda>(t, k). recorded t cfg k) (List.product ts [0..<nat n]) (rep_results rp)"
proof -
  have n: "\<not> n < 1" using assms by (auto simp: run_benchmark_def)
  then obtain w1 xs w2 where xs: "task_runs io dir label cfg n ts w1 = (Ok xs, w2)" "rp = \<lparr>rep_label = label, rep_results = xs\<rparr>"
    using assms by (auto simp: run_benchmark_def ret_def elim!: bindM_OkE)
  show ?thesis using n xs(2) task_runs_recorded [OF xs(1)] by simp
qed

subsection \<open>The bundled suite always reports\<close>

text \<open>\<open>yields m Q\<close>: in every world the program returns normally, with a value in \<open>Q\<close>.\<close>

definition yields :: "('v, 'a) prog \<Rightarrow> ('a \<Rightarrow> bool) \<Rightarrow> bool" where
  "yields m Q \<longleftrightarrow> (\<forall>w. \<exists>x w'. m w = (Ok x, w') \<and> Q x)"

lemma yields_ret: "Q x \<Longrightarrow> yields (ret x) Q"
  by (simp add: yields_def ret_def)

lemma yields_bind: "yields m R \<Longrightarrow> (\<And>x. R x \<Longrightarrow> yields (k x) Q) \<Longrightarrow> yields (bindM m k) Q"
proof -
  assume m: "yields m R" and k: "\<And>x. R x \<Longrightarrow> yields (k x) Q"
  show ?thesis unfolding yields_def
  proof
    fix w
    obtain x w1 where 1: "m w = (Ok x, w1)" "R x" using m unfolding yields_def by blast
    obtain y w2 where "k x w1 = (Ok y, w2)" "Q y" using k [OF 1(2)] unfolding yields_def by blast
    then show "\<exists>y w2. bindM m k w = (Ok y, w2) \<and> Q y" using 1(1) by (simp add: bindM_def)
  qed
qed

lemma yields_bind_sum: "y = Inr x \<Longrightarrow> yields (k x) Q \<Longrightarrow> yields (bindM (\<lambda>w. (lift_sum y, w)) k) Q"
  by (simp add: yields_def bindM_def)

lemma yields_tick: "yields (tick io) (\<lambda>_. True)"
  by (auto simp: yields_def tick_def split: prod.splits)

lemma yields_run:
  assumes "valid_config (snd c)" "inj (uid (fst c))" "silent (fst c)"
    "\<And>r w. fst (run (fst c) (snd c) task w) = Ok r \<Longrightarrow> Q r"
  shows "yields (controller_run c task) Q"
  unfolding yields_def
proof
  fix w
  obtain r s where run: "run (fst c) (snd c) task w = (r, s)" by fastforce
  obtain x where "r = Ok x" using run_silent_Ok [OF assms(1-3), of task w] run by auto
  then show "\<exists>x w'. controller_run c task w = (Ok x, w') \<and> Q x"
    using run assms(4) [of w x] by (simp add: controller_run_def)
qed

text \<open>The task that \<open>sequence_task\<close> returns.\<close>

definition sequence_bench :: "'w platform \<Rightarrow> string list \<Rightarrow> 'w plant bench_task" where
  "sequence_bench pf words =
     \<lparr>task_name = ''sequence-'' @ str_int (int (length words)) @ ''-'' @ py_join ''-'' (map (\<lambda>t. [hd t]) words),
      task_statement = TASK_STATEMENT, task_build = sequence_build pf words,
      config_overrides = [Set_depth (int (length words)), Set_branching (int (length VOCABULARY))],
      expected_solution = Some (py_join '' '' words)\<rparr>"

lemma sequence_task_Inr: "sequence_task pf words = Inr t \<longleftrightarrow> [] \<notin> set words \<and> t = sequence_bench pf words"
  by (auto simp: sequence_task_def sequence_bench_def)

lemma sequence_suite_Inr: "\<forall>g\<in>set gs. [] \<notin> set g \<Longrightarrow> sequence_suite pf gs = Inr (map (sequence_bench pf) gs)"
  by (induction gs) (simp_all add: sequence_task_def sequence_bench_def)

lemma default_suite_Inr: "default_suite pf = Inr (map (sequence_bench pf) DEFAULT_TARGETS)"
  unfolding default_suite_def by (rule sequence_suite_Inr) (simp add: DEFAULT_TARGETS_def)

definition sized_words :: "string list \<Rightarrow> bool" where
  "sized_words g \<longleftrightarrow> 1 \<le> length g \<and> length g \<le> 256"

lemma default_sized: "\<forall>g\<in>set DEFAULT_TARGETS. sized_words g"
  by (simp add: DEFAULT_TARGETS_def sized_words_def)

definition sequence_config :: "search_config \<Rightarrow> string list \<Rightarrow> search_config" where
  "sequence_config cfg g = cfg\<lparr>max_depth := int (length g), branching_factor := 4\<rparr>"

lemma sequence_resolved:
  assumes "valid_config cfg" "sized_words g"
  shows "resolve_config (sequence_bench pf g) cfg = Inr (sequence_config cfg g)"
    "\<exists>c. seeded (sequence_config cfg g) k = Inr c \<and> valid_config c \<and> max_iterations c = max_iterations cfg \<and> branching_factor c = 4"
proof -
  have v: "check_config (sequence_config cfg g) = Inr (sequence_config cfg g)"
    using assms by (simp add: valid_config_def check_config_Inr sequence_config_def sized_words_def)
  then show "resolve_config (sequence_bench pf g) cfg = Inr (sequence_config cfg g)"
    by (simp add: resolve_config_def sequence_bench_def sequence_config_def VOCABULARY_def)
  have "check_config ((sequence_config cfg g)\<lparr>seed := s\<rparr>) = Inr ((sequence_config cfg g)\<lparr>seed := s\<rparr>)" for s
    using v by (simp add: check_config_Inr)
  then show "\<exists>c. seeded (sequence_config cfg g) k = Inr c \<and> valid_config c \<and> max_iterations c = max_iterations cfg \<and> branching_factor c = 4"
    using v by (cases "seed (sequence_config cfg g)") (simp_all add: seeded_def valid_config_def sequence_config_def)
qed

text \<open>What a line of the bundled suite's report satisfies.\<close>

definition within_limits :: "search_config \<Rightarrow> task_result \<Rightarrow> bool" where
  "within_limits cfg x \<longleftrightarrow> 0 \<le> tr_iterations x \<and> tr_iterations x \<le> max_iterations cfg \<and> tr_nodes x \<le> 1 + 4 * tr_iterations x
     \<and> tr_tokens x = None \<and> (\<not> tr_solved x \<or> tr_outcome x = ''succeeded'')"

lemma yields_sequence_run:
  assumes "inj (node_uid pf)" "valid_config c" "max_iterations c = max_iterations cfg" "branching_factor c = 4"
  shows "yields (one_run io None label (sequence_bench pf g) c) (within_limits cfg)"
proof -
  define su where "su = \<lparr>setup_controller = (bare_env pf c (puzzle_generate VOCABULARY) (terminal_evaluate g), c),
    setup_usage = None :: ('a plant \<Rightarrow> token_usage) option\<rparr>"
  have build: "yields (lift_call (task_build (sequence_bench pf g) c)) (\<lambda>x. x = su)"
    by (simp add: yields_def lift_call_def sequence_bench_def sequence_build_def su_def)
  have run: "yields (controller_run (setup_controller su) task)
      (\<lambda>r. 0 \<le> iterations r \<and> iterations r \<le> max_iterations cfg \<and> node_count r \<le> 1 + 4 * iterations r)" for task
  proof (rule yields_run)
    show "valid_config (snd (setup_controller su))" "inj (uid (fst (setup_controller su)))" "silent (fst (setup_controller su))"
      using assms(1,2) by (simp_all add: su_def bare_env_def silent_def)
    fix r w assume "fst (run (fst (setup_controller su)) (snd (setup_controller su)) task w) = Ok r"
    from run_bound_facts [OF \<open>valid_config (snd (setup_controller su))\<close> \<open>inj (uid (fst (setup_controller su)))\<close> this]
    show "0 \<le> iterations r \<and> iterations r \<le> max_iterations cfg \<and> node_count r \<le> 1 + 4 * iterations r"
      using assms(3,4) by (simp add: su_def mult.commute)
  qed
  have tokens: "yields (read_tokens su) (\<lambda>n. n = None)" by (simp add: yields_def read_tokens_def su_def)
  have saved: "yields (save_result io None label nm sd r) (\<lambda>_. True)" for nm sd r
    by (simp add: yields_def save_result_def ret_def)
  show ?thesis
    unfolding one_run_def
    by (rule yields_bind [OF build], rule yields_bind [OF yields_tick], hypsubst, rule yields_bind [OF run],
        rule yields_bind [OF yields_tick], rule yields_bind [OF tokens], rule yields_bind [OF saved], rule yields_ret)
      (simp add: within_limits_def record_result_def is_solved_by_def split: if_splits)
qed

lemma yields_repeats:
  assumes "inj (node_uid pf)" "valid_config cfg" "sized_words g"
  shows "yields (repeat_runs io None label (sequence_bench pf g) (sequence_config cfg g) ks) (\<lambda>xs. length xs = length ks \<and> list_all (within_limits cfg) xs)"
proof (induction ks)
  case (Cons k ks)
  obtain c where c: "seeded (sequence_config cfg g) (int k) = Inr c" "valid_config c" "max_iterations c = max_iterations cfg" "branching_factor c = 4"
    using sequence_resolved(2) [OF assms(2,3)] by blast
  show ?case unfolding repeat_runs.simps
    by (rule yields_bind_sum [OF c(1)],
        rule yields_bind [OF yields_sequence_run [OF assms(1) c(2-4)]], rule yields_bind [OF Cons], rule yields_ret) simp
qed (simp add: yields_ret)

lemma yields_tasks:
  assumes "inj (node_uid pf)" "valid_config cfg"
  shows "\<forall>g\<in>set gs. sized_words g \<Longrightarrow> yields (task_runs io None label cfg n (map (sequence_bench pf) gs))
     (\<lambda>xs. length xs = length gs * nat n \<and> list_all (within_limits cfg) xs)"
proof (induction gs)
  case (Cons g gs)
  have g: "sized_words g" using Cons.prems by simp
  have IH: "yields (task_runs io None label cfg n (map (sequence_bench pf) gs)) (\<lambda>xs. length xs = length gs * nat n \<and> list_all (within_limits cfg) xs)"
    by (rule Cons.IH) (use Cons.prems in simp)
  show ?case unfolding list.map task_runs.simps
    by (rule yields_bind_sum [OF sequence_resolved(1) [OF assms(2) g]],
        rule yields_bind [OF yields_repeats [OF assms g]], rule yields_bind [OF IH], rule yields_ret) simp
qed (simp add: yields_ret)

lemma default_benchmark_facts:
  assumes "valid_config cfg" "inj (node_uid pf)" "1 \<le> n"
  shows "\<exists>rp w'. run_benchmark pf io cfg None label n None w = (Ok rp, w') \<and> rep_label rp = label
     \<and> rep_runs rp = 6 * n \<and> list_all (within_limits cfg) (rep_results rp)"
proof -
  have "yields (task_runs io None label cfg n (map (sequence_bench pf) DEFAULT_TARGETS))
      (\<lambda>xs. length xs = length DEFAULT_TARGETS * nat n \<and> list_all (within_limits cfg) xs)"
    by (rule yields_tasks [OF assms(2,1) default_sized])
  then obtain xs w' where "task_runs io None label cfg n (map (sequence_bench pf) DEFAULT_TARGETS) w = (Ok xs, w')"
    "length xs = length DEFAULT_TARGETS * nat n" "list_all (within_limits cfg) xs" unfolding yields_def by blast
  moreover have "length DEFAULT_TARGETS = 6" by (simp add: DEFAULT_TARGETS_def)
  ultimately show ?thesis using assms(3)
    by (simp add: run_benchmark_def default_suite_Inr bindM_def ret_def rep_runs_def)
qed

subsection \<open>The aggregates\<close>

abbreviation outcome_table :: "task_result list \<Rightarrow> (string \<times> int) list" where
  "outcome_table xs \<equiv> foldl (\<lambda>d x. add_at (tr_outcome x) 1 d) [] xs"

lemma outcome_counts_facts:
  "distinct (map fst (outcome_table xs)) \<and> sum_list (map snd (outcome_table xs)) = int (length xs)
   \<and> (\<forall>k. map_of (outcome_table xs) k = (let n = int (length (filter (\<lambda>x. tr_outcome x = k) xs)) in if n = 0 then None else Some n))"
proof (induction xs rule: rev_induct)
  case (snoc x xs)
  have "map_of (add_at (tr_outcome x) 1 (outcome_table xs)) k
      = (let n = int (length (filter (\<lambda>x. tr_outcome x = k) (xs @ [x]))) in if n = 0 then None else Some n)" for k
    using snoc by (auto simp: add_at_def update_conv Let_def)
  then show ?case using snoc by (simp add: distinct_add_at sum_int_add_at)
qed simp

lemma mean_unit: "unit_value (fdiv (py_float_of_int (int (length (filter P xs)))) (py_float_of_int (int (length xs))))" if "xs \<noteq> []"
  using that by (simp add: unit_value_def py_float_of_int_def divide_le_eq)

lemma map_filter_Nil: "List.map_filter f xs = [] \<longleftrightarrow> (\<forall>x\<in>set xs. f x = None)"
  by (induction xs) (simp_all add: List.map_filter_simps split: option.splits)

text \<open>The aggregates of a report add up, whatever runs it holds: the solved runs are among the runs and their rate
  lies in the unit interval; the outcome table names every outcome once, with exactly the number of runs that ended so,
  and its counts sum to the number of runs; and the token total is missing exactly when no run counted tokens.\<close>

theorem report_adds_up:
  "0 \<le> rep_solved r \<and> rep_solved r \<le> rep_runs r \<and> unit_value (solve_rate r)
   \<and> distinct (map fst (outcome_counts r)) \<and> sum_list (map snd (outcome_counts r)) = rep_runs r
   \<and> (\<forall>k. map_of (outcome_counts r) k
        = (let n = int (length (filter (\<lambda>x. tr_outcome x = k) (rep_results r))) in if n = 0 then None else Some n))
   \<and> (rep_tokens r = None \<longleftrightarrow> set (map tr_tokens (rep_results r)) \<subseteq> {None})"
proof -
  note counts = outcome_counts_facts [of "rep_results r", folded outcome_counts_def]
  have "unit_value (solve_rate r)"
    using mean_unit [of "rep_results r" tr_solved]
    by (simp add: solve_rate_def rep_solved_def rep_runs_def) (simp add: unit_value_def float_consts)
  moreover have "rep_tokens r = None \<longleftrightarrow> set (map tr_tokens (rep_results r)) \<subseteq> {None}"
    by (auto simp: rep_tokens_def Let_def map_filter_Nil)
  ultimately show ?thesis using counts by (simp add: rep_solved_def rep_runs_def)
qed

text \<open>C38: A benchmark report stands for real runs. When \<open>run_benchmark\<close> reports, every repeat was wanted at least once, and the report holds
  one result per task and repeat, in that order; each is the outcome, iteration count and node count of a run of that task's
  own controller under the task's configuration with the seed moved by the repeat; and it counts as solved exactly when
  that run succeeded and returned the expected text, where one is known.\<close>

theorem benchmark_records_runs:
  assumes "run_benchmark pf io cfg (Some ts) label n dir w = (Ok rp, w')"
  shows "0 < n \<and> rep_label rp = label \<and> list_all2 (\<lambda>(t, k). recorded t cfg k) (List.product ts [0..<nat n]) (rep_results rp)"
  by (rule run_benchmark_recorded [OF assms])

text \<open>C39: The bundled suite always produces a report: for every valid base configuration and at least one repeat,
  \<open>run_benchmark\<close> returns normally in every world with six results per repeat, none above the iteration budget, each with
  at most four new nodes per iteration and no token count, and only succeeded runs counted as solved.\<close>

theorem default_benchmark_completes:
  assumes "valid_config cfg" "inj (node_uid pf)" "1 \<le> n"
  shows "\<exists>rp w'. run_benchmark pf io cfg None label n None w = (Ok rp, w') \<and> rep_label rp = label
     \<and> rep_runs rp = 6 * n \<and> list_all (within_limits cfg) (rep_results rp)"
  by (rule default_benchmark_facts [OF assms])

definition sample_bench_io :: "unit plant bench_io" where
  "sample_bench_io = \<lparr>perf_counter = Pair 0, iso_now = Pair [], bench_dumps = (\<lambda>v. Inr []), bench_write = (\<lambda>p t w. Inr w)\<rparr>"

lemma sample_uid_inj: "inj (node_uid sample_platform)"
  using sample_inj by (simp add: sample_platform_def)

theorem default_benchmark_completes_witness:
  "\<exists>rp w'. run_benchmark sample_platform sample_bench_io default_config None ''run'' 2 None sample_plant = (Ok rp, w') \<and> rep_runs rp = 12"
  using default_benchmark_completes [OF valid_default_config sample_uid_inj, of 2] by fastforce

theorem benchmark_records_runs_witness:
  "\<exists>rp w'. run_benchmark sample_platform sample_bench_io default_config (Some (map (sequence_bench sample_platform) DEFAULT_TARGETS)) ''run'' 2 None sample_plant
       = (Ok rp, w')
     \<and> list_all2 (\<lambda>(t, k). recorded t default_config k)
         (List.product (map (sequence_bench sample_platform) DEFAULT_TARGETS) [0..<2]) (rep_results rp)"
proof -
  obtain rp w' where r: "run_benchmark sample_platform sample_bench_io default_config None ''run'' 2 None sample_plant = (Ok rp, w')"
    using default_benchmark_facts [OF valid_default_config sample_uid_inj, of 2] by fastforce
  then have "run_benchmark sample_platform sample_bench_io default_config (Some (map (sequence_bench sample_platform) DEFAULT_TARGETS)) ''run'' 2 None
      sample_plant = (Ok rp, w')" by (simp add: run_benchmark_def default_suite_Inr bindM_def)
  from this benchmark_records_runs [OF this] show ?thesis by (intro exI [of _ rp] exI [of _ w']) simp
qed

subsection \<open>Solutions of the hidden-sequence domain\<close>

text \<open>C40: A sequence task cannot be passed by a wrong answer. Under every configuration the task accepts, a run of its
  controller that reports a solution has found exactly the hidden words in their order; written with single blanks that
  text is the expected one, so the run counts as solved.\<close>

theorem sequence_solution_exact:
  assumes "sequence_task pf words = Inr t" "resolve_config t base = Inr cfg" "inj (node_uid pf)"
    "fst (task_build t cfg p) = Inr su" "fst (run (fst (setup_controller su)) (snd (setup_controller su)) (task_statement t) q) = Ok r"
    "solution r = Some s"
  shows "py_split s = words \<and> outcome r = OUT_SUCCEEDED \<and> (py_join '' '' (py_split s) = s \<longrightarrow> is_solved_by t True (solution r))"
proof -
  have t: "t = sequence_bench pf words" using assms(1) by (simp add: sequence_task_Inr)
  have su: "setup_controller su = (bare_env pf cfg (puzzle_generate VOCABULARY) (terminal_evaluate words), cfg)"
    using assms(4) by (auto simp: t sequence_bench_def sequence_build_def)
  have v: "valid_config cfg" using assms(2) by (auto simp: resolve_config_def valid_config_def check_config_Inr)
  have ok: "py_split s = words"
    by (rule terminal_puzzle.solution_is_goal [OF v, of "fst (setup_controller su)" words "task_statement t" q r s])
      (use assms(3,5,6) su in \<open>simp_all add: bare_env_def\<close>)
  moreover have "outcome r = OUT_SUCCEEDED" using assms(6) by (simp add: solution_def split: if_splits)
  moreover have "expected_solution t = Some (py_join '' '' words)" by (simp add: t sequence_bench_def)
  ultimately show ?thesis using assms(6) by (auto simp: is_solved_by_def)
qed

text \<open>The task of one word, solved in the first iteration.\<close>

lemma north_words: "map (\<lambda>token. py_strip (CHR '' '' # token)) VOCABULARY = VOCABULARY"
  "py_strip ''north'' = ''north''" "py_strip ''south'' = ''south''" "py_strip ''east'' = ''east''" "py_strip ''west'' = ''west''"
  by code_simp+

lemma north_verdicts:
  "terminal_verdict [''north''] ''north'' = Inr \<lparr>ev_score = 1, ev_is_terminal = True, ev_rationale = ''exact match''\<rparr>"
  "terminal_verdict [''north''] ''south'' = Inr \<lparr>ev_score = 0, ev_is_terminal = True, ev_rationale = ''wrong sequence''\<rparr>"
  "terminal_verdict [''north''] ''east'' = Inr \<lparr>ev_score = 0, ev_is_terminal = True, ev_rationale = ''wrong sequence''\<rparr>"
  "terminal_verdict [''north''] ''west'' = Inr \<lparr>ev_score = 0, ev_is_terminal = True, ev_rationale = ''wrong sequence''\<rparr>"
  by (simp_all add: terminal_verdict_def py_split_def py_space_def py_ord_def make_evaluation_def float_consts)

lemma north_generated: "is_root (h ! a) \<Longrightarrow> puzzle_generate VOCABULARY w h a 4 = (Inr [''north'', ''south'', ''east'', ''west''], w)"
  using north_words(1) by (simp add: puzzle_generate_def slice_to_def VOCABULARY_def)

lemma north_success:
  "\<exists>r. fst (run (bare_env sample_platform (sequence_config default_config [''north'']) (puzzle_generate VOCABULARY) (terminal_evaluate [''north'']))
      (sequence_config default_config [''north'']) TASK_STATEMENT sample_plant) = Ok r \<and> solution r = Some ''north''"
  by (simp add: run_eval bare_env_def sequence_config_def solution_def terminal_evaluate_def north_verdicts north_words north_generated
      is_root_def sample_platform_def outside_def sample_plant_def del: py_strip_def)

theorem sequence_solution_exact_witness:
  "\<exists>t cfg su r. sequence_task sample_platform [''north''] = Inr t \<and> resolve_config t default_config = Inr cfg
     \<and> fst (task_build t cfg sample_plant) = Inr su
     \<and> fst (run (fst (setup_controller su)) (snd (setup_controller su)) (task_statement t) sample_plant) = Ok r
     \<and> solution r = Some ''north'' \<and> outcome r = OUT_SUCCEEDED"
proof -
  define su where "su = \<lparr>setup_controller = (bare_env sample_platform (sequence_config default_config [''north'']) (puzzle_generate VOCABULARY)
    (terminal_evaluate [''north'']), sequence_config default_config [''north'']), setup_usage = None :: (unit plant \<Rightarrow> token_usage) option\<rparr>"
  have t: "sequence_task sample_platform [''north''] = Inr (sequence_bench sample_platform [''north''])" by (simp add: sequence_task_Inr)
  have c: "resolve_config (sequence_bench sample_platform [''north'']) default_config = Inr (sequence_config default_config [''north''])"
    by (rule sequence_resolved(1) [OF valid_default_config]) (simp add: sized_words_def)
  have b: "fst (task_build (sequence_bench sample_platform [''north'']) (sequence_config default_config [''north'']) sample_plant) = Inr su"
    by (simp add: sequence_bench_def sequence_build_def su_def)
  have st: "task_statement (sequence_bench sample_platform [''north'']) = TASK_STATEMENT" by (simp add: sequence_bench_def)
  obtain r where r: "fst (run (fst (setup_controller su)) (snd (setup_controller su)) (task_statement (sequence_bench sample_platform [''north'']))
      sample_plant) = Ok r" "solution r = Some ''north''" using north_success unfolding su_def st by auto
  have "outcome r = OUT_SUCCEEDED" using sequence_solution_exact [OF t c sample_uid_inj b r] by blast
  then show ?thesis using t c b r by blast
qed

end
