(* ===== verification/Benchmark_Llm.thy ===== *)
theory Benchmark_Llm
  imports Benchmark_Theorems Command_Line
begin

section \<open>Benchmark tasks over the model stack and the benchmark command (benchmark/llm\_tasks.py, benchmark/run.py)\<close>

text \<open>
  The coding problems, the task that wires the model stack around one of them, the suites over a live and over a scripted
  client, and what the command does with its arguments: which suite it selects, which configurations it measures and
  compares, in which order it runs them. Its printing and its JSON file are not modelled.
\<close>

subsection \<open>Coding problems\<close>

record coding_problem =
  problem_name :: string
  problem_statement :: string
  problem_harness :: string
  reference_code :: string
  broken_codes :: "string list"

definition clamp_problem :: coding_problem where
  "clamp_problem = \<lparr>problem_name = ''clamp'',
     problem_statement = ''Implement clamp(value, low, high), returning value limited to the closed range [low, high].'',
     problem_harness = py_join newline
       [[],
        ''assert clamp(5, 0, 10) == 5'',
        ''assert clamp(-3, 0, 10) == 0'',
        ''assert clamp(42, 0, 10) == 10'',
        ''assert clamp(7, 7, 7) == 7'',
        []],
     reference_code = py_join newline
       [[],
        ''def clamp(value, low, high):'',
        ''    return max(low, min(value, high))'',
        []],
     broken_codes =
       [py_join newline
         [[],
          ''def clamp(value, low, high):'',
          ''    return min(value, high)'',
          []],
        py_join newline
         [[],
          ''def clamp(value, low, high):'',
          ''    return max(low, value)'',
          []]]\<rparr>"

definition run_length_encode_problem :: coding_problem where
  "run_length_encode_problem = \<lparr>problem_name = ''run-length-encode'',
     problem_statement = ''Implement encode(text) returning the run-length encoding of text as each run's length followed ''
       @ ''by its character, e.g. encode('aaab') == '3a1b'.'',
     problem_harness = py_join newline
       [[],
        ''assert encode(\"\") == \"\"'',
        ''assert encode(\"a\") == \"1a\"'',
        ''assert encode(\"aaab\") == \"3a1b\"'',
        ''assert encode(\"aabaa\") == \"2a1b2a\"'',
        ''assert encode(\"zzzzzzzzzzzz\") == \"12z\"'',
        []],
     reference_code = py_join newline
       [[],
        ''def encode(text):'',
        ''    out = []'',
        ''    i = 0'',
        ''    while i < len(text):'',
        ''        j = i'',
        ''        while j < len(text) and text[j] == text[i]:'',
        ''            j += 1'',
        ''        out.append(f\"{j - i}{text[i]}\")'',
        ''        i = j'',
        ''    return \"\".join(out)'',
        []],
     broken_codes =
       [py_join newline
         [[],
          ''def encode(text):'',
          ''    return \"\".join(f\"{text.count(c)}{c}\" for c in dict.fromkeys(text))'',
          []],
        py_join newline
         [[],
          ''def encode(text):'',
          ''    out, count = [], 1'',
          ''    for prev, cur in zip(text, text[1:]):'',
          ''        if cur == prev:'',
          ''            count += 1'',
          ''        else:'',
          ''            out.append(f\"{count}{prev}\")'',
          ''            count = 1'',
          ''    return \"\".join(out)'',
          []]]\<rparr>"

definition balanced_brackets_problem :: coding_problem where
  "balanced_brackets_problem = \<lparr>problem_name = ''balanced-brackets'',
     problem_statement = ''Implement is_balanced(text) returning True when every (, [ and { in text is closed by the ''
       @ ''matching bracket in the right order; other characters are ignored.'',
     problem_harness = py_join newline
       [[],
        ''assert is_balanced(\"\")'',
        ''assert is_balanced(\"(a[b]{c})\")'',
        ''assert not is_balanced(\"(]\")'',
        ''assert not is_balanced(\"([)]\")'',
        ''assert not is_balanced(\"((\")'',
        ''assert not is_balanced(\")(\")'',
        []],
     reference_code = py_join newline
       [[],
        ''def is_balanced(text):'',
        ''    pairs = {\")\": \"(\", \"]\": \"[\", \"}\": \"{\"}'',
        ''    stack = []'',
        ''    for char in text:'',
        ''        if char in \"([{\":'',
        ''            stack.append(char)'',
        ''        elif char in pairs:'',
        ''            if not stack or stack.pop() != pairs[char]:'',
        ''                return False'',
        ''    return not stack'',
        []],
     broken_codes =
       [py_join newline
         [[],
          ''def is_balanced(text):'',
          ''    return all(text.count(o) == text.count(c) for o, c in (\"()\", \"[]\", \"{}\"))'',
          []],
        py_join newline
         [[],
          ''def is_balanced(text):'',
          ''    pairs = {\")\": \"(\", \"]\": \"[\", \"}\": \"{\"}'',
          ''    stack = []'',
          ''    for char in text:'',
          ''        if char in \"([{\":'',
          ''            stack.append(char)'',
          ''        elif char in pairs:'',
          ''            if not stack or stack.pop() != pairs[char]:'',
          ''                return False'',
          ''    return True'',
          []]]\<rparr>"

definition merge_intervals_problem :: coding_problem where
  "merge_intervals_problem = \<lparr>problem_name = ''merge-intervals'',
     problem_statement = ''Implement merge(intervals) taking a list of [start, end] pairs and returning the sorted list of ''
       @ ''merged, non-overlapping intervals; touching intervals such as [1, 2] and [2, 3] merge.'',
     problem_harness = py_join newline
       [[],
        ''assert merge([]) == []'',
        ''assert merge([[1, 3], [2, 6], [8, 10]]) == [[1, 6], [8, 10]]'',
        ''assert merge([[8, 10], [1, 3]]) == [[1, 3], [8, 10]]'',
        ''assert merge([[1, 2], [2, 3]]) == [[1, 3]]'',
        ''assert merge([[1, 10], [2, 3]]) == [[1, 10]]'',
        []],
     reference_code = py_join newline
       [[],
        ''def merge(intervals):'',
        ''    merged = []'',
        ''    for start, end in sorted(intervals):'',
        ''        if merged and start <= merged[-1][1]:'',
        ''            merged[-1][1] = max(merged[-1][1], end)'',
        ''        else:'',
        ''            merged.append([start, end])'',
        ''    return merged'',
        []],
     broken_codes =
       [py_join newline
         [[],
          ''def merge(intervals):'',
          ''    merged = []'',
          ''    for start, end in intervals:'',
          ''        if merged and start <= merged[-1][1]:'',
          ''            merged[-1][1] = max(merged[-1][1], end)'',
          ''        else:'',
          ''            merged.append([start, end])'',
          ''    return merged'',
          []],
        py_join newline
         [[],
          ''def merge(intervals):'',
          ''    merged = []'',
          ''    for start, end in sorted(intervals):'',
          ''        if merged and start <= merged[-1][1]:'',
          ''            merged[-1][1] = end'',
          ''        else:'',
          ''            merged.append([start, end])'',
          ''    return merged'',
          []]]\<rparr>"


definition CODING_PROBLEMS :: "coding_problem list" where
  "CODING_PROBLEMS = [clamp_problem, run_length_encode_problem, balanced_brackets_problem, merge_intervals_problem]"

subsection \<open>The scripted model\<close>

definition as_candidate :: "string \<Rightarrow> string \<Rightarrow> string" where
  "as_candidate description code = description @ newline @ ''```python'' @ newline @ py_strip code @ newline @ ''```''"

definition scripted_responder :: "coding_problem \<Rightarrow> 'w responder" where
  "scripted_responder prob w rq =
     (let first_wave = concat (map (\<lambda>code. ''### CANDIDATE'' @ newline @ as_candidate ''Initial attempt.'' code @ newline) (broken_codes prob));
          revised = ''### CANDIDATE'' @ newline @ as_candidate ''Revised after critique.'' (reference_code prob) @ newline
      in (Inr (Inl (if py_contains ''REVISION NOTES'' (msg_content (last (messages rq))) then revised else first_wave)), w))"

text \<open>The client of a run; it keeps its requests in a list that nothing reads.\<close>

definition scripted_client :: "coding_problem \<Rightarrow> 'w llm" where
  "scripted_client prob w rq = (case scripted_complete (scripted_responder prob) ''scripted'' ([], w) rq of (r, made, w1) \<Rightarrow> (r, w1))"

subsection \<open>Tasks\<close>

text \<open>\<open>executor if executor is not None else select_executor()[0]\<close>.\<close>

definition task_executor :: "'w platform \<Rightarrow> 'w plant executor option \<Rightarrow> 'w plant \<Rightarrow> (exn + 'w plant executor) \<times> 'w plant" where
  "task_executor pf given_executor p = (case given_executor of
       Some f \<Rightarrow> (Inr f, p)
     | None \<Rightarrow> (case choose_backend pf p of (Inl e, p1) \<Rightarrow> (Inl e, p1) | (Inr b, p1) \<Rightarrow> (Inr (backend_execute pf b), p1)))"

text \<open>
  \<open>build\<close> of \<open>llm_task\<close>: a new client and a new tally, the shared store outside the accounting when there is one, and the
  shipped policies without a stop condition. The client factory only constructs.
\<close>

definition llm_build ::
  "'w platform \<Rightarrow> coding_problem \<Rightarrow> (exn + 'w llm) \<Rightarrow> pyfloat \<Rightarrow> bool \<Rightarrow> 'w plant executor option \<Rightarrow> int \<Rightarrow>
   search_config \<Rightarrow> 'w plant \<Rightarrow> (exn + 'w plant task_setup) \<times> 'w plant" where
  "llm_build pf prob new_client temp with_cache given_executor attempts cfg p = (case new_client of
       Inl e \<Rightarrow> (Inl e, p)
     | Inr inner \<Rightarrow>
         (let cl = (if with_cache then cached (accounted inner) else accounted inner)
          in (case task_executor pf given_executor (p\<lparr>tally := no_usage\<rparr>) of
                (Inl e, p1) \<Rightarrow> (Inl e, p1)
              | (Inr exec, p1) \<Rightarrow>
                  (sum_bind (wire_controller pf cfg (llm_generator pf cl temp) exec (problem_harness prob)
                     (execution_critique (show_value pf)) attempts None)
                     (\<lambda>c. Inr \<lparr>setup_controller = c, setup_usage = Some tally\<rparr>), p1))))"

definition llm_task ::
  "'w platform \<Rightarrow> coding_problem \<Rightarrow> (exn + 'w llm) \<Rightarrow> pyfloat \<Rightarrow> bool \<Rightarrow> 'w plant executor option \<Rightarrow> int \<Rightarrow> 'w plant bench_task" where
  "llm_task pf prob new_client temp with_cache given_executor attempts =
     \<lparr>task_name = ''llm-'' @ problem_name prob, task_statement = problem_statement prob,
      task_build = llm_build pf prob new_client temp with_cache given_executor attempts,
      config_overrides = [Set_depth 1, Set_branching 3], expected_solution = None\<rparr>"

definition llm_suite ::
  "'w platform \<Rightarrow> (exn + 'w llm) \<Rightarrow> pyfloat \<Rightarrow> bool \<Rightarrow> coding_problem list \<Rightarrow> 'w plant executor option \<Rightarrow> 'w plant bench_task list" where
  "llm_suite pf new_client temp with_cache probs given_executor =
     map (\<lambda>prob. llm_task pf prob new_client temp with_cache given_executor 1) probs"

definition offline_llm_suite ::
  "'w platform \<Rightarrow> bool \<Rightarrow> pyfloat \<Rightarrow> coding_problem list \<Rightarrow> 'w plant executor option \<Rightarrow> 'w plant bench_task list" where
  "offline_llm_suite pf with_cache temp probs given_executor =
     map (\<lambda>prob. llm_task pf prob (Inr (scripted_client prob)) temp with_cache given_executor 1) probs"

subsection \<open>The command\<close>

datatype suite_choice = Synthetic | Llm_Offline | Llm_Live

record bench_args =
  arg_suite :: suite_choice
  bench_base_url :: "string option"
  bench_model :: "string option"
  bench_temperature :: "pyfloat option"
  bench_cache :: bool
  arg_budgets :: "int list"
  arg_repeats :: int
  arg_seed :: int
  arg_exploration :: pyfloat
  compare_exploration :: "pyfloat option"
  arg_workers :: int
  bench_archive :: "string option"

definition bench_defaults :: bench_args where
  "bench_defaults = \<lparr>arg_suite = Synthetic, bench_base_url = None, bench_model = None, bench_temperature = None, bench_cache = False,
     arg_budgets = [10, 40, 120], arg_repeats = 1, arg_seed = 7, arg_exploration = exploration_weight default_config,
     compare_exploration = None, arg_workers = 1, bench_archive = None\<rparr>"

definition bench_missing :: "bench_args \<Rightarrow> string list" where
  "bench_missing a = map fst (filter (\<lambda>(name, v). \<not> given v) [(''--base-url'', bench_base_url a), (''--model'', bench_model a)])"

text \<open>
  \<open>select_tasks\<close>: the tasks, and whether a completion cache is shared (then a new one). The key is the value of the
  environment variable; an empty one counts as none.
\<close>

definition select_tasks :: "'w platform \<Rightarrow> string option \<Rightarrow> bench_args \<Rightarrow> 'w plant \<Rightarrow> (exn + 'w plant bench_task list \<times> bool) \<times> 'w plant" where
  "select_tasks pf key a p =
     (if arg_suite a = Synthetic then
        (if bench_temperature a \<noteq> None \<or> bench_cache a
         then (Inl (system_exit ''--temperature/--cache-completions need an LLM suite''), p)
         else (sum_bind (default_suite pf) (\<lambda>ts. Inr (ts, False)), p))
      else if (case bench_temperature a of None \<Rightarrow> False | Some t \<Rightarrow> \<not> in_temperature_range t)
        then (Inl (system_exit ''--temperature must lie within [0.0, 2.0]''), p)
      else
        (let p1 = (if bench_cache a then p\<lparr>store := fresh_store\<rparr> else p) in
         if arg_suite a = Llm_Offline then
           (Inr (offline_llm_suite pf (bench_cache a) (case bench_temperature a of None \<Rightarrow> 0 | Some t \<Rightarrow> t) CODING_PROBLEMS None, bench_cache a), p1)
         else if bench_missing a \<noteq> [] then (Inl (system_exit (''--suite llm requires '' @ py_join '', '' (bench_missing a))), p1)
         else
           (Inr (llm_suite pf (endpoint_client pf (the (bench_base_url a)) (the (bench_model a)) (either key None))
              (case bench_temperature a of None \<Rightarrow> Fin 0.7 | Some t \<Rightarrow> t) (bench_cache a) CODING_PROBLEMS None, bench_cache a), p1)))"

definition check_bench_args :: "bench_args \<Rightarrow> exn + unit" where
  "check_bench_args a =
     (if arg_repeats a < 1 then Inl (system_exit ''--repeats must be a positive integer'')
      else if arg_workers a < 1 then Inl (system_exit ''--workers must be a positive integer'')
      else if \<exists>b\<in>set (arg_budgets a). b < 1 then Inl (system_exit ''--budgets must all be positive integers'')
      else Inr ())"

definition base_config :: "bench_args \<Rightarrow> exn + search_config" where
  "base_config a = check_config (default_config\<lparr>seed := Some (arg_seed a), exploration_weight := arg_exploration a,
     evaluation_workers := arg_workers a\<rparr>)"

text \<open>The head-to-head comparison at the last budget.\<close>

definition comparison ::
  "'w platform \<Rightarrow> 'w plant bench_io \<Rightarrow> bench_args \<Rightarrow> search_config \<Rightarrow> 'w plant bench_task list \<Rightarrow> ('w plant, bench_report list) prog" where
  "comparison pf io a base tasks = (case compare_exploration a of
       None \<Rightarrow> ret []
     | Some x \<Rightarrow>
         bindM (\<lambda>w. (lift_sum (check_config (base\<lparr>max_iterations := last (arg_budgets a)\<rparr>)), w)) (\<lambda>c1.
         bindM (run_benchmark pf io c1 (Some tasks) (''expl='' @ format_g (arg_exploration a)) (arg_repeats a) None) (\<lambda>baseline.
         bindM (\<lambda>w. (lift_sum (check_config (base\<lparr>max_iterations := last (arg_budgets a), exploration_weight := x\<rparr>)), w)) (\<lambda>c2.
         bindM (run_benchmark pf io c2 (Some tasks) (''expl='' @ format_g x) (arg_repeats a) None) (\<lambda>candidate.
         ret [baseline, candidate])))))"

text \<open>The runs that are only made to be archived; their reports are dropped.\<close>

fun archive_runs ::
  "'w platform \<Rightarrow> 'w plant bench_io \<Rightarrow> bench_args \<Rightarrow> search_config \<Rightarrow> 'w plant bench_task list \<Rightarrow> string \<Rightarrow> int list \<Rightarrow> ('w plant, unit) prog" where
  "archive_runs pf io a base tasks dir [] = ret ()"
| "archive_runs pf io a base tasks dir (b # bs) =
     bindM (\<lambda>w. (lift_sum (check_config (base\<lparr>max_iterations := b\<rparr>)), w)) (\<lambda>cfg.
     bindM (run_benchmark pf io cfg (Some tasks) (''budget='' @ str_int b) (arg_repeats a) (Some dir)) (\<lambda>_.
     archive_runs pf io a base tasks dir bs))"

text \<open>\<open>main\<close> without its output; the value is what the JSON file would list.\<close>

definition bench_main :: "'w platform \<Rightarrow> 'w plant bench_io \<Rightarrow> string option \<Rightarrow> bench_args \<Rightarrow> ('w plant, bench_report list) prog" where
  "bench_main pf io key a =
     bindM (\<lambda>w. (lift_sum (check_bench_args a), w)) (\<lambda>_.
     bindM (\<lambda>w. (lift_sum (base_config a), w)) (\<lambda>base.
     bindM (lift_call (select_tasks pf key a)) (\<lambda>(tasks, shared).
     bindM (scaling_curve pf io (arg_budgets a) (Some base) (Some tasks) (arg_repeats a)) (\<lambda>reports.
     bindM (comparison pf io a base tasks) (\<lambda>comparisons.
     bindM (case bench_archive a of None \<Rightarrow> ret () | Some dir \<Rightarrow> archive_runs pf io a base tasks dir (arg_budgets a)) (\<lambda>_.
     ret (reports @ comparisons)))))))"

subsection \<open>A solved problem has run\<close>

lemma llm_build_evaluate:
  assumes "fst (llm_build pf prob new_client temp with_cache given_executor attempts cfg p) = Inr su"
  obtains exec where "evaluate (fst (setup_controller su)) = code_evaluate (exec, default_code_evaluator\<lparr>harness := py_rstrip (problem_harness prob)\<rparr>)"
    "snd (setup_controller su) = cfg" "uid (fst (setup_controller su)) = node_uid pf"
    "\<And>f. given_executor = Some f \<Longrightarrow> exec = f"
proof -
  obtain inner where i: "new_client = Inr inner" using assms by (cases new_client) (auto simp: llm_build_def)
  obtain r p1 where x: "task_executor pf given_executor (p\<lparr>tally := no_usage\<rparr>) = (r, p1)" by fastforce
  obtain exec where e: "r = Inr exec" using assms i x by (cases r) (auto simp: llm_build_def Let_def)
  have g: "exec = f" if "given_executor = Some f" for f using x e that by (simp add: task_executor_def)
  have "evaluate (fst (setup_controller su)) = code_evaluate (exec, default_code_evaluator\<lparr>harness := py_rstrip (problem_harness prob)\<rparr>)
     \<and> snd (setup_controller su) = cfg \<and> uid (fst (setup_controller su)) = node_uid pf"
    using assms i x e
    by (auto simp: llm_build_def Let_def wire_controller_def sum_bind_Inr make_code_evaluator_def default_code_evaluator_def shipped_env_def
        split: if_splits)
  then show thesis using that g by blast
qed

text \<open>
  A coding task is passed only by code that ran: whatever the model answers, a solution of the task carries a payload
  which the executor ran with the problem's assertions appended, to completion and with exit code 0.
\<close>

theorem llm_task_sound:
  assumes "fst (task_build (llm_task pf prob new_client temp with_cache (Some exec) attempts) cfg p) = Inr su"
    "valid_config cfg" "inj (node_uid pf)"
    "fst (run (fst (setup_controller su)) (snd (setup_controller su)) (problem_statement prob) q) = Ok r" "solution r = Some s"
  shows "\<exists>payload rq w' x. extract_python_payload s = Some payload
     \<and> make_request (program_of (default_code_evaluator\<lparr>harness := py_rstrip (problem_harness prob)\<rparr>) payload) [] None = Inr rq
     \<and> fst (exec w' rq) = Inr x \<and> res_status x = COMPLETED \<and> exit_code x = Some 0"
proof -
  obtain f where e: "evaluate (fst (setup_controller su)) = code_evaluate (f, default_code_evaluator\<lparr>harness := py_rstrip (problem_harness prob)\<rparr>)"
    "snd (setup_controller su) = cfg" "uid (fst (setup_controller su)) = node_uid pf" "f = exec"
    using assms(1) by (auto simp: llm_task_def elim: llm_build_evaluate)
  show ?thesis
    by (rule code_solution_ran [OF _ _ e(1)[unfolded e(4)] assms(4,5)]) (use assms(2,3) e(2,3) in simp_all)
qed

end
