(* ===== verification/Reports.thy ===== *)
theory Reports
  imports Metrics Py_Format "HOL-Library.Multiset"
begin

section \<open>Diagrams, reports and log lines (tree.py, observability/metrics.py, observability/logs.py, integrations/)\<close>

text \<open>
  The textual views of a run: the diagram of a tree, the metrics report, the JSON log line; the process-wide log
  configuration; and the node that embeds a run in a LangGraph graph. The diagram is a loop over an explicit stack; it is
  shown equal to the recursive drawing of the tree, one line per node.
\<close>

subsection \<open>ThoughtTree.render\<close>

fun status_glyph :: "node_status \<Rightarrow> string" where
  "status_glyph PENDING = ''?''"
| "status_glyph EVALUATED = ''*''"
| "status_glyph TERMINAL = ''#''"
| "status_glyph PRUNED = ''x''"
| "status_glyph FAILED_NODE = ''!''"

definition format_label :: "thought_node \<Rightarrow> string" where
  "format_label n =
     (let shown = (if content n \<noteq> [] then content n else ''<root>'');
          shown = (if 60 < length shown then take 57 shown @ ''...'' else shown)
      in ''['' @ status_glyph (status n) @ ''] d='' @ str_int (depth n) @ '' v='' @ str_int (visits n)
         @ '' s='' @ format_fixed 2 (score n) @ '' q='' @ format_fixed 2 (mean_value n) @ '' | '' @ shown)"

definition node_line :: "thought_node \<Rightarrow> string \<Rightarrow> bool \<Rightarrow> string" where
  "node_line n before is_last =
     (if is_root n then format_label n else before @ (if is_last then ''`-- '' else ''|-- '') @ format_label n)"

definition child_prefix :: "thought_node \<Rightarrow> string \<Rightarrow> bool \<Rightarrow> string" where
  "child_prefix n before is_last = (if is_root n then [] else before @ (if is_last then ''    '' else ''|   ''))"

definition stacked :: "thought_node \<Rightarrow> string \<Rightarrow> (addr \<times> string \<times> bool) list" where
  "stacked n before = map (\<lambda>i. (children n ! i, before, i = length (children n) - 1)) [0..<length (children n)]"

text \<open>The head of the list is the top of the stack.\<close>

partial_function (option) render_loop :: "heap \<Rightarrow> (addr \<times> string \<times> bool) list \<Rightarrow> string list \<Rightarrow> string list option" where
  "render_loop h pending lines = (case pending of
       [] \<Rightarrow> Some lines
     | (a, before, is_last) # rest \<Rightarrow>
         render_loop h (stacked (h ! a) (child_prefix (h ! a) before is_last) @ rest) (lines @ [node_line (h ! a) before is_last]))"

definition render_lines :: "thought_tree \<Rightarrow> string list option" where
  "render_lines t = render_loop (tree_heap t) [(tree_root t, [], True)] []"

definition render :: "thought_tree \<Rightarrow> string option" where
  "render t = map_option (py_join newline) (render_lines t)"

subsection \<open>The drawing\<close>

fun drawing :: "heap \<Rightarrow> string \<Rightarrow> bool \<Rightarrow> rtree \<Rightarrow> string list" and drawings :: "heap \<Rightarrow> string \<Rightarrow> rtree list \<Rightarrow> string list" where
  "drawing h before is_last (RNode a ts) = node_line (h ! a) before is_last # drawings h (child_prefix (h ! a) before is_last) ts"
| "drawings h before [] = []"
| "drawings h before (t # ts) = drawing h before (ts = []) t @ drawings h before ts"

definition drawn :: "heap \<Rightarrow> (rtree \<times> string \<times> bool) list \<Rightarrow> string list" where
  "drawn h ps = concat (map (\<lambda>(t, before, is_last). drawing h before is_last t) ps)"

definition marked_kids :: "string \<Rightarrow> rtree list \<Rightarrow> (rtree \<times> string \<times> bool) list" where
  "marked_kids before ts = map (\<lambda>i. (ts ! i, before, i = length ts - 1)) [0..<length ts]"

lemma marked_kids_Cons: "marked_kids before (t # ts) = (t, before, ts = []) # marked_kids before ts"
proof -
  have "map (\<lambda>i. ((t # ts) ! i, before, i = length ts)) (map Suc [0..<length ts]) = marked_kids before ts"
    by (auto simp: marked_kids_def)
  then show ?thesis by (auto simp: marked_kids_def upt_conv_Cons map_Suc_upt [symmetric] simp del: map_Suc_upt upt_Suc)
qed

lemma drawn_kids: "drawn h (marked_kids before ts) = drawings h before ts"
  by (induction ts) (simp_all add: marked_kids_Cons drawn_def, simp add: marked_kids_def)

lemma stacked_kids:
  "children n = map raddr ts \<Longrightarrow> stacked n before = map (\<lambda>(t, b, l). (raddr t, b, l)) (marked_kids before ts)"
  by (simp add: stacked_def marked_kids_def)

lemma render_loop_drawn:
  "\<forall>(t, b, l)\<in>set ps. rep h t \<Longrightarrow> render_loop h (map (\<lambda>(t, b, l). (raddr t, b, l)) ps) out = Some (out @ drawn h ps)"
proof (induction "length (concat (map (preorder \<circ> fst) ps))" arbitrary: ps out rule: less_induct)
  case less
  show ?case
  proof (cases ps)
    case Nil
    then show ?thesis by (simp add: render_loop.simps drawn_def)
  next
    case (Cons p us)
    obtain a ts before is_last where p: "p = (RNode a ts, before, is_last)" by (metis prod_cases3 rtree.exhaust)
    let ?c = "child_prefix (h ! a) before is_last"
    have kids: "children (h ! a) = map raddr ts" and reps: "\<forall>t\<in>set ts. rep h t" using less.prems Cons p by auto
    have fst_kids: "map fst (marked_kids ?c ts) = ts"
      by (simp add: marked_kids_def comp_def map_nth)
    have "render_loop h (map (\<lambda>(t, b, l). (raddr t, b, l)) ps) out
        = render_loop h (map (\<lambda>(t, b, l). (raddr t, b, l)) (marked_kids ?c ts @ us)) (out @ [node_line (h ! a) before is_last])"
      using Cons p stacked_kids [OF kids] by (subst render_loop.simps) simp
    also have "\<dots> = Some ((out @ [node_line (h ! a) before is_last]) @ drawn h (marked_kids ?c ts @ us))"
    proof (rule less.hyps)
      have "concat (map (preorder \<circ> fst) (marked_kids ?c ts)) = concat (map preorder ts)"
        using fst_kids by (metis map_map)
      then show "length (concat (map (preorder \<circ> fst) (marked_kids ?c ts @ us))) < length (concat (map (preorder \<circ> fst) ps))"
        using Cons p by simp
      show "\<forall>(t, b, l)\<in>set (marked_kids ?c ts @ us). rep h t"
        using less.prems Cons reps by (auto simp: marked_kids_def)
    qed
    finally show ?thesis using Cons p drawn_kids [of h ?c ts] by (simp add: drawn_def)
  qed
qed

lemma render_lines_drawing:
  assumes "wf_tree t"
  shows "\<exists>r. rep (tree_heap t) r \<and> raddr r = tree_root t \<and> render_lines t = Some (drawing (tree_heap t) [] True r)"
proof -
  obtain r where r: "rep (tree_heap t) r" "raddr r = tree_root t"
    using rep_exists wf_treeD(1,2) [OF assms] by blast
  have "render_loop (tree_heap t) (map (\<lambda>(t, b, l). (raddr t, b, l)) [(r, [], True)]) [] = Some ([] @ drawn (tree_heap t) [(r, [], True)])"
    by (rule render_loop_drawn) (use r(1) in simp)
  then show ?thesis using r by (auto simp: render_lines_def drawn_def)
qed

text \<open>One line per node in the order of the walk, four columns deeper than its parent's.\<close>

definition line_of :: "heap \<Rightarrow> int \<Rightarrow> addr \<Rightarrow> string \<Rightarrow> bool" where
  "line_of h d a l \<longleftrightarrow> (\<exists>before. l = before @ format_label (h ! a) \<and> int (length before) = 4 * (depth (h ! a) - d))"

lemma drawing_lines:
  shows "wf_heap h \<Longrightarrow> rep h r \<Longrightarrow> parent (h ! raddr r) \<noteq> None \<Longrightarrow> int (length before) = 4 * (depth (h ! raddr r) - d - 1) \<Longrightarrow>
      list_all2 (line_of h d) (preorder r) (drawing h before is_last r)"
    and "wf_heap h \<Longrightarrow> \<forall>r\<in>set rs. rep h r \<and> parent (h ! raddr r) \<noteq> None \<and> int (length before) = 4 * (depth (h ! raddr r) - d - 1) \<Longrightarrow>
      list_all2 (line_of h d) (concat (map preorder rs)) (drawings h before rs)"
proof (induction h before is_last r and h before rs rule: drawing_drawings.induct)
  case (1 h before is_last a ts)
  have a: "a < length h" "children (h ! a) = map raddr ts" "\<forall>t\<in>set ts. rep h t" "\<not> is_root (h ! a)"
    using "1.prems" by (auto simp: is_root_def)
  have b: "int (length before) = 4 * (depth (h ! a) - d - 1)" using "1.prems" by simp
  have line: "line_of h d a (node_line (h ! a) before is_last)"
    unfolding line_of_def node_line_def using a(4) b
    by (intro exI [of _ "before @ (if is_last then ''`-- '' else ''|-- '')"]) simp
  have kid: "parent (h ! raddr t) = Some a" "depth (h ! raddr t) = depth (h ! a) + 1" if "t \<in> set ts" for t
    using wf_heapD(4,5) [OF "1.prems"(1) a(1), of "raddr t"] a(2) that by simp_all
  have "list_all2 (line_of h d) (concat (map preorder ts)) (drawings h (child_prefix (h ! a) before is_last) ts)"
    by (rule "1.IH" [OF "1.prems"(1)]) (use a(3,4) b kid in \<open>simp add: child_prefix_def\<close>)
  then show ?case using line by simp
next
  case (3 h before t ts)
  have "list_all2 (line_of h d) (preorder t) (drawing h before (ts = []) t)" by (rule "3.IH"(1)) (use "3.prems" in simp_all)
  moreover have "list_all2 (line_of h d) (concat (map preorder ts)) (drawings h before ts)"
    by (rule "3.IH"(2) [OF "3.prems"(1)]) (use "3.prems"(2) in \<open>meson list.set_intros(2)\<close>)
  ultimately show ?case by (simp add: list_all2_appendI)
qed simp

lemma render_lines_total:
  assumes "wf_tree t"
  shows "\<exists>ns ls. nodes t = Some ns \<and> distinct ns \<and> set ns = {..<length (tree_heap t)} \<and> render t = Some (py_join newline ls)
     \<and> list_all2 (line_of (tree_heap t) (depth (tree_heap t ! tree_root t))) ns ls"
proof -
  let ?h = "tree_heap t" and ?r = "tree_root t"
  obtain r where r: "rep ?h r" "raddr r = ?r" "render_lines t = Some (drawing ?h [] True r)"
    using render_lines_drawing [OF assms] by blast
  obtain ts where ts: "r = RNode ?r ts" using r(2) by (cases r) simp
  have a: "?r < length ?h" "children (?h ! ?r) = map raddr ts" "\<forall>t\<in>set ts. rep ?h t" using r(1) ts by simp_all
  note wf = wf_treeD(1) [OF assms]
  have root: "is_root (?h ! ?r)" using wf_treeD(3) [OF assms a(1)] by (simp add: is_root_def)
  have kid: "parent (?h ! raddr t) = Some ?r" "depth (?h ! raddr t) = depth (?h ! ?r) + 1" if "t \<in> set ts" for t
    using wf_heapD(4,5) [OF wf a(1), of "raddr t"] a(2) that by simp_all
  have "list_all2 (line_of ?h (depth (?h ! ?r))) (concat (map preorder ts)) (drawings ?h [] ts)"
    by (rule drawing_lines(2) [OF wf]) (use a(3) kid in simp)
  moreover have "line_of ?h (depth (?h ! ?r)) ?r (format_label (?h ! ?r))" by (simp add: line_of_def)
  ultimately have "list_all2 (line_of ?h (depth (?h ! ?r))) (preorder r) (drawing ?h [] True r)"
    using root by (simp add: ts node_line_def child_prefix_def)
  moreover have "nodes t = Some (preorder r)" using walk_rep [OF r(1)] r(2) by (simp add: nodes_def)
  moreover obtain ns where "nodes t = Some ns" "distinct ns" "set ns = {..<length ?h}" using nodes_total [OF assms] by blast
  ultimately show ?thesis using r(3) by (auto simp: render_def)
qed

text \<open>The diagram of a tree shows every node: for a well-formed tree \<open>render\<close> returns, and what it joins is one entry per
  node, in the order of the walk, each the node's label behind four columns for every level below the root - although
  the code draws with an explicit stack.\<close>

theorem render_shows_tree:
  assumes "wf_tree t"
  shows "\<exists>ns ls. nodes t = Some ns \<and> distinct ns \<and> set ns = {..<length (tree_heap t)} \<and> render t = Some (py_join newline ls)
     \<and> list_all2 (line_of (tree_heap t) (depth (tree_heap t ! tree_root t))) ns ls"
  by (rule render_lines_total [OF assms])

theorem render_shows_tree_witness:
  "\<exists>ls. render (new_tree ''t'' ''a'') = Some (py_join newline ls) \<and> length ls = 1"
proof -
  have "wf_tree (new_tree ''t'' ''a'')" by (rule wf_new_tree)
  from render_shows_tree [OF this] obtain ns ls where n: "distinct ns" "set ns = {..<length (tree_heap (new_tree ''t'' ''a''))}"
    "render (new_tree ''t'' ''a'') = Some (py_join newline ls)" and l: "length ns = length ls"
    by (auto dest: list_all2_lengthD)
  have "length ns = card (set ns)" using n(1) by (simp add: distinct_card)
  then have "length ls = 1" using n(2) l by (simp add: new_tree_def)
  then show ?thesis using n(3) by (intro exI conjI)
qed

text \<open>A label is one line only if the text of the thought is: the summary cuts the text but keeps its line breaks.\<close>

lemma label_keeps_breaks: "CHR 0x0A \<in> set (format_label (new_node (''plan'' @ newline @ ''step'') None 0 ''a''))"
  by (simp add: format_label_def new_node_def Let_def)

subsection \<open>RunMetrics.format\_report\<close>

text \<open>\<open>sorted(items, key=value, reverse=True)\<close>: equal keys keep their order. With a NaN among the keys Python leaves the
  order open.\<close>

fun insert_desc :: "string \<times> pyfloat \<Rightarrow> (string \<times> pyfloat) list \<Rightarrow> (string \<times> pyfloat) list" where
  "insert_desc x [] = [x]"
| "insert_desc x (y # ys) = (if snd x < snd y then y # insert_desc x ys else x # y # ys)"

definition by_time_desc :: "(string \<times> pyfloat) list \<Rightarrow> (string \<times> pyfloat) list" where
  "by_time_desc xs = foldr insert_desc xs []"

definition text_of_depth :: "int option \<Rightarrow> string" where
  "text_of_depth d = (case d of None \<Rightarrow> ''None'' | Some n \<Rightarrow> str_int n)"

definition metrics_report :: "run_metrics \<Rightarrow> string" where
  "metrics_report m = py_join newline
     ([''run metrics'',
       ''  outcome            : '' @ metric_outcome m,
       ''  iterations         : '' @ str_int (metric_iterations m),
       ''  nodes              : '' @ str_int (metric_nodes m),
       ''  wall time          : '' @ format_fixed 1 (wall_time_seconds m * Fin 1000) @ '' ms'',
       ''  solution depth     : '' @ text_of_depth (solution_depth m),
       ''  best path length   : '' @ str_int (best_path_length m),
       ''  backtracks         : '' @ str_int (structural_backtracks m) @ '' structural, '' @ str_int (revision_backtracks m) @ '' revision'',
       ''  revisions granted  : '' @ str_int (revisions_granted m),
       ''  node status        : '' @ py_join '', '' (map (\<lambda>(k, v). k @ ''='' @ str_int v) (filter (\<lambda>(k, v). v \<noteq> 0) (status_counts m))),
       ''  phase time (ms)    : '' @ py_join '', ''
         (map (\<lambda>(k, v). k @ ''='' @ format_fixed 1 (v * Fin 1000)) (filter (\<lambda>(k, v). 0 < v) (by_time_desc (phase_seconds m))))]
      @ (case metric_usage m of None \<Rightarrow> [] | Some u \<Rightarrow>
          [''  llm tokens         : '' @ str_int (total_tokens u) @ '' ('' @ str_int (usage_prompt u) @ '' prompt + ''
             @ str_int (usage_completion u) @ '' completion) across '' @ str_int (usage_calls u) @ '' calls'']))"

lemma mset_insert_desc: "mset (insert_desc x xs) = add_mset x (mset xs)"
  by (induction xs) auto

lemma by_time_desc_permutes: "mset (by_time_desc xs) = mset xs"
  unfolding by_time_desc_def by (induction xs) (simp_all add: mset_insert_desc)

lemma insert_desc_sorted:
  assumes "sorted_wrt (\<lambda>x y. \<not> snd x < snd y) xs" "is_finite (snd x)" "\<forall>y\<in>set xs. is_finite (snd y)"
  shows "sorted_wrt (\<lambda>x y. \<not> snd x < snd y) (insert_desc x xs)"
  using assms
proof (induction xs)
  case (Cons y ys)
  have set_ins: "set (insert_desc x ys) = insert x (set ys)"
    using mset_insert_desc [of x ys] by (metis set_mset_add_mset_insert set_mset_mset)
  show ?case
  proof (cases "snd x < snd y")
    case True
    then show ?thesis using Cons set_ins by (auto dest: pyfloat_less_asym)
  next
    case False
    have "\<not> snd x < snd z" if "z \<in> set ys" for z
      using False Cons.prems that by (cases "snd x"; cases "snd y"; cases "snd z") auto
    then show ?thesis using False Cons.prems by simp
  qed
qed simp

text \<open>Finite times come out in falling order.\<close>

lemma by_time_desc_sorted: "\<forall>e\<in>set xs. is_finite (snd e) \<Longrightarrow> sorted_wrt (\<lambda>x y. \<not> snd x < snd y) (by_time_desc xs)"
proof (induction xs)
  case (Cons x xs)
  have "set (by_time_desc xs) = set xs" using by_time_desc_permutes [of xs] by (metis set_mset_mset)
  then show ?case using Cons insert_desc_sorted [of "by_time_desc xs" x] by (simp add: by_time_desc_def)
qed (simp add: by_time_desc_def)

subsection \<open>JsonLogFormatter and configure\_logging\<close>

definition RECORD_ATTRIBUTES :: "string list" where
  "RECORD_ATTRIBUTES = [''name'', ''msg'', ''args'', ''levelname'', ''levelno'', ''pathname'', ''filename'', ''module'', ''exc_info'',
     ''exc_text'', ''stack_info'', ''lineno'', ''funcName'', ''created'', ''msecs'', ''relativeCreated'', ''thread'', ''threadName'',
     ''processName'', ''process'', ''taskName'', ''message'', ''asctime'']"

record log_record =
  rec_created :: pyfloat
  rec_level :: string
  rec_logger :: string
  rec_message :: string
  rec_attributes :: dict
  rec_traceback :: "string option"

definition extra_fields :: "dict \<Rightarrow> dict" where
  "extra_fields attrs = filter (\<lambda>(k, v). k \<notin> set RECORD_ATTRIBUTES \<and> take 1 k \<noteq> ''_'') attrs"

definition log_payload :: "(pyfloat \<Rightarrow> string) \<Rightarrow> log_record \<Rightarrow> dict" where
  "log_payload utc_millis r =
     (let payload = fold (\<lambda>(k, v). dict_set k v) (extra_fields (rec_attributes r))
            [(''ts'', VStr (utc_millis (rec_created r))), (''level'', VStr (py_lower (rec_level r))),
             (''logger'', VStr (rec_logger r)), (''message'', VStr (rec_message r))]
      in case rec_traceback r of None \<Rightarrow> payload | Some tb \<Rightarrow> dict_set ''exception'' (VStr tb) payload)"

definition format_record :: "(pyfloat \<Rightarrow> string) \<Rightarrow> (dict \<Rightarrow> exn + string) \<Rightarrow> log_record \<Rightarrow> exn + string" where
  "format_record utc_millis dumps_text r = dumps_text (log_payload utc_millis r)"

lemma get_fold_set: "distinct (map fst xs) \<Longrightarrow>
    dict_get (fold (\<lambda>(k, v). dict_set k v) xs d) q = (case map_of xs q of None \<Rightarrow> dict_get d q | Some v \<Rightarrow> Some v)"
  by (induction xs arbitrary: d) (auto split: option.splits dest: map_of_SomeD simp: map_of_eq_None_iff rev_image_eqI)

lemma map_of_extra: "map_of (extra_fields attrs) k = (if k \<notin> set RECORD_ATTRIBUTES \<and> take 1 k \<noteq> ''_'' then map_of attrs k else None)"
  unfolding extra_fields_def by (induction attrs) auto

text \<open>Every structured field of a record reaches the log line, and the message does unless a field takes its name.\<close>

lemma log_line_carries:
  assumes "distinct (map fst (rec_attributes r))"
  shows "k \<notin> set RECORD_ATTRIBUTES \<Longrightarrow> take 1 k \<noteq> ''_'' \<Longrightarrow> k \<noteq> ''exception'' \<Longrightarrow> map_of (rec_attributes r) k = Some v \<Longrightarrow>
      dict_get (log_payload iso8601 r) k = Some v"
    and "dict_get (log_payload iso8601 r) ''message'' = Some (VStr (rec_message r))"
proof -
  have d: "distinct (map fst (extra_fields (rec_attributes r)))"
    using assms unfolding extra_fields_def by (simp add: distinct_map_filter)
  show "k \<notin> set RECORD_ATTRIBUTES \<Longrightarrow> take 1 k \<noteq> ''_'' \<Longrightarrow> k \<noteq> ''exception'' \<Longrightarrow> map_of (rec_attributes r) k = Some v \<Longrightarrow>
      dict_get (log_payload iso8601 r) k = Some v"
    by (auto simp: log_payload_def Let_def get_fold_set [OF d] map_of_extra split: option.splits)
  show "dict_get (log_payload iso8601 r) ''message'' = Some (VStr (rec_message r))"
    by (auto simp: log_payload_def Let_def get_fold_set [OF d] map_of_extra RECORD_ATTRIBUTES_def split: option.splits)
qed

datatype log_format = Text_Format | Json_Format

record root_logger =
  handlers :: "log_format list"
  level :: int

definition format_of_name :: "string \<Rightarrow> exn + log_format" where
  "format_of_name s = (if s = ''text'' then Inr Text_Format else if s = ''json'' then Inr Json_Format
     else Inl (Exn ValueError (''log_format must be one of '' @ py_join '', '' [''text'', ''json''])))"

fun remove_each :: "log_format list \<Rightarrow> log_format list \<Rightarrow> log_format list" where
  "remove_each [] hs = hs"
| "remove_each (x # xs) hs = remove_each xs (remove1 x hs)"

definition configure_logging :: "int \<Rightarrow> string \<Rightarrow> root_logger \<Rightarrow> exn + root_logger" where
  "configure_logging lv nm lg = sum_bind (format_of_name nm) (\<lambda>f.
     Inr \<lparr>handlers = remove_each (handlers lg) (handlers lg) @ [f], level = lv\<rparr>)"

lemma remove_each_self: "remove_each xs xs = []"
  by (induction xs) simp_all

text \<open>However often logging is configured, one handler writes each line.\<close>

lemma configure_once: "configure_logging lv nm lg = Inr lg' \<Longrightarrow> length (handlers lg') = 1 \<and> configure_logging lv nm lg' = Inr lg'"
  by (auto simp: configure_logging_def sum_bind_Inr remove_each_self)

subsection \<open>The LangGraph node\<close>

record reasoning_state =
  rs_task :: "string option"
  rs_outcome :: "string option"
  rs_solution :: "string option option"
  rs_iterations :: "int option"
  rs_node_count :: "int option"
  rs_error :: "string option"

text \<open>
  \<open>reason\<close>: the factory is called without a sink; the returned keys update the graph state. The library that compiles the
  one-node graph is the argument \<open>langgraph\<close>, absent when it cannot be imported.
\<close>

definition reason :: "('v \<Rightarrow> (exn + 'v environment \<times> search_config) \<times> 'v) \<Rightarrow> reasoning_state \<Rightarrow> ('v, reasoning_state) prog" where
  "reason factory rs w = (case factory w of
       (Inl e, w1) \<Rightarrow> (Raise e, w1)
     | (Inr (env, cfg), w1) \<Rightarrow> (case rs_task rs of
           None \<Rightarrow> (Raise (Exn KeyError (py_repr ''task'')), w1)
         | Some task \<Rightarrow> (case run (env\<lparr>on_event := None\<rparr>) cfg task w1 of
               (Ok r, st) \<Rightarrow> (Ok (rs\<lparr>rs_outcome := Some (outcome_value (outcome r)), rs_solution := Some (solution r),
                   rs_iterations := Some (iterations r), rs_node_count := Some (node_count r), rs_error := Some (result_error r)\<rparr>), world st)
             | (Raise e, st) \<Rightarrow> (Raise e, world st)
             | (Diverge, st) \<Rightarrow> (Diverge, world st))))"

definition build_reasoning_graph :: "((reasoning_state \<Rightarrow> ('v, reasoning_state) prog) \<Rightarrow> 'g) option \<Rightarrow>
    ('v \<Rightarrow> (exn + 'v environment \<times> search_config) \<times> 'v) \<Rightarrow> exn + 'g" where
  "build_reasoning_graph langgraph factory = (case langgraph of
       None \<Rightarrow> Inl (Exn RuntimeError ''langgraph is not installed; install the optional extra: pip install cognitivetree-ai[langgraph]'')
     | Some compiled \<Rightarrow> Inr (compiled (reason factory)))"

text \<open>A reasoning node always hands the graph a result: with a valid configuration the run cannot raise.\<close>

lemma reason_returns:
  assumes "factory w = (Inr (env, cfg), w1)" "rs_task rs = Some task" "valid_config cfg" "inj (uid env)"
  shows "\<exists>rs' w2. reason factory rs w = (Ok rs', w2) \<and> rs_task rs' = Some task \<and> rs_outcome rs' \<noteq> None
     \<and> (rs_outcome rs' = Some ''succeeded'' \<or> rs_solution rs' = Some None)"
proof -
  have s: "silent (env\<lparr>on_event := None\<rparr>)" "inj (uid (env\<lparr>on_event := None\<rparr>))" using assms(4) by (simp_all add: silent_def)
  obtain r where r: "fst (run (env\<lparr>on_event := None\<rparr>) cfg task w1) = Ok r" using run_silent_Ok [OF assms(3) s(2,1)] by blast
  then obtain st where st: "run (env\<lparr>on_event := None\<rparr>) cfg task w1 = (Ok r, st)" by (metis prod.collapse)
  show ?thesis using assms(1,2) st by (cases "outcome r") (auto simp: reason_def solution_def)
qed

end
