(* ===== verification/Revision_Cycle.thy ===== *)
theory Revision_Cycle
  imports Revision Provenance
begin

section \<open>The revision cycle\<close>

text \<open>
  The behaviour the feedback components exist for: a first wave of candidates is rejected and criticised, the revision
  policy reopens the parent with notes, and the generator, reading the notes, proposes a candidate that is accepted. The
  locale \<open>revision_cycle\<close> states what each policy contributes; its lemmas follow the two iterations through
  the controller. Revision\_Demo interprets it on the wiring of the clamp scenario.
\<close>

text \<open>A legal transition under a sink that does not raise.\<close>

lemma advance_ok:
  assumes "silent env" "at_phase p s" "q \<in> transitions p"
  shows "\<exists>s'. advance env q i d s = (Ok (), s') \<and> at_phase q s' \<and> tree s' = tree s"
proof -
  obtain r s' where run: "advance env q i d s = (r, s')" by fastforce
  show ?thesis using advance_spec [OF assms(2,3) run] assms(1) run by simp
qed

lemma quiet_phase: "quiet m \<Longrightarrow> m s = (r, s') \<Longrightarrow> at_phase p s \<Longrightarrow> at_phase p s'"
  using quietD [of m s r s'] by (simp add: at_phase_def)

subsection \<open>Expansion\<close>

text \<open>
  The texts that a list of candidates adds beside the \<open>seen\<close> ones: each stripped text once, in order of first
  appearance. The new children carry exactly these and no metadata.
\<close>

definition new_texts :: "string set \<Rightarrow> string list \<Rightarrow> string list" where
  "new_texts seen cs = filter (\<lambda>t. t \<noteq> [] \<and> t \<notin> seen) (firsts (map py_strip cs))"

lemma new_texts_simps [simp]:
  "new_texts seen [] = []"
  "new_texts seen (c # cs) = (if py_strip c = [] \<or> py_strip c \<in> seen then new_texts seen cs
     else py_strip c # new_texts (insert (py_strip c) seen) cs)"
  by (auto simp: new_texts_def intro!: filter_cong)

lemma new_texts_set: "set (new_texts seen cs) = {t \<in> py_strip ` set cs. t \<noteq> [] \<and> t \<notin> seen}"
  by (induction cs arbitrary: seen) auto

lemma expand_loop_texts:
  assumes "struct_ok env cfg (tree s)" "inj (uid env)" "a < length (nodes_of s)" "depth (nodes_of s ! a) < max_depth cfg"
    "set (map (\<lambda>c. content (nodes_of s ! c)) (children (nodes_of s ! a))) \<subseteq> seen"
    "expand_loop env a cs seen kids s = (r, s')"
  shows "(\<forall>b. length (nodes_of s) \<le> b \<and> b < length (nodes_of s') \<longrightarrow>
            metadata (nodes_of s' ! b) = [])
     \<and> map content (drop (length (nodes_of s)) (nodes_of s')) = new_texts seen cs"
  using assms
proof (induction cs arbitrary: seen kids s)
  case Nil
  then show ?case by (auto simp: ret_def)
next
  case (Cons c cs)
  show ?case
  proof (cases "py_strip c = [] \<or> py_strip c \<in> seen")
    case True
    then have "expand_loop env a cs seen kids s = (r, s')" using Cons.prems(6) by simp
    from Cons.IH [OF Cons.prems(1-5) this] show ?thesis using True by auto
  next
    case False
    have fresh: "py_strip c \<notin> set (map (\<lambda>c. content (nodes_of s ! c)) (children (nodes_of s ! a)))"
      using False Cons.prems(5) by blast
    obtain h s1 where cc: "create_child env a (py_strip c) s = (Ok (length (nodes_of s)), s1)" "nodes_of s1 = h"
      "attach_child (nodes_of s) a (py_strip c) (uid env (length (nodes_of s))) = (h, length (nodes_of s))"
      "struct_ok env cfg (tree s1)"
      by (rule create_child_spec [OF Cons.prems(1-4) _ py_strip_idem fresh]) (use False in blast)+
    note n = attach_child_nth [OF Cons.prems(3) cc(3)]
    have run: "expand_loop env a cs (insert (py_strip c) seen) (kids @ [length (nodes_of s)]) s1 = (r, s')"
      using Cons.prems(6) False cc(1) by (simp add: bindM_def)
    have "content (h ! b) = content (nodes_of s ! b)" if "b < length (nodes_of s)" for b
      using n(4) n(5) [OF that] by (cases "b = a") simp_all
    then have sub: "set (map (\<lambda>c. content (nodes_of s1 ! c)) (children (nodes_of s1 ! a))) \<subseteq> insert (py_strip c) seen"
      unfolding cc(2) n(4)
      using wf_heapD(3) [OF struct_okD(3) [OF Cons.prems(1)] Cons.prems(3)] Cons.prems(5) n(3) by (auto simp: new_node_def)
    have a: "a < length (nodes_of s1)" "depth (nodes_of s1 ! a) < max_depth cfg"
      using Cons.prems(3,4) n(2,4) unfolding cc(2) by simp_all
    note IH = Cons.IH [OF cc(4) Cons.prems(2) a sub run]
    have g: "grown a (nodes_of s1) (nodes_of s')" by (rule conjunct1 [OF conjunct2 [OF expand_loop_spec [OF cc(4) Cons.prems(2) a sub run]]])
    have len: "length (nodes_of s1) = Suc (length (nodes_of s))" using n(2) unfolding cc(2) .
    have "a \<noteq> length (nodes_of s)" using Cons.prems(3) by simp
    then have first: "nodes_of s' ! length (nodes_of s) = nodes_of s1 ! length (nodes_of s)"
      using g len unfolding grown_def by simp
    have c: "metadata (nodes_of s' ! length (nodes_of s)) = [] \<and> content (nodes_of s' ! length (nodes_of s)) = py_strip c"
      unfolding first cc(2) using n(3) by (simp add: new_node_def)
    then have "metadata (nodes_of s' ! b) = []" if "length (nodes_of s) \<le> b" "b < length (nodes_of s')" for b
      using IH that len by (cases "b = length (nodes_of s)") auto
    moreover have "length (nodes_of s) < length (nodes_of s')" using g len by (simp add: grown_def)
    then have "drop (length (nodes_of s)) (nodes_of s') = nodes_of s' ! length (nodes_of s) # drop (length (nodes_of s1)) (nodes_of s')"
      unfolding len by (simp add: Cons_nth_drop_Suc)
    ultimately show ?thesis using IH False c by simp
  qed
qed

subsection \<open>Backpropagation keeps what the policies wrote\<close>

definition unrecorded :: "heap \<Rightarrow> heap \<Rightarrow> bool" where
  "unrecorded h h' \<longleftrightarrow> shape h' = shape h \<and> (\<forall>b<length h. status (h' ! b) = status (h ! b) \<and> metadata (h' ! b) = metadata (h ! b))"

lemma unrecorded_trans: "unrecorded h h1 \<Longrightarrow> unrecorded h1 h2 \<Longrightarrow> unrecorded h h2"
  unfolding unrecorded_def by (metis shape_length)

lemma backpropagate_unrecorded:
  assumes "struct_ok env cfg (tree s)" "\<forall>x\<in>set cvs. fst x < length (nodes_of s)"
  shows "\<exists>s'. backpropagate cvs s = (Ok (), s') \<and> struct_ok env cfg (tree s') \<and> unrecorded (nodes_of s) (nodes_of s')"
  using assms
proof (induction cvs arbitrary: s)
  case Nil
  then show ?case by (simp add: ret_def unrecorded_def)
next
  case (Cons cv cvs)
  obtain c x where cv: "cv = (c, x)" by fastforce
  have c: "c < length (nodes_of s)" using Cons.prems(2) cv by simp
  obtain p where p: "path_from_root (nodes_of s) c = Some p" "distinct p"
    by (rule tree_path_total [OF struct_okD(1) [OF Cons.prems(1)] c]) (rule that)
  let ?s = "set_heap (record_path (nodes_of s) p x) s"
  have one: "unrecorded (nodes_of s) (nodes_of ?s)" using record_path_nth [OF p(2)] by (simp add: unrecorded_def)
  have "struct_ok env cfg (tree ?s)" using struct_ok_shape [OF Cons.prems(1)] by simp
  from Cons.IH [OF this] obtain s' where s': "backpropagate cvs ?s = (Ok (), s')" "struct_ok env cfg (tree s')"
    "unrecorded (nodes_of ?s) (nodes_of s')" using Cons.prems(2) by auto
  have "backpropagate (cv # cvs) s = (Ok (), s')" using s'(1) p(1) by (simp add: cv)
  then show ?case using s'(2) unrecorded_trans [OF one s'(3)] by blast
qed

subsection \<open>The policies of a revision cycle\<close>

text \<open>
  \<open>wave\<close> is proposed while there are no notes and \<open>repaired\<close> once there are; the evaluator accepts the repaired text, rejects
  the others and leaves the record \<open>rejected\<close> of the failure, from which the critic always gives guidance; \<open>blames d k\<close>
  says that the critique \<open>k\<close> is the one the record in \<open>d\<close> calls for.
\<close>

definition criticised :: "(dict \<Rightarrow> critique \<Rightarrow> bool) \<Rightarrow> dict \<Rightarrow> bool" where
  "criticised blames d \<longleftrightarrow> (\<exists>k. dict_get d CRITIQUE_METADATA_KEY = Some (VDict (critique_to_dict k)) \<and> py_strip (guidance k) \<noteq> []
     \<and> blames d k)"

definition known :: "string list \<Rightarrow> string \<Rightarrow> string \<Rightarrow> bool" where
  "known wave repaired t \<longleftrightarrow> t \<in> insert (py_strip repaired) (py_strip ` set wave)"

definition fits :: "search_config \<Rightarrow> string \<Rightarrow> string \<Rightarrow> evaluation \<Rightarrow> bool" where
  "fits cfg repaired t v \<longleftrightarrow> valid_evaluation v \<and> classify cfg v = (if t = py_strip repaired then TERMINAL else PRUNED)"

text \<open>A candidate after its evaluation.\<close>

definition logged :: "string \<Rightarrow> (dict \<Rightarrow> bool) \<Rightarrow> heap \<Rightarrow> addr \<Rightarrow> bool" where
  "logged repaired rejected h c \<longleftrightarrow> (content (h ! c) \<noteq> py_strip repaired \<longrightarrow> rejected (metadata (h ! c)))"

text \<open>The texts \<open>t\<close> of the heap's nodes do not change, and what was logged stays logged.\<close>

definition stage :: "string \<Rightarrow> (dict \<Rightarrow> bool) \<Rightarrow> string list \<Rightarrow> addr set \<Rightarrow> 'w run_state \<Rightarrow> bool" where
  "stage repaired rejected t K s \<longleftrightarrow> told t s \<and> (\<forall>c\<in>K. logged repaired rejected (nodes_of s) c)"

text \<open>The tree after the first wave: every child of the root failed and carries guidance.\<close>

definition saturated :: "(dict \<Rightarrow> critique \<Rightarrow> bool) \<Rightarrow> 'w environment \<Rightarrow> search_config \<Rightarrow> string list \<Rightarrow> 'w run_state \<Rightarrow> bool" where
  "saturated blames env cfg wave s \<longleftrightarrow> struct_ok env cfg (tree s) \<and> 1 < length (nodes_of s)
     \<and> children (nodes_of s ! 0) = [1..<length (nodes_of s)] \<and> status (nodes_of s ! 0) = PENDING \<and> metadata (nodes_of s ! 0) = []
     \<and> map content (drop 1 (nodes_of s)) = new_texts {} (take (nat (branching_factor cfg)) wave)
     \<and> (\<forall>b. 1 \<le> b \<and> b < length (nodes_of s) \<longrightarrow> status (nodes_of s ! b) = PRUNED \<and> criticised blames (metadata (nodes_of s ! b))
          \<and> content (nodes_of s ! b) \<in> py_strip ` set wave)"

text \<open>
  The notes compiled from the critiques \<open>crit\<close> of the nodes \<open>cs\<close>: \<open>ks\<close> are these critiques with the guidance texts that were
  already seen left out, and one line is written for each of them.
\<close>

definition notes_from :: "(addr \<Rightarrow> critique) \<Rightarrow> addr list \<Rightarrow> critique list \<Rightarrow> bool" where
  "notes_from crit cs ks \<longleftrightarrow> ks \<noteq> [] \<and> subseq ks (map crit cs) \<and>
     map (\<lambda>k. py_strip (guidance k)) ks = firsts (map (\<lambda>c. py_strip (guidance (crit c))) cs)"

lemma notes_text_nonempty: "ks \<noteq> [] \<Longrightarrow> py_join newline (map note_line ks) \<noteq> []"
  by (cases ks; cases "tl ks") (auto simp: note_line_def)

text \<open>The tree at the end: the pruned wave, then the accepted candidate, under the reopened root.\<close>

definition revised_tree :: "string list \<Rightarrow> string \<Rightarrow> string \<Rightarrow> heap \<Rightarrow> heap \<Rightarrow> bool" where
  "revised_tree ws t ns h h' \<longleftrightarrow> children (h' ! 0) = [1..<length h + 1] \<and> length h' = length h + 1 \<and> length h = length ws + 1
     \<and> map content (drop 1 h') = ws @ [t]
     \<and> (\<forall>b. 1 \<le> b \<and> b < length h \<longrightarrow> status (h' ! b) = PRUNED \<and> metadata (h' ! b) = metadata (h ! b))
     \<and> status (h' ! length h) = TERMINAL
     \<and> metadata (h' ! 0) = [(REVISION_NOTES_KEY, VStr ns), (REVISION_ATTEMPTS_KEY, VInt 1)]"

locale revision_cycle =
  fixes env :: "'w environment" and cfg :: search_config and wave :: "string list" and repaired :: string
    and rejected :: "dict \<Rightarrow> bool" and blames :: "dict \<Rightarrow> critique \<Rightarrow> bool" and diagnose :: "'w critic_fun"
    and reward :: "'w \<Rightarrow> heap \<Rightarrow> addr \<Rightarrow> pyfloat \<Rightarrow> critique option \<Rightarrow> (exn + pyfloat) \<times> dict \<times> 'w"
    and policy :: "(pyval \<Rightarrow> string) \<times> bounded_revision"
  assumes config: "valid_config cfg" "2 \<le> max_iterations cfg" "max_wall_seconds cfg = None"
    and wiring: "silent env" "inj (uid env)" "stop_condition env = None" "cancel_event env = None"
      "critic env = Some diagnose" "reward_model env = Some reward" "revision_policy env = Some (revise policy)"
    and fair: "fair env"
    and attempts: "1 \<le> max_attempts (snd policy)"
    and texts: "\<exists>c\<in>set (take (nat (branching_factor cfg)) wave). py_strip c \<noteq> []" "py_strip repaired \<noteq> []"
      "py_strip repaired \<notin> py_strip ` set wave"
    and blind: "a < length h \<Longrightarrow> is_root (h ! a) \<Longrightarrow> dict_get (metadata (h ! a)) REVISION_NOTES_KEY = None \<Longrightarrow>
      \<exists>w'. generate env w h a (branching_factor cfg) = (Inr wave, w')"
    and guided: "a < length h \<Longrightarrow> is_root (h ! a) \<Longrightarrow> dict_get (metadata (h ! a)) REVISION_NOTES_KEY = Some (VStr ns) \<Longrightarrow> ns \<noteq> [] \<Longrightarrow>
      \<exists>w'. generate env w h a (branching_factor cfg) = (Inr [repaired], w')"
    and verdicts: "a < length h \<Longrightarrow> content (h ! a) \<in> insert (py_strip repaired) (py_strip ` set wave) \<Longrightarrow>
      \<exists>v d w'. evaluate env w h a = (Inr v, d, w')
        \<and> classify cfg v = (if content (h ! a) = py_strip repaired then TERMINAL else PRUNED)
        \<and> (content (h ! a) \<noteq> py_strip repaired \<longrightarrow> rejected d)"
    and diagnosis: "rejected (metadata (h ! a)) \<Longrightarrow>
      \<exists>k w'. diagnose w h a = (Inr (Some k), w') \<and> py_strip (guidance k) \<noteq> [] \<and> blames (metadata (h ! a)) k"
    and noted: "blames d k \<Longrightarrow> blames (dict_set CRITIQUE_METADATA_KEY v d) k"
    and rewarding: "unit_value x \<Longrightarrow> (\<And>k. cr = Some k \<Longrightarrow> valid_critique k) \<Longrightarrow>
      \<exists>y d w'. reward w h a x cr = (Inr y, d, w') \<and> dict_get d CRITIQUE_METADATA_KEY = dict_get (metadata (h ! a)) CRITIQUE_METADATA_KEY
        \<and> (\<forall>k. blames (metadata (h ! a)) k \<longrightarrow> blames d k)"
begin

lemma evaluate_one_leads:
  assumes "c < length (nodes_of s)" "known wave repaired (content (nodes_of s ! c))"
  shows "\<exists>v s'. evaluate_one env c s = (Ok v, s') \<and> fits cfg repaired (content (nodes_of s ! c)) v \<and> logged repaired rejected (nodes_of s') c"
proof -
  obtain v d w' where e: "evaluate env (world s) (nodes_of s) c = (Inr v, d, w')"
    "classify cfg v = (if content (nodes_of s ! c) = py_strip repaired then TERMINAL else PRUNED)"
    "content (nodes_of s ! c) \<noteq> py_strip repaired \<longrightarrow> rejected d"
    using verdicts [OF assms(1), of "world s"] assms(2) unfolding known_def by blast
  have "valid_evaluation v" using fairD(1) [OF fair, of "world s" "nodes_of s" c v] e(1) by simp
  then show ?thesis using e assms(1) by (simp add: evaluate_one_def fits_def logged_def set_metadata_def)
qed

lemma evaluate_one_stage:
  assumes "stage repaired rejected t K s" "c < length t" "known wave repaired (t ! c)" "K \<subseteq> {..<length t}"
  shows "\<exists>v s'. evaluate_one env c s = (Ok v, s') \<and> fits cfg repaired (t ! c) v \<and> stage repaired rejected t (insert c K) s'"
proof -
  have t: "length (nodes_of s) = length t" "content (nodes_of s ! c) = t ! c"
    using assms(1,2) by (auto simp: stage_def told_def)
  obtain v s' where e: "evaluate_one env c s = (Ok v, s')" "fits cfg repaired (t ! c) v" "logged repaired rejected (nodes_of s') c"
    using evaluate_one_leads [of c s] assms(2,3) t by auto
  note g = evaluate_one_spec(2) [OF e(1), of cfg]
  have "logged repaired rejected (nodes_of s') b" if "b \<in> K" for b
  proof (cases "b = c")
    case False
    have "b < length (nodes_of s)" using that assms(4) t(1) by auto
    then have "nodes_of s' ! b = nodes_of s ! b" using g False scoredD(5) unfolding graded_def by blast
    then show ?thesis using assms(1) that by (simp add: stage_def logged_def)
  qed (use e(3) in simp)
  then have "stage repaired rejected t (insert c K) s'" using e(3) graded_told [OF g] assms(1) by (simp add: stage_def)
  then show ?thesis using e by blast
qed

lemma evaluate_all_stage:
  assumes "stage repaired rejected t K s" "\<forall>c\<in>set cs. c < length t \<and> known wave repaired (t ! c)" "K \<subseteq> {..<length t}"
  shows "\<exists>vs s'. evaluate_all env cs s = (Ok vs, s') \<and> list_all2 (\<lambda>c v. fits cfg repaired (t ! c) v) cs vs
     \<and> stage repaired rejected t (K \<union> set cs) s'"
  using assms
proof (induction cs arbitrary: K s)
  case (Cons c cs)
  obtain v s1 where one: "evaluate_one env c s = (Ok v, s1)" "fits cfg repaired (t ! c) v"
    "stage repaired rejected t (insert c K) s1"
    using evaluate_one_stage [OF Cons.prems(1) _ _ Cons.prems(3), of c] Cons.prems(2) by auto
  obtain vs s2 where rest: "evaluate_all env cs s1 = (Ok vs, s2)" "list_all2 (\<lambda>c v. fits cfg repaired (t ! c) v) cs vs"
    "stage repaired rejected t (insert c K \<union> set cs) s2"
    using Cons.IH [OF one(3)] Cons.prems(2,3) by auto
  then show ?case using one by (simp add: bindM_def ret_def)
qed (simp add: ret_def)

text \<open>What the pool has finished: the verdict of a position fits its candidate, which is logged.\<close>

lemma pool_complete_stage:
  assumes "stage repaired rejected t K s" "\<forall>c\<in>set cs. c < length t \<and> known wave repaired (t ! c)" "K \<subseteq> {..<length t}"
    "\<forall>i r. map_of fin i = Some r \<longrightarrow> i < length cs \<and> cs ! i \<in> K \<and> (\<exists>v. r = Ok v \<and> fits cfg repaired (t ! (cs ! i)) v)"
  shows "\<exists>fin' L s'. pool_complete env cs is fin s = (Ok fin', s') \<and> stage repaired rejected t L s' \<and> L \<subseteq> {..<length t}
     \<and> (\<forall>i r. map_of fin' i = Some r \<longrightarrow> i < length cs \<and> cs ! i \<in> L \<and> (\<exists>v. r = Ok v \<and> fits cfg repaired (t ! (cs ! i)) v))"
  using assms
proof (induction "is" arbitrary: K s fin)
  case Nil
  then show ?case by (auto simp: ret_def)
next
  case (Cons i "is")
  show ?case
  proof (cases "i < length cs \<and> map_of fin i = None")
    case True
    have ci: "cs ! i < length t" "known wave repaired (t ! (cs ! i))" using Cons.prems(2) True by simp_all
    obtain v s1 where one: "evaluate_one env (cs ! i) s = (Ok v, s1)" "fits cfg repaired (t ! (cs ! i)) v"
      "stage repaired rejected t (insert (cs ! i) K) s1"
      using evaluate_one_stage [OF Cons.prems(1) ci Cons.prems(3)] by blast
    have fin: "\<forall>j r. map_of (fin @ [(i, Ok v)]) j = Some r \<longrightarrow> j < length cs \<and> cs ! j \<in> insert (cs ! i) K
        \<and> (\<exists>v. r = Ok v \<and> fits cfg repaired (t ! (cs ! j)) v)"
    proof (intro allI impI)
      fix j r assume "map_of (fin @ [(i, Ok v)]) j = Some r"
      then have "map_of fin j = Some r \<or> j = i \<and> r = Ok v" by (auto simp: map_add_def split: option.splits if_splits)
      then show "j < length cs \<and> cs ! j \<in> insert (cs ! i) K \<and> (\<exists>v. r = Ok v \<and> fits cfg repaired (t ! (cs ! j)) v)"
        using Cons.prems(4) True one(2) by auto
    qed
    have "insert (cs ! i) K \<subseteq> {..<length t}" using Cons.prems(3) ci by simp
    from Cons.IH [OF one(3) Cons.prems(2) this fin] show ?thesis using True one(1) by simp
  next
    case False
    from Cons.IH [OF Cons.prems] show ?thesis using False by auto
  qed
qed

lemma pool_read_stage:
  assumes "stage repaired rejected t K s" "\<forall>c\<in>set (pre @ cs). c < length t \<and> known wave repaired (t ! c)" "K \<subseteq> {..<length t}"
    "\<forall>i r. map_of fin i = Some r \<longrightarrow> i < length (pre @ cs) \<and> (pre @ cs) ! i \<in> K
        \<and> (\<exists>v. r = Ok v \<and> fits cfg repaired (t ! ((pre @ cs) ! i)) v)"
  shows "\<exists>vs s'. pool_read env cs (length pre) fin s = (Ok vs, s') \<and> list_all2 (\<lambda>c v. fits cfg repaired (t ! c) v) cs vs
     \<and> stage repaired rejected t (K \<union> set cs) s'"
  using assms
proof (induction cs arbitrary: pre K s)
  case (Cons c cs)
  obtain v s1 where one: "(case map_of fin (length pre) of Some r \<Rightarrow> Pair r | None \<Rightarrow> evaluate_one env c) s = (Ok v, s1)"
    "fits cfg repaired (t ! c) v" "stage repaired rejected t (insert c K) s1"
  proof (cases "map_of fin (length pre)")
    case None
    then show ?thesis using that evaluate_one_stage [OF Cons.prems(1) _ _ Cons.prems(3), of c] Cons.prems(2) by auto
  next
    case (Some r)
    then obtain v where v: "c \<in> K" "r = Ok v" "fits cfg repaired (t ! c) v" using Cons.prems(4) by force
    then have "insert c K = K" by blast
    then show ?thesis using that [of v s] Some v Cons.prems(1) by simp
  qed
  obtain vs s2 where rest: "pool_read env cs (length (pre @ [c])) fin s1 = (Ok vs, s2)"
    "list_all2 (\<lambda>c v. fits cfg repaired (t ! c) v) cs vs" "stage repaired rejected t (insert c K \<union> set cs) s2"
    using Cons.IH [OF one(3), of "pre @ [c]"] Cons.prems(2-4) by fastforce
  then show ?case using one by (simp add: bindM_def ret_def)
qed (simp add: ret_def)

lemma collect_verdicts_stage:
  assumes "told t s" "\<forall>c\<in>set cs. c < length t \<and> known wave repaired (t ! c)"
  shows "\<exists>vs s'. collect_verdicts env cfg cs s = (Ok vs, s') \<and> list_all2 (\<lambda>c v. fits cfg repaired (t ! c) v) cs vs
     \<and> stage repaired rejected t (set cs) s'"
proof (cases "min (evaluation_workers cfg) (int (length cs)) \<le> 1")
  case True
  have "stage repaired rejected t {} s" using assms(1) by (simp add: stage_def)
  from evaluate_all_stage [OF this assms(2)] show ?thesis using True by (simp add: collect_verdicts_def)
next
  case False
  obtain order w where o: "pool_order env (world s) (length cs) = (order, w)" by fastforce
  have "stage repaired rejected t {} (s\<lparr>world := w\<rparr>)" using assms(1) by (simp add: stage_def told_def)
  then obtain fin L s1 where pc: "pool_complete env cs order [] (s\<lparr>world := w\<rparr>) = (Ok fin, s1)" "stage repaired rejected t L s1"
    "L \<subseteq> {..<length t}"
    "\<forall>i r. map_of fin i = Some r \<longrightarrow> i < length cs \<and> cs ! i \<in> L \<and> (\<exists>v. r = Ok v \<and> fits cfg repaired (t ! (cs ! i)) v)"
    using pool_complete_stage [OF _ assms(2), of "{}" "s\<lparr>world := w\<rparr>" "[]" order] by auto
  obtain vs s2 where pr: "pool_read env cs 0 fin s1 = (Ok vs, s2)" "list_all2 (\<lambda>c v. fits cfg repaired (t ! c) v) cs vs"
    "stage repaired rejected t (L \<union> set cs) s2"
    using pool_read_stage [OF pc(2), of "[]" cs fin] assms(2) pc(3,4) by auto
  have "stage repaired rejected t (set cs) s2" using pr(3) by (simp add: stage_def)
  then show ?thesis using False o pc(1) pr by (simp add: collect_verdicts_def bindM_def)
qed

subsection \<open>Applying the verdicts\<close>

lemma shape_value_leads:
  assumes "unit_value x" "\<And>k. cr = Some k \<Longrightarrow> valid_critique k" "c < length (nodes_of s)"
  shows "\<exists>y s'. shape_value env c x cr s = (Ok y, s')
     \<and> dict_get (metadata (nodes_of s' ! c)) CRITIQUE_METADATA_KEY = dict_get (metadata (nodes_of s ! c)) CRITIQUE_METADATA_KEY
     \<and> (\<forall>k. blames (metadata (nodes_of s ! c)) k \<longrightarrow> blames (metadata (nodes_of s' ! c)) k)"
proof -
  obtain y d w' where "reward (world s) (nodes_of s) c x cr = (Inr y, d, w')"
    "dict_get d CRITIQUE_METADATA_KEY = dict_get (metadata (nodes_of s ! c)) CRITIQUE_METADATA_KEY"
    "\<forall>k. blames (metadata (nodes_of s ! c)) k \<longrightarrow> blames d k"
    using rewarding [OF assms(1,2), where w = "world s" and h = "nodes_of s" and a = c] by blast
  then show ?thesis using assms(3) by (simp add: shape_value_def wiring set_metadata_def)
qed

lemma apply_verdict_leads:
  assumes "c < length (nodes_of s)" "fits cfg repaired (content (nodes_of s ! c)) v" "logged repaired rejected (nodes_of s) c"
  shows "\<exists>x s'. apply_verdict env cfg c v s = (Ok x, s')
     \<and> (content (nodes_of s ! c) \<noteq> py_strip repaired \<longrightarrow> criticised blames (metadata (nodes_of s' ! c)))"
proof -
  define s1 where "s1 = set_heap (apply_evaluation (nodes_of s) c (ev_score v) (classify cfg v) (ev_rationale v)) s"
  have s1: "c < length (nodes_of s1)" "metadata (nodes_of s1 ! c) = metadata (nodes_of s ! c)"
    using assms(1) by (simp_all add: s1_def apply_evaluation_def)
  have unit: "unit_value (ev_score v)" using assms(2) by (simp add: fits_def valid_evaluation_def unit_value_def)
  have run: "apply_verdict env cfg c v s = bindM (consult_critic env (classify cfg v) c) (\<lambda>cr. shape_value env c (ev_score v) cr) s1"
    by (simp add: apply_verdict_def bindM_def [of "store_verdict c v (classify cfg v)"] store_verdict_def s1_def)
  show ?thesis
  proof (cases "content (nodes_of s ! c) = py_strip repaired")
    case True
    then have "consult_critic env (classify cfg v) c s1 = (Ok None, s1)"
      using assms(2) by (simp add: fits_def consult_critic_def wiring)
    then show ?thesis using run shape_value_leads [OF unit _ s1(1), of None] True by (auto simp: bindM_def)
  next
    case False
    then have rej: "rejected (metadata (nodes_of s1 ! c))" and cl: "classify cfg v = PRUNED"
      using assms(2,3) s1(2) by (simp_all add: logged_def fits_def)
    obtain k w' where k: "diagnose (world s1) (nodes_of s1) c = (Inr (Some k), w')" "py_strip (guidance k) \<noteq> []"
      "blames (metadata (nodes_of s1 ! c)) k"
      using diagnosis [OF rej] by blast
    define s2 where "s2 = set_heap (set_metadata (nodes_of s1) c
        (dict_set CRITIQUE_METADATA_KEY (VDict (critique_to_dict k)) (metadata (nodes_of s1 ! c)))) (s1\<lparr>world := w'\<rparr>)"
    have c: "consult_critic env (classify cfg v) c s1 = (Ok (Some k), s2)"
      using k(1) cl by (simp add: consult_critic_def wiring s2_def)
    have s2: "c < length (nodes_of s2)" "dict_get (metadata (nodes_of s2 ! c)) CRITIQUE_METADATA_KEY = Some (VDict (critique_to_dict k))"
      "blames (metadata (nodes_of s2 ! c)) k"
      using s1(1) noted [OF k(3)] by (simp_all add: s2_def set_metadata_def)
    have "valid_critique k" using fairD(2) [OF fair wiring(5), of "world s1" "nodes_of s1" c k] k(1) by simp
    then obtain y s' where "shape_value env c (ev_score v) (Some k) s2 = (Ok y, s')"
      "dict_get (metadata (nodes_of s' ! c)) CRITIQUE_METADATA_KEY = Some (VDict (critique_to_dict k))"
      "blames (metadata (nodes_of s' ! c)) k"
      using shape_value_leads [OF unit _ s2(1), of "Some k"] s2(2,3) by auto
    then show ?thesis using run c k(2) by (auto simp: bindM_def criticised_def)
  qed
qed

lemma verdict_loop_leads:
  assumes "\<forall>(c, v)\<in>set cvs. c < length (nodes_of s) \<and> fits cfg repaired (content (nodes_of s ! c)) v \<and> logged repaired rejected (nodes_of s) c"
    "distinct (map fst cvs)"
  shows "\<exists>x s'. verdict_loop env cfg cvs sol valued s = (Ok x, s')
     \<and> (\<forall>(c, v)\<in>set cvs. content (nodes_of s ! c) \<noteq> py_strip repaired \<longrightarrow> criticised blames (metadata (nodes_of s' ! c)))"
  using assms
proof (induction cvs arbitrary: sol valued s)
  case (Cons cv cvs)
  obtain c v where cv: "cv = (c, v)" by fastforce
  have c: "c < length (nodes_of s)" "fits cfg repaired (content (nodes_of s ! c)) v" "logged repaired rejected (nodes_of s) c"
    using Cons.prems(1) by (simp_all add: cv)
  obtain x s1 where one: "apply_verdict env cfg c v s = (Ok x, s1)"
    "content (nodes_of s ! c) \<noteq> py_strip repaired \<longrightarrow> criticised blames (metadata (nodes_of s1 ! c))"
    using apply_verdict_leads [OF c] by blast
  have g: "scored cfg {c} {v} (nodes_of s) (nodes_of s1)" using apply_verdict_spec(2) [OF one(1) c(1)] by (simp add: graded_def)
  have len: "length (nodes_of s1) = length (nodes_of s)" by (rule scoredD(2) [OF g])
  have same: "nodes_of s1 ! b = nodes_of s ! b" if "b < length (nodes_of s)" "b \<noteq> c" for b
    using scoredD(5) [OF g that(1)] that(2) by simp
  have diff: "b \<noteq> c" if "(b, u) \<in> set cvs" for b u using Cons.prems(2) that by (force simp: cv)
  have distinct_rest: "distinct (map fst cvs)" using Cons.prems(2) by simp
  have next_ok: "\<forall>(b, u)\<in>set cvs. b < length (nodes_of s1) \<and> fits cfg repaired (content (nodes_of s1 ! b)) u
      \<and> logged repaired rejected (nodes_of s1) b"
  proof clarify
    fix b u assume bu: "(b, u) \<in> set cvs"
    then have "b < length (nodes_of s) \<and> fits cfg repaired (content (nodes_of s ! b)) u \<and> logged repaired rejected (nodes_of s) b"
      using Cons.prems(1) by auto
    then show "b < length (nodes_of s1) \<and> fits cfg repaired (content (nodes_of s1 ! b)) u \<and> logged repaired rejected (nodes_of s1) b"
      using same [OF _ diff [OF bu]] len by (simp add: logged_def)
  qed
  obtain y s2 where rest: "verdict_loop env cfg cvs (if classify cfg v = TERMINAL \<and> sol = None then Some c else sol) (valued @ [(c, x)]) s1 = (Ok y, s2)"
    "\<forall>(b, u)\<in>set cvs. content (nodes_of s1 ! b) \<noteq> py_strip repaired \<longrightarrow> criticised blames (metadata (nodes_of s2 ! b))"
    using Cons.IH [OF next_ok distinct_rest] by blast
  have bound: "\<forall>x\<in>set cvs. fst x < length (nodes_of s1)" using next_ok by auto
  have g2: "scored cfg (fst ` set cvs) (snd ` set cvs) (nodes_of s1) (nodes_of s2)"
    using verdict_loop_spec [OF rest(1) distinct_rest bound] by (simp add: graded_def)
  have "c \<notin> fst ` set cvs" using Cons.prems(2) by (simp add: cv)
  then have keep: "nodes_of s2 ! c = nodes_of s1 ! c" using scoredD(5) [OF g2, of c] c(1) len by simp
  have other: "content (nodes_of s1 ! b) = content (nodes_of s ! b)" if "(b, u) \<in> set cvs" for b u
    using same [OF _ diff [OF that]] Cons.prems(1) that by auto
  have "\<forall>(b, u)\<in>set (cv # cvs). content (nodes_of s ! b) \<noteq> py_strip repaired \<longrightarrow> criticised blames (metadata (nodes_of s2 ! b))"
    using one(2) rest(2) other keep by (auto simp: cv)
  moreover have "verdict_loop env cfg (cv # cvs) sol valued s = (Ok y, s2)" using one(1) rest(1) by (simp add: cv bindM_def)
  ultimately show ?case by blast
qed (simp add: ret_def)

text \<open>A batch of known candidates: every one is classified by its text, and the rejected ones carry guidance.\<close>

lemma evaluate_children_leads:
  assumes "\<forall>c\<in>set cs. c < length (nodes_of s) \<and> known wave repaired (content (nodes_of s ! c))" "distinct cs"
  shows "\<exists>sol valued s'. evaluate_children env cfg cs s = (Ok (sol, valued), s') \<and> map fst valued = cs
     \<and> sol = List.find (\<lambda>c. content (nodes_of s ! c) = py_strip repaired) cs
     \<and> (\<exists>V. graded cfg (set cs) V s s')
     \<and> (\<forall>c\<in>set cs. status (nodes_of s' ! c) = (if content (nodes_of s ! c) = py_strip repaired then TERMINAL else PRUNED)
          \<and> (content (nodes_of s ! c) \<noteq> py_strip repaired \<longrightarrow> criticised blames (metadata (nodes_of s' ! c))))"
proof -
  define t where "t = map content (nodes_of s)"
  have told: "told t s" by (simp add: told_def t_def)
  have t: "t ! c = content (nodes_of s ! c)" if "c \<in> set cs" for c using assms(1) that by (simp add: t_def)
  obtain vs s1 where c: "collect_verdicts env cfg cs s = (Ok vs, s1)" "list_all2 (\<lambda>c v. fits cfg repaired (t ! c) v) cs vs"
    "stage repaired rejected t (set cs) s1"
    using collect_verdicts_stage [OF told, of cs] assms(1) t by (auto simp: t_def)
  have len: "length (nodes_of s1) = length (nodes_of s)" "length vs = length cs"
    using c(2,3) list_all2_lengthD [OF c(2)] by (auto simp: stage_def told_def t_def dest: arg_cong [where f = length])
  have cont: "content (nodes_of s1 ! c) = content (nodes_of s ! c)" if "c \<in> set cs" for c
    using c(3) assms(1) that len(1) by (metis (no_types, lifting) nth_map stage_def t_def told_def)
  have fit: "fits cfg repaired (content (nodes_of s ! c)) v" if "(c, v) \<in> set (zip cs vs)" for c v
    using c(2) that t set_zip_leftD [OF that] by (auto simp: list_all2_iff)
  have ok: "\<forall>(c, v)\<in>set (zip cs vs). c < length (nodes_of s1) \<and> fits cfg repaired (content (nodes_of s1 ! c)) v
      \<and> logged repaired rejected (nodes_of s1) c"
  proof clarify
    fix c v assume cv: "(c, v) \<in> set (zip cs vs)"
    note m = set_zip_leftD [OF cv]
    show "c < length (nodes_of s1) \<and> fits cfg repaired (content (nodes_of s1 ! c)) v \<and> logged repaired rejected (nodes_of s1) c"
      using fit [OF cv] cont [OF m] assms(1) m len(1) c(3) by (auto simp: stage_def)
  qed
  have zip: "map fst (zip cs vs) = cs" using len(2) by simp
  obtain x s2 where loop: "verdict_loop env cfg (zip cs vs) None [] s1 = (Ok x, s2)"
    "\<forall>(c, v)\<in>set (zip cs vs). content (nodes_of s1 ! c) \<noteq> py_strip repaired \<longrightarrow> criticised blames (metadata (nodes_of s2 ! c))"
    using verdict_loop_leads [OF ok, of None "[]"] zip assms(2) by auto
  obtain sol valued where x: "x = (sol, valued)" by fastforce
  have run: "evaluate_children env cfg cs s = (Ok (sol, valued), s2)"
    using c(1) loop(1) x by (simp add: evaluate_children_def bindM_def)
  have bound: "\<forall>c\<in>set cs. c < length (nodes_of s)" using assms(1) by blast
  note spec = evaluate_children_spec [OF run assms(2) bound]
  have pairs: "\<forall>x\<in>set (zip cs vs). fst x < length (nodes_of s1)" using ok by auto
  have vspec: "sol = first_accepted cfg (zip cs vs)"
    "\<forall>(c, v)\<in>set (zip cs vs). status (nodes_of s2 ! c) = classify cfg v"
    using verdict_loop_spec [OF loop(1) [unfolded x] _ pairs] zip assms(2) by auto
  have "first_accepted cfg (zip cs vs) = List.find (\<lambda>c. content (nodes_of s ! c) = py_strip repaired) cs"
    using len(2) fit
  proof (induction cs vs rule: list_induct2')
    case (4 c cs v vs)
    have "fits cfg repaired (content (nodes_of s ! c)) v" by (rule "4.prems"(2)) simp
    moreover have "first_accepted cfg (zip cs vs) = List.find (\<lambda>c. content (nodes_of s ! c) = py_strip repaired) cs"
      by (rule "4.IH") (use "4.prems" in auto)
    ultimately show ?case by (simp add: first_accepted_Cons fits_def)
  qed (simp_all add: first_accepted_def)
  moreover have "status (nodes_of s2 ! c) = (if content (nodes_of s ! c) = py_strip repaired then TERMINAL else PRUNED)
      \<and> (content (nodes_of s ! c) \<noteq> py_strip repaired \<longrightarrow> criticised blames (metadata (nodes_of s2 ! c)))" if "c \<in> set cs" for c
  proof -
    have "c \<in> set (map fst (zip cs vs))" unfolding zip by (rule that)
    then obtain v where cv: "(c, v) \<in> set (zip cs vs)" by auto
    show ?thesis using vspec(2) loop(2) fit [OF cv] cv cont [OF that] by (fastforce simp: fits_def)
  qed
  ultimately show ?thesis using run spec(2,3) vspec(1) by (intro exI [of _ sol] exI [of _ valued] exI [of _ s2]) simp
qed

lemma settle_batch_leads:
  assumes "at_phase EXPANSION s" "struct_ok env cfg (tree s)" "distinct kids"
    "\<forall>c\<in>set kids. c < length (nodes_of s) \<and> known wave repaired (content (nodes_of s ! c))"
  shows "\<exists>fl s'. settle_batch env cfg a kids s = (Ok fl, s') \<and> struct_ok env cfg (tree s') \<and> shape (nodes_of s') = shape (nodes_of s)
     \<and> (\<forall>b<length (nodes_of s). b \<notin> set kids \<longrightarrow> status (nodes_of s' ! b) = status (nodes_of s ! b) \<and> metadata (nodes_of s' ! b) = metadata (nodes_of s ! b))
     \<and> (\<forall>c\<in>set kids. status (nodes_of s' ! c) = (if content (nodes_of s ! c) = py_strip repaired then TERMINAL else PRUNED)
          \<and> (content (nodes_of s ! c) \<noteq> py_strip repaired \<longrightarrow> criticised blames (metadata (nodes_of s' ! c))))
     \<and> (if \<exists>c\<in>set kids. content (nodes_of s ! c) = py_strip repaired then fl = Break \<and> at_phase SUCCEEDED s'
        else fl = Next \<and> at_phase SELECTION s')"
proof -
  obtain s1 where s1: "advance env EVALUATION (Some (id_of a s)) (nat_digits (length kids) @ '' candidates'') s = (Ok (), s1)"
    "at_phase EVALUATION s1" "tree s1 = tree s"
    using advance_ok [OF wiring(1) assms(1), of EVALUATION] by auto
  obtain sol valued s2 V where s2: "evaluate_children env cfg kids s1 = (Ok (sol, valued), s2)" "map fst valued = kids"
    "sol = List.find (\<lambda>c. content (nodes_of s ! c) = py_strip repaired) kids" "graded cfg (set kids) V s1 s2"
    "\<forall>c\<in>set kids. status (nodes_of s2 ! c) = (if content (nodes_of s ! c) = py_strip repaired then TERMINAL else PRUNED)
          \<and> (content (nodes_of s ! c) \<noteq> py_strip repaired \<longrightarrow> criticised blames (metadata (nodes_of s2 ! c)))"
    using evaluate_children_leads [of kids s1] assms(3,4) s1(3) by auto
  have p2: "at_phase EVALUATION s2" by (rule quiet_phase [OF quiet_evaluate_children s2(1) s1(2)])
  note g = scoredD [OF conjunct1 [OF s2(4) [unfolded graded_def]], unfolded s1(3)]
  have st2: "struct_ok env cfg (tree s2)" using graded_struct [OF s2(4)] assms(2) s1(3) by simp
  obtain s3 where s3: "advance env BACKPROPAGATION (Some (id_of a s)) [] s2 = (Ok (), s3)" "at_phase BACKPROPAGATION s3" "tree s3 = tree s2"
    using advance_ok [OF wiring(1) p2, of BACKPROPAGATION] by auto
  have "\<forall>x\<in>set valued. fst x < length (nodes_of s3)"
  proof
    fix x assume "x \<in> set valued"
    then have "fst x \<in> set kids" unfolding s2(2) [symmetric] by simp
    then show "fst x < length (nodes_of s3)" using assms(4) g(2) s3(3) by simp
  qed
  then obtain s4 where s4: "backpropagate valued s3 = (Ok (), s4)" "struct_ok env cfg (tree s4)" "unrecorded (nodes_of s2) (nodes_of s4)"
    using backpropagate_unrecorded [of env cfg s3 valued] st2 s3(3) by auto
  have p4: "at_phase BACKPROPAGATION s4" by (rule quiet_phase [OF quiet_backpropagate s4(1) s3(2)])
  define fin where "fin = (case sol of None \<Rightarrow> bindM (advance env SELECTION None ''iteration complete'') (\<lambda>_. ret Next)
       | Some c \<Rightarrow> (\<lambda>st'. bindM (advance env SUCCEEDED (Some (id_of c st'))
             (''accepted with score '' @ format_fixed 3 (score (nodes_of st' ! c)))) (\<lambda>_. ret Break) st'))"
  have run: "settle_batch env cfg a kids s = fin s4"
    using s1(1) s2(1) s3(1) s4(1) by (simp add: settle_batch_def bindM_def fin_def)
  have "\<exists>fl s'. fin s4 = (Ok fl, s') \<and> tree s' = tree s4
     \<and> (if \<exists>c\<in>set kids. content (nodes_of s ! c) = py_strip repaired then fl = Break \<and> at_phase SUCCEEDED s'
        else fl = Next \<and> at_phase SELECTION s')"
  proof (cases sol)
    case None
    then have "\<not> (\<exists>c\<in>set kids. content (nodes_of s ! c) = py_strip repaired)" using s2(3) by (auto simp: find_None_iff)
    moreover obtain s5 where "advance env SELECTION None ''iteration complete'' s4 = (Ok (), s5)" "at_phase SELECTION s5" "tree s5 = tree s4"
      using advance_ok [OF wiring(1) p4, of SELECTION] by auto
    ultimately show ?thesis by (simp add: fin_def None bindM_def ret_def)
  next
    case (Some c)
    then have "\<exists>c\<in>set kids. content (nodes_of s ! c) = py_strip repaired" using s2(3) by (auto simp: find_Some_iff dest: sym)
    moreover obtain s5 where "advance env SUCCEEDED (Some (id_of c s4)) (''accepted with score '' @ format_fixed 3 (score (nodes_of s4 ! c))) s4 = (Ok (), s5)"
      "at_phase SUCCEEDED s5" "tree s5 = tree s4"
      using advance_ok [OF wiring(1) p4, of SUCCEEDED] by auto
    ultimately show ?thesis by (simp add: fin_def Some bindM_def ret_def)
  qed
  then obtain fl s5 where s5: "fin s4 = (Ok fl, s5)" "tree s5 = tree s4"
    "if \<exists>c\<in>set kids. content (nodes_of s ! c) = py_strip repaired then fl = Break \<and> at_phase SUCCEEDED s5
        else fl = Next \<and> at_phase SELECTION s5" by blast
  have same: "shape (nodes_of s4) = shape (nodes_of s)"
    "\<And>b. b < length (nodes_of s) \<Longrightarrow> status (nodes_of s4 ! b) = status (nodes_of s2 ! b) \<and> metadata (nodes_of s4 ! b) = metadata (nodes_of s2 ! b)"
    using s4(3) g(1,2) by (simp_all add: unrecorded_def)
  show ?thesis
  proof (intro exI [of _ fl] exI [of _ s5] conjI)
    show "settle_batch env cfg a kids s = (Ok fl, s5)" using run s5(1) by simp
    show "struct_ok env cfg (tree s5)" "shape (nodes_of s5) = shape (nodes_of s)" using s4(2) same(1) s5(2) by simp_all
    show "\<forall>b<length (nodes_of s). b \<notin> set kids \<longrightarrow> status (nodes_of s5 ! b) = status (nodes_of s ! b) \<and> metadata (nodes_of s5 ! b) = metadata (nodes_of s ! b)"
      using same(2) g(5) s5(2) by simp
    show "\<forall>c\<in>set kids. status (nodes_of s5 ! c) = (if content (nodes_of s ! c) = py_strip repaired then TERMINAL else PRUNED)
          \<and> (content (nodes_of s ! c) \<noteq> py_strip repaired \<longrightarrow> criticised blames (metadata (nodes_of s5 ! c)))"
      using same(2) s2(5) assms(4) s5(2) by simp
  qed (rule s5(3))
qed

subsection \<open>The two passes\<close>

text \<open>Expanding the root with known candidates, one of them new.\<close>

lemma expand_root_leads:
  assumes "at_phase SELECTION s" "struct_ok env cfg (tree s)"
    "\<And>w. \<exists>w'. generate env w (nodes_of s) 0 (branching_factor cfg) = (Inr cands, w')"
    "\<forall>c\<in>set cands. known wave repaired (py_strip c)"
    "\<exists>c\<in>set (take (nat (branching_factor cfg)) cands). py_strip c \<noteq> []
       \<and> py_strip c \<notin> set (map (\<lambda>c. content (nodes_of s ! c)) (children (nodes_of s ! 0)))"
  shows "\<exists>fl s'. expand_node env cfg 0 s = (Ok fl, s') \<and> struct_ok env cfg (tree s') \<and> length (nodes_of s) < length (nodes_of s')
     \<and> children (nodes_of s' ! 0) = children (nodes_of s ! 0) @ [length (nodes_of s)..<length (nodes_of s')]
     \<and> (\<forall>b<length (nodes_of s). content (nodes_of s' ! b) = content (nodes_of s ! b) \<and> status (nodes_of s' ! b) = status (nodes_of s ! b)
          \<and> metadata (nodes_of s' ! b) = metadata (nodes_of s ! b))
     \<and> map content (drop (length (nodes_of s)) (nodes_of s')) =
          new_texts (set (map (\<lambda>c. content (nodes_of s ! c)) (children (nodes_of s ! 0)))) (take (nat (branching_factor cfg)) cands)
     \<and> (\<forall>b. length (nodes_of s) \<le> b \<and> b < length (nodes_of s') \<longrightarrow> content (nodes_of s' ! b) \<in> py_strip ` set cands
          \<and> status (nodes_of s' ! b) = (if content (nodes_of s' ! b) = py_strip repaired then TERMINAL else PRUNED)
          \<and> (content (nodes_of s' ! b) \<noteq> py_strip repaired \<longrightarrow> criticised blames (metadata (nodes_of s' ! b))))
     \<and> (if \<exists>b. length (nodes_of s) \<le> b \<and> b < length (nodes_of s') \<and> content (nodes_of s' ! b) = py_strip repaired
        then fl = Break \<and> at_phase SUCCEEDED s' else fl = Next \<and> at_phase SELECTION s')"
proof -
  note d = struct_okD [OF assms(2)]
  obtain s1 where s1: "advance env EXPANSION (Some (id_of 0 s)) [] s = (Ok (), s1)" "at_phase EXPANSION s1" "tree s1 = tree s"
    using advance_ok [OF wiring(1) assms(1), of EXPANSION] by auto
  obtain w' where gen: "generate env (world s1) (nodes_of s1) 0 (branching_factor cfg) = (Inr cands, w')"
    using assms(3) s1(3) by auto
  let ?cs = "take (nat (branching_factor cfg)) cands" and ?s1 = "s1\<lparr>world := w'\<rparr>"
  let ?seen = "set (map (\<lambda>c. content (nodes_of s ! c)) (children (nodes_of s ! 0)))"
  obtain r s2 where loop: "expand_loop env 0 ?cs ?seen [] ?s1 = (r, s2)" by fastforce
  have pre: "struct_ok env cfg (tree ?s1)" "0 < length (nodes_of ?s1)" "depth (nodes_of ?s1 ! 0) < max_depth cfg"
    "set (map (\<lambda>c. content (nodes_of ?s1 ! c)) (children (nodes_of ?s1 ! 0))) \<subseteq> ?seen"
    using s1(3) assms(2) d(4,6) config(1) by (simp_all add: valid_config_def check_config_Inr)
  note spec = expand_loop_spec [OF pre(1) wiring(2) pre(2-4) loop] and new = expand_loop_texts [OF pre(1) wiring(2) pre(2-4) loop]
  let ?kids = "[length (nodes_of s)..<length (nodes_of s2)]"
  have run: "expand env cfg 0 s1 = (Ok ?kids, s2)" using loop gen spec s1(3) by (simp add: expand_def)
  have new: "map content (drop (length (nodes_of s)) (nodes_of s2)) = new_texts ?seen ?cs" using new s1(3) by simp
  have "new_texts ?seen ?cs \<noteq> []" using assms(5) new_texts_set [of ?seen ?cs] by (metis (mono_tags, lifting) empty_iff empty_set image_eqI mem_Collect_eq)
  then have more: "length (nodes_of s) < length (nodes_of s2)" unfolding new [symmetric] by simp
  have g: "grown 0 (nodes_of s) (nodes_of s2)" using spec s1(3) by simp
  have p2: "at_phase EXPANSION s2" by (rule quiet_phase [OF quiet_expand run s1(2)])
  have st2: "struct_ok env cfg (tree s2)" using spec by blast
  have fresh: "content (nodes_of s2 ! b) \<in> py_strip ` set cands" if "b \<in> set ?kids" for b
  proof -
    have "content (nodes_of s2 ! b) \<in> set (map content (drop (length (nodes_of s)) (nodes_of s2)))"
      unfolding set_map using that by (intro imageI) (auto simp: in_set_conv_nth intro!: exI [of _ "b - length (nodes_of s)"])
    then have "content (nodes_of s2 ! b) \<in> py_strip ` set ?cs" unfolding new new_texts_set by simp
    then show ?thesis by (auto dest: in_set_takeD)
  qed
  then have ok: "\<forall>c\<in>set ?kids. c < length (nodes_of s2) \<and> known wave repaired (content (nodes_of s2 ! c))"
    using assms(4) by fastforce
  obtain fl s3 where s3: "settle_batch env cfg 0 ?kids s2 = (Ok fl, s3)" "struct_ok env cfg (tree s3)" "shape (nodes_of s3) = shape (nodes_of s2)"
     "\<forall>b<length (nodes_of s2). b \<notin> set ?kids \<longrightarrow> status (nodes_of s3 ! b) = status (nodes_of s2 ! b) \<and> metadata (nodes_of s3 ! b) = metadata (nodes_of s2 ! b)"
     "\<forall>c\<in>set ?kids. status (nodes_of s3 ! c) = (if content (nodes_of s2 ! c) = py_strip repaired then TERMINAL else PRUNED)
          \<and> (content (nodes_of s2 ! c) \<noteq> py_strip repaired \<longrightarrow> criticised blames (metadata (nodes_of s3 ! c)))"
     "if \<exists>c\<in>set ?kids. content (nodes_of s2 ! c) = py_strip repaired then fl = Break \<and> at_phase SUCCEEDED s3
        else fl = Next \<and> at_phase SELECTION s3"
    using settle_batch_leads [OF p2 st2 distinct_upt ok] by blast
  have len: "length (nodes_of s3) = length (nodes_of s2)" by (rule shape_length [OF s3(3)])
  have sh: "content (nodes_of s3 ! b) = content (nodes_of s2 ! b)" "children (nodes_of s3 ! b) = children (nodes_of s2 ! b)"
    if "b < length (nodes_of s2)" for b
    using shape_nth [OF s3(3)] that len by simp_all
  have old: "content (nodes_of s2 ! b) = content (nodes_of s ! b)" "status (nodes_of s2 ! b) = status (nodes_of s ! b)"
    "metadata (nodes_of s2 ! b) = metadata (nodes_of s ! b)" if "b < length (nodes_of s)" for b
    using g that unfolding grown_def by (cases "b = 0"; simp)+
  have kids: "children (nodes_of s2 ! 0) = children (nodes_of s ! 0) @ ?kids" using g unfolding grown_def by simp
  show ?thesis
  proof (intro exI [of _ fl] exI [of _ s3] conjI)
    show "expand_node env cfg 0 s = (Ok fl, s3)" using s1(1) run s3(1) more by (auto simp: expand_node_def bindM_def)
    show "struct_ok env cfg (tree s3)" by (rule s3(2))
    show "length (nodes_of s) < length (nodes_of s3)" using more len by simp
    show "children (nodes_of s3 ! 0) = children (nodes_of s ! 0) @ [length (nodes_of s)..<length (nodes_of s3)]"
      using sh(2) [OF le_less_trans [OF le0 more]] kids len by simp
    show "\<forall>b<length (nodes_of s). content (nodes_of s3 ! b) = content (nodes_of s ! b) \<and> status (nodes_of s3 ! b) = status (nodes_of s ! b)
          \<and> metadata (nodes_of s3 ! b) = metadata (nodes_of s ! b)"
      using s3(4) sh(1) old more by simp
    have "map content (nodes_of s3) = map content (nodes_of s2)" using sh(1) len by (simp add: list_eq_iff_nth_eq)
    then show "map content (drop (length (nodes_of s)) (nodes_of s3)) = new_texts ?seen ?cs"
      unfolding new [symmetric] by (metis drop_map)
    show "\<forall>b. length (nodes_of s) \<le> b \<and> b < length (nodes_of s3) \<longrightarrow> content (nodes_of s3 ! b) \<in> py_strip ` set cands
          \<and> status (nodes_of s3 ! b) = (if content (nodes_of s3 ! b) = py_strip repaired then TERMINAL else PRUNED)
          \<and> (content (nodes_of s3 ! b) \<noteq> py_strip repaired \<longrightarrow> criticised blames (metadata (nodes_of s3 ! b)))"
      using s3(5) sh(1) fresh len by simp
    have "(\<exists>c\<in>set ?kids. content (nodes_of s2 ! c) = py_strip repaired)
        \<longleftrightarrow> (\<exists>b. length (nodes_of s) \<le> b \<and> b < length (nodes_of s3) \<and> content (nodes_of s3 ! b) = py_strip repaired)"
      using sh(1) len by auto
    then show "if \<exists>b. length (nodes_of s) \<le> b \<and> b < length (nodes_of s3) \<and> content (nodes_of s3 ! b) = py_strip repaired
        then fl = Break \<and> at_phase SUCCEEDED s3 else fl = Next \<and> at_phase SELECTION s3" using s3(6) by simp
  qed
qed

lemma run_body_search:
  assumes "select env cfg (s\<lparr>iteration := iteration s + 1\<rparr>) = (Ok (Some a, revived), s1)"
  shows "run_body env cfg None s
     = bindM (if revived \<noteq> [] then announce_revision env a else ret ()) (\<lambda>_. expand_node env cfg a) s1"
  using assms by (simp add: run_body_def poll_cancel_def poll_deadline_def poll_stop_def wiring search_step_def count_iteration_def bindM_def)

text \<open>The first pass: the whole wave is rejected, and every child of the root carries guidance.\<close>

lemma first_pass:
  assumes "at_phase SELECTION s" "struct_ok env cfg (tree s)" "length (nodes_of s) = 1" "children (nodes_of s ! 0) = []"
    "status (nodes_of s ! 0) = PENDING" "metadata (nodes_of s ! 0) = []"
  shows "\<exists>s'. run_body env cfg None s = (Ok Next, s') \<and> at_phase SELECTION s' \<and> saturated blames env cfg wave s'"
proof -
  note d = struct_okD [OF assms(2)]
  let ?s = "s\<lparr>iteration := iteration s + 1\<rparr>"
  have "depth (nodes_of s ! 0) < max_depth cfg" using d(6) config(1) by (simp add: valid_config_def check_config_Inr)
  then have sel: "select env cfg ?s = (Ok (Some 0, []), ?s)"
    using d(2) assms(4,5) by (simp add: select_def select_loop.simps is_live_def LIVE_STATUSES_def)
  have root: "is_root (nodes_of s ! 0)" using wf_treeD(3) [OF d(1) d(4)] d(2) by (simp add: is_root_def)
  have gen: "\<exists>w'. generate env w (nodes_of ?s) 0 (branching_factor cfg) = (Inr wave, w')" for w
    using blind [of 0 "nodes_of s" w] root assms(3,6) by simp
  have p: "at_phase SELECTION ?s" "struct_ok env cfg (tree ?s)" using assms(1,2) by (simp_all add: at_phase_def)
  have kn: "\<forall>c\<in>set wave. known wave repaired (py_strip c)" by (simp add: known_def)
  have some: "\<exists>c\<in>set (take (nat (branching_factor cfg)) wave). py_strip c \<noteq> []
       \<and> py_strip c \<notin> set (map (\<lambda>c. content (nodes_of ?s ! c)) (children (nodes_of ?s ! 0)))"
    using texts(1) assms(4) by simp
  obtain fl s' where e: "expand_node env cfg 0 ?s = (Ok fl, s')" "struct_ok env cfg (tree s')" "1 < length (nodes_of s')"
     "children (nodes_of s' ! 0) = [1..<length (nodes_of s')]"
     "status (nodes_of s' ! 0) = PENDING" "metadata (nodes_of s' ! 0) = []"
     "map content (drop 1 (nodes_of s')) = new_texts {} (take (nat (branching_factor cfg)) wave)"
     "\<forall>b. 1 \<le> b \<and> b < length (nodes_of s') \<longrightarrow> content (nodes_of s' ! b) \<in> py_strip ` set wave
          \<and> status (nodes_of s' ! b) = (if content (nodes_of s' ! b) = py_strip repaired then TERMINAL else PRUNED)
          \<and> (content (nodes_of s' ! b) \<noteq> py_strip repaired \<longrightarrow> criticised blames (metadata (nodes_of s' ! b)))"
     "if \<exists>b. 1 \<le> b \<and> b < length (nodes_of s') \<and> content (nodes_of s' ! b) = py_strip repaired
        then fl = Break \<and> at_phase SUCCEEDED s' else fl = Next \<and> at_phase SELECTION s'"
    using expand_root_leads [OF p gen kn some] assms(3-6) by auto
  have not: "content (nodes_of s' ! b) \<noteq> py_strip repaired" if "1 \<le> b" "b < length (nodes_of s')" for b
    using e(8) texts(3) that by metis
  have "run_body env cfg None s = (Ok fl, s')" using run_body_search [OF sel] e(1) by simp
  then show ?thesis using e(2-9) not by (auto simp: saturated_def)
qed

text \<open>The notes compiled for a saturated root.\<close>

lemma saturated_notes:
  assumes "saturated blames env cfg wave s"
  shows "\<exists>crit ks. (\<forall>c\<in>set (children (nodes_of s ! 0)).
        dict_get (metadata (nodes_of s ! c)) CRITIQUE_METADATA_KEY = Some (VDict (critique_to_dict (crit c))) \<and> blames (metadata (nodes_of s ! c)) (crit c))
     \<and> notes_from crit (children (nodes_of s ! 0)) ks
     \<and> compile_revision_notes fr (nodes_of s) 0 = Inr (py_join newline (map note_line ks)) \<and> py_join newline (map note_line ks) \<noteq> []"
proof -
  let ?cs = "children (nodes_of s ! 0)"
  have kids: "?cs = [1..<length (nodes_of s)]" "1 < length (nodes_of s)" using assms by (simp_all add: saturated_def)
  have "\<forall>b\<in>set ?cs. criticised blames (metadata (nodes_of s ! b))" using assms by (simp add: saturated_def)
  then obtain k where k: "\<forall>b\<in>set ?cs. dict_get (metadata (nodes_of s ! b)) CRITIQUE_METADATA_KEY
       = Some (VDict (critique_to_dict (k b))) \<and> py_strip (guidance (k b)) \<noteq> [] \<and> blames (metadata (nodes_of s ! b)) (k b)"
    unfolding criticised_def by metis
  have "\<forall>c\<in>set ?cs. dict_get (metadata (nodes_of s ! c)) CRITIQUE_METADATA_KEY
     = map_option (\<lambda>k. VDict (critique_to_dict k)) (Some (k c))"
    using k by simp
  from revision_notes_deduplicated [OF this, of fr]
  obtain ks where ks: "compile_revision_notes fr (nodes_of s) 0 = Inr (py_join newline (map note_line ks))"
    "subseq ks (List.map_filter (\<lambda>c. Some (k c)) ?cs)"
    "map (\<lambda>k. py_strip (guidance k)) ks = firsts (filter (\<lambda>t. t \<noteq> [])
       (map (\<lambda>k. py_strip (guidance k)) (List.map_filter (\<lambda>c. Some (k c)) ?cs)))"
    by blast
  have all: "List.map_filter (\<lambda>c. Some (k c)) cs = map k cs" for cs by (induction cs) (simp_all add: map_filter_simps)
  have "filter (\<lambda>t. t \<noteq> []) (map (\<lambda>c. py_strip (guidance (k c))) ?cs) = map (\<lambda>c. py_strip (guidance (k c))) ?cs"
    using k by (intro filter_True) auto
  then have ks': "subseq ks (map k ?cs)" "map (\<lambda>k. py_strip (guidance k)) ks = firsts (map (\<lambda>c. py_strip (guidance (k c))) ?cs)"
    using ks(2,3) unfolding all by (simp_all add: comp_def)
  have "?cs = 1 # [Suc 1..<length (nodes_of s)]" unfolding kids(1) using kids(2) by (rule upt_conv_Cons)
  then have "ks \<noteq> []" using ks'(2) by auto
  then show ?thesis using ks(1) ks' k notes_text_nonempty [of ks] unfolding notes_from_def by blast
qed

text \<open>The second pass: the root is reopened with notes, and the repaired candidate is accepted.\<close>

lemma reopen:
  assumes "saturated blames env cfg wave s" "compile_revision_notes (fst policy) (nodes_of s) 0 = Inr ns" "ns \<noteq> []"
  shows "\<exists>s'. select env cfg s = (Ok (Some 0, [node_id (nodes_of s' ! 0)]), s')
     \<and> nodes_of s' = set_metadata (nodes_of s) 0 [(REVISION_NOTES_KEY, VStr ns), (REVISION_ATTEMPTS_KEY, VInt 1)]
     \<and> struct_ok env cfg (tree s')"
proof -
  have h: "struct_ok env cfg (tree s)" "children (nodes_of s ! 0) = [1..<length (nodes_of s)]" "1 < length (nodes_of s)"
    "status (nodes_of s ! 0) = PENDING" "metadata (nodes_of s ! 0) = []"
    "\<And>b. 1 \<le> b \<Longrightarrow> b < length (nodes_of s) \<Longrightarrow> status (nodes_of s ! b) = PRUNED"
    using assms(1) by (simp_all add: saturated_def)
  note d = struct_okD [OF h(1)]
  note ns = assms(2,3)
  have att: "attempts_of (metadata (nodes_of s ! 0)) = Inr 0" using h(5) by (simp add: attempts_of_def)
  let ?md = "[(REVISION_NOTES_KEY, VStr ns), (REVISION_ATTEMPTS_KEY, VInt 1)]"
  have "revise policy (world s) (nodes_of s) 0 = (Inr True, ?md, world s)"
    unfolding revise_decision [OF att ns(1)] using h(2,3,5,6) ns(2) attempts
    by (auto simp: REVISION_NOTES_KEY_def REVISION_ATTEMPTS_KEY_def dict_set_def)
  then have consult: "consult_revision env 0 s = (Ok True, set_heap (set_metadata (nodes_of s) 0 ?md) s)"
    by (simp add: consult_revision_def wiring)
  let ?s = "set_heap (set_metadata (nodes_of s) 0 ?md) s"
  have live: "is_live (nodes_of s ! 0)" using h(4) by (simp add: is_live_def LIVE_STATUSES_def)
  have dead: "filter (\<lambda>c. is_live (nodes_of s ! c)) (children (nodes_of s ! 0)) = []"
    using h(2,6) by (auto simp: filter_empty_conv is_live_def LIVE_STATUSES_def)
  have kids: "children (nodes_of s ! 0) \<noteq> []" using h(2,3) by auto
  have "select_loop env cfg (Some 0) s = Some (Ok (Some 0, [node_id (nodes_of ?s ! 0)]), ?s)"
    by (subst select_loop.simps) (simp add: kids dead consult del: filter_empty_conv)
  then have "select_loop env cfg None s = Some (Ok (Some 0, [node_id (nodes_of ?s ! 0)]), ?s)"
    by (subst select_loop.simps) (simp add: d(2) live)
  moreover have "struct_ok env cfg (tree ?s)" using struct_ok_shape [OF h(1)] by simp
  ultimately show ?thesis by (intro exI [of _ ?s]) (simp add: select_def)
qed

lemma announce_ok:
  assumes "at_phase SELECTION s"
  shows "\<exists>s'. announce_revision env a s = (Ok (), s') \<and> at_phase SELECTION s' \<and> tree s' = tree s"
proof -
  obtain s1 where s1: "advance env BACKTRACKING (Some (id_of a s)) ''reopened node for revision attempt'' s = (Ok (), s1)"
    "at_phase BACKTRACKING s1" "tree s1 = tree s" using advance_ok [OF wiring(1) assms, of BACKTRACKING] by auto
  obtain s2 where "advance env SELECTION (Some (id_of a s)) ''revision notes prepared'' s1 = (Ok (), s2)"
    "at_phase SELECTION s2" "tree s2 = tree s1" using advance_ok [OF wiring(1) s1(2), of SELECTION] by auto
  then show ?thesis using s1 by (simp add: announce_revision_def bindM_def)
qed

lemma second_pass:
  assumes "at_phase SELECTION s" "saturated blames env cfg wave s"
    "compile_revision_notes (fst policy) (nodes_of s) 0 = Inr ns" "ns \<noteq> []"
  shows "\<exists>s'. run_body env cfg None s = (Ok Break, s') \<and> at_phase SUCCEEDED s' \<and> iteration s' = iteration s + 1
     \<and> (\<forall>b<length (nodes_of s'). status (nodes_of s' ! b) = TERMINAL \<longrightarrow> content (nodes_of s' ! b) = py_strip repaired)
     \<and> revised_tree (new_texts {} (take (nat (branching_factor cfg)) wave)) (py_strip repaired) ns (nodes_of s) (nodes_of s')"
proof -
  let ?s = "s\<lparr>iteration := iteration s + 1\<rparr>"
  have sat: "saturated blames env cfg wave ?s" using assms(2) by (simp add: saturated_def)
  obtain s1 where s1: "select env cfg ?s = (Ok (Some 0, [node_id (nodes_of s1 ! 0)]), s1)" "ns \<noteq> []"
     "nodes_of s1 = set_metadata (nodes_of s) 0 [(REVISION_NOTES_KEY, VStr ns), (REVISION_ATTEMPTS_KEY, VInt 1)]"
     "struct_ok env cfg (tree s1)"
    using reopen [OF sat _ assms(4)] assms(3,4) by auto
  have h: "1 < length (nodes_of s)" "children (nodes_of s ! 0) = [1..<length (nodes_of s)]" "status (nodes_of s ! 0) = PENDING"
    "\<And>b. 1 \<le> b \<Longrightarrow> b < length (nodes_of s) \<Longrightarrow> status (nodes_of s ! b) = PRUNED \<and> content (nodes_of s ! b) \<in> py_strip ` set wave"
    using assms(2) by (simp_all add: saturated_def)
  have "at_phase SELECTION ?s" using assms(1) by (simp add: at_phase_def)
  then have p1: "at_phase SELECTION s1" by (rule quiet_phase [OF quiet_select s1(1)])
  obtain s2 where s2: "announce_revision env 0 s1 = (Ok (), s2)" "at_phase SELECTION s2" "tree s2 = tree s1"
    using announce_ok [OF p1] by blast
  have st2: "struct_ok env cfg (tree s2)" using s1(4) s2(3) by simp
  have at: "nodes_of s2 ! b = (if b = 0 then (nodes_of s ! 0)\<lparr>metadata := [(REVISION_NOTES_KEY, VStr ns), (REVISION_ATTEMPTS_KEY, VInt 1)]\<rparr>
      else nodes_of s ! b)" and len: "length (nodes_of s2) = length (nodes_of s)" for b
    using s1(3) s2(3) nth_list_update [OF less_trans [OF zero_less_one h(1)]] by (simp_all add: set_metadata_def)
  note d = struct_okD [OF st2]
  have root: "is_root (nodes_of s2 ! 0)" using wf_treeD(3) [OF d(1) d(4)] d(2) by (simp add: is_root_def)
  have gen: "\<exists>w'. generate env w (nodes_of s2) 0 (branching_factor cfg) = (Inr [repaired], w')" for w
    by (rule guided [OF d(4) root _ s1(2)]) (simp add: at)
  have kn: "\<forall>c\<in>set [repaired]. known wave repaired (py_strip c)" by (simp add: known_def)
  have "1 \<le> branching_factor cfg" using config(1) by (simp add: valid_config_def check_config_Inr)
  then have tk: "take (nat (branching_factor cfg)) [repaired] = [repaired]" by (simp add: take_Cons')
  have new: "py_strip repaired \<notin> set (map (\<lambda>c. content (nodes_of s2 ! c)) (children (nodes_of s2 ! 0)))"
  proof
    assume "py_strip repaired \<in> set (map (\<lambda>c. content (nodes_of s2 ! c)) (children (nodes_of s2 ! 0)))"
    then obtain b where "1 \<le> b" "b < length (nodes_of s)" "content (nodes_of s ! b) = py_strip repaired" using h(2) by (auto simp: at)
    then show False using h(4) texts(3) by metis
  qed
  have some: "\<exists>c\<in>set (take (nat (branching_factor cfg)) [repaired]). py_strip c \<noteq> []
       \<and> py_strip c \<notin> set (map (\<lambda>c. content (nodes_of s2 ! c)) (children (nodes_of s2 ! 0)))"
    unfolding tk using texts(2) new by simp
  obtain fl s3 where e: "expand_node env cfg 0 s2 = (Ok fl, s3)" "length (nodes_of s2) < length (nodes_of s3)"
     "children (nodes_of s3 ! 0) = children (nodes_of s2 ! 0) @ [length (nodes_of s2)..<length (nodes_of s3)]"
     "map content (drop (length (nodes_of s2)) (nodes_of s3)) = new_texts (set (map (\<lambda>c. content (nodes_of s2 ! c)) (children (nodes_of s2 ! 0)))) [repaired]"
     "\<forall>b<length (nodes_of s2). content (nodes_of s3 ! b) = content (nodes_of s2 ! b) \<and> status (nodes_of s3 ! b) = status (nodes_of s2 ! b)
          \<and> metadata (nodes_of s3 ! b) = metadata (nodes_of s2 ! b)"
     "\<forall>b. length (nodes_of s2) \<le> b \<and> b < length (nodes_of s3) \<longrightarrow> content (nodes_of s3 ! b) \<in> py_strip ` set [repaired]
        \<and> status (nodes_of s3 ! b) = (if content (nodes_of s3 ! b) = py_strip repaired then TERMINAL else PRUNED)"
     "if \<exists>b. length (nodes_of s2) \<le> b \<and> b < length (nodes_of s3) \<and> content (nodes_of s3 ! b) = py_strip repaired
        then fl = Break \<and> at_phase SUCCEEDED s3 else fl = Next \<and> at_phase SELECTION s3"
    using expand_root_leads [OF s2(2) st2 gen kn some] unfolding tk by blast
  have "content (nodes_of s3 ! length (nodes_of s2)) = py_strip repaired" using e(2,6) by simp
  then have fl: "fl = Break \<and> at_phase SUCCEEDED s3" using e(2,7) by (metis order_refl)
  have old: "status (nodes_of s3 ! b) \<noteq> TERMINAL" if "b < length (nodes_of s2)" for b
    using e(5) that h(3) h(4) [of b] at [of b] len by (cases "b = 0") auto
  have accepted: "content (nodes_of s3 ! b) = py_strip repaired" if "b < length (nodes_of s3)" "status (nodes_of s3 ! b) = TERMINAL" for b
    using old e(6) that by (cases "b < length (nodes_of s2)") auto
  have "revised_tree (new_texts {} (take (nat (branching_factor cfg)) wave)) (py_strip repaired) ns (nodes_of s) (nodes_of s3)"
  proof -
    let ?ws = "new_texts {} (take (nat (branching_factor cfg)) wave)"
    have wave: "map content (drop 1 (nodes_of s)) = ?ws" using assms(2) by (simp add: saturated_def)
    have one: "map content (drop (length (nodes_of s)) (nodes_of s3)) = [py_strip repaired]"
      using e(4) texts(2) new len by (simp only: new_texts_simps simp_thms if_False)
    have "length (map content (drop (length (nodes_of s)) (nodes_of s3))) = 1" unfolding one by simp
    then have len3: "length (nodes_of s3) = length (nodes_of s) + 1" unfolding length_map length_drop by linarith
    have "map content (take (length (nodes_of s)) (nodes_of s3)) = map content (nodes_of s)"
    proof (rule nth_equalityI)
      fix b assume "b < length (map content (take (length (nodes_of s)) (nodes_of s3)))"
      then have b: "b < length (nodes_of s)" by simp
      then have "content (nodes_of s3 ! b) = content (nodes_of s2 ! b)" using e(5) len by simp
      also have "\<dots> = content (nodes_of s ! b)" unfolding at [of b] by simp
      finally show "map content (take (length (nodes_of s)) (nodes_of s3)) ! b = map content (nodes_of s) ! b"
        using b len3 by simp
    qed (simp add: len3)
    then have "map content (nodes_of s3) = map content (nodes_of s) @ [py_strip repaired]"
      using one by (metis append_take_drop_id map_append)
    then have "drop 1 (map content (nodes_of s3)) = ?ws @ [py_strip repaired]"
      using wave h(1) by (simp add: drop_map)
    moreover have "children (nodes_of s3 ! 0) = [1..<length (nodes_of s) + 1]"
      using e(3) h(1,2) len len3 at by simp
    moreover have "length (nodes_of s) = length ?ws + 1" using h(1) unfolding wave [symmetric] length_map length_drop by linarith
    moreover have "status (nodes_of s3 ! b) = PRUNED \<and> metadata (nodes_of s3 ! b) = metadata (nodes_of s ! b)"
      if "1 \<le> b" "b < length (nodes_of s)" for b
      using e(5) h(4) [OF that] at [of b] len that by simp
    moreover have "status (nodes_of s3 ! length (nodes_of s)) = TERMINAL" using e(6) len len3 by simp
    moreover have "metadata (nodes_of s3 ! 0) = [(REVISION_NOTES_KEY, VStr ns), (REVISION_ATTEMPTS_KEY, VInt 1)]"
      using e(5) d(4) at by simp
    ultimately show ?thesis using len3 by (simp add: revised_tree_def drop_map)
  qed
  moreover note accepted
  moreover have "run_body env cfg None s = (Ok Break, s3)"
    using run_body_search [OF s1(1)] s2(1) e(1) fl by (simp add: bindM_def)
  moreover have "iteration s3 = iteration s + 1"
  proof -
    have "iteration s1 = iteration s + 1" using quietD [OF quiet_select s1(1)] by simp
    then have "iteration s2 = iteration s + 1" by (rule preservesD [OF announce_revision_iteration _ s2(1)])
    then show ?thesis by (rule preservesD [OF expand_node_iteration _ e(1)])
  qed
  ultimately show ?thesis using fl by blast
qed

subsection \<open>The run\<close>

lemma cycle_run:
  "\<exists>res crit ks. fst (run env cfg task w) = Ok res \<and> outcome res = OUT_SUCCEEDED \<and> iterations res = 2
     \<and> solution res = Some (py_strip repaired)
     \<and> (let h = tree_heap (result_tree res); ws = new_texts {} (take (nat (branching_factor cfg)) wave); n = length ws in
          children (h ! 0) = [1..<n + 2] \<and> length h = n + 2 \<and> map content (drop 1 h) = ws @ [py_strip repaired]
        \<and> (\<forall>b. 1 \<le> b \<and> b \<le> n \<longrightarrow> status (h ! b) = PRUNED \<and> blames (metadata (h ! b)) (crit b)
             \<and> dict_get (metadata (h ! b)) CRITIQUE_METADATA_KEY = Some (VDict (critique_to_dict (crit b))))
        \<and> status (h ! (n + 1)) = TERMINAL \<and> notes_from crit [1..<n + 1] ks
        \<and> metadata (h ! 0) = [(REVISION_NOTES_KEY, VStr (py_join newline (map note_line ks))), (REVISION_ATTEMPTS_KEY, VInt 1)])"
proof -
  let ?i = "initial_state env task w"
  have "at_phase IDLE ?i" by (simp add: initial_state_def at_phase_def machine_ok_new) (simp add: new_machine_def)
  then obtain s0 where s0: "advance env SELECTION None ''search started'' ?i = (Ok (), s0)" "at_phase SELECTION s0" "tree s0 = tree ?i"
    using advance_ok [OF wiring(1), of IDLE ?i SELECTION] by auto
  have i0: "iteration s0 = 0" by (rule preservesD [OF advance_iteration _ s0(1)]) (simp add: initial_state_def)
  have t0: "tree s0 = new_tree task (uid env 0)" using s0(3) by (simp add: initial_state_def)
  have "struct_ok env cfg (tree s0)" unfolding t0
    using config(1) wf_new_tree [of task "uid env 0"] by (simp add: struct_ok_def new_tree_def new_node_def valid_config_def check_config_Inr)
  then obtain s1 where s1: "run_body env cfg None s0 = (Ok Next, s1)" "at_phase SELECTION s1" "saturated blames env cfg wave s1"
    using first_pass [OF s0(2)] by (auto simp: t0 new_tree_def new_node_def)
  have i1: "iteration s1 = 1" using run_body_iteration [OF s1(1)] i0 by simp
  let ?ws = "new_texts {} (take (nat (branching_factor cfg)) wave)"
  obtain crit ks where told_critics: "\<forall>c\<in>set (children (nodes_of s1 ! 0)).
        dict_get (metadata (nodes_of s1 ! c)) CRITIQUE_METADATA_KEY = Some (VDict (critique_to_dict (crit c))) \<and> blames (metadata (nodes_of s1 ! c)) (crit c)"
     "notes_from crit (children (nodes_of s1 ! 0)) ks"
     "compile_revision_notes (fst policy) (nodes_of s1) 0 = Inr (py_join newline (map note_line ks))" "py_join newline (map note_line ks) \<noteq> []"
    using saturated_notes [OF s1(3), of "fst policy"] by blast
  obtain s2 where s2: "run_body env cfg None s1 = (Ok Break, s2)" "at_phase SUCCEEDED s2" "iteration s2 = iteration s1 + 1"
    "\<forall>b<length (nodes_of s2). status (nodes_of s2 ! b) = TERMINAL \<longrightarrow> content (nodes_of s2 ! b) = py_strip repaired"
    and final: "revised_tree ?ws (py_strip repaired) (py_join newline (map note_line ks)) (nodes_of s1) (nodes_of s2)"
    using second_pass [OF s1(2,3) told_critics(3,4)] by blast
  have "run_loop env cfg None s0 = (Ok (), s2)"
    using s1(1) s2(1) i0 i1 config(2) by (simp add: run_loop.simps [of env cfg None s0] run_loop.simps [of env cfg None s1])
  then have run: "run env cfg task w = build_result [] s2"
    using s0(1) s2(2) config(3)
    by (simp add: run_def start_deadline_def guarded_loop_def catchM_def bindM_def ret_def spend_budget_def at_phase_def is_terminal_def TERMINAL_PHASES_def)
  obtain res where res: "fst (run env cfg task w) = Ok res" using run_silent_Ok [OF config(1) wiring(2,1)] by blast
  have f: "outcome res = OUT_SUCCEEDED" "iterations res = 2" "result_tree res = tree s2" "node_count res = int (tree_len (tree s2))"
    using res run s2(2,3) i1 by (auto simp: build_result_def at_phase_def split: option.splits)
  from run_success_facts [OF config(1) wiring(2) res f(1)] obtain a where a: "int a < node_count res"
    "status (nodes_of s2 ! a) = TERMINAL" "solution res = Some (content (nodes_of s2 ! a))" unfolding f(3) by blast
  have "a < length (nodes_of s2)"
    using a(1) run_bound_facts [OF config(1) wiring(2) res] wf_tree_len f(3,4) by auto
  then have "solution res = Some (py_strip repaired)" using a s2(4) by simp
  moreover have "children (nodes_of s1 ! 0) = [1..<length ?ws + 1]"
    using s1(3) final by (simp add: saturated_def revised_tree_def)
  ultimately show ?thesis using res f(1-3) final told_critics(1,2)
    by (intro exI [of _ res] exI [of _ crit] exI [of _ ks]) (auto simp: Let_def revised_tree_def)
qed

end

end
