(* ===== verification/Revision_Demo.thy ===== *)
theory Revision_Demo
  imports Session_Guarantees Revision_Cycle
begin

section \<open>The feedback demonstration (feedback/demo.py)\<close>

text \<open>
  The controller of the demonstration and of the reference session is a revision cycle: its locale is interpreted on the
  code's wiring (\<open>demo_cycle\<close>, \<open>clamp_cycle\<close>). The executor is any function that reports what running the four bundled programs
  gives: an assertion failure for the first three and a clean exit for the corrected one.
\<close>

subsection \<open>The clamp scenario\<close>

text \<open>
  \<open>main\<close> of \<open>feedback/demo.py\<close>: the reference wiring over the executor that was selected, with an event sink that prints.
\<close>

definition feedback_demo ::
  "'w platform \<Rightarrow> int \<Rightarrow> 'w plant executor \<Rightarrow> ('w plant \<Rightarrow> thought_tree \<Rightarrow> search_event \<Rightarrow> (exn + unit) \<times> 'w plant) option \<Rightarrow>
   exn + 'w plant environment \<times> search_config" where
  "feedback_demo pf workers exec sink =
     sum_bind (check_config (demo_config (Some 7) None workers)) (\<lambda>cfg.
     sum_bind (wire_controller pf cfg (guidance_generate (show_value pf)) exec VALIDATION_HARNESS
       (execution_critique (show_value pf)) 1 None) (\<lambda>(env, cfg'). Inr (env\<lparr>on_event := sink\<rparr>, cfg')))"

text \<open>What the executor reports for the program of a candidate, in every state of the world.\<close>

definition clamp_evaluator :: code_evaluator where
  "clamp_evaluator = default_code_evaluator\<lparr>harness := py_rstrip VALIDATION_HARNESS\<rparr>"

definition program_ends :: "'w executor \<Rightarrow> string \<Rightarrow> (execution_result \<Rightarrow> bool) \<Rightarrow> bool" where
  "program_ends exec thought P \<longleftrightarrow> (\<exists>payload rq. extract_python_payload thought = Some payload
     \<and> make_request (program_of clamp_evaluator payload) [] None = Inr rq \<and> (\<forall>w. \<exists>r w'. exec w rq = (Inr r, w') \<and> P r))"

definition check_failed :: "execution_result \<Rightarrow> bool" where
  "check_failed r \<longleftrightarrow> res_status r = COMPLETED \<and> exit_code r \<noteq> Some 0"

definition check_passed :: "execution_result \<Rightarrow> bool" where
  "check_passed r \<longleftrightarrow> res_status r = COMPLETED \<and> exit_code r = Some 0"

definition failure_logged :: "dict \<Rightarrow> bool" where
  "failure_logged d \<longleftrightarrow> (\<exists>r. dict_get d EXECUTION_KEY = Some (VDict (result_to_dict r)) \<and> check_failed r)"

text \<open>The critique that the failing record in \<open>d\<close> calls for.\<close>

definition blamed :: "(pyval \<Rightarrow> string) \<Rightarrow> dict \<Rightarrow> critique \<Rightarrow> bool" where
  "blamed fr d k \<longleftrightarrow> (\<exists>r. dict_get d EXECUTION_KEY = Some (VDict (result_to_dict r)) \<and> check_failed r
     \<and> diagnose_record fr (VDict (result_to_dict r)) = Inr (Some k))"

lemma blamed_same: "dict_get d' EXECUTION_KEY = dict_get d EXECUTION_KEY \<Longrightarrow> blamed fr d k \<Longrightarrow> blamed fr d' k"
  by (simp add: blamed_def)

lemma clamp_texts:
  "map py_strip BROKEN_WAVE = BROKEN_WAVE" "py_strip REVISED_CANDIDATE = REVISED_CANDIDATE" "REVISED_CANDIDATE \<notin> set BROKEN_WAVE"
  "REVISED_CANDIDATE \<noteq> []" "\<forall>c\<in>set BROKEN_WAVE. c \<noteq> []" "length BROKEN_WAVE = 3" "new_texts {} BROKEN_WAVE = BROKEN_WAVE"
  by code_simp+

lemma one_of_three: "(if b then x else if c then y else z) = u \<Longrightarrow> x = u \<or> y = u \<or> z = u"
  by (simp split: if_splits)

lemma make_critique_guidance: "make_critique f s g sev = Inr k \<Longrightarrow> guidance k = g"
  by (auto simp: make_critique_def split: if_splits)

lemma guidance_nonblank:
  assumes "diagnose_stderr err code = Inr k" shows "py_strip (guidance k) \<noteq> []"
proof -
  have letters: "\<not> py_space (CHR ''I'')" "\<not> py_space (CHR ''R'')" "\<not> py_space (CHR ''H'')" by code_simp+
  have "\<exists>g. guidance k = g \<and> g \<noteq> [] \<and> \<not> py_space (hd g)"
  proof (cases "error_line (last_meaningful_line err)")
    case None
    show ?thesis using make_critique_guidance [OF assms [unfolded diagnose_stderr_def Let_def None option.case]] by (simp add: letters)
  next
    case (Some e)
    obtain nm msg where e: "e = (nm, msg)" by fastforce
    show ?thesis using one_of_three [OF assms [unfolded diagnose_stderr_def Let_def Some e option.case prod.case]]
      by - (elim disjE; drule make_critique_guidance; simp add: letters)
  qed
  then show ?thesis by (cases "guidance k") (auto simp: py_strip_eq_Nil)
qed

lemma failure_diagnosed:
  assumes "failure_logged (metadata (h ! a))"
  shows "\<exists>k w'. execution_critique fr w h a = (Inr (Some k), w') \<and> py_strip (guidance k) \<noteq> [] \<and> blamed fr (metadata (h ! a)) k"
proof -
  obtain r where r: "dict_get (metadata (h ! a)) EXECUTION_KEY = Some (VDict (result_to_dict r))" "res_status r = COMPLETED" "exit_code r \<noteq> Some 0"
    using assms by (auto simp: failure_logged_def check_failed_def)
  obtain k where k: "diagnose_stderr (stderr r) (py_text fr (case exit_code r of None \<Rightarrow> VNone | Some c \<Rightarrow> VInt c)) = Inr k"
    using diagnose_stderr_total by blast
  have "diagnose_record fr (VDict (result_to_dict r)) = Inr (Some k)"
    using r(2,3) k by (cases "exit_code r") (auto simp: diagnose_record_def result_to_dict_def)
  then show ?thesis using r guidance_nonblank [OF k] by (auto simp: execution_critique_def blamed_def check_failed_def)
qed

lemma reward_total:
  assumes "unit_value x" "\<And>k. cr = Some k \<Longrightarrow> valid_critique k"
  shows "\<exists>y d w'. shape_reward default_weights w h a x cr = (Inr y, d, w')
     \<and> dict_get d CRITIQUE_METADATA_KEY = dict_get (metadata (h ! a)) CRITIQUE_METADATA_KEY
     \<and> dict_get d EXECUTION_KEY = dict_get (metadata (h ! a)) EXECUTION_KEY"
proof -
  obtain b where b: "x = Fin b" using assms(1) unit_interval_Fin unfolding unit_value_def by blast
  obtain c where c: "critique_term cr = Fin c" using critique_term_unit [OF assms(2)] by blast
  obtain y where "fst (shape_reward default_weights w h a x cr) = Inr y"
    using shape_value [OF default_weights_usable] c b by metis
  then show ?thesis
    by (auto simp: shape_reward_def Let_def CRITIQUE_METADATA_KEY_def REWARD_METADATA_KEY_def EXECUTION_KEY_def split: sum.splits)
qed

lemma clamp_verdict:
  assumes "content (h ! a) = thought" "program_ends exec thought P"
  shows "\<exists>r w'. P r \<and> code_evaluate (exec, clamp_evaluator) w h a
     = (grade clamp_evaluator r, dict_set EXECUTION_KEY (VDict (result_to_dict r)) (metadata (h ! a)), w')"
proof -
  obtain payload rq where p: "extract_python_payload thought = Some payload"
    "make_request (program_of clamp_evaluator payload) [] None = Inr rq" "\<forall>w. \<exists>r w'. exec w rq = (Inr r, w') \<and> P r"
    using assms(2) unfolding program_ends_def by blast
  then obtain r w' where "exec w rq = (Inr r, w')" "P r" by blast
  then show ?thesis using p(1,2) assms(1) by (auto simp: code_evaluate_def)
qed

lemma clamp_grades:
  "check_passed r \<Longrightarrow> \<exists>v. grade clamp_evaluator r = Inr v \<and> classify (demo_config (Some 7) None n) v = TERMINAL"
  "check_failed r \<Longrightarrow> \<exists>v. grade clamp_evaluator r = Inr v \<and> classify (demo_config (Some 7) None n) v = PRUNED"
  by (auto simp: check_passed_def check_failed_def grade_def clamp_evaluator_def default_code_evaluator_def make_evaluation_def
      result_ok_def classify_def demo_config_def default_config_def float_consts)

definition quiet_sink :: "('w plant \<Rightarrow> thought_tree \<Rightarrow> search_event \<Rightarrow> (exn + unit) \<times> 'w plant) option \<Rightarrow> bool" where
  "quiet_sink sink \<longleftrightarrow> (\<forall>f w t ev. sink = Some f \<longrightarrow> (\<exists>w'. f w t ev = (Inr (), w')))"

definition demo_env ::
  "'w platform \<Rightarrow> int \<Rightarrow> 'w plant executor \<Rightarrow> ('w plant \<Rightarrow> thought_tree \<Rightarrow> search_event \<Rightarrow> (exn + unit) \<times> 'w plant) option \<Rightarrow>
   'w plant environment" where
  "demo_env pf workers exec sink = (shipped_env pf (demo_config (Some 7) None workers) (guidance_generate (show_value pf)) (exec, clamp_evaluator)
     (execution_critique (show_value pf)) \<lparr>max_attempts = 1, require_guidance = True\<rparr> None)\<lparr>on_event := sink\<rparr>"

lemma feedback_demo_parts:
  assumes "1 \<le> workers"
  shows "feedback_demo pf workers exec sink = Inr (demo_env pf workers exec sink, demo_config (Some 7) None workers)"
    "valid_config (demo_config (Some 7) None workers)"
proof -
  have c: "check_config (demo_config (Some 7) None workers) = Inr (demo_config (Some 7) None workers)"
    using demo_config_accepted [of workers None] assms by simp
  have "make_code_evaluator (default_code_evaluator\<lparr>harness := VALIDATION_HARNESS\<rparr>) = Inr clamp_evaluator"
    by (simp add: make_code_evaluator_def clamp_evaluator_def default_code_evaluator_def float_consts)
  then show "feedback_demo pf workers exec sink = Inr (demo_env pf workers exec sink, demo_config (Some 7) None workers)"
    using c by (simp add: feedback_demo_def wire_controller_def make_revision_def demo_env_def)
  show "valid_config (demo_config (Some 7) None workers)" using check_config_valid [OF c] by simp
qed

lemma demo_cycle:
  assumes "1 \<le> workers" "inj (node_uid pf)" "quiet_sink sink"
    "\<forall>c\<in>set BROKEN_WAVE. program_ends exec c check_failed" "program_ends exec REVISED_CANDIDATE check_passed"
  shows "revision_cycle (demo_env pf workers exec sink) (demo_config (Some 7) None workers) BROKEN_WAVE REVISED_CANDIDATE failure_logged (blamed (show_value pf))
     (execution_critique (show_value pf)) (shape_reward default_weights) (show_value pf, \<lparr>max_attempts = 1, require_guidance = True\<rparr>)"
proof unfold_locales
  let ?env = "demo_env pf workers exec sink" and ?cfg = "demo_config (Some 7) None workers"
  have strip: "py_strip ` set BROKEN_WAVE = set BROKEN_WAVE" using clamp_texts(1) by (metis set_map)
  have k: "branching_factor ?cfg = 3" "max_iterations ?cfg = 16" "max_wall_seconds ?cfg = None" by (simp_all add: demo_config_def)
  have wave: "slice_to 3 BROKEN_WAVE = BROKEN_WAVE" "take (nat 3) BROKEN_WAVE = BROKEN_WAVE" "BROKEN_WAVE \<noteq> []"
    using clamp_texts(6) by (auto simp: slice_to_def)
  show "valid_config ?cfg" by (rule feedback_demo_parts(2) [OF assms(1)])
  show "2 \<le> max_iterations ?cfg" "max_wall_seconds ?cfg = None" by (simp_all add: k)
  show "silent ?env" using assms(3) by (simp add: silent_def quiet_sink_def demo_env_def)
  show "inj (uid ?env)" using assms(2) by (simp add: demo_env_def shipped_env_def)
  show "stop_condition ?env = None" "cancel_event ?env = None" "critic ?env = Some (execution_critique (show_value pf))"
    "reward_model ?env = Some (shape_reward default_weights)"
    "revision_policy ?env = Some (revise (show_value pf, \<lparr>max_attempts = 1, require_guidance = True\<rparr>))"
    by (simp_all add: demo_env_def shipped_env_def)
  show "fair ?env"
    by (rule feedback_stack.shaped_fair [OF _ _ _ default_weights_usable, of _ "(exec, clamp_evaluator)" "show_value pf"])
      (simp_all add: demo_env_def shipped_env_def)
  show "1 \<le> max_attempts (snd (show_value pf, \<lparr>max_attempts = 1, require_guidance = True\<rparr>))" by simp
  show "\<exists>c\<in>set (take (nat (branching_factor ?cfg)) BROKEN_WAVE). py_strip c \<noteq> []"
    using clamp_texts(5) wave strip unfolding k by (metis image_eqI last_in_set)
  show "py_strip REVISED_CANDIDATE \<noteq> []" "py_strip REVISED_CANDIDATE \<notin> py_strip ` set BROKEN_WAVE"
    unfolding clamp_texts(2) strip by (rule clamp_texts(3,4))+
  fix a and h :: heap and w :: "'a plant"
  show "\<exists>w'. generate ?env w h a (branching_factor ?cfg) = (Inr BROKEN_WAVE, w')"
    if "is_root (h ! a)" "dict_get (metadata (h ! a)) REVISION_NOTES_KEY = None"
    using that wave unfolding k by (simp add: demo_env_def shipped_env_def guidance_generate_def)
  show "\<exists>w'. generate ?env w h a (branching_factor ?cfg) = (Inr [REVISED_CANDIDATE], w')"
    if "is_root (h ! a)" "dict_get (metadata (h ! a)) REVISION_NOTES_KEY = Some (VStr ns)" "ns \<noteq> []" for ns
    using that by (simp add: demo_env_def shipped_env_def guidance_generate_def)
  show "\<exists>v d w'. evaluate ?env w h a = (Inr v, d, w')
        \<and> classify ?cfg v = (if content (h ! a) = py_strip REVISED_CANDIDATE then TERMINAL else PRUNED)
        \<and> (content (h ! a) \<noteq> py_strip REVISED_CANDIDATE \<longrightarrow> failure_logged d)"
    if "content (h ! a) \<in> insert (py_strip REVISED_CANDIDATE) (py_strip ` set BROKEN_WAVE)"
  proof (cases "content (h ! a) = REVISED_CANDIDATE")
    case True
    then obtain r w' where "check_passed r" "evaluate ?env w h a
       = (grade clamp_evaluator r, dict_set EXECUTION_KEY (VDict (result_to_dict r)) (metadata (h ! a)), w')"
      using clamp_verdict [OF True assms(5), of w] by (auto simp: demo_env_def shipped_env_def)
    then show ?thesis using clamp_grades(1) [of r workers] True clamp_texts(2) by auto
  next
    case False
    then have "program_ends exec (content (h ! a)) check_failed"
      using that assms(4) unfolding strip clamp_texts(2) by blast
    from clamp_verdict [OF refl this, of w]
    obtain r w' where "check_failed r" "evaluate ?env w h a
       = (grade clamp_evaluator r, dict_set EXECUTION_KEY (VDict (result_to_dict r)) (metadata (h ! a)), w')"
      by (auto simp: demo_env_def shipped_env_def)
    then show ?thesis using clamp_grades(2) [of r workers] False clamp_texts(2) by (auto simp: failure_logged_def)
  qed
  show "\<exists>k w'. execution_critique (show_value pf) w h a = (Inr (Some k), w') \<and> py_strip (guidance k) \<noteq> []
      \<and> blamed (show_value pf) (metadata (h ! a)) k"
    if "failure_logged (metadata (h ! a))" by (rule failure_diagnosed [OF that])
  show "\<exists>y d w'. shape_reward default_weights w h a x cr = (Inr y, d, w')
      \<and> dict_get d CRITIQUE_METADATA_KEY = dict_get (metadata (h ! a)) CRITIQUE_METADATA_KEY
      \<and> (\<forall>k. blamed (show_value pf) (metadata (h ! a)) k \<longrightarrow> blamed (show_value pf) d k)"
    if "unit_value x" "\<And>k. cr = Some k \<Longrightarrow> valid_critique k" for x cr
    using reward_total [OF that, where w = w and h = h and a = a] blamed_same by meson
next
  show "blamed (show_value pf) (dict_set CRITIQUE_METADATA_KEY v d) k" if "blamed (show_value pf) d k" for v d k
    by (rule blamed_same [OF _ that]) (simp add: CRITIQUE_METADATA_KEY_def EXECUTION_KEY_def)
qed

text \<open>The reference session runs the same wiring over the backend it selected, without a sink.\<close>

lemma reference_is_demo: "reference_controller pf None workers b = feedback_demo pf workers (backend_execute pf b) None"
  by (cases "check_config (demo_config (Some 7) None workers)";
      cases "make_code_evaluator (default_code_evaluator\<lparr>harness := VALIDATION_HARNESS\<rparr>)")
    (simp_all add: reference_controller_def feedback_demo_def wire_controller_def shipped_env_def make_revision_def)

text \<open>A concrete executor: every program but the corrected one ends with an assertion failure.\<close>

definition clamp_code :: "string \<Rightarrow> string" where
  "clamp_code body = ''def clamp(value, low, high):'' @ newline @ ''    return '' @ body"

definition clamp_python :: "execution_request \<Rightarrow> exn + execution_result" where
  "clamp_python rq = Inr (if req_code rq = program_of clamp_evaluator (clamp_code ''max(low, min(value, high))'') then clean_result
     else clean_result\<lparr>exit_code := Some 1, stderr := ''AssertionError: below-range value must rise to low''\<rparr>)"

lemma low_payload: "extract_python_payload (BROKEN_WAVE ! 1) = Some (clamp_code ''low'')"
  by code_simp

lemma min_payload: "extract_python_payload (BROKEN_WAVE ! 0) = Some (clamp_code ''min(value, high)'')"
  by code_simp

lemma swapped_payload: "extract_python_payload (BROKEN_WAVE ! 2) = Some (clamp_code ''min(low, max(value, high))'')"
  by code_simp

lemma revised_payload: "extract_python_payload REVISED_CANDIDATE = Some (clamp_code ''max(low, min(value, high))'')"
  by code_simp

lemma program_request: "make_request (program_of clamp_evaluator (clamp_code body)) [] None
    = Inr \<lparr>req_code = program_of clamp_evaluator (clamp_code body), req_stdin = [], req_timeout = None\<rparr>"
proof -
  have "\<not> py_space (CHR ''d'')" by code_simp
  then have "py_strip (program_of clamp_evaluator (clamp_code body)) \<noteq> []"
    by (auto simp: py_strip_eq_Nil program_of_def clamp_code_def)
  then show ?thesis by (simp add: make_request_def)
qed

lemma program_differs: "program_of clamp_evaluator (clamp_code b) = program_of clamp_evaluator (clamp_code b') \<longleftrightarrow> b = b'"
  by (simp add: program_of_def clamp_code_def)

lemma clamp_python_ends:
  "\<forall>c\<in>set BROKEN_WAVE. program_ends (pure_executor clamp_python) c check_failed"
  "program_ends (pure_executor clamp_python) REVISED_CANDIDATE check_passed"
proof -
  have "program_ends (pure_executor clamp_python) c check_failed"
    if "extract_python_payload c = Some (clamp_code b)" "b \<noteq> ''max(low, min(value, high))''" for c b
    unfolding program_ends_def using that program_request [of b] program_differs [of b "''max(low, min(value, high))''"]
    by (simp add: pure_executor_def clamp_python_def check_failed_def clean_result_def)
  then have "program_ends (pure_executor clamp_python) (BROKEN_WAVE ! i) check_failed" if "i < 3" for i
    using that low_payload min_payload swapped_payload by (auto simp: less_Suc_eq numeral_3_eq_3 numeral_2_eq_2)
  then show "\<forall>c\<in>set BROKEN_WAVE. program_ends (pure_executor clamp_python) c check_failed"
    unfolding all_set_conv_all_nth clamp_texts(6) by blast
  show "program_ends (pure_executor clamp_python) REVISED_CANDIDATE check_passed"
    unfolding program_ends_def using revised_payload program_request [of "''max(low, min(value, high))''"]
    by (simp add: pure_executor_def clamp_python_def check_passed_def clean_result_def)
qed

lemma sample_ids: "inj (node_uid sample_platform)"
  using sample_inj [of "[''a'']" 1 True] by (simp add: sample_platform_def)

interpretation clamp_cycle: revision_cycle "demo_env sample_platform 1 (pure_executor clamp_python) None" "demo_config (Some 7) None 1"
  BROKEN_WAVE REVISED_CANDIDATE failure_logged "blamed (show_value sample_platform)" "execution_critique (show_value sample_platform)" "shape_reward default_weights"
  "(show_value sample_platform, \<lparr>max_attempts = 1, require_guidance = True\<rparr>)"
  by (rule demo_cycle [OF _ sample_ids _ clamp_python_ends]) (simp_all add: quiet_sink_def)

subsection \<open>The demonstration succeeds\<close>

text \<open>C4: The fail-critique-revise-succeed cycle works end to end, for any number of workers and any order in which they
  finish. If the executor reports failing programs for the first wave and a clean exit for the corrected candidate, the run
  succeeds in exactly two iterations and the solution is the corrected candidate. In the final tree the root has four children:
  the three candidates of the wave, in order and all pruned, and the corrected candidate, accepted. Each pruned child records the failing
  execution and the critique \<open>crit c\<close> that the diagnosis of that record gives. The root was reopened exactly once, with the notes
  compiled from these critiques: one line for each of the critiques \<open>ks\<close>, which are those of the wave without the repetitions
  of a guidance text; so the notes are never empty.\<close>

theorem revision_demo_succeeds:
  assumes "feedback_demo pf workers exec sink = Inr (env, cfg)" "inj (node_uid pf)" "quiet_sink sink"
    "\<forall>c\<in>set BROKEN_WAVE. program_ends exec c check_failed" "program_ends exec REVISED_CANDIDATE check_passed"
  shows "\<exists>res ns crit ks. fst (run env cfg task w) = Ok res \<and> outcome res = OUT_SUCCEEDED \<and> iterations res = 2
     \<and> solution res = Some REVISED_CANDIDATE
     \<and> (let h = tree_heap (result_tree res) in
          children (h ! 0) = [1, 2, 3, 4]
        \<and> map (\<lambda>c. content (h ! c)) [1, 2, 3, 4] = BROKEN_WAVE @ [REVISED_CANDIDATE]
        \<and> map (\<lambda>c. status (h ! c)) [1, 2, 3, 4] = [PRUNED, PRUNED, PRUNED, TERMINAL]
        \<and> (\<forall>c\<in>{1, 2, 3}. dict_get (metadata (h ! c)) CRITIQUE_METADATA_KEY = Some (VDict (critique_to_dict (crit c)))
             \<and> (\<exists>r. dict_get (metadata (h ! c)) EXECUTION_KEY = Some (VDict (result_to_dict r)) \<and> check_failed r
                  \<and> diagnose_record (show_value pf) (VDict (result_to_dict r)) = Inr (Some (crit c))))
        \<and> metadata (h ! 0) = [(REVISION_NOTES_KEY, VStr ns), (REVISION_ATTEMPTS_KEY, VInt 1)])
     \<and> ns \<noteq> [] \<and> ns = py_join newline (map note_line ks) \<and> subseq ks [crit 1, crit 2, crit 3]
     \<and> map (\<lambda>k. py_strip (guidance k)) ks = firsts (map (\<lambda>k. py_strip (guidance k)) [crit 1, crit 2, crit 3])"
proof -
  obtain cfg' where "check_config (demo_config (Some 7) None workers) = Inr cfg'"
    using assms(1) by (auto simp: feedback_demo_def sum_bind_Inr)
  then have n: "1 \<le> workers" by (simp add: check_config_Inr demo_config_def)
  have e: "env = demo_env pf workers exec sink" "cfg = demo_config (Some 7) None workers"
    using assms(1) feedback_demo_parts(1) [OF n, of pf exec sink] by simp_all
  have bf: "branching_factor (demo_config (Some 7) None workers) = 3" by (simp add: demo_config_def)
  have tk: "take (nat 3) BROKEN_WAVE = BROKEN_WAVE" using clamp_texts(6) by simp
  have up: "[1..<3 + 2] = [1, 2, 3, 4 :: nat]" "[1..<3 + 1] = [1, 2, 3 :: nat]" by code_simp+
  obtain res crit ks where res: "fst (run env cfg task w) = Ok res" "outcome res = OUT_SUCCEEDED" "iterations res = 2"
      "solution res = Some REVISED_CANDIDATE"
    and t: "children (tree_heap (result_tree res) ! 0) = [1, 2, 3, 4]" "length (tree_heap (result_tree res)) = 3 + 2"
      "map content (drop 1 (tree_heap (result_tree res))) = BROKEN_WAVE @ [REVISED_CANDIDATE]"
      "\<forall>b. 1 \<le> b \<and> b \<le> 3 \<longrightarrow> status (tree_heap (result_tree res) ! b) = PRUNED
         \<and> blamed (show_value pf) (metadata (tree_heap (result_tree res) ! b)) (crit b)
         \<and> dict_get (metadata (tree_heap (result_tree res) ! b)) CRITIQUE_METADATA_KEY = Some (VDict (critique_to_dict (crit b)))"
      "status (tree_heap (result_tree res) ! (3 + 1)) = TERMINAL" "notes_from crit [1, 2, 3] ks"
      "metadata (tree_heap (result_tree res) ! 0) = [(REVISION_NOTES_KEY, VStr (py_join newline (map note_line ks))), (REVISION_ATTEMPTS_KEY, VInt 1)]"
    using revision_cycle.cycle_run [OF demo_cycle [OF n assms(2-5)], of task w]
    unfolding e clamp_texts(2) bf tk clamp_texts(7) Let_def clamp_texts(6) up by (elim exE conjE) (rule that, unfold e)
  let ?h = "tree_heap (result_tree res)"
  have "drop 1 ?h = map ((!) ?h) [1..<3 + 2]" by (rule nth_equalityI) (simp_all add: t(2))
  then have content: "map (\<lambda>c. content (?h ! c)) [1, 2, 3, 4] = BROKEN_WAVE @ [REVISED_CANDIDATE]"
    using t(3) unfolding up by simp
  show ?thesis unfolding Let_def
  proof (intro exI [of _ res] exI [of _ "py_join newline (map note_line ks)"] exI [of _ crit] exI [of _ ks] conjI ballI)
    fix c :: addr assume "c \<in> {1, 2, 3}"
    then have "1 \<le> c \<and> c \<le> 3" by auto
    then show "dict_get (metadata (?h ! c)) CRITIQUE_METADATA_KEY = Some (VDict (critique_to_dict (crit c)))"
      "\<exists>r. dict_get (metadata (?h ! c)) EXECUTION_KEY = Some (VDict (result_to_dict r)) \<and> check_failed r
         \<and> diagnose_record (show_value pf) (VDict (result_to_dict r)) = Inr (Some (crit c))"
      using t(4) unfolding blamed_def by blast+
  next
    show "map (\<lambda>c. status (?h ! c)) [1, 2, 3, 4] = [PRUNED, PRUNED, PRUNED, TERMINAL]" using t(4,5) by simp
    show "py_join newline (map note_line ks) \<noteq> []" using t(6) notes_text_nonempty unfolding notes_from_def by blast
    show "subseq ks [crit 1, crit 2, crit 3]"
      "map (\<lambda>k. py_strip (guidance k)) ks = firsts (map (\<lambda>k. py_strip (guidance k)) [crit 1, crit 2, crit 3])"
      using t(6) by (simp_all add: notes_from_def)
  qed (rule res t(1,7) content refl)+
qed

theorem revision_demo_succeeds_witness:
  "\<exists>env cfg res. feedback_demo sample_platform 4 (pure_executor clamp_python) None = Inr (env, cfg)
     \<and> fst (run env cfg CLAMP_TASK sample_plant) = Ok res \<and> iterations res = 2 \<and> solution res = Some REVISED_CANDIDATE
     \<and> map (\<lambda>c. status (tree_heap (result_tree res) ! c)) [1, 2, 3, 4] = [PRUNED, PRUNED, PRUNED, TERMINAL]"
proof -
  have f: "feedback_demo sample_platform 4 (pure_executor clamp_python) None
     = Inr (demo_env sample_platform 4 (pure_executor clamp_python) None, demo_config (Some 7) None 4)"
    by (rule feedback_demo_parts) simp
  have "quiet_sink None" by (simp add: quiet_sink_def)
  from revision_demo_succeeds [OF f sample_ids this clamp_python_ends, of CLAMP_TASK sample_plant]
  obtain res where "fst (run (demo_env sample_platform 4 (pure_executor clamp_python) None) (demo_config (Some 7) None 4) CLAMP_TASK sample_plant) = Ok res"
    "iterations res = 2" "solution res = Some REVISED_CANDIDATE"
    "map (\<lambda>c. status (tree_heap (result_tree res) ! c)) [1, 2, 3, 4] = [PRUNED, PRUNED, PRUNED, TERMINAL]"
    unfolding Let_def by (elim exE conjE) (rule that)
  then show ?thesis by (intro exI conjI) (rule f)
qed

end
