(* ===== verification/Spec2Isabelle.thy ===== *)
theory Spec2Isabelle
  imports Served_Sessions Stream_Server Benchmark_Llm Reports Revision_Demo
begin

section \<open>CognitiveTree-AI: a verification development\<close>

text \<open>
  CognitiveTree-AI is a reasoning engine: a tree search over candidate thoughts, in which a generator proposes
  continuations, a sandbox executes the code they carry, a critic explains failures, and what was learned is fed back into
  the next expansion. Around the search stand clients for language models, sessions that stream and archive a run,
  a replay of archives, a command line and an HTTP server. This development models the Python sources under
  \<open>src/cognitivetree/\<close> as HOL functions over explicit state and proves what makes the parts correct.

  \<^bold>\<open>How the code is read.\<close> Node objects and their parent and child links are a heap: a list of node records addressed by
  position in creation order, so aliasing is visible. A method that mutates is a function that returns the new state. A
  Python exception is a value (\<open>exn\<close>, with the class and the message); fallible pure code returns \<open>exn + 'a\<close>,
  and code that acts on a world is a program \<open>'s \<Rightarrow> 'a res \<times> 's\<close> whose result is \<open>Ok\<close>, \<open>Raise\<close> or \<open>Diverge\<close> (Prelude). A
  loop whose end is not evident is a \<open>partial_function\<close> and its termination is a theorem. A Python float is a real, an
  infinity or NaN with the IEEE order (Py\_Float): rounding is not modelled, the treatment of NaN and infinities is.
  Strings are lists of characters, integers are unbounded, dictionaries are association lists in insertion order
  (Py\_String, Py\_Values). Everything the program gets from outside (clock, random numbers, identifiers, child processes,
  sockets, file system, the JSON library, a model's answers) is an argument of the definitions, so the theorems hold for
  every behaviour of it; where one needs an assumption, the theorem names it.

  \<^bold>\<open>Search.\<close> Thought\_Node (\<open>node.py\<close>), Thought\_Tree and Best\_Path (\<open>tree.py\<close>), State\_Machine (\<open>state.py\<close>),
  Search\_Config (\<open>config.py\<close>) and Policies (\<open>policies.py\<close>) are the data; Search and Search\_Run are \<open>search.py\<close>, one
  definition per method or phase of the loop. Heap\_Trees ties the heap to an inductive tree. Search\_Select,
  Search\_Expand and Search\_Correct prove the invariants phase by phase with a small program logic (\<open>hoare\<close>, \<open>triple\<close>);
  Search\_Theorems states the results: a run always returns, its phase history is a path of the transition table,
  visit counts count descendants, limits hold, a reported solution was accepted. Policy\_Contracts states what the
  controller may expect of a policy as locales, which are interpreted on the evaluators, critics and the reward shaper.
  Parallel\_Evaluation shows that the evaluation pool gives the verdicts of the sequential order. Provenance follows
  every accepted node back to the verdict that accepted it: a solution found by execution has run to a clean end.

  \<^bold>\<open>Sandbox and feedback.\<close> Sandbox\_Spec, Sandbox\_Payload and Sandbox\_Execution (\<open>sandbox/\<close>): limits, the bounded
  reader, decoding and clipping, fence extraction, the framed delivery, both executors, the backend choice.
  Execution\_Evaluation: evaluator and trace critic. Feedback and Revision (\<open>feedback/\<close>): reward shaping, revision notes,
  the bounded revision policy, chained critics. Revision\_Cycle and Revision\_Demo follow the whole
  fail-critique-revise-succeed cycle through the controller (locale \<open>revision_cycle\<close>, interpreted on \<open>feedback/demo.py\<close>),
  down to the tree it leaves: the pruned wave with its critiques, and the notes made of them. Metadata\_Kept states what the policies
  may write into a node's metadata (locale \<open>metadata_contract\<close>, interpreted on the shipped policies at the desk of a stream).

  \<^bold>\<open>Models.\<close> Llm\_Client, Llm\_Wrappers, Llm\_Parsing, Llm\_Policies (\<open>llm/\<close>, \<open>observability/\<close>): requests, the LRU store
  (refined to a memo that never forgets; interface \<open>bounded_memo\<close>), caching, accounting, budgets, parsing of
  completions, generator and critic. Http\_Client: the OpenAI-compatible client and its retry loop, unrolled over the
  number of attempts left.

  \<^bold>\<open>Records of a run.\<close> Tree\_Documents and Tree\_Roundtrip: serialization of nodes and trees. Archive and
  Archive\_Theorems (\<open>persistence/archive.py\<close>): documents, their reader, the round trip. Metrics
  (\<open>observability/metrics.py\<close>): the projection of a result. Replay (\<open>ui/events.py\<close>, \<open>persistence/replay.py\<close>).

  \<^bold>\<open>Sessions and serving.\<close> Search\_Events: what any subscriber of a controller sees (locale \<open>subscriber\<close>). Session and
  Session\_Stream (\<open>session.py\<close>): a run streamed through a queue, settled and archived. Session\_Assembly and Scenarios:
  the factories that wire sessions and the deterministic scenarios. Session\_Guarantees: what every wired controller
  satisfies. Command\_Line (\<open>ui/serve.py\<close>), Served\_Sessions: from accepted arguments to the stream, the composition of all
  parts. Stream\_Server (\<open>ui/server.py\<close>): the handlers of concurrent connections as interleaved events with the
  semaphore that caps them. A replay is compared with the live stream through \<open>view_of\<close>, which keeps all that both can show.

  \<^bold>\<open>Benchmarks.\<close> Puzzle (\<open>demo.py\<close> and the evaluator of \<open>benchmark/suite.py\<close>): the hidden-sequence domain, with the locale
  \<open>text_evaluator\<close> for evaluators that read the text only. Benchmark (\<open>benchmark/suite.py\<close>, \<open>benchmark/runner.py\<close>): tasks, the
  runner, the reports and their renderings (Py\_Format). Benchmark\_Theorems: a report stands for real runs, its aggregates
  add up, the bundled suite always reports. Benchmark\_Llm (\<open>benchmark/llm_tasks.py\<close>, \<open>benchmark/run.py\<close>): the coding problems,
  tasks over the model stack, and the control flow of the benchmark command.

  \<^bold>\<open>Views.\<close> Reports: the diagram of a tree, shown equal to its recursive drawing, the metrics report, the JSON log line
  (\<open>observability/logs.py\<close>) and the LangGraph node (\<open>integrations/\<close>).

  \<^bold>\<open>Bounds and fuel.\<close> The select loop and the walks over a heap are partial functions, proved total on well-formed trees.
  The iteration loop of a run needs no fuel: the iteration budget bounds it. The retry loop is structural in the attempts;
  its theorem stops at 1024 retries, where the doubling factor leaves the range of a float.

  \<^bold>\<open>Not modelled.\<close> Rounding of floats; locks, because every operation of a lock's object is one step; the streaming page
  (\<open>ui/page.py\<close>, HTML and JavaScript served as an opaque body); \<open>argparse\<close> and what the \<open>main\<close>
  functions print; the logging library and the graph library, which receive a formatter and a node function.
\<close>

end
